(* ===== verification/Prelude3D.thy ===== *)
theory Prelude3D
  imports "HOL-Library.Word" "HOL-Library.AList" "HOL-Library.Multiset"
begin

text \<open>
  Shared vocabulary of the development: the machine integer types of the Go code, run-time
  panics as values, Go maps as association lists together with the iteration order that the
  Go run time is free to choose, the big-endian codec of \<^verbatim>\<open>encoding/binary\<close>, the bit counting
  functions of \<^verbatim>\<open>math/bits\<close>, and the generic lemmas on words and lists that the components share.
\<close>

unbundle bit_operations_syntax

section \<open>Machine integers\<close>

type_synonym u8 = "8 word"
type_synonym u16 = "16 word"
type_synonym u32 = "32 word"
type_synonym u64 = "64 word"
type_synonym bytes = "u8 list"

named_theorems inv_defs "definitions of the well-formedness invariants"
named_theorems acct_simps "accounting equations on machine words"

section \<open>Panics\<close>

text \<open>
  A Go run-time panic is a value of the left summand.  Go's ordinary error values are a
  separate type, because a function that returns an error returns normally.
\<close>

datatype panic = IndexOutOfRange | NegativeShift | DivideByZero | NilDereference | ClosedChannel

type_synonym 'a go = "panic + 'a"

definition go_bind :: "'a go \<Rightarrow> ('a \<Rightarrow> 'b go) \<Rightarrow> 'b go" where
  "go_bind r f = (case r of Inl p \<Rightarrow> Inl p | Inr x \<Rightarrow> f x)"

lemma go_bind_simps [simp]:
  "go_bind (Inl p) f = Inl p"
  "go_bind (Inr x) f = f x"
  by (simp_all add: go_bind_def)

lemma go_bind_eq_Inr_iff:
  "go_bind r f = Inr y \<longleftrightarrow> (\<exists>x. r = Inr x \<and> f x = Inr y)"
  by (cases r) simp_all

section \<open>Go maps and their iteration order\<close>

text \<open>
  A Go map is an association list with distinct keys: \<^const>\<open>map_of\<close> looks a key up,
  \<^const>\<open>AList.update\<close> stores and \<^const>\<open>AList.delete\<close> removes.  The order in which
  \<^verbatim>\<open>for k, v := range m\<close> visits the entries is unspecified in Go, so every operation that
  ranges over a map takes the order as an argument: a function that gives, for a map of \<open>n\<close>
  entries, the list of positions in the order they are visited.
\<close>

type_synonym ('k, 'v) gomap = "('k \<times> 'v) list"
type_synonym order = "nat \<Rightarrow> nat list"

definition valid_order :: "order \<Rightarrow> bool" where
  "valid_order ord \<longleftrightarrow> (\<forall>n. mset (ord n) = mset [0..<n])"

definition range_over :: "order \<Rightarrow> ('k, 'v) gomap \<Rightarrow> ('k \<times> 'v) list" where
  "range_over ord m = map (nth m) (ord (length m))"

lemma valid_order_upt [simp, intro]: "valid_order (\<lambda>n. [0..<n])"
  by (simp add: valid_order_def)

lemma valid_order_rev [simp, intro]: "valid_order (\<lambda>n. rev [0..<n])"
  by (simp add: valid_order_def)

lemma mset_range_over [simp]:
  assumes "valid_order ord"
  shows "mset (range_over ord m) = mset m"
proof -
  have "mset (range_over ord m) = image_mset (nth m) (mset (ord (length m)))"
    by (simp add: range_over_def)
  also have "\<dots> = mset (map (nth m) [0..<length m])"
    using assms by (simp add: valid_order_def)
  finally show ?thesis by (simp add: map_nth)
qed

lemma set_range_over [simp]: "valid_order ord \<Longrightarrow> set (range_over ord m) = set m"
  by (metis mset_range_over set_mset_mset)

lemma length_range_over [simp]: "valid_order ord \<Longrightarrow> length (range_over ord m) = length m"
  by (metis mset_range_over size_mset)

lemma range_over_upt [simp]: "range_over (\<lambda>n. [0..<n]) m = m"
  by (simp add: range_over_def map_nth)

section \<open>Big-endian encoding\<close>

text \<open>
  \<^verbatim>\<open>binary.BigEndian.PutUint16\<close>, \<^verbatim>\<open>PutUint32\<close> and \<^verbatim>\<open>PutUint64\<close> write the most significant
  byte first; \<^verbatim>\<open>Uint16\<close>, \<^verbatim>\<open>Uint32\<close> and \<^verbatim>\<open>Uint64\<close> read it back.
\<close>

definition put_be :: "nat \<Rightarrow> 'a::len word \<Rightarrow> bytes" where
  "put_be n w = map (\<lambda>i. ucast (drop_bit (8 * i) w)) (rev [0..<n])"

definition get_be :: "bytes \<Rightarrow> 'a::len word" where
  "get_be bs = foldl (\<lambda>acc b. push_bit 8 acc OR ucast b) 0 bs"

lemma length_put_be [simp]: "length (put_be n w) = n"
  by (simp add: put_be_def)

lemma nth_put_be: "i < n \<Longrightarrow> put_be n w ! i = ucast (drop_bit (8 * (n - Suc i)) w)"
  by (simp add: put_be_def rev_nth)

lemma get_be_snoc: "get_be (bs @ [b]) = push_bit 8 (get_be bs) OR ucast b"
  by (simp add: get_be_def)

lemma bit_get_be:
  "bit (get_be bs :: 'a::len word) i \<longleftrightarrow>
     i < LENGTH('a) \<and> i < 8 * length bs \<and> bit (bs ! (length bs - Suc (i div 8))) (i mod 8)"
proof (induction bs arbitrary: i rule: rev_induct)
  case Nil
  then show ?case by (simp add: get_be_def)
next
  case (snoc b bs)
  show ?case
  proof (cases "i < 8")
    case True
    then show ?thesis
      by (auto simp: get_be_snoc bit_simps nth_append)
  next
    case False
    then have d: "i div 8 = Suc ((i - 8) div 8)" "i mod 8 = (i - 8) mod 8"
      by (simp_all add: le_div_geq le_mod_geq)
    have b: "\<not> bit b i"
      using False bit_imp_le_length [of b i] by auto
    have "bit (get_be (bs @ [b]) :: 'a word) i \<longleftrightarrow>
        i < LENGTH('a) \<and> bit (get_be bs :: 'a word) (i - 8)"
      using False b by (auto simp: get_be_snoc bit_simps)
    also have "\<dots> \<longleftrightarrow> i < LENGTH('a) \<and> i < 8 + 8 * length bs \<and>
        bit (bs ! (length bs - Suc ((i - 8) div 8))) ((i - 8) mod 8)"
      using False by (auto simp: snoc.IH)
    finally show ?thesis
      using False d by (auto simp: nth_append)
  qed
qed

lemma get_be_put_be:
  assumes "LENGTH('a) \<le> 8 * n"
  shows "get_be (put_be n (w :: 'a::len word)) = w"
proof (rule bit_word_eqI)
  fix i assume i: "i < LENGTH('a)"
  then have n: "n - Suc (i div 8) < n" and e: "n - Suc (n - Suc (i div 8)) = i div 8"
    using assms by auto
  have "8 * (i div 8) + i mod 8 = i" and "i mod 8 < 8" by simp_all
  then have "bit (ucast (drop_bit (8 * (i div 8)) w) :: u8) (i mod 8) = bit w i"
    by (simp only: bit_simps) simp
  then show "bit (get_be (put_be n w) :: 'a word) i = bit w i"
    using i assms n e by (simp add: bit_get_be nth_put_be)
qed

lemma put_be_get_be:
  assumes "length bs = n" and "8 * n \<le> LENGTH('a)"
  shows "put_be n (get_be bs :: 'a::len word) = bs"
proof (rule nth_equalityI)
  fix i assume "i < length (put_be n (get_be bs :: 'a word))"
  then have i: "i < n" by simp
  show "put_be n (get_be bs :: 'a word) ! i = bs ! i"
  proof (rule bit_word_eqI)
    fix k assume "k < LENGTH(8)"
    then have k: "k < 8" by simp
    have "8 * (n - Suc i) + k < 8 * n" using i k by linarith
    moreover have "(8 * (n - Suc i) + k) div 8 = n - Suc i" "(8 * (n - Suc i) + k) mod 8 = k"
      using k by simp_all
    ultimately show "bit (put_be n (get_be bs :: 'a word) ! i) k = bit (bs ! i) k"
      using assms i k by (simp add: nth_put_be bit_simps bit_get_be Suc_diff_Suc)
  qed
qed (use assms in simp)

section \<open>Bit counting\<close>

text \<open>\<^verbatim>\<open>bits.OnesCount64\<close> and \<^verbatim>\<open>bits.TrailingZeros64\<close>.\<close>

definition OnesCount64 :: "u64 \<Rightarrow> nat" where
  "OnesCount64 w = length (filter (bit w) [0..<64])"

definition TrailingZeros64 :: "u64 \<Rightarrow> nat" where
  "TrailingZeros64 w = length (takeWhile (\<lambda>i. \<not> bit w i) [0..<64])"

lemma OnesCount64_card: "OnesCount64 w = card {i. i < 64 \<and> bit w i}"
proof -
  have "OnesCount64 w = card (set (filter (bit w) [0..<64]))"
    unfolding OnesCount64_def by (rule distinct_card [symmetric]) simp
  also have "set (filter (bit w) [0..<64]) = {i. i < 64 \<and> bit w i}" by auto
  finally show ?thesis .
qed

lemma takeWhile_upt_first:
  assumes "a \<le> k" and "k < n" and "\<not> P k" and "\<And>i. a \<le> i \<Longrightarrow> i < k \<Longrightarrow> P i"
  shows "takeWhile P [a..<n] = [a..<k]"
proof -
  have "[a..<n] = [a..<k] @ k # [Suc k..<n]"
    using assms(1,2) upt_add_eq_append [of a k "n - k"] by (simp add: upt_conv_Cons)
  then show ?thesis using assms by (simp add: takeWhile_tail takeWhile_append)
qed

lemma TrailingZeros64_least:
  assumes "w \<noteq> 0"
  shows "TrailingZeros64 w < 64" and "bit w (TrailingZeros64 w)"
    and "\<And>i. i < TrailingZeros64 w \<Longrightarrow> \<not> bit w i"
proof -
  from assms obtain i where i: "bit w i"
    by (metis bit_0_eq bit_eq_iff bot_apply bot_bool_def)
  define k where "k = (LEAST i. bit w i)"
  have k: "bit w k" "\<And>j. j < k \<Longrightarrow> \<not> bit w j"
    using i unfolding k_def by (auto intro: LeastI dest: not_less_Least)
  have "k < 64" using bit_imp_le_length [OF k(1)] by simp
  then have "takeWhile (\<lambda>i. \<not> bit w i) [0..<64] = [0..<k]"
    using k by (intro takeWhile_upt_first) auto
  then have "TrailingZeros64 w = k" by (simp add: TrailingZeros64_def)
  with k \<open>k < 64\<close> show "TrailingZeros64 w < 64" "bit w (TrailingZeros64 w)"
    "\<And>i. i < TrailingZeros64 w \<Longrightarrow> \<not> bit w i"
    by simp_all
qed

section \<open>Lemmas on words and lists\<close>

lemmas word_nat_alt = word_less_nat_alt word_le_nat_alt

lemma unat_u16_bound [simp]: "unat (x :: u16) < 65536"
  using unsigned_less [of x] by simp

lemma unat_u16_bound' [simp]: "unat (x :: u16) \<le> 65535"
  using unat_u16_bound [of x] by linarith

lemma u64_eqI: "unat a = unat b \<Longrightarrow> a = (b :: u64)"
  by (rule unsigned_word_eqI)

lemma prefix_extend: "{..<k} \<union> {k..<k + n} = {..<k + (n :: nat)}"
  by auto

lemma u16_eqI: "unat a = unat b \<Longrightarrow> a = (b :: u16)"
  by (rule unsigned_word_eqI)

lemma unat_of_nat_u16: "n < 65536 \<Longrightarrow> unat (of_nat n :: u16) = n"
  by (simp add: unsigned_of_nat take_bit_nat_eq_self_iff)

lemma u16_step: "i < (e :: u16) \<Longrightarrow> unat (i + 1) = Suc (unat i)"
proof -
  assume "i < e"
  then have "Suc (unat i) < 65536"
    using unat_u16_bound' [of e] by (simp only: word_less_nat_alt)
  then show ?thesis by (simp add: unat_word_ariths)
qed

lemma unat_ucast_up:
  assumes "LENGTH('a::len) \<le> LENGTH('b::len)"
  shows "unat (ucast (w :: 'a word) :: 'b word) = unat w"
proof -
  have "unat w < 2 ^ LENGTH('a)" by (rule unsigned_less)
  also have "(2 :: nat) ^ LENGTH('a) \<le> 2 ^ LENGTH('b)" using assms by simp
  finally show ?thesis by (simp add: unsigned_ucast_eq take_bit_nat_eq_self_iff)
qed

lemma unat_ucast_widen [simp]:
  "unat (ucast (a :: u16) :: u32) = unat a"
  "unat (ucast (a :: u16) :: u64) = unat a"
  "unat (ucast (c :: u32) :: u64) = unat c"
  by (simp_all add: unat_ucast_up)

lemma ucast_u16_u32_id [simp]: "(ucast (ucast (a :: u16) :: u32) :: u16) = a"
  by (rule bit_word_eqI) (simp add: bit_simps)

lemma find_Some_mem: "find P xs = Some x \<Longrightarrow> x \<in> set xs \<and> P x"
  by (auto simp: find_Some_iff)

lemma unat_ucast_narrow:
  "unat (c :: u32) < 65536 \<Longrightarrow> unat (ucast c :: u16) = unat c"
  by (simp add: unsigned_ucast_eq take_bit_nat_eq_self_iff)

lemma sum_list_update_nat:
  fixes f :: "'a \<Rightarrow> nat"
  assumes "i < length xs"
  shows "sum_list (map f (xs[i := y])) + f (xs ! i) = sum_list (map f xs) + f y"
  using assms
proof (induction xs arbitrary: i)
  case Nil
  then show ?case by simp
next
  case (Cons x xs)
  then show ?case by (cases i) auto
qed

lemma map_of_range_over:
  assumes "valid_order ord" and "distinct (map fst m)"
  shows "map_of (range_over ord m) = map_of m"
proof -
  have "mset (map fst (range_over ord m)) = mset (map fst m)"
    using assms(1) by (simp only: mset_map mset_range_over)
  then have "distinct (map fst (range_over ord m))"
    using assms(2) mset_eq_imp_distinct_iff by blast
  then show ?thesis
    using assms by (intro map_of_inject_set [THEN iffD2]) auto
qed

lemma AList_update_fresh: "map_of al k = None \<Longrightarrow> AList.update k v al = al @ [(k, v)]"
  by (induction al) (auto split: if_splits)

lemma count_list_pos: "0 < count_list xs x \<longleftrightarrow> x \<in> set xs"
  by (induction xs) auto

end
