(* ===== verification/Address.thy ===== *)
theory Address
  imports Prelude3D
begin

text \<open>
  \<^verbatim>\<open>internal/types/constants.go\<close> and \<^verbatim>\<open>internal/types/address.go\<close>: the limits of the three
  dimensions and the address type with its codec, its order and its distance.  The error values
  of the whole program are collected here, because several of them carry an address.
\<close>

section \<open>Constants\<close>

definition MaxXRegions :: nat where "MaxXRegions = 256"
definition MaxYPlanes :: nat where "MaxYPlanes = 65535"
definition MaxZOffset :: nat where "MaxZOffset = 65534"
definition PlaneSize :: u16 where "PlaneSize = 65535"
definition GasBaseAllocation :: nat where "GasBaseAllocation = 3"
definition GasPerByte :: nat where "GasPerByte = 1"
definition GasYPromotion :: nat where "GasYPromotion = 10"
definition GasRegionChange :: nat where "GasRegionChange = 100"

section \<open>Addresses and errors\<close>

record Address3D =
  addr_X :: u64
  addr_Y :: u32
  addr_Z :: u16

definition NewAddress :: "u64 \<Rightarrow> u32 \<Rightarrow> u16 \<Rightarrow> Address3D" where
  "NewAddress x y z = \<lparr>addr_X = x, addr_Y = y, addr_Z = z\<rparr>"

text \<open>
  One constructor per \<^verbatim>\<open>fmt.Errorf\<close> message of the program; \<open>Wrapped\<close> is the \<^verbatim>\<open>%w\<close> wrapping
  of an inner error under a prefix.
\<close>

datatype error =
    InvalidAddressLength nat
  | InvalidRegisterAddress
  | NoMoreInstructions
  | IncompleteInstruction
  | EmptyInstruction
  | UnknownOpcode u8
  | UnsupportedOpcode u8
  | RequiresBytes string nat
  | RequiresOperands string nat
  | InvalidOperand string
  | RegisterDataTooSmall
  | AllocationNotFound
  | UnknownQueryType u8
  | InsufficientGas
  | GasExhausted
  | InstructionLimitExceeded
  | AllocationFailed u32
  | NewPlaneAllocationFailed
  | InsufficientMemory u32
  | RegionNotFound u64
  | PlaneNotFound u32
  | FreeFailed Address3D
  | AllocateInRegionFailed
  | AddressNotAllocated Address3D
  | OutOfBounds string
  | NoAllocationAt Address3D
  | DestinationOccupied Address3D
  | MerkleNotEnabled
  | Wrapped string error
  | FetchError u64 error
  | ExecutionError u64 error

definition IsValid :: "Address3D \<Rightarrow> bool" where
  "IsValid a \<longleftrightarrow> unat (addr_X a) < MaxXRegions \<and> unat (addr_Y a) < MaxYPlanes
     \<and> unat (addr_Z a) < MaxZOffset"

text \<open>\<^verbatim>\<open>Bytes\<close> fills a 14-byte buffer; \<^verbatim>\<open>FromBytes\<close> rejects every other length.\<close>

definition Bytes :: "Address3D \<Rightarrow> bytes" where
  "Bytes a = put_be 8 (addr_X a) @ put_be 4 (addr_Y a) @ put_be 2 (addr_Z a)"

definition FromBytes :: "bytes \<Rightarrow> error + Address3D" where
  "FromBytes data =
     (if length data \<noteq> 14 then Inl (InvalidAddressLength (length data))
      else Inr \<lparr>addr_X = get_be (take 8 data),
                addr_Y = get_be (take 4 (drop 8 data)),
                addr_Z = get_be (take 2 (drop 12 data))\<rparr>)"

definition AddZ :: "Address3D \<Rightarrow> u16 \<Rightarrow> Address3D" where
  "AddZ a offset = \<lparr>addr_X = addr_X a, addr_Y = addr_Y a, addr_Z = addr_Z a + offset\<rparr>"

definition NextY :: "Address3D \<Rightarrow> Address3D" where
  "NextY a = \<lparr>addr_X = addr_X a, addr_Y = addr_Y a + 1, addr_Z = 0\<rparr>"

definition Compare :: "Address3D \<Rightarrow> Address3D \<Rightarrow> int" where
  "Compare a b =
     (if addr_X a \<noteq> addr_X b then (if addr_X a < addr_X b then -1 else 1)
      else if addr_Y a \<noteq> addr_Y b then (if addr_Y a < addr_Y b then -1 else 1)
      else if addr_Z a \<noteq> addr_Z b then (if addr_Z a < addr_Z b then -1 else 1)
      else 0)"

definition absDiff64 :: "u64 \<Rightarrow> u64 \<Rightarrow> u64" where
  "absDiff64 a b = (if a > b then a - b else b - a)"

definition absDiff32 :: "u32 \<Rightarrow> u32 \<Rightarrow> u32" where
  "absDiff32 a b = (if a > b then a - b else b - a)"

definition absDiff16 :: "u16 \<Rightarrow> u16 \<Rightarrow> u16" where
  "absDiff16 a b = (if a > b then a - b else b - a)"

definition ManhattanDistance :: "Address3D \<Rightarrow> Address3D \<Rightarrow> u64" where
  "ManhattanDistance a b =
     (let dx = absDiff64 (addr_X a) (addr_X b);
          dy = absDiff32 (addr_Y a) (addr_Y b);
          dz = absDiff16 (addr_Z a) (addr_Z b)
      in dx * 100 + ucast dy * 10 + ucast dz)"

section \<open>Addresses as a linear order\<close>

text \<open>
  The lexicographic order on the three coordinates makes addresses a linear order of the
  library; \<^verbatim>\<open>Compare\<close> is shown to decide it.
\<close>

instantiation Address3D_ext :: (linorder) linorder
begin

definition less_eq_Address3D_ext :: "'a Address3D_scheme \<Rightarrow> 'a Address3D_scheme \<Rightarrow> bool" where
  "less_eq_Address3D_ext a b \<longleftrightarrow>
     addr_X a < addr_X b \<or> addr_X a = addr_X b \<and>
     (addr_Y a < addr_Y b \<or> addr_Y a = addr_Y b \<and>
      (addr_Z a < addr_Z b \<or> addr_Z a = addr_Z b \<and>
       Address3D.more a \<le> Address3D.more b))"

definition less_Address3D_ext :: "'a Address3D_scheme \<Rightarrow> 'a Address3D_scheme \<Rightarrow> bool" where
  "less_Address3D_ext a b \<longleftrightarrow> a \<le> b \<and> \<not> b \<le> (a :: 'a Address3D_scheme)"

instance
proof
  fix a b c :: "'a Address3D_scheme"
  show "a < b \<longleftrightarrow> a \<le> b \<and> \<not> b \<le> a" by (rule less_Address3D_ext_def)
  show "a \<le> a" by (simp add: less_eq_Address3D_ext_def)
  show "a \<le> b \<or> b \<le> a" by (auto simp: less_eq_Address3D_ext_def)
  show "a \<le> c" if "a \<le> b" "b \<le> c"
    using that by (auto simp: less_eq_Address3D_ext_def)
  show "a = b" if "a \<le> b" "b \<le> a"
    using that by (auto simp: less_eq_Address3D_ext_def intro: Address3D.equality)
qed

end

lemma Address3D_less_iff:
  fixes a b :: Address3D
  shows "a < b \<longleftrightarrow> addr_X a < addr_X b \<or> addr_X a = addr_X b \<and>
     (addr_Y a < addr_Y b \<or> addr_Y a = addr_Y b \<and> addr_Z a < addr_Z b)"
  by (auto simp: less_Address3D_ext_def less_eq_Address3D_ext_def)

section \<open>Codecs\<close>

text \<open>
  A codec of fixed width: what the registers rely on when they keep an address or a number as
  a byte slice.
\<close>

locale codec =
  fixes encode :: "'a \<Rightarrow> bytes" and decode :: "bytes \<Rightarrow> error + 'a" and width :: nat
  assumes encode_width: "length (encode a) = width"
    and decode_encode: "decode (encode a) = Inr a"
    and encode_decode: "decode bs = Inr a \<Longrightarrow> encode a = bs"
    and decode_total: "length bs = width \<Longrightarrow> \<exists>a. decode bs = Inr a"
begin

lemma encode_inj: "encode a = encode b \<longleftrightarrow> a = b"
  using decode_encode by (metis sum.inject(2))

lemma decode_iff: "(\<exists>a. decode bs = Inr a) \<longleftrightarrow> length bs = width"
  using encode_decode encode_width decode_total by metis

lemma encode_onto: "length bs = width \<Longrightarrow> \<exists>a. encode a = bs"
  using decode_total encode_decode by blast

end

lemma Bytes_length: "length (Bytes a) = 14"
  by (simp add: Bytes_def)

lemma FromBytes_Bytes: "FromBytes (Bytes a) = Inr a"
  by (simp add: FromBytes_def Bytes_def get_be_put_be)

lemma Bytes_FromBytes:
  assumes "FromBytes bs = Inr a"
  shows "Bytes a = bs"
proof -
  from assms have l: "length bs = 14"
    and a: "a = \<lparr>addr_X = get_be (take 8 bs), addr_Y = get_be (take 4 (drop 8 bs)),
                addr_Z = get_be (take 2 (drop 12 bs))\<rparr>"
    by (auto simp: FromBytes_def split: if_splits)
  have "take 8 bs @ take 4 (drop 8 bs) @ drop 4 (drop 8 bs) = bs"
    by (simp only: append_take_drop_id)
  then have "take 8 bs @ take 4 (drop 8 bs) @ take 2 (drop 12 bs) = bs"
    using l by simp
  then show ?thesis using l by (simp add: a Bytes_def put_be_get_be)
qed

interpretation addr_codec: codec Bytes FromBytes 14
  by unfold_locales
    (auto simp: Bytes_length FromBytes_Bytes Bytes_FromBytes, simp add: FromBytes_def)

section \<open>Order and distance\<close>

text \<open>The distance of two numbers.\<close>

definition gap :: "nat \<Rightarrow> nat \<Rightarrow> nat" where
  "gap m n = (m - n) + (n - m)"

lemma gap_commute: "gap m n = gap n m"
  by (simp add: gap_def)

lemma gap_triangle: "gap l n \<le> gap l m + gap m n"
  by (simp add: gap_def)

lemma gap_eq_0 [simp]: "gap m n = 0 \<longleftrightarrow> m = n"
  by (auto simp: gap_def)

lemma gap_bound: "m \<le> k \<Longrightarrow> n \<le> k \<Longrightarrow> gap m n \<le> k"
  by (auto simp: gap_def)

lemma unat_absDiff64: "unat (absDiff64 a b) = gap (unat a) (unat b)"
  by (auto simp: absDiff64_def gap_def unat_sub word_less_nat_alt word_le_nat_alt)

lemma unat_absDiff32: "unat (absDiff32 a b) = gap (unat a) (unat b)"
  by (auto simp: absDiff32_def gap_def unat_sub word_less_nat_alt word_le_nat_alt)

lemma unat_absDiff16: "unat (absDiff16 a b) = gap (unat a) (unat b)"
  by (auto simp: absDiff16_def gap_def unat_sub word_less_nat_alt word_le_nat_alt)

text \<open>The distance that the weights 100, 10 and 1 mean, without wrap-around.\<close>

definition distance :: "Address3D \<Rightarrow> Address3D \<Rightarrow> nat" where
  "distance a b = 100 * gap (unat (addr_X a)) (unat (addr_X b))
     + 10 * gap (unat (addr_Y a)) (unat (addr_Y b)) + gap (unat (addr_Z a)) (unat (addr_Z b))"

lemma unat_ManhattanDistance_mod: "unat (ManhattanDistance a b) = distance a b mod 2 ^ 64"
  by (simp add: ManhattanDistance_def Let_def unat_word_ariths mod_simps
      unat_absDiff64 unat_absDiff32 unat_absDiff16 distance_def mult.commute)

lemma distance_triangle: "distance a c \<le> distance a b + distance b c"
proof -
  note t = gap_triangle
  have "100 * gap (unat (addr_X a)) (unat (addr_X c)) \<le>
      100 * gap (unat (addr_X a)) (unat (addr_X b)) + 100 * gap (unat (addr_X b)) (unat (addr_X c))"
    using t [of "unat (addr_X a)" "unat (addr_X c)" "unat (addr_X b)"] by linarith
  moreover have "10 * gap (unat (addr_Y a)) (unat (addr_Y c)) \<le>
      10 * gap (unat (addr_Y a)) (unat (addr_Y b)) + 10 * gap (unat (addr_Y b)) (unat (addr_Y c))"
    using t [of "unat (addr_Y a)" "unat (addr_Y c)" "unat (addr_Y b)"] by linarith
  ultimately show ?thesis
    using t [of "unat (addr_Z a)" "unat (addr_Z c)" "unat (addr_Z b)"]
    unfolding distance_def by linarith
qed

lemma distance_commute: "distance a b = distance b a"
  by (simp add: distance_def gap_commute)

lemma distance_eq_0: "distance a b = 0 \<longleftrightarrow> a = (b :: Address3D)"
  by (auto simp: distance_def unsigned_word_eqI intro!: Address3D.equality)

lemma distance_valid_bound:
  assumes "IsValid a" and "IsValid b"
  shows "distance a b \<le> 746373"
proof -
  have "gap (unat (addr_X a)) (unat (addr_X b)) \<le> 255"
    "gap (unat (addr_Y a)) (unat (addr_Y b)) \<le> 65534"
    "gap (unat (addr_Z a)) (unat (addr_Z b)) \<le> 65533"
    using assms
    by (auto simp: IsValid_def MaxXRegions_def MaxYPlanes_def MaxZOffset_def intro!: gap_bound)
  then show ?thesis unfolding distance_def by linarith
qed

lemma ManhattanDistance_exact:
  assumes "IsValid a" and "IsValid b"
  shows "unat (ManhattanDistance a b) = distance a b"
  using distance_valid_bound [OF assms] by (simp add: unat_ManhattanDistance_mod)

section \<open>Properties\<close>

text \<open>
  C37.  The address codec is a bijection between addresses and 14-byte slices: decoding succeeds
  with \<open>a\<close> exactly on the encoding of \<open>a\<close>, and it fails exactly on the slices of another length,
  with the error that names the length.
\<close>

theorem address_codec:
  "(FromBytes bs = Inr a \<longleftrightarrow> bs = Bytes a) \<and>
   (FromBytes bs = Inl e \<longleftrightarrow> length bs \<noteq> 14 \<and> e = InvalidAddressLength (length bs))"
proof
  show "FromBytes bs = Inr a \<longleftrightarrow> bs = Bytes a"
    using addr_codec.decode_encode addr_codec.encode_decode by metis
  show "FromBytes bs = Inl e \<longleftrightarrow> length bs \<noteq> 14 \<and> e = InvalidAddressLength (length bs)"
    by (auto simp: FromBytes_def)
qed

text \<open>
  \<^verbatim>\<open>Compare\<close> decides the lexicographic order of the three coordinates: it returns -1, 0 or
  1 as the first address is below, equal to or above the second.
\<close>

theorem Compare_decides_order:
  "Compare a b = (if a < b then -1 else if a = b then 0 else 1)"
  by (cases "addr_X a = addr_X b"; cases "addr_Y a = addr_Y b"; cases "addr_Z a = addr_Z b")
    (auto simp: Compare_def Address3D_less_iff)

text \<open>
  On valid addresses \<^verbatim>\<open>ManhattanDistance\<close> does not wrap: it is the exact weighted distance,
  at most 746373, zero only between equal addresses, symmetric, and it satisfies the triangle
  inequality.
\<close>

theorem ManhattanDistance_metric:
  assumes "IsValid a" "IsValid b" "IsValid c"
  shows "unat (ManhattanDistance a b) = distance a b
    \<and> unat (ManhattanDistance a b) \<le> 746373
    \<and> (ManhattanDistance a b = 0 \<longleftrightarrow> a = b)
    \<and> ManhattanDistance a b = ManhattanDistance b a
    \<and> unat (ManhattanDistance a c) \<le> unat (ManhattanDistance a b) + unat (ManhattanDistance b c)"
proof -
  note e = ManhattanDistance_exact
  have "ManhattanDistance a b = 0 \<longleftrightarrow> unat (ManhattanDistance a b) = 0"
    by (simp add: unat_eq_0)
  then have "ManhattanDistance a b = 0 \<longleftrightarrow> a = b"
    using e [OF assms(1,2)] distance_eq_0 [of a b] by simp
  moreover have "ManhattanDistance a b = ManhattanDistance b a"
    by (rule u64_eqI) (simp add: e assms distance_commute)
  moreover have "unat (ManhattanDistance a b) \<le> 746373"
    using distance_valid_bound [OF assms(1,2)] by (simp only: e [OF assms(1,2)])
  moreover have "unat (ManhattanDistance a c) \<le> unat (ManhattanDistance a b) + unat (ManhattanDistance b c)"
    using distance_triangle [of a c b]
    by (simp only: e [OF assms(1,2)] e [OF assms(1,3)] e [OF assms(2,3)])
  ultimately show ?thesis using e [OF assms(1,2)] by blast
qed

theorem ManhattanDistance_metric_witness:
  "IsValid (NewAddress 1 2 3) \<and> unat (ManhattanDistance (NewAddress 1 2 3) (NewAddress 4 0 9)) = 326"
proof -
  have v: "IsValid (NewAddress 1 2 3)" "IsValid (NewAddress 4 0 9)"
    by (simp_all add: IsValid_def NewAddress_def MaxXRegions_def MaxYPlanes_def MaxZOffset_def)
  have "distance (NewAddress 1 2 3) (NewAddress 4 0 9) = 326"
    by (simp add: distance_def gap_def NewAddress_def)
  then show ?thesis using ManhattanDistance_metric [OF v v(1), THEN conjunct1] v by simp
qed

end
