(* ===== verification/AddressText.thy ===== *)
theory AddressText
  imports Address "HOL-Library.Monad_Syntax"
begin

text \<open>
  The textual form of an address, \<^verbatim>\<open>String\<close> and \<^verbatim>\<open>ParseAddress\<close> of \<^verbatim>\<open>internal/types/address.go\<close>, with what
  they use of \<^verbatim>\<open>fmt\<close> and \<^verbatim>\<open>strings\<close>.  Texts are ASCII.  A scan that fails, for whatever reason, is
  \<open>None\<close>: the program only passes the error on.
\<close>

section \<open>Formatting\<close>

fun format_d :: "nat \<Rightarrow> string" where
  "format_d n = (if n < 10 then [char_of (48 + n)] else format_d (n div 10) @ [char_of (48 + n mod 10)])"

declare format_d.simps [simp del]

text \<open>The text for three numbers, which are wider than the coordinates where a caller writes it by hand.\<close>

definition address_text :: "nat \<Rightarrow> nat \<Rightarrow> nat \<Rightarrow> string" where
  "address_text x y z = ''[X:'' @ format_d x @ '',Y:'' @ format_d y @ '',Z:'' @ format_d z @ '']''"

definition Address_String :: "Address3D \<Rightarrow> string" where
  "Address_String a = address_text (unat (addr_X a)) (unat (addr_Y a)) (unat (addr_Z a))"

section \<open>Scanning\<close>

definition is_digit :: "char \<Rightarrow> bool" where
  "is_digit c \<longleftrightarrow> 48 \<le> (of_char c :: nat) \<and> (of_char c :: nat) \<le> 57"

definition is_space :: "char \<Rightarrow> bool" where
  "is_space c \<longleftrightarrow> (of_char c :: nat) \<in> {9, 11, 12, 13, 32}"

definition newline :: char where
  "newline = char_of (10 :: nat)"

definition strings_Trim :: "string \<Rightarrow> string \<Rightarrow> string" where
  "strings_Trim s cutset =
     rev (dropWhile (\<lambda>c. c \<in> set cutset) (rev (dropWhile (\<lambda>c. c \<in> set cutset) s)))"

text \<open>A line feed is not a space for \<^verbatim>\<open>Sscanf\<close>: it ends the scan with an error.\<close>

fun SkipSpace :: "string \<Rightarrow> string option" where
  "SkipSpace [] = Some []"
| "SkipSpace (c # cs) = (if c = newline then None else if is_space c then SkipSpace cs else Some (c # cs))"

fun scan_literal :: "string \<Rightarrow> string \<Rightarrow> string option" where
  "scan_literal [] s = Some s"
| "scan_literal (f # fs) [] = None"
| "scan_literal (f # fs) (c # cs) = (if f = c then scan_literal fs cs else None)"

definition digits_value :: "string \<Rightarrow> nat" where
  "digits_value ds = foldl (\<lambda>v c. 10 * v + (of_char c - 48)) 0 ds"

text \<open>The verb \<^verbatim>\<open>%d\<close> for a \<^verbatim>\<open>uint64\<close>: no sign, at least one digit, and the value must be in range.\<close>

definition scan_d :: "string \<Rightarrow> (u64 \<times> string) option" where
  "scan_d s = do {
     s1 \<leftarrow> SkipSpace s;
     let tok = takeWhile is_digit s1;
     if tok = [] \<or> digits_value tok \<ge> 2 ^ 64 then None
     else Some (of_nat (digits_value tok), dropWhile is_digit s1)
   }"

definition ParseAddress :: "string \<Rightarrow> Address3D option" where
  "ParseAddress s = do {
     s1 \<leftarrow> scan_literal ''X:'' (strings_Trim s ''[]'');
     (x, s2) \<leftarrow> scan_d s1;
     s3 \<leftarrow> scan_literal '',Y:'' s2;
     (y, s4) \<leftarrow> scan_d s3;
     s5 \<leftarrow> scan_literal '',Z:'' s4;
     (z, s6) \<leftarrow> scan_d s5;
     Some \<lparr>addr_X = x, addr_Y = ucast y, addr_Z = ucast z\<rparr>
   }"

section \<open>Laws\<close>

lemma of_char_char_of [simp]: "n < 256 \<Longrightarrow> (of_char (char_of n) :: nat) = n"
  by simp

lemma format_d_digits: "format_d n \<noteq> [] \<and> (\<forall>c \<in> set (format_d n). is_digit c)"
proof (induction n rule: format_d.induct)
  case (1 n)
  have "n mod 10 < 10" by simp
  then show ?case using 1 by (subst (1 2) format_d.simps) (auto simp: is_digit_def)
qed

lemma digits_value_format [simp]: "digits_value (format_d n) = n"
proof (induction n rule: format_d.induct)
  case (1 n)
  have "n mod 10 < 10" by simp
  moreover have "10 * (n div 10) + n mod 10 = n" by simp
  ultimately show ?case using 1 by (subst format_d.simps) (auto simp: digits_value_def)
qed

text \<open>What follows a number in the text is not a digit.\<close>

lemma scan_d_format:
  assumes "s = [] \<or> \<not> is_digit (hd s)"
  shows "scan_d (format_d n @ s) = (if n < 2 ^ 64 then Some (of_nat n, s) else None)"
proof -
  obtain c cs where f: "format_d n = c # cs" using format_d_digits [of n] by (cases "format_d n") auto
  then have "is_digit c" using format_d_digits [of n] by auto
  then have "c \<noteq> newline" "\<not> is_space c" by (auto simp: is_digit_def is_space_def newline_def)
  then have "SkipSpace (format_d n @ s) = Some (format_d n @ s)" by (simp add: f)
  moreover have "takeWhile is_digit s = []" "dropWhile is_digit s = s" using assms by (cases s; auto)+
  then have "takeWhile is_digit (format_d n @ s) = format_d n" "dropWhile is_digit (format_d n @ s) = s"
    using format_d_digits [of n] by (simp_all add: takeWhile_append dropWhile_append)
  ultimately show ?thesis using format_d_digits [of n] by (simp add: scan_d_def)
qed

lemma Trim_address_text:
  "strings_Trim (address_text x y z) ''[]'' = ''X:'' @ format_d x @ '',Y:'' @ format_d y @ '',Z:'' @ format_d z"
proof -
  let ?c = "\<lambda>c. c \<in> set ''[]''"
  let ?b = "''X:'' @ format_d x @ '',Y:'' @ format_d y @ '',Z:'' @ format_d z"
  obtain ds d where f: "format_d z = ds @ [d]" using format_d_digits [of z] by (cases "format_d z" rule: rev_cases) auto
  then have "is_digit d" using format_d_digits [of z] by auto
  then have "\<not> ?c d" by (auto simp: is_digit_def)
  then have "dropWhile ?c (rev ?b) = rev ?b" unfolding f by simp
  moreover have "dropWhile ?c (address_text x y z) = ?b @ '']''" by (simp add: address_text_def)
  ultimately show ?thesis by (simp add: strings_Trim_def)
qed

lemma ucast_of_nat_narrow:
  "LENGTH('a :: len) \<le> LENGTH('b :: len) \<Longrightarrow> (ucast (of_nat n :: 'b word) :: 'a word) = of_nat n"
  by (rule bit_word_eqI) (auto simp: bit_simps bit_of_nat_iff)

lemma ParseAddress_text:
  "ParseAddress (address_text x y z) =
     (if x < 2 ^ 64 \<and> y < 2 ^ 64 \<and> z < 2 ^ 64
      then Some \<lparr>addr_X = of_nat x, addr_Y = of_nat y, addr_Z = of_nat z\<rparr> else None)"
proof -
  have "scan_d (format_d x @ '',Y:'' @ s) = (if x < 2 ^ 64 then Some (of_nat x, '',Y:'' @ s) else None)"
    "scan_d (format_d y @ '',Z:'' @ s) = (if y < 2 ^ 64 then Some (of_nat y, '',Z:'' @ s) else None)"
    "scan_d (format_d z) = (if z < 2 ^ 64 then Some (of_nat z, []) else None)" for s
    using scan_d_format [of "'',Y:'' @ s" x] scan_d_format [of "'',Z:'' @ s" y] scan_d_format [of "[]" z]
    by (simp_all add: is_digit_def)
  moreover have "(ucast (of_nat n :: u64) :: u32) = of_nat n" "(ucast (of_nat n :: u64) :: u16) = of_nat n" for n
    by (simp_all add: ucast_of_nat_narrow)
  ultimately show ?thesis by (simp add: ParseAddress_def Trim_address_text)
qed

section \<open>Properties\<close>

text \<open>
  C38.  The textual form.  Parsing the text of three numbers gives the address with the first one
  as it is and the other two reduced to 32 and 16 bits without an error, as long as each fits 64
  bits, and fails otherwise; in particular the text of an address is parsed back to it, so
  different addresses have different texts.
\<close>

theorem address_text_codec:
  "ParseAddress (address_text x y z) =
     (if x < 2 ^ 64 \<and> y < 2 ^ 64 \<and> z < 2 ^ 64
      then Some \<lparr>addr_X = of_nat x, addr_Y = of_nat y, addr_Z = of_nat z\<rparr> else None)
   \<and> ParseAddress (Address_String a) = Some a"
proof
  have "unat (addr_X a) < 2 ^ 64" "unat (addr_Y a) < 2 ^ 64" "unat (addr_Z a) < 2 ^ 64"
    using unsigned_less [of "addr_X a", where ?'a = nat] unsigned_less [of "addr_Y a", where ?'a = nat]
      unat_u16_bound [of "addr_Z a"] by (simp_all del: unat_u16_bound unat_u16_bound')
  then show "ParseAddress (Address_String a) = Some a" by (simp add: Address_String_def ParseAddress_text)
qed (rule ParseAddress_text)

end
