(* ===== verification/Bitmap.thy ===== *)
theory Bitmap
  imports Prelude3D Complex_Main
begin

text \<open>
  \<^verbatim>\<open>internal/types/bitmap.go\<close>: the bitmap that records which bytes of a plane are in use, one
  bit per byte, packed into 64-bit words.  The definitions follow the code word by word,
  including the 16-bit arithmetic of \<^verbatim>\<open>FindContiguous\<close> and the panics it can raise; the lemmas
  relate them to the set of used positions.
\<close>

section \<open>The bitmap and its single-bit operations\<close>

record Bitmap =
  bm_bits :: "u64 list"
  bm_size :: u16

definition NewBitmap :: "u16 \<Rightarrow> Bitmap" where
  "NewBitmap sz = \<lparr>bm_bits = replicate ((unat sz + 63) div 64) 0, bm_size = sz\<rparr>"

definition Bitmap_Set :: "Bitmap \<Rightarrow> u16 \<Rightarrow> Bitmap" where
  "Bitmap_Set b pos =
     (if pos \<ge> bm_size b \<or> length (bm_bits b) = 0 then b
      else let idx = unat (pos div 64) in
        if idx \<ge> length (bm_bits b) then b
        else b\<lparr>bm_bits := (bm_bits b)[idx := bm_bits b ! idx OR push_bit (unat (pos mod 64)) 1]\<rparr>)"

definition Bitmap_Clear :: "Bitmap \<Rightarrow> u16 \<Rightarrow> Bitmap" where
  "Bitmap_Clear b pos =
     (if pos \<ge> bm_size b \<or> length (bm_bits b) = 0 then b
      else let idx = unat (pos div 64) in
        if idx \<ge> length (bm_bits b) then b
        else b\<lparr>bm_bits := (bm_bits b)
                 [idx := bm_bits b ! idx AND NOT (push_bit (unat (pos mod 64)) 1)]\<rparr>)"

definition Bitmap_IsSet :: "Bitmap \<Rightarrow> u16 \<Rightarrow> bool" where
  "Bitmap_IsSet b pos =
     (if pos \<ge> bm_size b \<or> length (bm_bits b) = 0 then False
      else let idx = unat (pos div 64) in
        if idx \<ge> length (bm_bits b) then False
        else bm_bits b ! idx AND push_bit (unat (pos mod 64)) 1 \<noteq> 0)"

section \<open>Ranges and counts\<close>

text \<open>The loops \<^verbatim>\<open>for i := start; i < end; i++\<close> over \<^verbatim>\<open>uint16\<close>.\<close>

function Bitmap_SetRange :: "Bitmap \<Rightarrow> u16 \<Rightarrow> u16 \<Rightarrow> Bitmap" where
  "Bitmap_SetRange b i e = (if i < e then Bitmap_SetRange (Bitmap_Set b i) (i + 1) e else b)"
  by pat_completeness auto
termination
  by (relation "measure (\<lambda>(b, i, e). unat e - unat i)") (auto simp: u16_step word_less_nat_alt)

function Bitmap_ClearRange :: "Bitmap \<Rightarrow> u16 \<Rightarrow> u16 \<Rightarrow> Bitmap" where
  "Bitmap_ClearRange b i e = (if i < e then Bitmap_ClearRange (Bitmap_Clear b i) (i + 1) e else b)"
  by pat_completeness auto
termination
  by (relation "measure (\<lambda>(b, i, e). unat e - unat i)") (auto simp: u16_step word_less_nat_alt)

declare Bitmap_SetRange.simps [simp del] Bitmap_ClearRange.simps [simp del]

definition totalSet :: "Bitmap \<Rightarrow> nat" where
  "totalSet b = sum_list (map OnesCount64 (bm_bits b))"

definition Bitmap_FreeBytes :: "Bitmap \<Rightarrow> u16" where
  "Bitmap_FreeBytes b = bm_size b - of_nat (totalSet b)"

definition Bitmap_UsedBytes :: "Bitmap \<Rightarrow> u16" where
  "Bitmap_UsedBytes b = of_nat (totalSet b)"

section \<open>Searching for a free run\<close>

text \<open>
  The mask of the bits that a candidate range \<open>startPos .. endPos\<close> has in word \<open>wj\<close>.  In the
  single-word case the shift count \<open>endBit - startBit + 1\<close> is a signed \<^verbatim>\<open>int\<close>, and Go panics
  when it is negative.
\<close>

definition find_mask :: "u16 \<Rightarrow> u16 \<Rightarrow> nat \<Rightarrow> u64 go" where
  "find_mask startPos endPos wj =
     (let startIdx = unat (startPos div 64); endIdx = unat (endPos div 64);
          startBit = unat (startPos mod 64); endBit = unat (endPos mod 64)
      in if wj = startIdx \<and> wj = endIdx then
           (if endBit + 1 < startBit then Inl NegativeShift
            else Inr (push_bit startBit (push_bit (endBit + 1 - startBit) 1 - 1)))
         else if wj = startIdx then Inr (push_bit startBit (NOT 0))
         else if wj = endIdx then Inr (push_bit (endBit + 1) 1 - 1)
         else Inr (NOT 0))"

text \<open>The loop over the words of the candidate range; the result is the flag \<^verbatim>\<open>ok\<close>.\<close>

function find_ok :: "u64 list \<Rightarrow> u16 \<Rightarrow> u16 \<Rightarrow> nat \<Rightarrow> bool go" where
  "find_ok bs startPos endPos wj =
     (if wj > unat (endPos div 64) then Inr True
      else go_bind (find_mask startPos endPos wj) (\<lambda>mask.
        if wj \<ge> length bs then Inl IndexOutOfRange
        else if bs ! wj AND mask \<noteq> 0 then Inr False
        else find_ok bs startPos endPos (Suc wj)))"
  by pat_completeness auto
termination
  by (relation "measure (\<lambda>(bs, s, e, wj). Suc (unat (e div 64)) - wj)") auto

declare find_ok.simps [simp del]

text \<open>
  The loop over the free bits of word \<open>wi\<close>.  \<open>None\<close> means that the word is exhausted and the
  outer loop goes on; \<open>Some r\<close> means that the function returns \<open>r\<close>.
\<close>

function find_bits :: "Bitmap \<Rightarrow> u16 \<Rightarrow> nat \<Rightarrow> u64 \<Rightarrow> u16 option option go" where
  "find_bits b sz wi freeBits =
     (if freeBits = 0 then Inr None
      else let tz = TrailingZeros64 freeBits;
               startPos = of_nat (wi * 64 + tz) :: u16
           in if startPos + sz > bm_size b then Inr (Some None)
              else let endPos = startPos + sz - 1 in
                go_bind (find_ok (bm_bits b) startPos endPos (unat (startPos div 64))) (\<lambda>ok.
                  if ok then Inr (Some (Some startPos))
                  else find_bits b sz wi (freeBits AND NOT (push_bit tz 1))))"
  by pat_completeness auto

lemma clear_bit_less:
  fixes w :: u64
  assumes "bit w k"
  shows "unat (w AND NOT (push_bit k 1)) < unat w"
proof -
  have "w AND NOT (push_bit k 1) \<noteq> w"
  proof
    assume "w AND NOT (push_bit k 1) = w"
    then have "bit (w AND NOT (push_bit k 1)) k = bit w k" by simp
    then show False using assms by (simp add: bit_simps)
  qed
  moreover have "w AND NOT (push_bit k 1) \<le> w" by (rule word_and_le2)
  ultimately show ?thesis by (simp add: word_less_nat_alt [symmetric])
qed

termination find_bits
  by (relation "measure (\<lambda>(b, n, wi, fb). unat fb)")
    (auto intro!: clear_bit_less TrailingZeros64_least simp flip: push_bit_of_1)

declare find_bits.simps [simp del]

text \<open>The free bits of word \<open>wi\<close>, with the bits beyond the bitmap masked out of the last word.\<close>

definition find_free_bits :: "Bitmap \<Rightarrow> nat \<Rightarrow> u64" where
  "find_free_bits b wi =
     (let freeBits = NOT (bm_bits b ! wi); remaining = bm_size b - of_nat (wi * 64)
      in if wi = length (bm_bits b) - 1 \<and> remaining < 64
         then freeBits AND drop_bit (64 - unat remaining) (NOT 0)
         else freeBits)"

function find_words :: "Bitmap \<Rightarrow> u16 \<Rightarrow> nat \<Rightarrow> u16 option go" where
  "find_words b sz wi =
     (if wi < length (bm_bits b) then
        (if NOT (bm_bits b ! wi) = 0 then find_words b sz (Suc wi)
         else go_bind (find_bits b sz wi (find_free_bits b wi)) (\<lambda>r. case r of
             None \<Rightarrow> find_words b sz (Suc wi)
           | Some res \<Rightarrow> Inr res))
      else Inr None)"
  by pat_completeness auto
termination
  by (relation "measure (\<lambda>(b, n, wi). length (bm_bits b) - wi)") auto

declare find_words.simps [simp del]

text \<open>The pair \<^verbatim>\<open>(pos, true)\<close> is \<open>Some pos\<close> and \<^verbatim>\<open>(0, false)\<close> is \<open>None\<close>.\<close>

definition FindContiguous :: "Bitmap \<Rightarrow> u16 \<Rightarrow> u16 option go" where
  "FindContiguous b sz =
     (if sz = 0 \<or> sz > bm_size b \<or> length (bm_bits b) = 0 then Inr None
      else find_words b sz 0)"

section \<open>The set of used positions\<close>

definition bm_bit :: "Bitmap \<Rightarrow> nat \<Rightarrow> bool" where
  "bm_bit b i \<longleftrightarrow> bit (bm_bits b ! (i div 64)) (i mod 64)"

definition used :: "Bitmap \<Rightarrow> nat set" where
  "used b = {i. i < unat (bm_size b) \<and> bm_bit b i}"

text \<open>
  The invariant: as many words as the size needs, and no bit set beyond the size.
\<close>

definition bitmap_inv :: "Bitmap \<Rightarrow> bool" where
  "bitmap_inv b \<longleftrightarrow>
     length (bm_bits b) = (unat (bm_size b) + 63) div 64 \<and>
     (\<forall>i \<in> {unat (bm_size b)..<64 * length (bm_bits b)}. \<not> bm_bit b i)"

lemma bitmap_inv_length: "bitmap_inv b \<Longrightarrow> length (bm_bits b) = (unat (bm_size b) + 63) div 64"
  by (simp add: bitmap_inv_def)

lemma bitmap_inv_high: "bitmap_inv b \<Longrightarrow> unat (bm_size b) \<le> i \<Longrightarrow> i < 64 * length (bm_bits b) \<Longrightarrow> \<not> bm_bit b i"
  by (auto simp: bitmap_inv_def)

lemma bitmap_inv_index:
  assumes "bitmap_inv b" and "i < unat (bm_size b)"
  shows "i div 64 < length (bm_bits b)"
  using assms by (simp add: bitmap_inv_length)

lemma used_bound: "i \<in> used b \<Longrightarrow> i < unat (bm_size b)"
  by (simp add: used_def)

lemma used_subset: "used b \<subseteq> {..<unat (bm_size b)}"
  by (auto simp: used_def)

lemma finite_used [simp]: "finite (used b)"
  by (rule finite_subset [OF used_subset]) simp

lemma unat_div_mod_64 [simp]:
  "unat (pos div 64 :: u16) = unat pos div 64" "unat (pos mod 64 :: u16) = unat pos mod 64"
  by (simp_all add: unat_div unat_mod)

lemma NewBitmap_inv: "bitmap_inv (NewBitmap sz)"
  by (auto simp: bitmap_inv_def NewBitmap_def bm_bit_def)

lemma used_NewBitmap [simp]: "used (NewBitmap sz) = {}"
  by (auto simp: used_def NewBitmap_def bm_bit_def)

lemma NewBitmap_size [simp]: "bm_size (NewBitmap sz) = sz"
  by (simp add: NewBitmap_def)

text \<open>Setting and clearing one bit, at the level of positions.\<close>

lemma div_mod_64_eq: "i div 64 = j div 64 \<Longrightarrow> i mod 64 = j mod 64 \<Longrightarrow> i = (j :: nat)"
  by (metis div_mult_mod_eq)

lemma Bitmap_Set_out: "bm_size b \<le> pos \<Longrightarrow> Bitmap_Set b pos = b"
  by (simp add: Bitmap_Set_def)

lemma Bitmap_Clear_out: "bm_size b \<le> pos \<Longrightarrow> Bitmap_Clear b pos = b"
  by (simp add: Bitmap_Clear_def)

lemma Bitmap_Set_size [simp]: "bm_size (Bitmap_Set b pos) = bm_size b"
  by (simp add: Bitmap_Set_def Let_def)

lemma Bitmap_Clear_size [simp]: "bm_size (Bitmap_Clear b pos) = bm_size b"
  by (simp add: Bitmap_Clear_def Let_def)

lemma Bitmap_Set_length [simp]: "length (bm_bits (Bitmap_Set b pos)) = length (bm_bits b)"
  by (simp add: Bitmap_Set_def Let_def)

lemma Bitmap_Clear_length [simp]: "length (bm_bits (Bitmap_Clear b pos)) = length (bm_bits b)"
  by (simp add: Bitmap_Clear_def Let_def)

lemma bm_bit_Set:
  assumes "bitmap_inv b" and "pos < bm_size b" and "i < 64 * length (bm_bits b)"
  shows "bm_bit (Bitmap_Set b pos) i \<longleftrightarrow> i = unat pos \<or> bm_bit b i"
proof -
  have p: "unat pos div 64 < length (bm_bits b)"
    using assms by (simp add: bitmap_inv_index word_nat_alt)
  then have "Bitmap_Set b pos = b\<lparr>bm_bits := (bm_bits b)
      [unat pos div 64 := bm_bits b ! (unat pos div 64) OR push_bit (unat pos mod 64) 1]\<rparr>"
    using assms(2) by (auto simp: Bitmap_Set_def Let_def)
  then show ?thesis
    using p div_mod_64_eq [of i "unat pos"]
    by (cases "i div 64 = unat pos div 64") (auto simp: bm_bit_def bit_simps)
qed

lemma bm_bit_Clear:
  assumes "bitmap_inv b" and "pos < bm_size b" and "i < 64 * length (bm_bits b)"
  shows "bm_bit (Bitmap_Clear b pos) i \<longleftrightarrow> i \<noteq> unat pos \<and> bm_bit b i"
proof -
  have p: "unat pos div 64 < length (bm_bits b)"
    using assms by (simp add: bitmap_inv_index word_nat_alt)
  then have "Bitmap_Clear b pos = b\<lparr>bm_bits := (bm_bits b)
      [unat pos div 64 := bm_bits b ! (unat pos div 64) AND NOT (push_bit (unat pos mod 64) 1)]\<rparr>"
    using assms(2) by (auto simp: Bitmap_Clear_def Let_def)
  then show ?thesis
    using p div_mod_64_eq [of i "unat pos"]
    by (cases "i div 64 = unat pos div 64") (auto simp: bm_bit_def bit_simps)
qed

lemma bitmap_inv_size_words:
  assumes "bitmap_inv b"
  shows "unat (bm_size b) \<le> 64 * length (bm_bits b)"
  using assms by (simp add: bitmap_inv_length)

lemma Bitmap_Set_inv:
  assumes "bitmap_inv b"
  shows "bitmap_inv (Bitmap_Set b pos)"
proof (cases "pos < bm_size b")
  case True
  then show ?thesis
    using assms bm_bit_Set [OF assms True] bitmap_inv_high [OF assms]
    by (auto simp: bitmap_inv_def word_nat_alt)
qed (use assms in \<open>simp add: Bitmap_Set_out\<close>)

lemma Bitmap_Clear_inv:
  assumes "bitmap_inv b"
  shows "bitmap_inv (Bitmap_Clear b pos)"
proof (cases "pos < bm_size b")
  case True
  then show ?thesis
    using assms bm_bit_Clear [OF assms True] bitmap_inv_high [OF assms]
    by (auto simp: bitmap_inv_def word_nat_alt)
qed (use assms in \<open>simp add: Bitmap_Clear_out\<close>)

lemma used_Set:
  assumes "bitmap_inv b"
  shows "used (Bitmap_Set b pos) = used b \<union> ({unat pos} \<inter> {..<unat (bm_size b)})"
proof (cases "pos < bm_size b")
  case True
  then show ?thesis
    using assms bm_bit_Set [OF assms True] bitmap_inv_size_words [OF assms]
    by (auto simp: used_def word_nat_alt)
next
  case False
  then show ?thesis by (simp add: Bitmap_Set_out not_less) (simp add: word_nat_alt)
qed

lemma used_Clear:
  assumes "bitmap_inv b"
  shows "used (Bitmap_Clear b pos) = used b - {unat pos}"
proof (cases "pos < bm_size b")
  case True
  then show ?thesis
    using assms bm_bit_Clear [OF assms True] bitmap_inv_size_words [OF assms]
    by (auto simp: used_def)
next
  case False
  then show ?thesis using used_bound [of "unat pos" b]
    by (simp add: Bitmap_Clear_out not_less) (auto simp: word_nat_alt)
qed

lemma and_single_bit: "w AND push_bit k 1 \<noteq> 0 \<longleftrightarrow> bit (w :: u64) k"
proof
  assume "w AND push_bit k 1 \<noteq> 0"
  then obtain i where "bit (w AND push_bit k 1) i"
    by (metis bit_0_eq bit_eq_iff bot_apply bot_bool_def)
  then show "bit w k" by (auto simp: bit_simps)
next
  assume k: "bit w k"
  then have "bit (w AND push_bit k 1) k"
    using bit_imp_le_length [OF k] by (simp add: bit_simps)
  then show "w AND push_bit k 1 \<noteq> 0" by (metis bit_0_eq bot_apply bot_bool_def)
qed

lemma IsSet_used:
  assumes "bitmap_inv b"
  shows "Bitmap_IsSet b pos \<longleftrightarrow> unat pos \<in> used b"
proof (cases "pos < bm_size b")
  case True
  then have "unat pos div 64 < length (bm_bits b)"
    using assms by (simp add: bitmap_inv_index word_nat_alt)
  with True show ?thesis
    by (auto simp: Bitmap_IsSet_def Let_def used_def bm_bit_def word_nat_alt
        and_single_bit simp del: push_bit_of_1)
next
  case False
  then show ?thesis by (auto simp: Bitmap_IsSet_def used_def word_nat_alt)
qed

section \<open>Ranges\<close>

lemma SetRange_size [simp]: "bm_size (Bitmap_SetRange b i e) = bm_size b"
  by (induction b i e rule: Bitmap_SetRange.induct) (subst Bitmap_SetRange.simps, simp)

lemma ClearRange_size [simp]: "bm_size (Bitmap_ClearRange b i e) = bm_size b"
  by (induction b i e rule: Bitmap_ClearRange.induct) (subst Bitmap_ClearRange.simps, simp)

lemma SetRange_inv: "bitmap_inv b \<Longrightarrow> bitmap_inv (Bitmap_SetRange b i e)"
  by (induction b i e rule: Bitmap_SetRange.induct)
    (subst Bitmap_SetRange.simps, simp add: Bitmap_Set_inv)

lemma ClearRange_inv: "bitmap_inv b \<Longrightarrow> bitmap_inv (Bitmap_ClearRange b i e)"
  by (induction b i e rule: Bitmap_ClearRange.induct)
    (subst Bitmap_ClearRange.simps, simp add: Bitmap_Clear_inv)

lemma used_SetRange:
  "bitmap_inv b \<Longrightarrow>
   used (Bitmap_SetRange b i e) = used b \<union> ({unat i..<unat e} \<inter> {..<unat (bm_size b)})"
proof (induction b i e rule: Bitmap_SetRange.induct)
  case (1 b i e)
  show ?case
  proof (cases "i < e")
    case True
    then have "used (Bitmap_SetRange b i e) = used (Bitmap_Set b i) \<union>
        ({unat (i + 1)..<unat e} \<inter> {..<unat (bm_size b)})"
      using 1 by (subst Bitmap_SetRange.simps) (simp add: Bitmap_Set_inv)
    moreover have "unat (i + 1) = Suc (unat i)" using True by (rule u16_step)
    moreover have "{unat i..<unat e} = insert (unat i) {Suc (unat i)..<unat e}"
      using True by (auto simp: word_less_nat_alt)
    ultimately show ?thesis
      by (simp only: used_Set [OF 1(2)]) blast
  next
    case False
    then show ?thesis by (subst Bitmap_SetRange.simps) (auto simp: word_nat_alt)
  qed
qed

lemma used_ClearRange:
  "bitmap_inv b \<Longrightarrow> used (Bitmap_ClearRange b i e) = used b - {unat i..<unat e}"
proof (induction b i e rule: Bitmap_ClearRange.induct)
  case (1 b i e)
  show ?case
  proof (cases "i < e")
    case True
    then have "used (Bitmap_ClearRange b i e) = used (Bitmap_Clear b i) - {unat (i + 1)..<unat e}"
      using 1 by (subst Bitmap_ClearRange.simps) (simp add: Bitmap_Clear_inv)
    moreover have "unat (i + 1) = Suc (unat i)" using True by (rule u16_step)
    moreover have "{unat i..<unat e} = insert (unat i) {Suc (unat i)..<unat e}"
      using True by (auto simp: word_less_nat_alt)
    ultimately show ?thesis
      by (simp only: used_Clear [OF 1(2)]) blast
  next
    case False
    then show ?thesis by (subst Bitmap_ClearRange.simps) (auto simp: word_nat_alt)
  qed
qed

text \<open>A bitmap is determined by its size and its used positions.\<close>

lemma bitmap_eqI:
  assumes "bitmap_inv b" "bitmap_inv c" "bm_size b = bm_size c" "used b = used c"
  shows "b = c"
proof -
  have l: "length (bm_bits b) = length (bm_bits c)"
    using assms by (simp add: bitmap_inv_length)
  have "bm_bits b = bm_bits c"
  proof (rule nth_equalityI [OF l])
    fix j assume j: "j < length (bm_bits b)"
    show "bm_bits b ! j = bm_bits c ! j"
    proof (rule bit_word_eqI)
      fix k assume "k < LENGTH(64)"
      then have k: "k < 64" by simp
      let ?i = "64 * j + k"
      have i: "?i < 64 * length (bm_bits b)" "?i div 64 = j" "?i mod 64 = k" "k mod 64 = k"
        using j k by auto
      have "bm_bit b ?i = bm_bit c ?i"
      proof (cases "?i < unat (bm_size b)")
        case True
        then show ?thesis using assms(3,4) by (auto simp: used_def set_eq_iff)
      next
        case False
        then show ?thesis
          using assms i l bitmap_inv_high [of b ?i] bitmap_inv_high [of c ?i] by simp
      qed
      then show "bit (bm_bits b ! j) k = bit (bm_bits c ! j) k" by (simp add: bm_bit_def i)
    qed
  qed
  then show ?thesis using assms(3) by simp
qed

section \<open>Counting\<close>

lemma card_shift: "card {i. i < n + k \<and> n \<le> i \<and> P (i - n)} = card {j. j < k \<and> P (j :: nat)}"
proof -
  have "bij_betw (\<lambda>j. n + j) {j. j < k \<and> P j} {i. i < n + k \<and> n \<le> i \<and> P (i - n)}"
    by (rule bij_betw_byWitness [where f' = "\<lambda>i. i - n"]) auto
  then show ?thesis by (rule bij_betw_same_card [symmetric])
qed

lemma count_words:
  "sum_list (map OnesCount64 ws) =
     card {i. i < 64 * length ws \<and> bit (ws ! (i div 64)) (i mod 64)}"
proof (induction ws rule: rev_induct)
  case Nil
  then show ?case by simp
next
  case (snoc w ws)
  let ?n = "64 * length ws"
  let ?A = "{i. i < ?n \<and> bit (ws ! (i div 64)) (i mod 64)}"
  let ?B = "{i. i < ?n + 64 \<and> ?n \<le> i \<and> bit w (i - ?n)}"
  have idx: "(ws @ [w]) ! (i div 64) = w" "i mod 64 = i - ?n"
    if "?n \<le> i" "i < ?n + 64" for i
  proof -
    have "i div 64 = length ws" using that by linarith
    then show "(ws @ [w]) ! (i div 64) = w" "i mod 64 = i - ?n"
      by (simp_all add: nth_append modulo_nat_def)
  qed
  have low: "(ws @ [w]) ! (i div 64) = ws ! (i div 64)" if "i < ?n" for i
    using that by (simp add: nth_append less_mult_imp_div_less mult.commute)
  have "i < 64 * length (ws @ [w]) \<and> bit ((ws @ [w]) ! (i div 64)) (i mod 64) \<longleftrightarrow>
      i \<in> ?A \<union> ?B" for i
    using idx [of i] low [of i] by (cases "i < ?n") auto
  then have "{i. i < 64 * length (ws @ [w]) \<and> bit ((ws @ [w]) ! (i div 64)) (i mod 64)} = ?A \<union> ?B"
    by blast
  moreover have "card (?A \<union> ?B) = card ?A + card ?B"
    by (rule card_Un_disjoint) auto
  moreover have "card ?B = OnesCount64 w"
    by (simp only: card_shift OnesCount64_card)
  ultimately show ?case by (simp add: snoc.IH)
qed

lemma totalSet_card:
  assumes "bitmap_inv b"
  shows "totalSet b = card (used b)"
proof -
  have "{i. i < 64 * length (bm_bits b) \<and> bm_bit b i} = used b"
    using bitmap_inv_high [OF assms] bitmap_inv_size_words [OF assms]
    by (auto simp: used_def) (meson not_le)+
  then show ?thesis by (simp add: totalSet_def count_words bm_bit_def)
qed

lemma card_used_le: "card (used b) \<le> unat (bm_size b)"
  using card_mono [OF _ used_subset, of b] by simp

lemma FreeBytes_card:
  assumes "bitmap_inv b"
  shows "unat (Bitmap_FreeBytes b) = unat (bm_size b) - card (used b)"
proof -
  have "card (used b) < 65536"
    using card_used_le [of b] unat_u16_bound [of "bm_size b"] by linarith
  then have "unat (of_nat (card (used b)) :: u16) = card (used b)"
    by (rule unat_of_nat_u16)
  then show ?thesis
    using card_used_le [of b]
    by (simp add: Bitmap_FreeBytes_def totalSet_card [OF assms] unat_sub word_le_nat_alt)
qed

lemma UsedBytes_card:
  assumes "bitmap_inv b"
  shows "unat (Bitmap_UsedBytes b) = card (used b)"
proof -
  have "card (used b) < 65536"
    using card_used_le [of b] unat_u16_bound [of "bm_size b"] by linarith
  then show ?thesis
    by (simp add: Bitmap_UsedBytes_def totalSet_card [OF assms] unat_of_nat_u16)
qed

section \<open>Fragmentation\<close>

text \<open>
  \<^verbatim>\<open>Fragmentation\<close> counts the maximal free runs with the loop \<^verbatim>\<open>for i := uint16(0); i < b.size; i++\<close>
  and divides.  The \<^verbatim>\<open>float64\<close> quotient is modelled as an exact rational.
\<close>

function frag_holes :: "Bitmap \<Rightarrow> u16 \<Rightarrow> int \<Rightarrow> bool \<Rightarrow> int" where
  "frag_holes b i holes inHole =
     (if i < bm_size b then
        (if Bitmap_IsSet b i then frag_holes b (i + 1) holes False
         else if \<not> inHole then frag_holes b (i + 1) (holes + 1) True
         else frag_holes b (i + 1) holes inHole)
      else holes)"
  by pat_completeness auto
termination
  by (relation "measure (\<lambda>(b, i, h, f). unat (bm_size b) - unat i)")
    (auto simp: u16_step word_less_nat_alt)

declare frag_holes.simps [simp del]

definition Bitmap_Fragmentation :: "Bitmap \<Rightarrow> rat" where
  "Bitmap_Fragmentation b =
     (let holes = frag_holes b 0 0 False; freeBytes = Bitmap_FreeBytes b
      in if freeBytes = 0 then 0 else of_int (holes - 1) / of_nat (unat freeBytes))"

text \<open>The two accessors for tests.\<close>

definition BitsLen :: "Bitmap \<Rightarrow> int" where
  "BitsLen b = int (length (bm_bits b))"

definition FirstWord :: "Bitmap \<Rightarrow> u64" where
  "FirstWord b = (if length (bm_bits b) = 0 then 0 else bm_bits b ! 0)"

definition hole_starts :: "Bitmap \<Rightarrow> nat set" where
  "hole_starts b = {i. i < unat (bm_size b) \<and> i \<notin> used b \<and> (i = 0 \<or> i - 1 \<in> used b)}"

lemma card_from_step:
  assumes "finite A"
  shows "card {j \<in> A. i \<le> j} = (if i \<in> A then 1 else 0) + card {j \<in> A. Suc i \<le> (j :: nat)}"
proof -
  have "{j \<in> A. i \<le> j} = (if i \<in> A then insert i {j \<in> A. Suc i \<le> j} else {j \<in> A. Suc i \<le> j})"
    by (auto simp: Suc_le_eq order_le_less)
  then show ?thesis using assms by simp
qed

lemma finite_hole_starts [simp]: "finite (hole_starts b)"
  by (rule finite_subset [of _ "{..<unat (bm_size b)}"]) (auto simp: hole_starts_def)

lemma frag_holes_count:
  assumes inv: "bitmap_inv b"
  shows "inHole = (0 < unat i \<and> unat i - 1 \<notin> used b) \<Longrightarrow>
     frag_holes b i holes inHole = holes + int (card {j \<in> hole_starts b. unat i \<le> j})"
proof (induction "unat (bm_size b) - unat i" arbitrary: i holes inHole)
  case 0
  then have "\<not> i < bm_size b" by (simp add: word_less_nat_alt)
  moreover have "{j \<in> hole_starts b. unat i \<le> j} = {}"
    using 0 by (auto simp: hole_starts_def)
  ultimately show ?case by (subst frag_holes.simps) (simp only: if_False card.empty)
next
  case (Suc d)
  then have lt: "i < bm_size b" by (simp add: word_less_nat_alt)
  have i1: "unat (i + 1) = Suc (unat i)" using lt by (rule u16_step)
  have IH: "frag_holes b (i + 1) h (unat i \<notin> used b) =
      h + int (card {j \<in> hole_starts b. Suc (unat i) \<le> j})" for h
    using Suc.hyps(1) [of "i + 1" "unat i \<notin> used b" h] Suc.hyps(2) i1 by simp
  have start: "unat i \<in> hole_starts b \<longleftrightarrow> unat i \<notin> used b \<and> \<not> inHole"
    using lt Suc.prems by (auto simp: hole_starts_def word_less_nat_alt)
  show ?case
    unfolding card_from_step [OF finite_hole_starts, of b "unat i"]
    using lt IH IsSet_used [OF inv, of i] start
    by (subst frag_holes.simps) (cases "unat i \<in> used b"; cases inHole; simp)
qed

lemma frag_holes_total:
  assumes "bitmap_inv b"
  shows "frag_holes b 0 0 False = int (card (hole_starts b))"
  using frag_holes_count [OF assms, of False 0 0] by simp

lemma hole_starts_bounds:
  assumes "used b \<noteq> {..<unat (bm_size b)}"
  shows "1 \<le> card (hole_starts b)"
    and "card (hole_starts b) \<le> unat (bm_size b) - card (used b)"
proof -
  obtain i where "i < unat (bm_size b)" "i \<notin> used b" using assms used_subset by blast
  define m where "m = (LEAST i. i < unat (bm_size b) \<and> i \<notin> used b)"
  have m: "m < unat (bm_size b) \<and> m \<notin> used b"
    unfolding m_def by (rule LeastI) (use \<open>i < _\<close> \<open>i \<notin> _\<close> in blast)
  have "m - 1 \<in> used b" if "m \<noteq> 0"
  proof (rule ccontr)
    assume "m - 1 \<notin> used b"
    then have "m \<le> m - 1" unfolding m_def by (intro Least_le) (use m m_def in auto)
    then show False using that by simp
  qed
  with m have "m \<in> hole_starts b" by (auto simp: hole_starts_def)
  then have "card {m} \<le> card (hole_starts b)" by (intro card_mono) auto
  then show "1 \<le> card (hole_starts b)" by simp
  have "card (hole_starts b) \<le> card ({..<unat (bm_size b)} - used b)"
    by (rule card_mono) (auto simp: hole_starts_def)
  then show "card (hole_starts b) \<le> unat (bm_size b) - card (used b)"
    by (simp add: card_Diff_subset used_subset)
qed

lemma Fragmentation_eq:
  assumes inv: "bitmap_inv b"
  shows "Bitmap_Fragmentation b =
     (if used b = {..<unat (bm_size b)} then 0
      else of_nat (card (hole_starts b) - 1) / of_nat (unat (bm_size b) - card (used b)))"
proof (cases "used b = {..<unat (bm_size b)}")
  case True
  then have "unat (Bitmap_FreeBytes b) = 0" by (simp add: FreeBytes_card [OF inv])
  then show ?thesis using True by (simp add: Bitmap_Fragmentation_def Let_def unat_eq_0)
next
  case False
  note h = hole_starts_bounds [OF False]
  have "unat (Bitmap_FreeBytes b) \<noteq> 0" using h by (simp add: FreeBytes_card [OF inv])
  then have "Bitmap_FreeBytes b \<noteq> 0" by auto
  then show ?thesis
    using False h
    by (simp add: Bitmap_Fragmentation_def Let_def frag_holes_total [OF inv] FreeBytes_card [OF inv]
        of_nat_diff)
qed

lemma quotient_less_1: "m < n \<Longrightarrow> (of_nat m :: rat) / of_nat n < 1"
  by (simp add: divide_less_eq_1)

lemma Fragmentation_bounds:
  assumes inv: "bitmap_inv b"
  shows "0 \<le> Bitmap_Fragmentation b" "Bitmap_Fragmentation b < 1"
proof -
  show "0 \<le> Bitmap_Fragmentation b" by (simp add: Fragmentation_eq [OF inv])
  show "Bitmap_Fragmentation b < 1"
  proof (cases "used b = {..<unat (bm_size b)}")
    case False
    note h = hole_starts_bounds [OF False]
    then have "card (hole_starts b) - 1 < unat (bm_size b) - card (used b)" by linarith
    then have "(of_nat (card (hole_starts b) - 1) :: rat) / of_nat (unat (bm_size b) - card (used b)) < 1"
      by (rule quotient_less_1)
    with False show ?thesis by (simp only: Fragmentation_eq [OF inv] if_False)
  qed (simp add: Fragmentation_eq [OF inv])
qed

text \<open>
  \<^verbatim>\<open>Fragmentation\<close> counts the maximal free runs exactly and is at least 0 and below 1; it
  is 0 on a full bitmap.
\<close>

theorem Bitmap_Fragmentation_correct:
  assumes "bitmap_inv b"
  shows "frag_holes b 0 0 False = int (card (hole_starts b))
    \<and> 0 \<le> Bitmap_Fragmentation b \<and> Bitmap_Fragmentation b < 1
    \<and> Bitmap_Fragmentation b =
        (if used b = {..<unat (bm_size b)} then 0
         else of_nat (card (hole_starts b) - 1) / of_nat (unat (bm_size b) - card (used b)))"
  using frag_holes_total [OF assms] Fragmentation_bounds [OF assms] Fragmentation_eq [OF assms]
  by blast

theorem Bitmap_Fragmentation_correct_witness:
  "bitmap_inv (NewBitmap 64) \<and> 0 \<le> Bitmap_Fragmentation (NewBitmap 64)"
  using Bitmap_Fragmentation_correct [OF NewBitmap_inv, of 64] NewBitmap_inv by blast

end
