(* ===== verification/BitmapSearch.thy ===== *)
theory BitmapSearch
  imports Bitmap
begin

text \<open>
  The search of \<^verbatim>\<open>Bitmap.FindContiguous\<close> for a free run: the word-wise loops are equivalent to the first
  fit as long as the 16-bit end position does not wrap, and what they do when it does.  The
  bitmap as an interface, which the planes rely on.
\<close>

section \<open>Correctness of the search\<close>

text \<open>A run of \<open>n\<close> free positions starts at \<open>p\<close>.\<close>

definition fits :: "Bitmap \<Rightarrow> nat \<Rightarrow> nat \<Rightarrow> bool" where
  "fits b n p \<longleftrightarrow> p + n \<le> unat (bm_size b) \<and> (\<forall>i \<in> {p..<p + n}. i \<notin> used b)"

lemma bit_low_ones: "bit (push_bit n 1 - 1 :: u64) k \<longleftrightarrow> k < n \<and> k < 64"
proof -
  have "push_bit n 1 - 1 = (mask n :: u64)" by (simp add: mask_eq_exp_minus_1)
  then show ?thesis by (auto simp add: bit_simps simp del: push_bit_of_1)
qed

text \<open>A position compared with those of its own word.\<close>

lemma from_in_word:
  fixes s wj :: nat
  assumes "wj = s div 64"
  shows "s \<le> 64 * wj + k \<longleftrightarrow> s mod 64 \<le> k"
proof -
  have "s = 64 * wj + s mod 64" using assms by simp
  then show ?thesis by linarith
qed

lemma upto_in_word:
  fixes e wj :: nat
  assumes "wj = e div 64"
  shows "64 * wj + k \<le> e \<longleftrightarrow> k \<le> e mod 64"
proof -
  have "e = 64 * wj + e mod 64" using assms by simp
  then show ?thesis by linarith
qed

lemma find_mask_bits:
  assumes "startPos \<le> endPos" "unat startPos div 64 \<le> wj" "wj \<le> unat endPos div 64"
  obtains m where "find_mask startPos endPos wj = Inr m"
    and "\<And>k. k < 64 \<Longrightarrow> bit m k \<longleftrightarrow> unat startPos \<le> 64 * wj + k \<and> 64 * wj + k \<le> unat endPos"
proof -
  define s e where "s = unat startPos" and "e = unat endPos"
  have se: "s \<le> e" "s div 64 \<le> wj" "wj \<le> e div 64"
    using assms by (simp_all add: s_def e_def word_le_nat_alt)
  consider (single) "wj = s div 64" "wj = e div 64"
    | (first) "wj = s div 64" "wj < e div 64"
    | (last) "s div 64 < wj" "wj = e div 64"
    | (middle) "s div 64 < wj" "wj < e div 64"
    using se by linarith
  then show thesis
  proof cases
    case single
    have ord: "s mod 64 \<le> e mod 64"
      using single se by (metis div_mult_mod_eq nat_add_left_cancel_le)
    have "find_mask startPos endPos wj =
        Inr (push_bit (s mod 64) (push_bit (e mod 64 + 1 - s mod 64) 1 - 1))"
      using single ord by (simp add: find_mask_def Let_def s_def e_def)
    moreover have "bit (push_bit (s mod 64) (push_bit (e mod 64 + 1 - s mod 64) 1 - 1) :: u64) k
        \<longleftrightarrow> s \<le> 64 * wj + k \<and> 64 * wj + k \<le> e" if "k < 64" for k
    proof -
      have "e mod 64 < 64" by simp
      then show ?thesis
        using that ord from_in_word [OF single(1), of k] upto_in_word [OF single(2), of k]
        by (simp only: bit_push_bit_iff bit_low_ones) auto
    qed
    ultimately show thesis using that by (simp add: s_def e_def)
  next
    case first
    have "find_mask startPos endPos wj = Inr (push_bit (s mod 64) (NOT 0))"
      using first by (simp add: find_mask_def Let_def s_def e_def)
    moreover have "bit (push_bit (s mod 64) (NOT 0) :: u64) k
        \<longleftrightarrow> s \<le> 64 * wj + k \<and> 64 * wj + k \<le> e" if "k < 64" for k
    proof -
      have "64 * wj + k \<le> e" using first that by linarith
      then show ?thesis using that from_in_word [OF first(1), of k] by (auto simp: bit_simps)
    qed
    ultimately show thesis using that by (simp add: s_def e_def)
  next
    case last
    have "find_mask startPos endPos wj = Inr (push_bit (e mod 64 + 1) 1 - 1)"
      using last by (simp add: find_mask_def Let_def s_def e_def)
    moreover have "bit (push_bit (e mod 64 + 1) 1 - 1 :: u64) k
        \<longleftrightarrow> s \<le> 64 * wj + k \<and> 64 * wj + k \<le> e" if "k < 64" for k
    proof -
      have "s \<le> 64 * wj + k" using last that by linarith
      then show ?thesis using that upto_in_word [OF last(2), of k] by (simp only: bit_low_ones) auto
    qed
    ultimately show thesis using that by (simp add: s_def e_def)
  next
    case middle
    have "find_mask startPos endPos wj = Inr (NOT 0)"
      using middle by (simp add: find_mask_def Let_def s_def e_def)
    moreover have "s \<le> 64 * wj + k \<and> 64 * wj + k \<le> e" if "k < 64" for k
      using middle that by linarith
    ultimately show thesis using that by (simp add: s_def e_def)
  qed
qed

lemma and_mask_zero_iff:
  "w AND m = 0 \<longleftrightarrow> (\<forall>k < 64. bit m k \<longrightarrow> \<not> bit (w :: u64) k)"
proof
  assume "\<forall>k < 64. bit m k \<longrightarrow> \<not> bit w k"
  then show "w AND m = 0" by (intro bit_word_eqI) (auto simp: bit_simps)
next
  assume "w AND m = 0"
  then have "\<not> bit (w AND m) k" for k by simp
  then show "\<forall>k < 64. bit m k \<longrightarrow> \<not> bit w k" by (auto simp: bit_simps)
qed

lemma find_ok_step:
  assumes inv: "bitmap_inv b" and se: "startPos \<le> endPos" "endPos < bm_size b"
    and wj: "unat startPos div 64 \<le> wj" "wj \<le> unat endPos div 64"
  shows "find_ok (bm_bits b) startPos endPos wj =
     (if \<exists>i \<in> {max (unat startPos) (64 * wj)..min (unat endPos) (64 * wj + 63)}. bm_bit b i
      then Inr False else find_ok (bm_bits b) startPos endPos (Suc wj))"
proof -
  obtain m where m: "find_mask startPos endPos wj = Inr m"
    and bits: "\<And>k. k < 64 \<Longrightarrow> bit m k \<longleftrightarrow>
      unat startPos \<le> 64 * wj + k \<and> 64 * wj + k \<le> unat endPos"
    by (rule find_mask_bits [OF se(1) wj]) blast
  have len: "wj < length (bm_bits b)"
    using bitmap_inv_index [OF inv, of "unat endPos"] se(2) wj(2)
    by (simp add: word_less_nat_alt)
  let ?R = "{max (unat startPos) (64 * wj)..min (unat endPos) (64 * wj + 63)}"
  have "bm_bits b ! wj AND m \<noteq> 0 \<longleftrightarrow> (\<exists>i \<in> ?R. bm_bit b i)"
  proof
    assume "bm_bits b ! wj AND m \<noteq> 0"
    then obtain k where "k < 64" "bit m k" "bit (bm_bits b ! wj) k"
      by (auto simp: and_mask_zero_iff)
    then show "\<exists>i \<in> ?R. bm_bit b i"
      using bits [of k] by (intro bexI [of _ "64 * wj + k"]) (auto simp: bm_bit_def)
  next
    assume "\<exists>i \<in> ?R. bm_bit b i"
    then obtain i where i: "i \<in> ?R" "bm_bit b i" by blast
    then have "i div 64 = wj" by auto
    then have "64 * wj + i mod 64 = i" by (metis mult_div_mod_eq)
    with i \<open>i div 64 = wj\<close> bits [of "i mod 64"]
    have "bit m (i mod 64)" "bit (bm_bits b ! wj) (i mod 64)" by (auto simp: bm_bit_def)
    then show "bm_bits b ! wj AND m \<noteq> 0"
      by (auto simp: and_mask_zero_iff intro!: exI [of _ "i mod 64"])
  qed
  then show ?thesis
    using wj(2) len by (subst find_ok.simps) (simp add: m)
qed

lemma find_ok_correct:
  assumes "bitmap_inv b" "startPos \<le> endPos" "endPos < bm_size b" "unat startPos div 64 \<le> wj"
  shows "find_ok (bm_bits b) startPos endPos wj =
     Inr (\<forall>i \<in> {max (unat startPos) (64 * wj)..unat endPos}. \<not> bm_bit b i)"
  using assms(4)
proof (induction "Suc (unat endPos div 64) - wj" arbitrary: wj)
  case 0
  then have "unat endPos < 64 * wj" by linarith
  with 0 show ?case by (subst find_ok.simps) auto
next
  case (Suc d)
  then have le: "wj \<le> unat endPos div 64" by linarith
  have IH: "find_ok (bm_bits b) startPos endPos (Suc wj) =
      Inr (\<forall>i \<in> {max (unat startPos) (64 * Suc wj)..unat endPos}. \<not> bm_bit b i)"
    using Suc by (intro Suc.hyps(1)) auto
  have "i \<in> {max (unat startPos) (64 * wj)..unat endPos} \<longleftrightarrow>
      i \<in> {max (unat startPos) (64 * wj)..min (unat endPos) (64 * wj + 63)} \<or>
      i \<in> {max (unat startPos) (64 * Suc wj)..unat endPos}" for i
    by auto
  then show ?case
    unfolding find_ok_step [OF assms(1-3) Suc.prems le] IH by auto
qed

text \<open>A candidate that ends inside the bitmap is accepted exactly when it fits.\<close>

lemma find_ok_fits:
  assumes inv: "bitmap_inv b" and n: "n \<noteq> 0" and p: "p + unat n \<le> unat (bm_size b)"
  defines "s \<equiv> of_nat p :: u16"
  shows "find_ok (bm_bits b) s (s + n - 1) (unat (s div 64)) = Inr (fits b (unat n) p)"
    and "\<not> s + n > bm_size b"
proof -
  have n1: "unat n \<ge> 1" using n by (simp add: unat_gt_0 Suc_leI)
  have b: "p + unat n \<le> 65535"
    using p unat_u16_bound' [of "bm_size b"] by linarith
  have s: "unat s = p" using b n1 by (simp add: s_def unat_of_nat_u16)
  have sn: "unat (s + n) = p + unat n"
    using b s by (simp add: unat_word_ariths)
  have e: "unat (s + n - 1) = p + unat n - 1"
    using sn n1 by (subst unat_sub) (auto simp: word_le_nat_alt)
  show "\<not> s + n > bm_size b" using sn p by (simp add: word_nat_alt)
  have "s \<le> s + n - 1" "s + n - 1 < bm_size b"
    using s e n1 p by (auto simp: word_nat_alt)
  then have "find_ok (bm_bits b) s (s + n - 1) (unat (s div 64)) =
      Inr (\<forall>i \<in> {p..p + unat n - 1}. \<not> bm_bit b i)"
    using find_ok_correct [OF inv, of s "s + n - 1" "p div 64"] s e by simp
  also have "(\<forall>i \<in> {p..p + unat n - 1}. \<not> bm_bit b i) = fits b (unat n) p"
    using p n1 by (auto simp: fits_def used_def)
  finally show "find_ok (bm_bits b) s (s + n - 1) (unat (s div 64)) = Inr (fits b (unat n) p)" .
qed

lemma unat_u16_64: "unat (64 :: u16) = 64"
  by simp

lemma bit_find_free_bits:
  assumes inv: "bitmap_inv b" and wi: "wi < length (bm_bits b)" and k: "k < 64"
  shows "bit (find_free_bits b wi) k \<longleftrightarrow>
     wi * 64 + k < unat (bm_size b) \<and> \<not> bm_bit b (wi * 64 + k)"
proof -
  have idx: "(wi * 64 + k) div 64 = wi" "(wi * 64 + k) mod 64 = k" using k by auto
  have lo: "wi * 64 < unat (bm_size b)"
    using wi by (simp add: bitmap_inv_length [OF inv])
  then have "unat (of_nat (wi * 64) :: u16) = wi * 64"
    using unat_u16_bound [of "bm_size b"] by (intro unat_of_nat_u16) linarith
  then have rem: "unat (bm_size b - of_nat (wi * 64)) = unat (bm_size b) - wi * 64"
    using lo by (subst unat_sub) (auto simp: word_le_nat_alt)
  show ?thesis
  proof (cases "wi = length (bm_bits b) - 1 \<and> bm_size b - of_nat (wi * 64) < 64")
    case True
    then have "unat (bm_size b) - wi * 64 < 64" using rem by (metis word_less_nat_alt unat_u16_64)
    moreover have "find_free_bits b wi =
        NOT (bm_bits b ! wi) AND drop_bit (64 - (unat (bm_size b) - wi * 64)) (NOT 0)"
      unfolding find_free_bits_def Let_def if_P [OF True] rem by (rule refl)
    ultimately show ?thesis
      using k lo idx by (auto simp: bit_simps bm_bit_def)
  next
    case False
    have "wi * 64 + k < unat (bm_size b)"
    proof (cases "wi = length (bm_bits b) - 1")
      case True
      with False rem have "64 \<le> unat (bm_size b) - wi * 64"
        by (metis word_less_nat_alt unat_u16_64 not_le)
      then show ?thesis using k by linarith
    next
      case False
      then have "Suc wi < (unat (bm_size b) + 63) div 64"
        using wi bitmap_inv_length [OF inv] by linarith
      then show ?thesis using k by linarith
    qed
    with False show ?thesis
      using k idx by (auto simp: find_free_bits_def Let_def bit_simps bm_bit_def)
  qed
qed

text \<open>The first candidate of a word, as a position.\<close>

lemma first_candidate:
  assumes "fb \<noteq> 0" and "wi < 1024"
  defines "c \<equiv> wi * 64 + TrailingZeros64 fb"
  shows "c div 64 = wi" "c mod 64 = TrailingZeros64 fb" "bit fb (c mod 64)" "c < 65536"
    and "\<And>k. bit fb k \<Longrightarrow> c \<le> wi * 64 + k"
  using TrailingZeros64_least [OF assms(1)] assms(2)
  by (auto simp: c_def not_less [symmetric])

lemma find_bits_step:
  fixes wi :: nat
  assumes "fb \<noteq> 0"
  defines "c \<equiv> wi * 64 + TrailingZeros64 fb"
  shows "find_bits b n wi fb =
     (if of_nat c + n > bm_size b then Inr (Some None)
      else go_bind (find_ok (bm_bits b) (of_nat c) (of_nat c + n - 1) (unat (of_nat c div 64 :: u16)))
        (\<lambda>ok. if ok then Inr (Some (Some (of_nat c)))
          else find_bits b n wi (fb AND NOT (push_bit (TrailingZeros64 fb) 1))))"
  unfolding c_def by (subst find_bits.simps) (simp only: Let_def assms(1) if_False)

text \<open>
  The loop over one word, in the three situations that the outer loop meets: the word holds the
  first fitting position; every candidate of the word ends inside the bitmap but none fits; no
  candidate fits and the 16-bit sum cannot wrap.
\<close>

definition accepted :: "Bitmap \<Rightarrow> u16 \<Rightarrow> nat \<Rightarrow> bool" where
  "accepted b n p \<longleftrightarrow> p < unat (bm_size b) \<and> p \<notin> used b \<and> \<not> of_nat p + n > bm_size b
     \<and> find_ok (bm_bits b) (of_nat p) (of_nat p + n - 1) (unat (of_nat p div 64 :: u16)) = Inr True"

text \<open>A candidate that ends inside the bitmap and does not fit is passed over.\<close>

definition passed :: "Bitmap \<Rightarrow> u16 \<Rightarrow> nat \<Rightarrow> bool" where
  "passed b n q \<longleftrightarrow> q + unat n \<le> unat (bm_size b) \<and> \<not> fits b (unat n) q"

lemma find_bits_found:
  assumes inv: "bitmap_inv b" and n: "n \<noteq> 0" and wi: "wi < 1024" and p: "p div 64 = wi" "accepted b n p"
  shows "bit fb (p mod 64) \<Longrightarrow> (\<And>k. bit fb k \<Longrightarrow> wi * 64 + k < p \<Longrightarrow> passed b n (wi * 64 + k)) \<Longrightarrow>
     find_bits b n wi fb = Inr (Some (Some (of_nat p)))"
proof (induction "unat fb" arbitrary: fb rule: less_induct)
  case less
  have fb: "fb \<noteq> 0" using less.prems(1) by auto
  define c where "c = wi * 64 + TrailingZeros64 fb"
  note c = first_candidate [OF fb wi, folded c_def]
  have pc: "wi * 64 + p mod 64 = p" using p(1) by (metis div_mult_mod_eq)
  then have cp: "c \<le> p" using c(5) [OF less.prems(1)] by simp
  show ?case
  proof (cases "c = p")
    case True
    then show ?thesis
      unfolding find_bits_step [OF fb, where wi = wi, folded c_def] using p(2) by (simp only: accepted_def go_bind_simps if_True if_False)
  next
    case False
    then have nf: "c + unat n \<le> unat (bm_size b)" "\<not> fits b (unat n) c"
      using less.prems(2) [of "c mod 64"] c cp by (simp_all add: c_def passed_def)
    note ok = find_ok_fits [OF inv n nf(1)]
    let ?fb = "fb AND NOT (push_bit (TrailingZeros64 fb) 1)"
    have "find_bits b n wi ?fb = Inr (Some (Some (of_nat p)))"
    proof (rule less.hyps)
      show "unat ?fb < unat fb" using c by (intro clear_bit_less) simp
      show "bit ?fb (p mod 64)"
        using less.prems(1) False pc c(2) by (auto simp: bit_simps c_def)
      show "passed b n (wi * 64 + k)" if "bit ?fb k" "wi * 64 + k < p" for k
        using that less.prems(2) by (auto simp: bit_simps)
    qed
    then show ?thesis
      unfolding find_bits_step [OF fb, where wi = wi, folded c_def] using ok nf by (simp only: go_bind_simps if_False)
  qed
qed

lemma find_bits_skip:
  assumes inv: "bitmap_inv b" and n: "n \<noteq> 0" and wi: "wi < 1024"
  shows "(\<And>k. bit fb k \<Longrightarrow> passed b n (wi * 64 + k)) \<Longrightarrow> find_bits b n wi fb = Inr None"
proof (induction "unat fb" arbitrary: fb rule: less_induct)
  case less
  show ?case
  proof (cases "fb = 0")
    case True
    then show ?thesis by (subst find_bits.simps) simp
  next
    case False
    define c where "c = wi * 64 + TrailingZeros64 fb"
    note c = first_candidate [OF False wi, folded c_def]
    have fit: "c + unat n \<le> unat (bm_size b)" "\<not> fits b (unat n) c"
      using less.prems [of "c mod 64"] c by (simp_all add: c_def passed_def)
    let ?fb = "fb AND NOT (push_bit (TrailingZeros64 fb) 1)"
    have "find_bits b n wi ?fb = Inr None"
    proof (rule less.hyps)
      show "unat ?fb < unat fb" using c by (intro clear_bit_less) simp
    qed (use less.prems in \<open>auto simp: bit_simps\<close>)
    then show ?thesis
      unfolding find_bits_step [OF False, where wi = wi, folded c_def]
      using find_ok_fits [OF inv n fit(1)] fit(2) by (simp only: go_bind_simps if_False)
  qed
qed

lemma find_bits_none:
  assumes inv: "bitmap_inv b" and n: "n \<noteq> 0" and wi: "wi < 1024"
    and wrap: "unat (bm_size b) + unat n \<le> 65536"
  shows "(\<And>k. bit fb k \<Longrightarrow> wi * 64 + k < unat (bm_size b)
       \<and> \<not> fits b (unat n) (wi * 64 + k)) \<Longrightarrow>
     find_bits b n wi fb = Inr None \<or> find_bits b n wi fb = Inr (Some None)"
proof (induction "unat fb" arbitrary: fb rule: less_induct)
  case less
  show ?case
  proof (cases "fb = 0")
    case True
    then show ?thesis by (subst (1) find_bits.simps) simp
  next
    case False
    define c where "c = wi * 64 + TrailingZeros64 fb"
    note c = first_candidate [OF False wi, folded c_def]
    have cs: "c < unat (bm_size b)" "\<not> fits b (unat n) c"
      using less.prems [of "c mod 64"] c by (simp_all add: c_def)
    let ?fb = "fb AND NOT (push_bit (TrailingZeros64 fb) 1)"
    show ?thesis
    proof (cases "c + unat n \<le> unat (bm_size b)")
      case True
      have "find_bits b n wi ?fb = Inr None \<or> find_bits b n wi ?fb = Inr (Some None)"
      proof (rule less.hyps)
        show "unat ?fb < unat fb" using c by (intro clear_bit_less) simp
      qed (use less.prems in \<open>auto simp: bit_simps\<close>)
      moreover have "find_bits b n wi fb = find_bits b n wi ?fb"
        unfolding find_bits_step [OF \<open>fb \<noteq> 0\<close>, where wi = wi, folded c_def]
        using find_ok_fits [OF inv n True] cs(2) by (simp only: go_bind_simps if_False)
      ultimately show ?thesis by simp
    next
      case False
      have "unat (of_nat c + n :: u16) = c + unat n"
        using cs(1) wrap c(4) by (simp add: unat_word_ariths unat_of_nat_u16)
      then have "of_nat c + n > bm_size b" using False by (simp add: word_less_nat_alt)
      then show ?thesis
        unfolding find_bits_step [OF \<open>fb \<noteq> 0\<close>, where wi = wi, folded c_def] by simp
    qed
  qed
qed

section \<open>First fit\<close>

lemma bitmap_words_bound: "bitmap_inv b \<Longrightarrow> wi < length (bm_bits b) \<Longrightarrow> wi < 1024"
  using unat_u16_bound' [of "bm_size b"] unfolding bitmap_inv_length by linarith

lemma free_bits_zero:
  assumes "bitmap_inv b" "wi < length (bm_bits b)" "NOT (bm_bits b ! wi) = 0" "k < 64"
  shows "bm_bit b (wi * 64 + k)"
proof -
  have "bit (NOT (NOT (bm_bits b ! wi))) k" using assms(3,4) by (simp add: bit_simps)
  then show ?thesis using assms(4) by (simp add: bm_bit_def)
qed

lemma bit_u64: "bit (w :: u64) k \<Longrightarrow> k < 64"
  using bit_imp_le_length [of w k] by simp

lemma find_words_found:
  assumes inv: "bitmap_inv b" and n: "n \<noteq> 0" and p: "accepted b n p"
    and least: "\<And>q. q < p \<Longrightarrow> q \<notin> used b \<Longrightarrow> passed b n q"
  shows "wi \<le> p div 64 \<Longrightarrow> find_words b n wi = Inr (Some (of_nat p))"
proof (induction "p div 64 - wi" arbitrary: wi)
  case 0
  then have wi: "p div 64 = wi" by simp
  have pu: "p < unat (bm_size b)" "p \<notin> used b" using p by (auto simp: accepted_def)
  have wl: "wi < length (bm_bits b)" using bitmap_inv_index [OF inv pu(1)] wi by simp
  have pp: "wi * 64 + p mod 64 = p" using wi by (metis div_mult_mod_eq)
  have nz: "NOT (bm_bits b ! wi) \<noteq> 0"
    using free_bits_zero [OF inv wl, of "p mod 64"] pu pp by (auto simp: used_def)
  have "find_bits b n wi (find_free_bits b wi) = Inr (Some (Some (of_nat p)))"
  proof (rule find_bits_found [OF inv n bitmap_words_bound [OF inv wl] wi p])
    show "bit (find_free_bits b wi) (p mod 64)"
      using bit_find_free_bits [OF inv wl, of "p mod 64"] pu pp by (auto simp: used_def)
    fix k assume "bit (find_free_bits b wi) k" "wi * 64 + k < p"
    then show "passed b n (wi * 64 + k)" using bit_find_free_bits [OF inv wl bit_u64] least by (auto simp: used_def)
  qed
  with nz wl show ?case by (subst find_words.simps) simp
next
  case (Suc d)
  then have lt: "wi < p div 64" by simp
  have IH: "find_words b n (Suc wi) = Inr (Some (of_nat p))"
    using Suc lt by (intro Suc.hyps(1)) auto
  have "p < unat (bm_size b)" using p by (auto simp: accepted_def)
  then have wl: "wi < length (bm_bits b)" using bitmap_inv_index [OF inv, of p] lt by linarith
  have "find_bits b n wi (find_free_bits b wi) = Inr None"
  proof (rule find_bits_skip [OF inv n bitmap_words_bound [OF inv wl]])
    fix k assume k: "bit (find_free_bits b wi) k"
    then have "wi * 64 + k < p" using lt bit_u64 [of "find_free_bits b wi" k] by linarith
    then show "passed b n (wi * 64 + k)" using bit_find_free_bits [OF inv wl bit_u64] k least by (auto simp: used_def)
  qed
  with IH wl show ?case by (subst find_words.simps) simp
qed

lemma fits_accepted:
  assumes inv: "bitmap_inv b" and n: "n \<noteq> 0" and p: "fits b (unat n) p"
  shows "accepted b n p"
proof -
  have "unat n \<ge> 1" using n by (simp add: unat_gt_0 Suc_leI)
  then have "p < unat (bm_size b)" "p \<notin> used b" using p by (auto simp: fits_def)
  moreover have "p + unat n \<le> unat (bm_size b)" using p by (simp add: fits_def)
  note find_ok_fits [OF inv n this]
  ultimately show ?thesis using p by (simp add: accepted_def)
qed

lemma find_words_none:
  assumes inv: "bitmap_inv b" and n: "n \<noteq> 0" and none: "\<And>p. \<not> fits b (unat n) p"
    and wrap: "unat (bm_size b) + unat n \<le> 65536"
  shows "find_words b n wi = Inr None"
proof (induction "length (bm_bits b) - wi" arbitrary: wi)
  case 0
  then show ?case by (subst find_words.simps) simp
next
  case (Suc d)
  then have wl: "wi < length (bm_bits b)" by simp
  have IH: "find_words b n (Suc wi) = Inr None" using Suc by (intro Suc.hyps(1)) auto
  have "find_bits b n wi (find_free_bits b wi) = Inr None \<or>
      find_bits b n wi (find_free_bits b wi) = Inr (Some None)"
  proof (rule find_bits_none [OF inv n bitmap_words_bound [OF inv wl] wrap])
    fix k assume "bit (find_free_bits b wi) k"
    then show "wi * 64 + k < unat (bm_size b) \<and> \<not> fits b (unat n) (wi * 64 + k)"
      using bit_find_free_bits [OF inv wl bit_u64] none by blast
  qed
  with IH wl show ?case by (subst find_words.simps) auto
qed

text \<open>
  The reference: scan the start positions in order and take the first that fits.
\<close>

definition first_fit :: "Bitmap \<Rightarrow> nat \<Rightarrow> nat option" where
  "first_fit b n = (if n = 0 then None else find (fits b n) [0..<unat (bm_size b)])"

lemma first_fit_Some_iff:
  "first_fit b n = Some p \<longleftrightarrow> n \<noteq> 0 \<and> fits b n p \<and> (\<forall>q < p. \<not> fits b n q)"
proof (cases "n = 0")
  case False
  have "fits b n p \<Longrightarrow> p < unat (bm_size b)" using False by (auto simp: fits_def)
  with False show ?thesis
    by (auto simp: first_fit_def find_Some_iff intro!: exI [of _ p])
qed (simp add: first_fit_def)

lemma first_fit_None_iff: "first_fit b n = None \<longleftrightarrow> n = 0 \<or> (\<forall>p. \<not> fits b n p)"
proof (cases "n = 0")
  case False
  have "fits b n p \<Longrightarrow> p < unat (bm_size b)" for p using False by (auto simp: fits_def)
  with False show ?thesis by (auto simp: first_fit_def find_None_iff)
qed (simp add: first_fit_def)

lemma FindContiguous_guard:
  assumes "bitmap_inv b" and "fits b (unat n) p" and "n \<noteq> 0"
  shows "FindContiguous b n = find_words b n 0"
proof -
  have "unat n \<le> unat (bm_size b)" using assms(2) by (simp add: fits_def)
  moreover have "unat n \<noteq> 0" using assms(3) by (simp add: unat_eq_0)
  ultimately have "length (bm_bits b) \<noteq> 0" "\<not> n > bm_size b"
    using bitmap_inv_length [OF assms(1)] by (auto simp: word_nat_alt)
  then show ?thesis using assms(3) by (simp add: FindContiguous_def)
qed

text \<open>If a run exists, the search returns the first one, whatever the sizes.\<close>

lemma FindContiguous_found:
  assumes inv: "bitmap_inv b" and "first_fit b (unat n) = Some p"
  shows "FindContiguous b n = Inr (Some (of_nat p))"
proof -
  from assms(2) have p: "unat n \<noteq> 0" "fits b (unat n) p" "\<And>q. q < p \<Longrightarrow> \<not> fits b (unat n) q"
    by (auto simp: first_fit_Some_iff)
  then have n: "n \<noteq> 0" by auto
  have "passed b n q" if "q < p" for q
    using p(2) p(3) [OF that] that by (simp add: passed_def fits_def)
  then show ?thesis
    unfolding FindContiguous_guard [OF inv p(2) n]
    by (intro find_words_found [OF inv n fits_accepted [OF inv n p(2)]]) auto
qed

text \<open>If none exists and the 16-bit end position cannot wrap, it reports that.\<close>

lemma FindContiguous_none:
  assumes inv: "bitmap_inv b" and "first_fit b (unat n) = None"
    and "unat (bm_size b) + unat n \<le> 65536"
  shows "FindContiguous b n = Inr None"
proof (cases "n = 0")
  case False
  then have "\<not> fits b (unat n) p" for p
    using assms(2) by (auto simp: first_fit_None_iff unat_eq_0)
  then have "find_words b n 0 = Inr None" by (rule find_words_none [OF inv False _ assms(3)])
  then show ?thesis by (simp add: FindContiguous_def)
qed (simp add: FindContiguous_def)

section \<open>When the 16-bit end position wraps\<close>

text \<open>\<open>p\<close> is the first free position of the bitmap.\<close>

definition first_free :: "Bitmap \<Rightarrow> nat \<Rightarrow> bool" where
  "first_free b p \<longleftrightarrow> p < unat (bm_size b) \<and> p \<notin> used b \<and> (\<forall>i < p. i \<in> used b)"

lemma find_words_first_free:
  assumes inv: "bitmap_inv b" and p: "first_free b p"
  shows "wi \<le> p div 64 \<Longrightarrow> find_words b n wi =
     go_bind (find_bits b n (p div 64) (find_free_bits b (p div 64))) (\<lambda>r. case r of
         None \<Rightarrow> find_words b n (Suc (p div 64)) | Some res \<Rightarrow> Inr res)"
proof (induction "p div 64 - wi" arbitrary: wi)
  case 0
  then have wi: "wi = p div 64" by simp
  have wl: "p div 64 < length (bm_bits b)"
    using bitmap_inv_index [OF inv] p by (simp add: first_free_def)
  have "NOT (bm_bits b ! (p div 64)) \<noteq> 0"
    using free_bits_zero [OF inv wl, of "p mod 64"] p by (auto simp: first_free_def used_def)
  with wl wi show ?case by (subst find_words.simps) simp
next
  case (Suc d)
  then have lt: "wi < p div 64" by simp
  have wl: "wi < length (bm_bits b)"
    using bitmap_inv_index [OF inv, of p] p lt by (simp add: first_free_def)
  have "NOT (bm_bits b ! wi) = 0"
  proof (rule bit_word_eqI)
    fix k assume "k < LENGTH(64)"
    then have "k < 64" by simp
    then have "wi * 64 + k < p" using lt by linarith
    then have "bm_bit b (wi * 64 + k)" using p by (simp add: first_free_def used_def)
    then show "bit (NOT (bm_bits b ! wi)) k = bit 0 k"
      using \<open>k < 64\<close> by (simp add: bm_bit_def bit_simps)
  qed
  with Suc wl lt show ?case by (subst find_words.simps) simp
qed

lemma first_free_trailing:
  assumes inv: "bitmap_inv b" and p: "first_free b p"
  shows "find_free_bits b (p div 64) \<noteq> 0"
    and "p div 64 * 64 + TrailingZeros64 (find_free_bits b (p div 64)) = p"
proof -
  let ?fb = "find_free_bits b (p div 64)"
  have wl: "p div 64 < length (bm_bits b)"
    using bitmap_inv_index [OF inv] p by (simp add: first_free_def)
  have bits: "bit ?fb k \<longleftrightarrow> p div 64 * 64 + k < unat (bm_size b) \<and> \<not> bm_bit b (p div 64 * 64 + k)"
    if "k < 64" for k using bit_find_free_bits [OF inv wl that] .
  have pb: "bit ?fb (p mod 64)" using bits [of "p mod 64"] p by (simp add: first_free_def used_def)
  then show nz: "?fb \<noteq> 0" by auto
  note tz = TrailingZeros64_least [OF nz]
  have "TrailingZeros64 ?fb \<le> p mod 64" using tz(3) pb not_less by blast
  moreover have "\<not> TrailingZeros64 ?fb < p mod 64"
  proof
    assume "TrailingZeros64 ?fb < p mod 64"
    then have "p div 64 * 64 + TrailingZeros64 ?fb < p" by (metis add_less_cancel_left div_mult_mod_eq)
    then show False using p bits [OF tz(1)] tz(2) by (simp add: first_free_def used_def)
  qed
  ultimately show "p div 64 * 64 + TrailingZeros64 ?fb = p" by (metis div_mult_mod_eq le_neq_implies_less)
qed

lemma wrapped_end:
  assumes "p < unat (bm_size b)" "n \<le> bm_size b" "65536 < p + unat n"
  defines "s \<equiv> of_nat p :: u16"
  shows "unat s = p" and "unat (s + n - 1) = p + unat n - 65537" and "\<not> s + n > bm_size b"
    and "Suc (p + unat n - 65537) < p"
proof -
  have "p \<le> 65535" using assms(1) unat_u16_bound' [of "bm_size b"] by linarith
  then have b: "p \<le> 65535" "unat n \<le> 65535" by simp_all
  then show s: "unat s = p" by (simp add: s_def unat_of_nat_u16)
  have sn: "unat (s + n) = p + unat n - 65536"
    using s b assms(3) by (simp add: unat_plus_if')
  have "1 \<le> s + n" using sn assms(3) by (simp add: word_le_nat_alt)
  then show "unat (s + n - 1) = p + unat n - 65537" using sn by (subst unat_sub) auto
  show "\<not> s + n > bm_size b" using sn assms(1,2) b by (simp add: word_nat_alt)
  show "Suc (p + unat n - 65537) < p" using assms(3) b by linarith
qed

text \<open>
  The first free position is so late that the requested run would end beyond position 65535.
  The sum \<^verbatim>\<open>startPos+size\<close> wraps below the size, so the quick check does not reject it, and the
  wrapped end position lies before the start: either no word is checked and the position is
  returned, or the mask of the single word is computed with a negative shift count.
\<close>

lemma find_ok_wrapped:
  assumes "p < unat (bm_size b)" "n \<le> bm_size b" "65536 < p + unat n"
  defines "s \<equiv> of_nat p :: u16"
  shows "find_ok (bm_bits b) s (s + n - 1) (unat (s div 64))
    = (if (p + unat n - 65537) div 64 = p div 64 then Inl NegativeShift else Inr True)"
proof -
  let ?e = "p + unat n - 65537"
  note w = wrapped_end [OF assms(1-3), folded s_def]
  show ?thesis
  proof (cases "?e div 64 = p div 64")
    case True
    then have "?e mod 64 + 1 < p mod 64"
      using w(4) by (metis Suc_eq_plus1 add_Suc_right div_mult_mod_eq nat_add_left_cancel_less)
    then have "find_mask s (s + n - 1) (p div 64) = Inl NegativeShift"
      using True w(1,2) by (simp add: find_mask_def Let_def)
    then show ?thesis using True w(1,2) by (subst find_ok.simps) simp
  next
    case False
    then have "?e div 64 < p div 64" using w(4) by (simp add: div_le_mono le_neq_implies_less)
    then show ?thesis using False w(1,2) by (subst find_ok.simps) simp
  qed
qed

text \<open>
  The same behind candidates that end inside the bitmap: the search returns a position from which
  the run would leave the bitmap.
\<close>

lemma FindContiguous_overrun:
  assumes inv: "bitmap_inv b" and p: "p < unat (bm_size b)" "p \<notin> used b" and n: "n \<le> bm_size b" "65536 < p + unat n"
    and w: "(p + unat n - 65537) div 64 \<noteq> p div 64" and before: "\<And>q. q < p \<Longrightarrow> q \<notin> used b \<Longrightarrow> passed b n q"
  shows "FindContiguous b n = Inr (Some (of_nat p))"
proof -
  have "p < 65536" using p(1) unat_u16_bound [of "bm_size b"] by linarith
  then have nz: "n \<noteq> 0" using n(2) by (cases "n = 0") auto
  have "accepted b n p"
    using p find_ok_wrapped [OF p(1) n] w wrapped_end(3) [OF p(1) n] by (simp add: accepted_def)
  then have "find_words b n 0 = Inr (Some (of_nat p))" by (rule find_words_found [OF inv nz]) (use before in auto)
  moreover have "length (bm_bits b) \<noteq> 0" using bitmap_inv_index [OF inv p(1)] by auto
  ultimately show ?thesis using n(1) nz by (simp add: FindContiguous_def not_less [symmetric])
qed

lemma FindContiguous_wrapped:
  assumes inv: "bitmap_inv b" and p: "first_free b p" and n: "n \<le> bm_size b" "65536 < p + unat n"
  shows "FindContiguous b n =
     (if (p + unat n - 65537) div 64 = p div 64 then Inl NegativeShift
      else Inr (Some (of_nat p)))"
proof -
  let ?s = "of_nat p :: u16" and ?e = "p + unat n - 65537"
  have pb: "p < unat (bm_size b)" using p by (simp add: first_free_def)
  note w = wrapped_end [OF pb n]
  have "p < 65536" using pb unat_u16_bound [of "bm_size b"] by linarith
  then have "n \<noteq> 0" using n(2) by (cases "n = 0") auto
  moreover have "length (bm_bits b) \<noteq> 0" using bitmap_inv_index [OF inv pb] by auto
  ultimately have "FindContiguous b n = find_words b n 0"
    using n(1) by (simp add: FindContiguous_def not_less [symmetric])
  also have "\<dots> = go_bind (find_ok (bm_bits b) ?s (?s + n - 1) (unat (?s div 64)))
      (\<lambda>ok. go_bind (if ok then Inr (Some (Some ?s)) else
        find_bits b n (p div 64) (find_free_bits b (p div 64) AND
          NOT (push_bit (TrailingZeros64 (find_free_bits b (p div 64))) 1)))
      (\<lambda>r. case r of None \<Rightarrow> find_words b n (Suc (p div 64)) | Some res \<Rightarrow> Inr res))"
    unfolding find_words_first_free [OF inv p, of 0 n, simplified]
      find_bits_step [OF first_free_trailing(1) [OF inv p]] first_free_trailing(2) [OF inv p]
      if_not_P [OF w(3)]
    by (simp add: go_bind_def split: sum.split)
  also have "\<dots> = (if ?e div 64 = p div 64 then Inl NegativeShift else Inr (Some ?s))"
    unfolding find_ok_wrapped [OF pb n] by simp
  finally show ?thesis .
qed

section \<open>The free map as an interface\<close>

text \<open>
  What a plane relies on: a finite map of used positions with range updates, a count and a
  first-fit search.  The lemmas about reserving and releasing a block are proved once from
  these laws.
\<close>

locale free_map =
  fixes wf :: "'m \<Rightarrow> bool" and cap :: "'m \<Rightarrow> nat" and occ :: "'m \<Rightarrow> nat set"
    and reserve_range :: "'m \<Rightarrow> u16 \<Rightarrow> u16 \<Rightarrow> 'm"
    and release_range :: "'m \<Rightarrow> u16 \<Rightarrow> u16 \<Rightarrow> 'm"
    and free_count :: "'m \<Rightarrow> u16"
  assumes occ_cap: "occ m \<subseteq> {..<cap m}"
    and cap_bound: "cap m \<le> 65535"
    and wf_reserve: "wf m \<Longrightarrow> wf (reserve_range m i e)"
    and cap_reserve: "cap (reserve_range m i e) = cap m"
    and occ_reserve: "wf m \<Longrightarrow> occ (reserve_range m i e) = occ m \<union> ({unat i..<unat e} \<inter> {..<cap m})"
    and wf_release: "wf m \<Longrightarrow> wf (release_range m i e)"
    and cap_release: "cap (release_range m i e) = cap m"
    and occ_release: "wf m \<Longrightarrow> occ (release_range m i e) = occ m - {unat i..<unat e}"
    and free_count: "wf m \<Longrightarrow> unat (free_count m) = cap m - card (occ m)"
    and ext: "wf m \<Longrightarrow> wf m' \<Longrightarrow> cap m = cap m' \<Longrightarrow> occ m = occ m' \<Longrightarrow> m = m'"
begin

lemma block_end:
  assumes "unat z + unat n \<le> cap m"
  shows "unat (z + n :: u16) = unat z + unat n"
  using assms cap_bound [of m] by (simp add: unat_plus_if')

lemma occ_reserve_block:
  assumes "wf m" "unat z + unat n \<le> cap m"
  shows "occ (reserve_range m z (z + n)) = occ m \<union> {unat z..<unat z + unat n}"
  using assms by (auto simp: occ_reserve block_end)

lemma finite_occ: "finite (occ m)"
  using finite_subset [OF occ_cap] by simp

lemma free_count_reserve_block:
  assumes "wf m" "unat z + unat n \<le> cap m" "{unat z..<unat z + unat n} \<inter> occ m = {}"
  shows "unat (free_count (reserve_range m z (z + n))) + unat n = unat (free_count m)"
proof -
  have "card (occ m \<union> {unat z..<unat z + unat n}) = card (occ m) + unat n"
    using assms(3) by (subst card_Un_disjoint) (auto simp: finite_occ)
  moreover have "occ m \<union> {unat z..<unat z + unat n} \<subseteq> {..<cap m}"
    using occ_cap [of m] assms(2) by auto
  then have "card (occ m \<union> {unat z..<unat z + unat n}) \<le> cap m"
    using card_mono [of "{..<cap m}"] by fastforce
  ultimately show ?thesis
    using assms by (simp add: free_count wf_reserve cap_reserve occ_reserve_block)
qed

lemma free_count_release_block:
  assumes "wf m" "unat z + unat n \<le> cap m" "{unat z..<unat z + unat n} \<subseteq> occ m"
  shows "unat (free_count (release_range m z (z + n))) = unat (free_count m) + unat n"
proof -
  have "card (occ m - {unat z..<unat z + unat n}) = card (occ m) - unat n"
    using assms(3) by (subst card_Diff_subset) auto
  moreover have "card {unat z..<unat z + unat n} \<le> card (occ m)"
    using assms(3) by (intro card_mono finite_occ)
  moreover have "card (occ m) \<le> cap m"
    using card_mono [OF _ occ_cap, of m] by simp
  ultimately show ?thesis
    using assms by (simp add: free_count wf_release cap_release occ_release block_end)
qed

lemma release_reserve_block:
  assumes "wf m" "unat z + unat n \<le> cap m" "{unat z..<unat z + unat n} \<inter> occ m = {}"
  shows "release_range (reserve_range m z (z + n)) z (z + n) = m"
proof (rule ext)
  show "occ (release_range (reserve_range m z (z + n)) z (z + n)) = occ m"
    using assms by (auto simp: occ_release wf_reserve occ_reserve_block block_end)
qed (use assms in \<open>simp_all add: wf_release wf_reserve cap_release cap_reserve\<close>)

end

interpretation fm: free_map bitmap_inv "\<lambda>b. unat (bm_size b)" used
    Bitmap_SetRange Bitmap_ClearRange Bitmap_FreeBytes
  by unfold_locales
    (auto simp: used_bound SetRange_inv used_SetRange ClearRange_inv used_ClearRange FreeBytes_card
      intro: bitmap_eqI unsigned_word_eqI)

lemma fits_prefix:
  assumes "used b = {..<k}" and "0 < n"
  shows "fits b n p \<longleftrightarrow> k \<le> p \<and> p + n \<le> unat (bm_size b)"
proof
  assume f: "fits b n p"
  then have "p \<notin> used b" using assms(2) by (simp add: fits_def)
  with f show "k \<le> p \<and> p + n \<le> unat (bm_size b)" by (simp add: assms(1) fits_def)
qed (auto simp: fits_def assms(1))

section \<open>Properties\<close>

text \<open>
  C26.  \<^verbatim>\<open>FindContiguous\<close> is first fit: whenever a free run of the requested length exists it
  returns the lowest start of one, for every bitmap size; and when none exists it reports that,
  provided the sum of bitmap size and request stays within the 16-bit range.
\<close>

theorem FindContiguous_is_first_fit:
  assumes "bitmap_inv b"
    and "first_fit b (unat n) \<noteq> None \<or> unat (bm_size b) + unat n \<le> 65536"
  shows "FindContiguous b n = Inr (map_option of_nat (first_fit b (unat n)))"
  using assms FindContiguous_found [OF assms(1)] FindContiguous_none [OF assms(1)]
  by (cases "first_fit b (unat n)") auto

theorem FindContiguous_is_first_fit_witness:
  "FindContiguous (Bitmap_SetRange (NewBitmap 10) 0 8) 2 = Inr (Some 8)
   \<and> FindContiguous (Bitmap_SetRange (NewBitmap 10) 0 8) 3 = Inr None"
proof -
  let ?b = "Bitmap_SetRange (NewBitmap 10) 0 8"
  have inv: "bitmap_inv ?b" by (simp add: SetRange_inv NewBitmap_inv)
  have u: "used ?b = {..<8}" by (auto simp: used_SetRange NewBitmap_inv)
  have "first_fit ?b 2 = Some 8" by (simp add: first_fit_Some_iff fits_prefix [OF u])
  moreover have "first_fit ?b 3 = None" by (auto simp: first_fit_None_iff fits_prefix [OF u])
  ultimately show ?thesis
    using FindContiguous_is_first_fit [OF inv, of 2] FindContiguous_is_first_fit [OF inv, of 3] by simp
qed

text \<open>
  C27.  A bitmap implements a set of positions below its size: the single-bit and range
  operations, the test and the two counters act on the set of used positions as expected, and
  every operation keeps the representation invariant.
\<close>

theorem bitmap_refines_set:
  assumes "bitmap_inv b"
  shows "bitmap_inv (Bitmap_Set b i) \<and> bitmap_inv (Bitmap_Clear b i)
    \<and> bitmap_inv (Bitmap_SetRange b i j) \<and> bitmap_inv (Bitmap_ClearRange b i j)
    \<and> used (Bitmap_Set b i) = used b \<union> ({unat i} \<inter> {..<unat (bm_size b)})
    \<and> used (Bitmap_Clear b i) = used b - {unat i}
    \<and> used (Bitmap_SetRange b i j) = used b \<union> ({unat i..<unat j} \<inter> {..<unat (bm_size b)})
    \<and> used (Bitmap_ClearRange b i j) = used b - {unat i..<unat j}
    \<and> (Bitmap_IsSet b i \<longleftrightarrow> unat i \<in> used b)
    \<and> unat (Bitmap_UsedBytes b) = card (used b)
    \<and> unat (Bitmap_FreeBytes b) + card (used b) = unat (bm_size b)"
  using assms card_used_le [of b]
  by (simp add: Bitmap_Set_inv Bitmap_Clear_inv SetRange_inv ClearRange_inv used_Set used_Clear
      used_SetRange used_ClearRange IsSet_used UsedBytes_card FreeBytes_card)

theorem bitmap_refines_set_witness:
  "used (Bitmap_SetRange (NewBitmap 64) 3 5) = {3..<5}"
proof -
  have "used (Bitmap_SetRange (NewBitmap 64) 3 5) =
      used (NewBitmap 64) \<union> ({unat (3 :: u16)..<unat (5 :: u16)} \<inter> {..<unat (bm_size (NewBitmap 64))})"
    using bitmap_refines_set [OF NewBitmap_inv, of 64 3 5] by blast
  also have "\<dots> = {3..<5}" by (auto simp del: atLeastLessThan_iff simp: atLeastLessThan_def)
  finally show ?thesis .
qed

text \<open>
  The defect of the search.  If the first free position is so late that the request would
  end beyond position 65535, the 16-bit end position wraps below the size of the bitmap.  The
  search then does not report failure: it panics with a negative shift when the wrapped end lies
  in the word of the start, and otherwise returns the position although no run of that length
  exists.
\<close>

theorem FindContiguous_wraps:
  assumes "bitmap_inv b" "first_free b p" "n \<le> bm_size b" "65536 < p + unat n"
  shows "first_fit b (unat n) = None \<and>
     FindContiguous b n =
       (if (p + unat n - 65537) div 64 = p div 64 then Inl NegativeShift
        else Inr (Some (of_nat p)))"
proof
  have "\<not> fits b (unat n) q" for q
  proof
    assume f: "fits b (unat n) q"
    have "q + unat n < 65536"
      using f unat_u16_bound [of "bm_size b"] unfolding fits_def by linarith
    then have "q < p" using assms(4) by linarith
    then have "q \<in> used b" using assms(2) by (simp add: first_free_def)
    moreover have "0 < unat n" using \<open>q < p\<close> assms(3,4) assms(2) unat_u16_bound' [of "bm_size b"]
      unfolding first_free_def by linarith
    ultimately show False using f by (simp add: fits_def)
  qed
  then show "first_fit b (unat n) = None" by (simp add: first_fit_None_iff)
  show "FindContiguous b n =
       (if (p + unat n - 65537) div 64 = p div 64 then Inl NegativeShift
        else Inr (Some (of_nat p)))"
    by (rule FindContiguous_wrapped [OF assms])
qed

theorem FindContiguous_wraps_witness:
  "FindContiguous (Bitmap_SetRange (NewBitmap 65535) 0 40000) 30000 = Inr (Some 40000)
   \<and> FindContiguous (Bitmap_SetRange (NewBitmap 65535) 0 10) 65535 = Inl NegativeShift"
proof -
  have inv: "bitmap_inv (Bitmap_SetRange (NewBitmap 65535) 0 k)" for k
    by (simp add: SetRange_inv NewBitmap_inv)
  have u: "used (Bitmap_SetRange (NewBitmap 65535) 0 40000) = {..<40000}"
      "used (Bitmap_SetRange (NewBitmap 65535) 0 10) = {..<10}"
    by (auto simp: used_SetRange NewBitmap_inv)
  have ff: "first_free (Bitmap_SetRange (NewBitmap 65535) 0 40000) 40000"
      "first_free (Bitmap_SetRange (NewBitmap 65535) 0 10) 10"
    by (simp_all add: first_free_def u)
  show ?thesis
    using FindContiguous_wraps [OF inv ff(1), of 30000] FindContiguous_wraps [OF inv ff(2), of 65535]
    by simp
qed

end
