(* ===== verification/Allocation.thy ===== *)
theory Allocation
  imports Address Complex_Main
begin

text \<open>
  \<^verbatim>\<open>internal/types/allocation.go\<close> with the region types and flag bits it refers to.  Go passes
  allocations by pointer; the model passes them by value.  The fields that the code changes after
  an allocation is published (\<^verbatim>\<open>LastUsed\<close>, \<^verbatim>\<open>AccessCount\<close>, \<^verbatim>\<open>GasUsed\<close> and, by relocation,
  \<^verbatim>\<open>Address\<close>) are read through the memory manager's pointer only, so the copy that a plane keeps
  is consulted just for its identifier, size, flags and fragments, which never change.  The
  field \<^verbatim>\<open>Next\<close> is never read or written by the program and has no counterpart here.  A reading
  of the clock is an argument.
\<close>

type_synonym RegionType = u8
type_synonym AllocationFlags = u8

definition RegionTypeInvalid :: RegionType where "RegionTypeInvalid = 0"
definition RegionTypeVMControl :: RegionType where "RegionTypeVMControl = 1"
definition RegionTypeCode :: RegionType where "RegionTypeCode = 2"
definition RegionTypeState :: RegionType where "RegionTypeState = 3"
definition RegionTypeHeap :: RegionType where "RegionTypeHeap = 4"
definition RegionTypeStack :: RegionType where "RegionTypeStack = 5"
definition RegionTypeShared :: RegionType where "RegionTypeShared = 6"
definition RegionTypeTransient :: RegionType where "RegionTypeTransient = 7"

definition FlagContiguous :: AllocationFlags where "FlagContiguous = 1"
definition FlagShared :: AllocationFlags where "FlagShared = 2"
definition FlagPinned :: AllocationFlags where "FlagPinned = 4"
definition FlagExecutable :: AllocationFlags where "FlagExecutable = 8"
definition FlagAtomic :: AllocationFlags where "FlagAtomic = 16"

record Fragment =
  frag_PlaneID :: u32
  frag_StartZ :: u16
  frag_Size :: u16
  frag_IsFirst :: bool

record Allocation =
  alloc_ID :: u64
  alloc_Address :: Address3D
  alloc_Size :: u32
  alloc_RegionType :: RegionType
  alloc_Flags :: AllocationFlags
  alloc_CreatedAt :: u64
  alloc_LastUsed :: u64
  alloc_AccessCount :: u64
  alloc_GasUsed :: u64
  alloc_Fragments :: "Fragment list"

definition NewAllocation :: "u64 \<Rightarrow> Address3D \<Rightarrow> u32 \<Rightarrow> RegionType \<Rightarrow> u64 \<Rightarrow> Allocation" where
  "NewAllocation ident addr sz regionType now =
     \<lparr>alloc_ID = ident, alloc_Address = addr, alloc_Size = sz, alloc_RegionType = regionType,
      alloc_Flags = 0, alloc_CreatedAt = now, alloc_LastUsed = now, alloc_AccessCount = 0,
      alloc_GasUsed = 0, alloc_Fragments = []\<rparr>"

definition AddFragment :: "Allocation \<Rightarrow> u32 \<Rightarrow> u16 \<Rightarrow> u16 \<Rightarrow> bool \<Rightarrow> Allocation" where
  "AddFragment a planeID startZ sz isFirst =
     a\<lparr>alloc_Fragments := alloc_Fragments a @
       [\<lparr>frag_PlaneID = planeID, frag_StartZ = startZ, frag_Size = sz, frag_IsFirst = isFirst\<rparr>]\<rparr>"

definition IsYPromoted :: "Allocation \<Rightarrow> bool" where
  "IsYPromoted a \<longleftrightarrow> length (alloc_Fragments a) > 1"

definition Allocation_UpdateAccess :: "Allocation \<Rightarrow> u64 \<Rightarrow> u64 \<Rightarrow> Allocation" where
  "Allocation_UpdateAccess a gasUsed now =
     a\<lparr>alloc_LastUsed := now, alloc_AccessCount := alloc_AccessCount a + 1,
       alloc_GasUsed := alloc_GasUsed a + gasUsed\<rparr>"

text \<open>
  \<^verbatim>\<open>GetHotnessScore\<close> with exact rationals for \<^verbatim>\<open>float64\<close>; the clock difference is the signed
  64-bit difference that Go computes.
\<close>

definition GetHotnessScore :: "Allocation \<Rightarrow> u64 \<Rightarrow> rat" where
  "GetHotnessScore a now =
     (let timeSinceAccess = of_int (sint (now - alloc_LastUsed a)) / 1000000000;
          decayFactor = 1 / 2;
          agePenalty = 1 / (1 + timeSinceAccess * decayFactor);
          freqComponent = of_nat (unat (alloc_AccessCount a)) / 1000
      in agePenalty * freqComponent)"

lemma Allocation_UpdateAccess_frame [simp]:
  "alloc_ID (Allocation_UpdateAccess a g t) = alloc_ID a"
  "alloc_Address (Allocation_UpdateAccess a g t) = alloc_Address a"
  "alloc_Size (Allocation_UpdateAccess a g t) = alloc_Size a"
  "alloc_Flags (Allocation_UpdateAccess a g t) = alloc_Flags a"
  "alloc_Fragments (Allocation_UpdateAccess a g t) = alloc_Fragments a"
  "IsYPromoted (Allocation_UpdateAccess a g t) = IsYPromoted a"
  by (simp_all add: Allocation_UpdateAccess_def IsYPromoted_def)

lemma NewAllocation_simps [simp]:
  "alloc_ID (NewAllocation i ad sz rt t) = i"
  "alloc_Address (NewAllocation i ad sz rt t) = ad"
  "alloc_Size (NewAllocation i ad sz rt t) = sz"
  "alloc_RegionType (NewAllocation i ad sz rt t) = rt"
  "alloc_Fragments (NewAllocation i ad sz rt t) = []"
  "\<not> IsYPromoted (NewAllocation i ad sz rt t)"
  by (simp_all add: NewAllocation_def IsYPromoted_def)

text \<open>The score never exceeds the access frequency once the clock has passed the last use.\<close>

lemma GetHotnessScore_bounds:
  assumes "0 \<le> sint (now - alloc_LastUsed a)"
  shows "0 \<le> GetHotnessScore a now"
    and "GetHotnessScore a now \<le> of_nat (unat (alloc_AccessCount a)) / 1000"
proof -
  define d where "d = sint (now - alloc_LastUsed a)"
  define t :: rat where "t = of_int d / 1000000000 * (1 / 2)"
  have t: "0 \<le> t" using assms by (simp add: t_def flip: d_def)
  define f :: rat where "f = of_nat (unat (alloc_AccessCount a)) / 1000"
  have f: "0 \<le> f" unfolding f_def by (intro divide_nonneg_nonneg of_nat_0_le_iff) simp
  have eq: "GetHotnessScore a now = 1 / (1 + t) * f"
    by (simp only: GetHotnessScore_def Let_def t_def d_def f_def)
  show "0 \<le> GetHotnessScore a now" using t f by (simp add: eq)
  have "1 / (1 + t) \<le> 1" using t by simp
  then show "GetHotnessScore a now \<le> of_nat (unat (alloc_AccessCount a)) / 1000"
    unfolding eq f_def [symmetric] by (rule mult_left_le_one_le [OF f, rotated]) (use t in auto)
qed

end
