(* ===== verification/Plane.thy ===== *)
theory Plane
  imports BitmapSearch Allocation
begin

text \<open>
  \<^verbatim>\<open>internal/types/plane.go\<close>: a plane holds its bytes, the bitmap of the bytes in use, and the
  allocations that start in it.  The mutex is not modelled: each method holds it for its whole
  body, so a call is one atomic step.
\<close>

section \<open>Planes and their operations\<close>

record Plane =
  plane_ID :: u32
  plane_RegionID :: u64
  plane_Data :: bytes
  plane_FreeMap :: Bitmap
  plane_Allocations :: "(u16, Allocation) gomap"
  plane_Size :: u16
  plane_AccessCount :: u64

definition NewPlane :: "u32 \<Rightarrow> u64 \<Rightarrow> u16 \<Rightarrow> Plane" where
  "NewPlane ident regionID sz0 =
     (let sz = (if sz0 = 0 then 65535 else sz0)
      in \<lparr>plane_ID = ident, plane_RegionID = regionID, plane_Data = replicate (unat sz) 0,
          plane_FreeMap = NewBitmap sz, plane_Allocations = [], plane_Size = sz,
          plane_AccessCount = 0\<rparr>)"

definition Plane_Allocate :: "Plane \<Rightarrow> u16 \<Rightarrow> (Plane \<times> u16 option) go" where
  "Plane_Allocate p sz =
     go_bind (FindContiguous (plane_FreeMap p) sz) (\<lambda>r. case r of
         None \<Rightarrow> Inr (p, None)
       | Some start \<Rightarrow>
           Inr (p\<lparr>plane_FreeMap := Bitmap_SetRange (plane_FreeMap p) start (start + sz)\<rparr>,
                Some start))"

definition Plane_Free :: "Plane \<Rightarrow> u16 \<Rightarrow> Plane \<times> bool" where
  "Plane_Free p start =
     (case map_of (plane_Allocations p) start of
        None \<Rightarrow> (p, False)
      | Some alloc \<Rightarrow>
          (p\<lparr>plane_FreeMap :=
               Bitmap_ClearRange (plane_FreeMap p) start (start + ucast (alloc_Size alloc)),
             plane_Allocations := AList.delete start (plane_Allocations p)\<rparr>, True))"

text \<open>The test both lookup loops make for an entry of the allocation map.\<close>

definition entry_covers :: "u16 \<Rightarrow> u16 \<times> Allocation \<Rightarrow> bool" where
  "entry_covers pos e \<longleftrightarrow> pos \<ge> fst e \<and> pos < fst e + ucast (alloc_Size (snd e))"

definition Plane_IsAllocated :: "order \<Rightarrow> Plane \<Rightarrow> u16 \<Rightarrow> bool" where
  "Plane_IsAllocated ord p pos = list_ex (entry_covers pos) (range_over ord (plane_Allocations p))"

definition GetContainingAllocation :: "order \<Rightarrow> Plane \<Rightarrow> u16 \<Rightarrow> Allocation option" where
  "GetContainingAllocation ord p pos =
     map_option snd (find (entry_covers pos) (range_over ord (plane_Allocations p)))"

definition Plane_Fragmentation :: "Plane \<Rightarrow> rat" where
  "Plane_Fragmentation p = Bitmap_Fragmentation (plane_FreeMap p)"

definition Plane_FreeBytes :: "Plane \<Rightarrow> u16" where
  "Plane_FreeBytes p = Bitmap_FreeBytes (plane_FreeMap p)"

definition Plane_UsedBytes :: "Plane \<Rightarrow> u16" where
  "Plane_UsedBytes p = Bitmap_UsedBytes (plane_FreeMap p)"

text \<open>The statement \<^verbatim>\<open>plane.Allocations[startZ] = alloc\<close> of the callers.\<close>

definition Plane_record :: "Plane \<Rightarrow> u16 \<Rightarrow> Allocation \<Rightarrow> Plane" where
  "Plane_record p z alloc = p\<lparr>plane_Allocations := AList.update z alloc (plane_Allocations p)\<rparr>"

section \<open>Invariants\<close>

abbreviation plane_used :: "Plane \<Rightarrow> nat set" where
  "plane_used p \<equiv> used (plane_FreeMap p)"

text \<open>
  The bytes that an entry of the map stands for: the whole allocation, or for a Y-promoted one
  the first fragment, which is the only part that lies in this plane.
\<close>

definition entry_size :: "Allocation \<Rightarrow> nat" where
  "entry_size a = (if IsYPromoted a then unat (frag_Size (hd (alloc_Fragments a)))
                   else unat (alloc_Size a))"

definition block :: "u16 \<times> Allocation \<Rightarrow> nat set" where
  "block e = {unat (fst e)..<unat (fst e) + entry_size (snd e)}"

definition plane_wf :: "Plane \<Rightarrow> bool" where
  "plane_wf p \<longleftrightarrow> bitmap_inv (plane_FreeMap p) \<and> bm_size (plane_FreeMap p) = plane_Size p
     \<and> length (plane_Data p) = unat (plane_Size p) \<and> distinct (map fst (plane_Allocations p))"

text \<open>
  Safety: every recorded block is not empty, lies in the plane, is marked used, and no two
  recorded blocks overlap.
\<close>

definition plane_inv :: "Plane \<Rightarrow> bool" where
  "plane_inv p \<longleftrightarrow> plane_wf p
     \<and> (\<forall>e \<in> set (plane_Allocations p). block e \<noteq> {} \<and> block e \<subseteq> plane_used p)
     \<and> (\<forall>e \<in> set (plane_Allocations p). \<forall>f \<in> set (plane_Allocations p).
          fst e \<noteq> fst f \<longrightarrow> block e \<inter> block f = {})"

text \<open>No leak: every used byte belongs to a recorded block.\<close>

definition plane_exact :: "Plane \<Rightarrow> bool" where
  "plane_exact p \<longleftrightarrow> plane_used p = (\<Union>e \<in> set (plane_Allocations p). block e)"

text \<open>
  A plane in which the search is safe for every request up to its free bytes: it is at most half
  of the 16-bit range, or its used bytes form a prefix.
\<close>

definition plane_safe :: "Plane \<Rightarrow> bool" where
  "plane_safe p \<longleftrightarrow> unat (plane_Size p) \<le> 32768
     \<or> plane_used p = {..<unat (plane_Size p) - unat (Plane_FreeBytes p)}"

lemma plane_wfD:
  assumes "plane_wf p"
  shows "bitmap_inv (plane_FreeMap p)" "bm_size (plane_FreeMap p) = plane_Size p"
    "length (plane_Data p) = unat (plane_Size p)" "distinct (map fst (plane_Allocations p))"
  using assms by (auto simp: plane_wf_def)

lemma plane_invD:
  assumes "plane_inv p"
  shows "plane_wf p"
    and "\<And>e. e \<in> set (plane_Allocations p) \<Longrightarrow> block e \<noteq> {}"
    and "\<And>e. e \<in> set (plane_Allocations p) \<Longrightarrow> block e \<subseteq> plane_used p"
    and "\<And>e f. e \<in> set (plane_Allocations p) \<Longrightarrow> f \<in> set (plane_Allocations p) \<Longrightarrow>
      fst e \<noteq> fst f \<Longrightarrow> block e \<inter> block f = {}"
  using assms by (auto simp: plane_inv_def)

lemma NewPlane_inv: "plane_inv (NewPlane i rid sz)" "plane_exact (NewPlane i rid sz)"
  by (simp_all add: NewPlane_def plane_inv_def plane_exact_def plane_wf_def Let_def NewBitmap_inv)

lemma NewPlane_size [simp]: "plane_Size (NewPlane i rid sz) = (if sz = 0 then 65535 else sz)"
  by (simp add: NewPlane_def Let_def)

lemma NewPlane_ID [simp]: "plane_ID (NewPlane i rid sz) = i"
  by (simp add: NewPlane_def Let_def)

lemma unat_Plane_FreeBytes:
  "plane_wf p \<Longrightarrow> unat (Plane_FreeBytes p) = unat (plane_Size p) - card (plane_used p)"
  by (simp add: Plane_FreeBytes_def plane_wf_def FreeBytes_card)

lemma NewPlane_FreeBytes: "Plane_FreeBytes (NewPlane i rid sz) = plane_Size (NewPlane i rid sz)"
proof -
  have "plane_wf (NewPlane i rid sz)" using NewPlane_inv(1) by (rule plane_invD)
  moreover have "plane_used (NewPlane i rid sz) = {}" by (simp add: NewPlane_def Let_def)
  ultimately show ?thesis by (intro u16_eqI) (simp only: unat_Plane_FreeBytes card.empty)
qed

lemma NewPlane_safe: "plane_safe (NewPlane i rid sz)"
proof -
  have "plane_used (NewPlane i rid sz) = {}" by (simp add: NewPlane_def Let_def)
  then show ?thesis unfolding plane_safe_def NewPlane_FreeBytes by simp
qed

section \<open>Allocating\<close>

text \<open>The search is safe on such a plane: no panic, and the answer is the first fit.\<close>

lemma plane_safe_fit:
  assumes wf: "plane_wf p" and safe: "plane_safe p" and n: "0 < n" "n \<le> unat (Plane_FreeBytes p)"
  shows "unat (plane_Size p) + n \<le> 65536 \<or> (\<exists>z. first_fit (plane_FreeMap p) n = Some z)"
proof (cases "unat (plane_Size p) \<le> 32768")
  case True
  have "n \<le> unat (plane_Size p)" using n(2) unat_Plane_FreeBytes [OF wf] by linarith
  with True show ?thesis by linarith
next
  case False
  define k where "k = unat (plane_Size p) - unat (Plane_FreeBytes p)"
  have u: "plane_used p = {..<k}" using safe False by (simp add: plane_safe_def k_def)
  have "k + n \<le> unat (plane_Size p)"
    using n(2) unat_Plane_FreeBytes [OF wf] unfolding k_def by linarith
  then have "fits (plane_FreeMap p) n k"
    using plane_wfD(2) [OF wf] by (auto simp: fits_def u)
  then have "first_fit (plane_FreeMap p) n \<noteq> None"
    using n(1) by (auto simp: first_fit_None_iff)
  then show ?thesis by auto
qed

lemma Plane_Allocate_first_fit:
  assumes wf: "plane_wf p" and safe: "plane_safe p" and n: "0 < n" "n \<le> Plane_FreeBytes p"
  shows "Plane_Allocate p n =
     (case first_fit (plane_FreeMap p) (unat n) of
        None \<Rightarrow> Inr (p, None)
      | Some z \<Rightarrow> Inr (p\<lparr>plane_FreeMap := Bitmap_SetRange (plane_FreeMap p) (of_nat z) (of_nat z + n)\<rparr>,
                      Some (of_nat z)))"
proof -
  note inv = plane_wfD(1) [OF wf]
  have "0 < unat n" "unat n \<le> unat (Plane_FreeBytes p)"
    using n by (auto simp: word_nat_alt)
  note safe' = plane_safe_fit [OF wf safe this]
  show ?thesis
  proof (cases "first_fit (plane_FreeMap p) (unat n)")
    case None
    then show ?thesis
      using FindContiguous_none [OF inv None] safe' plane_wfD(2) [OF wf]
      by (simp add: Plane_Allocate_def)
  next
    case (Some z)
    then show ?thesis
      using FindContiguous_found [OF inv Some] by (simp add: Plane_Allocate_def)
  qed
qed

text \<open>What a successful allocation gives: a block that was free and is now used.\<close>

lemma Plane_Allocate_Some:
  assumes wf: "plane_wf p" and safe: "plane_safe p" and n: "0 < n" "n \<le> Plane_FreeBytes p"
    and res: "Plane_Allocate p n = Inr (p', Some z)"
  shows "unat z + unat n \<le> unat (plane_Size p)"
    and "{unat z..<unat z + unat n} \<inter> plane_used p = {}"
    and "\<forall>q < unat z. \<not> fits (plane_FreeMap p) (unat n) q"
    and "p' = p\<lparr>plane_FreeMap := Bitmap_SetRange (plane_FreeMap p) z (z + n)\<rparr>"
    and "plane_used p' = plane_used p \<union> {unat z..<unat z + unat n}"
    and "plane_wf p'"
    and "unat (Plane_FreeBytes p') + unat n = unat (Plane_FreeBytes p)"
proof -
  from res obtain k where k: "first_fit (plane_FreeMap p) (unat n) = Some k" "z = of_nat k"
    and p': "p' = p\<lparr>plane_FreeMap := Bitmap_SetRange (plane_FreeMap p) z (z + n)\<rparr>"
    unfolding Plane_Allocate_first_fit [OF wf safe n] by (auto split: option.splits)
  have ff: "unat n \<noteq> 0" "fits (plane_FreeMap p) (unat n) k"
      "\<forall>q < k. \<not> fits (plane_FreeMap p) (unat n) q"
    using k(1) by (auto simp: first_fit_Some_iff)
  note sz = plane_wfD(2) [OF wf]
  have "k + unat n \<le> unat (plane_Size p)" using ff(2) sz by (simp add: fits_def)
  then have "k < 65536" using unat_u16_bound [of "plane_Size p"] by linarith
  then have z: "unat z = k" using k(2) by (simp add: unat_of_nat_u16)
  show b: "unat z + unat n \<le> unat (plane_Size p)" and d: "{unat z..<unat z + unat n} \<inter> plane_used p = {}"
    and "\<forall>q < unat z. \<not> fits (plane_FreeMap p) (unat n) q"
    using ff z sz by (auto simp: fits_def)
  show "p' = p\<lparr>plane_FreeMap := Bitmap_SetRange (plane_FreeMap p) z (z + n)\<rparr>" by (rule p')
  show "plane_used p' = plane_used p \<union> {unat z..<unat z + unat n}"
    using fm.occ_reserve_block [OF plane_wfD(1) [OF wf]] b sz by (simp add: p')
  show "plane_wf p'" using wf by (simp add: p' plane_wf_def SetRange_inv)
  show "unat (Plane_FreeBytes p') + unat n = unat (Plane_FreeBytes p)"
    using fm.free_count_reserve_block [OF plane_wfD(1) [OF wf]] b d sz
    by (simp add: p' Plane_FreeBytes_def)
qed

lemma Plane_Allocate_None:
  assumes "Plane_Allocate p n = Inr (p', None)"
  shows "p' = p"
  using assms by (auto simp: Plane_Allocate_def go_bind_eq_Inr_iff split: option.splits)

lemma Plane_Allocate_no_panic:
  assumes "plane_wf p" "plane_safe p" "0 < n" "n \<le> Plane_FreeBytes p"
  shows "\<exists>p' r. Plane_Allocate p n = Inr (p', r)"
  using Plane_Allocate_first_fit [OF assms] by (auto split: option.splits)

lemma Plane_Allocate_frame:
  assumes "Plane_Allocate p n = Inr (p', r)"
  shows "plane_ID p' = plane_ID p" "plane_Size p' = plane_Size p"
    "plane_Data p' = plane_Data p" "plane_Allocations p' = plane_Allocations p"
    "plane_RegionID p' = plane_RegionID p"
proof -
  have "p' = p \<or> (\<exists>m. p' = p\<lparr>plane_FreeMap := m\<rparr>)"
    using assms unfolding Plane_Allocate_def go_bind_eq_Inr_iff
    by (elim exE conjE) (simp split: option.splits, blast)
  then show "plane_ID p' = plane_ID p" "plane_Size p' = plane_Size p"
    "plane_Data p' = plane_Data p" "plane_Allocations p' = plane_Allocations p"
    "plane_RegionID p' = plane_RegionID p"
    by (elim disjE exE; simp)+
qed

lemma first_fit_prefix:
  assumes "used b = {..<k}" "n \<noteq> 0" "k + n \<le> unat (bm_size b)"
    and "\<forall>q < z. \<not> fits b n q" "fits b n z"
  shows "z = k"
proof -
  have "fits b n k" using assms(1,3) by (auto simp: fits_def)
  then have "z \<le> k" using assms(4) by (meson not_le)
  moreover have "z \<notin> used b" using assms(2,5) by (simp add: fits_def)
  ultimately show ?thesis using assms(1) by simp
qed

lemma Plane_Allocate_safe:
  assumes wf: "plane_wf p" and safe: "plane_safe p" and n: "0 < n" "n \<le> Plane_FreeBytes p"
    and res: "Plane_Allocate p n = Inr (p', Some z)"
  shows "plane_safe p'"
proof (cases "unat (plane_Size p) \<le> 32768")
  case True
  then show ?thesis using Plane_Allocate_frame [OF res] by (simp add: plane_safe_def)
next
  case False
  note a = Plane_Allocate_Some [OF wf safe n res]
  define k where "k = unat (plane_Size p) - unat (Plane_FreeBytes p)"
  have u: "plane_used p = {..<k}" using safe False by (simp add: plane_safe_def k_def)
  have le: "unat n \<le> unat (Plane_FreeBytes p)" "unat (Plane_FreeBytes p) \<le> unat (plane_Size p)"
    using n(2) unat_Plane_FreeBytes [OF wf] by (auto simp: word_le_nat_alt)
  have z: "unat z = k"
  proof (rule first_fit_prefix [OF u])
    show "unat n \<noteq> 0" using n(1) by (simp add: unat_eq_0 word_gt_0)
    show "k + unat n \<le> unat (bm_size (plane_FreeMap p))"
      using le unfolding k_def plane_wfD(2) [OF wf] by linarith
    show "fits (plane_FreeMap p) (unat n) (unat z)"
      using a(1,2) plane_wfD(2) [OF wf] by (auto simp: fits_def)
  qed (rule a(3))
  have "plane_used p' = {..<k + unat n}" by (simp only: a(5) u z prefix_extend)
  moreover have "k + unat n = unat (plane_Size p') - unat (Plane_FreeBytes p')"
    using a(7) le unfolding Plane_Allocate_frame(2) [OF res] k_def by linarith
  ultimately show ?thesis by (simp add: plane_safe_def)
qed

text \<open>Recording the new block keeps the invariant.\<close>

lemma set_AList_update:
  "distinct (map fst al) \<Longrightarrow>
   set (AList.update k v al) = insert (k, v) {e \<in> set al. fst e \<noteq> k}"
proof (induction al)
  case (Cons e al)
  then show ?case by (cases e) (auto intro: rev_image_eqI)
qed simp

lemma set_AList_delete: "set (AList.delete k al) = {e \<in> set al. fst e \<noteq> k}"
  by (induction al) auto

lemma Plane_record_inv:
  assumes inv: "plane_inv p" and wf: "plane_wf p'"
    and fr: "plane_Allocations p' = plane_Allocations p"
    and u: "plane_used p' = plane_used p \<union> block (z, a)" "block (z, a) \<inter> plane_used p = {}"
    and ne: "block (z, a) \<noteq> {}"
  shows "plane_inv (Plane_record p' z a)"
    and "plane_exact p \<Longrightarrow> plane_exact (Plane_record p' z a)"
    and "map_of (plane_Allocations p) z = None"
proof -
  note d = plane_wfD(4) [OF wf]
  have old: "block e \<inter> block (z, a) = {}" if "e \<in> set (plane_Allocations p)" for e
    using plane_invD(3) [OF inv that] u(2) by blast
  have "fst e \<noteq> z" if e: "e \<in> set (plane_Allocations p)" for e
  proof
    assume "fst e = z"
    then have "unat z \<in> block e" using plane_invD(2) [OF inv e] by (auto simp: block_def)
    moreover have "unat z \<in> block (z, a)" using ne by (auto simp: block_def)
    ultimately show False using old [OF e] by blast
  qed
  then show "map_of (plane_Allocations p) z = None" by (force simp: map_of_eq_None_iff)
  have set: "set (plane_Allocations (Plane_record p' z a)) =
      insert (z, a) {e \<in> set (plane_Allocations p). fst e \<noteq> z}"
    using set_AList_update [OF d] by (simp add: Plane_record_def fr)
  have "plane_wf (Plane_record p' z a)"
    using wf by (simp add: plane_wf_def Plane_record_def distinct_update)
  moreover have "plane_used (Plane_record p' z a) = plane_used p'" by (simp add: Plane_record_def)
  moreover have "block (z, a) \<inter> block e = {}" if "e \<in> set (plane_Allocations p)" for e
    using old [OF that] by blast
  ultimately show "plane_inv (Plane_record p' z a)"
    using plane_invD [OF inv] old ne u(1) unfolding plane_inv_def set
    by (simp add: ball_simps) blast
  show "plane_exact (Plane_record p' z a)" if "plane_exact p"
    using that u(1) \<open>\<And>e. e \<in> _ \<Longrightarrow> fst e \<noteq> z\<close> unfolding plane_exact_def set
    by (auto simp: Plane_record_def)
qed

section \<open>Freeing and looking up\<close>

lemma Plane_Free_unknown:
  "map_of (plane_Allocations p) z = None \<Longrightarrow> Plane_Free p z = (p, False)"
  by (simp add: Plane_Free_def)

text \<open>The end that the code computes for an ordinary entry does not wrap.\<close>

lemma entry_end:
  assumes inv: "plane_inv p" and e: "(z, a) \<in> set (plane_Allocations p)" and np: "\<not> IsYPromoted a"
  shows "unat z + unat (alloc_Size a) \<le> unat (plane_Size p)"
    and "unat (ucast (alloc_Size a) :: u16) = unat (alloc_Size a)"
    and "unat (z + ucast (alloc_Size a)) = unat z + unat (alloc_Size a)"
    and "0 < unat (alloc_Size a)"
proof -
  have b: "block (z, a) = {unat z..<unat z + unat (alloc_Size a)}"
    using np by (simp add: block_def entry_size_def)
  show pos: "0 < unat (alloc_Size a)" using plane_invD(2) [OF inv e] b by auto
  have "unat z + unat (alloc_Size a) - 1 \<in> block (z, a)" using pos b by auto
  then have "unat z + unat (alloc_Size a) - 1 \<in> plane_used p"
    using plane_invD(3) [OF inv e] by blast
  then show le: "unat z + unat (alloc_Size a) \<le> unat (plane_Size p)"
    using used_bound [of _ "plane_FreeMap p"] plane_wfD(2) [OF plane_invD(1) [OF inv]] by fastforce
  have lt: "unat z + unat (alloc_Size a) < 65536"
    using le unat_u16_bound [of "plane_Size p"] by linarith
  then show u: "unat (ucast (alloc_Size a) :: u16) = unat (alloc_Size a)"
    by (intro unat_ucast_narrow) linarith
  show "unat (z + ucast (alloc_Size a)) = unat z + unat (alloc_Size a)"
    using lt by (simp add: unat_plus_if' u)
qed

lemma Plane_Free_inv:
  assumes inv: "plane_inv p" and e: "map_of (plane_Allocations p) z = Some a"
    and np: "\<not> IsYPromoted a"
  defines "p' \<equiv> fst (Plane_Free p z)"
  shows "snd (Plane_Free p z)"
    and "plane_used p' = plane_used p - block (z, a)"
    and "plane_inv p'"
    and "plane_exact p \<Longrightarrow> plane_exact p'"
    and "unat (Plane_FreeBytes p') = unat (Plane_FreeBytes p) + unat (alloc_Size a)"
    and "plane_Allocations p' = AList.delete z (plane_Allocations p)"
proof -
  note wf = plane_invD(1) [OF inv]
  note mem = map_of_SomeD [OF e]
  note en = entry_end [OF inv mem np]
  have b: "block (z, a) = {unat z..<unat z + unat (alloc_Size a)}"
    using np by (simp add: block_def entry_size_def)
  have p': "p' = p\<lparr>plane_FreeMap := Bitmap_ClearRange (plane_FreeMap p) z (z + ucast (alloc_Size a)),
      plane_Allocations := AList.delete z (plane_Allocations p)\<rparr>"
    using e by (simp add: p'_def Plane_Free_def)
  show "snd (Plane_Free p z)" using e by (simp add: Plane_Free_def)
  show "plane_Allocations p' = AList.delete z (plane_Allocations p)" by (simp add: p')
  show u: "plane_used p' = plane_used p - block (z, a)"
    using plane_wfD(1) [OF wf] by (simp add: p' used_ClearRange en b)
  have set: "set (plane_Allocations p') = {f \<in> set (plane_Allocations p). fst f \<noteq> z}"
    by (simp add: p' set_AList_delete)
  have wf': "plane_wf p'"
    using wf by (simp add: p' plane_wf_def ClearRange_inv distinct_delete)
  have dj: "block f \<inter> block (z, a) = {}" if "f \<in> set (plane_Allocations p)" "fst f \<noteq> z" for f
    using plane_invD(4) [OF inv that(1) mem] that(2) by simp
  then have "block f \<subseteq> plane_used p'" if "f \<in> set (plane_Allocations p')" for f
    using plane_invD(3) [OF inv] that unfolding set u by blast
  with wf' show "plane_inv p'"
    using plane_invD(2,4) [OF inv] unfolding plane_inv_def set by blast
  show "plane_exact p'" if "plane_exact p"
  proof -
    have "f \<in> set (plane_Allocations p) \<Longrightarrow> fst f = z \<Longrightarrow> f = (z, a)" for f
      using e plane_wfD(4) [OF wf] by (metis map_of_is_SomeI option.inject prod.collapse)
    then have "(\<Union>f \<in> set (plane_Allocations p). block f) - block (z, a) =
        (\<Union>f \<in> {f \<in> set (plane_Allocations p). fst f \<noteq> z}. block f)"
      using dj by blast
    with that show ?thesis unfolding plane_exact_def u set by simp
  qed
  have "{unat z..<unat z + unat (ucast (alloc_Size a) :: u16)} \<subseteq> plane_used p"
    using plane_invD(3) [OF inv mem] b en(2) by simp
  then show "unat (Plane_FreeBytes p') = unat (Plane_FreeBytes p) + unat (alloc_Size a)"
    using fm.free_count_release_block [OF plane_wfD(1) [OF wf], of z "ucast (alloc_Size a)"]
      en(1,2) plane_wfD(2) [OF wf]
    by (simp add: p' Plane_FreeBytes_def)
qed

text \<open>Freeing a block that was just allocated and recorded gives the plane back unchanged.\<close>

lemma delete_update_new: "map_of al k = None \<Longrightarrow> AList.delete k (AList.update k v al) = al"
proof (induction al)
  case (Cons e al)
  then show ?case by (cases e) (auto split: if_splits)
qed simp

lemma Plane_alloc_free_roundtrip:
  assumes inv: "plane_inv p" and safe: "plane_safe p" and n: "0 < n" "n \<le> Plane_FreeBytes p"
    and res: "Plane_Allocate p n = Inr (p', Some z)"
    and a: "\<not> IsYPromoted a" "alloc_Size a = ucast n"
  shows "Plane_Free (Plane_record p' z a) z = (p, True)"
proof -
  note wf = plane_invD(1) [OF inv]
  note r = Plane_Allocate_Some [OF wf safe n res]
  have sz: "(ucast (alloc_Size a) :: u16) = n" by (simp add: a(2))
  have blk: "block (z, a) = {unat z..<unat z + unat n}"
    using a by (simp add: block_def entry_size_def)
  have "map_of (plane_Allocations p) z = None"
  proof (rule Plane_record_inv(3) [OF inv r(6) _ r(5) [folded blk]])
    show "plane_Allocations p' = plane_Allocations p" by (rule Plane_Allocate_frame [OF res])
    show "block (z, a) \<inter> plane_used p = {}" using r(2) by (simp add: blk)
    show "block (z, a) \<noteq> {}" using n(1) by (simp add: blk word_less_nat_alt)
  qed
  moreover have "Bitmap_ClearRange (Bitmap_SetRange (plane_FreeMap p) z (z + n)) z (z + n)
      = plane_FreeMap p"
    using fm.release_reserve_block [OF plane_wfD(1) [OF wf]] r(1,2) plane_wfD(2) [OF wf] by simp
  ultimately show ?thesis
    by (simp add: Plane_Free_def Plane_record_def r(4) sz update_conv' delete_update_new)
qed

lemma entry_covers_block:
  assumes "plane_inv p" "(z, a) \<in> set (plane_Allocations p)" "\<not> IsYPromoted a"
  shows "entry_covers pos (z, a) \<longleftrightarrow> unat pos \<in> block (z, a)"
  using entry_end [OF assms] assms(3)
  by (auto simp: entry_covers_def block_def entry_size_def word_nat_alt)

text \<open>No Y-promoted allocation is recorded in the plane.\<close>

definition plane_plain :: "Plane \<Rightarrow> bool" where
  "plane_plain p \<longleftrightarrow> (\<forall>e \<in> set (plane_Allocations p). \<not> IsYPromoted (snd e))"

lemma plane_covers_block:
  assumes "plane_inv p" "plane_plain p" "e \<in> set (plane_Allocations p)"
  shows "entry_covers pos e \<longleftrightarrow> unat pos \<in> block e"
  using entry_covers_block [OF assms(1), of "fst e" "snd e"] assms(2,3)
  by (auto simp: plane_plain_def)

lemma IsAllocated_iff_used:
  assumes "plane_inv p" "plane_exact p" "plane_plain p" "valid_order ord"
  shows "Plane_IsAllocated ord p pos \<longleftrightarrow> Bitmap_IsSet (plane_FreeMap p) pos"
proof -
  have "Plane_IsAllocated ord p pos \<longleftrightarrow> (\<exists>e \<in> set (plane_Allocations p). unat pos \<in> block e)"
    using assms(4) plane_covers_block [OF assms(1,3)]
    by (auto simp: Plane_IsAllocated_def list_ex_iff)
  also have "\<dots> \<longleftrightarrow> unat pos \<in> plane_used p" using assms(2) by (auto simp: plane_exact_def)
  finally show ?thesis
    using IsSet_used plane_wfD(1) [OF plane_invD(1) [OF assms(1)]] by blast
qed

text \<open>The allocation that contains a position does not depend on the iteration order.\<close>

lemma GetContainingAllocation_unique:
  assumes "plane_inv p" "plane_plain p" "valid_order ord"
  shows "GetContainingAllocation ord p pos = Some a \<longleftrightarrow>
     (\<exists>z. (z, a) \<in> set (plane_Allocations p) \<and> unat pos \<in> block (z, a))"
proof -
  let ?P = "\<lambda>e. e \<in> set (plane_Allocations p) \<and> unat pos \<in> block e"
  note cov = plane_covers_block [OF assms(1,2)]
  have uniq: "e = f" if "?P e" "?P f" for e f
  proof -
    have "fst e = fst f" using plane_invD(4) [OF assms(1)] that by blast
    then show ?thesis
      using that plane_wfD(4) [OF plane_invD(1) [OF assms(1)]]
      by (metis eq_key_imp_eq_value prod.collapse)
  qed
  show ?thesis
  proof
    assume "GetContainingAllocation ord p pos = Some a"
    then obtain z where "find (entry_covers pos) (range_over ord (plane_Allocations p)) = Some (z, a)"
      by (auto simp: GetContainingAllocation_def)
    from find_Some_mem [OF this] show "\<exists>z. ?P (z, a)" using cov assms(3) by auto
  next
    assume "\<exists>z. ?P (z, a)"
    then obtain z where z: "?P (z, a)" by blast
    then have "find (entry_covers pos) (range_over ord (plane_Allocations p)) \<noteq> None"
      using cov assms(3) by (auto simp: find_None_iff)
    then obtain e where e: "find (entry_covers pos) (range_over ord (plane_Allocations p)) = Some e"
      by auto
    from find_Some_mem [OF this] have "?P e" using cov [of e pos] assms(3) by auto
    then have "e = (z, a)" using uniq z by blast
    then show "GetContainingAllocation ord p pos = Some a"
      using e by (simp add: GetContainingAllocation_def)
  qed
qed
section \<open>Properties\<close>

text \<open>
  Allocation in a plane: for a request within the free bytes of a safe plane, \<^verbatim>\<open>Allocate\<close>
  never panics; it fails without a change exactly when no free run is long enough, and otherwise
  takes the first fit, which lies in the plane and was free.  The free bytes drop by the request,
  the plane stays safe, and recording the new allocation keeps the invariant.
\<close>

theorem Plane_Allocate_correct:
  assumes "plane_inv p" "plane_safe p" "0 < n" "n \<le> Plane_FreeBytes p"
  shows "case first_fit (plane_FreeMap p) (unat n) of
      None \<Rightarrow> Plane_Allocate p n = Inr (p, None)
    | Some k \<Rightarrow> \<exists>p' z. Plane_Allocate p n = Inr (p', Some z) \<and> unat z = k
        \<and> k + unat n \<le> unat (plane_Size p)
        \<and> {k..<k + unat n} \<inter> plane_used p = {}
        \<and> plane_used p' = plane_used p \<union> {k..<k + unat n}
        \<and> unat (Plane_FreeBytes p') + unat n = unat (Plane_FreeBytes p)
        \<and> plane_safe p'
        \<and> plane_inv (Plane_record p' z (NewAllocation i ad (ucast n) rt t))"
proof (cases "first_fit (plane_FreeMap p) (unat n)")
  case None
  then show ?thesis using Plane_Allocate_first_fit [OF plane_invD(1) [OF assms(1)] assms(2-4)] by simp
next
  case (Some k)
  note wf = plane_invD(1) [OF assms(1)]
  obtain p' where res: "Plane_Allocate p n = Inr (p', Some (of_nat k))"
    using Plane_Allocate_first_fit [OF wf assms(2-4)] Some by simp
  note r = Plane_Allocate_Some [OF wf assms(2-4) res]
  have "fits (plane_FreeMap p) (unat n) k" using Some by (simp add: first_fit_Some_iff)
  then have "k + unat n \<le> unat (plane_Size p)" using plane_wfD(2) [OF wf] by (simp add: fits_def)
  then have "k < 65536" using unat_u16_bound [of "plane_Size p"] by linarith
  then have k: "unat (of_nat k :: u16) = k" by (rule unat_of_nat_u16)
  have blk: "block (of_nat k, NewAllocation i ad (ucast n) rt t) = {k..<k + unat n}"
    by (simp add: block_def entry_size_def k)
  have "plane_inv (Plane_record p' (of_nat k) (NewAllocation i ad (ucast n) rt t))"
  proof (rule Plane_record_inv(1) [OF assms(1) r(6)])
    show "plane_Allocations p' = plane_Allocations p" by (rule Plane_Allocate_frame [OF res])
    show "block (of_nat k, NewAllocation i ad (ucast n) rt t) \<noteq> {}"
      using assms(3) by (simp add: blk word_less_nat_alt)
  qed (use r(2,5) in \<open>simp_all only: blk k\<close>)
  then show ?thesis
    using res r Plane_Allocate_safe [OF wf assms(2-4) res] Some k by auto
qed

theorem Plane_Allocate_correct_witness:
  "\<exists>p' z. Plane_Allocate (NewPlane 0 7 100) 30 = Inr (p', Some z) \<and> plane_used p' = {0..<30}"
proof -
  let ?p = "NewPlane 0 7 100"
  have u: "plane_used ?p = {}" and s: "bm_size (plane_FreeMap ?p) = 100"
    by (simp_all add: NewPlane_def Let_def)
  have "first_fit (plane_FreeMap ?p) 30 = Some 0"
    using u s by (simp add: first_fit_Some_iff fits_def)
  moreover have "30 \<le> Plane_FreeBytes ?p" by (simp add: NewPlane_FreeBytes)
  ultimately show ?thesis
    using Plane_Allocate_correct [OF NewPlane_inv(1) NewPlane_safe, of 30 0 7 100] u by fastforce
qed

text \<open>
  Allocate, record and free is the identity on planes: freeing the block that was just
  allocated succeeds and gives back the very same plane, bitmap and allocation map included.
\<close>

theorem Plane_allocate_free_identity:
  assumes "plane_inv p" "plane_safe p" "0 < n" "n \<le> Plane_FreeBytes p"
    and "Plane_Allocate p n = Inr (p', Some z)"
  shows "Plane_Free (Plane_record p' z (NewAllocation i ad (ucast n) rt t)) z = (p, True)"
  by (rule Plane_alloc_free_roundtrip [OF assms]) simp_all

theorem Plane_allocate_free_identity_witness:
  "\<exists>p' z. Plane_Allocate (NewPlane 0 7 100) 30 = Inr (p', Some z)
     \<and> Plane_Free (Plane_record p' z (NewAllocation 1 (NewAddress 7 0 0) 30 4 0)) z = (NewPlane 0 7 100, True)"
proof -
  let ?p = "NewPlane 0 7 100"
  have s: "first_fit (plane_FreeMap ?p) 30 = Some 0"
    by (simp add: first_fit_Some_iff fits_def NewPlane_def Let_def)
  have n: "30 \<le> Plane_FreeBytes ?p" by (simp add: NewPlane_FreeBytes)
  have res: "\<exists>p' z. Plane_Allocate ?p 30 = Inr (p', Some z)"
    using Plane_Allocate_first_fit [OF plane_invD(1) [OF NewPlane_inv(1)] NewPlane_safe _ n] s by simp
  then obtain p' z where res: "Plane_Allocate ?p 30 = Inr (p', Some z)" by blast
  show ?thesis
    using Plane_allocate_free_identity [OF NewPlane_inv(1) NewPlane_safe _ n res] res by fastforce
qed

text \<open>
  Freeing a recorded, not promoted block succeeds, clears exactly the bytes of the block,
  removes its entry, raises the free bytes by the size of the block and keeps both the safety
  invariant and the absence of leaks; freeing where nothing starts fails and changes nothing.
\<close>

theorem Plane_Free_correct:
  assumes "plane_inv p"
  shows "case map_of (plane_Allocations p) z of
      None \<Rightarrow> Plane_Free p z = (p, False)
    | Some a \<Rightarrow> \<not> IsYPromoted a \<longrightarrow> (\<exists>p'. Plane_Free p z = (p', True)
        \<and> plane_inv p' \<and> plane_used p' = plane_used p - {unat z..<unat z + unat (alloc_Size a)}
        \<and> plane_Allocations p' = AList.delete z (plane_Allocations p)
        \<and> unat (Plane_FreeBytes p') = unat (Plane_FreeBytes p) + unat (alloc_Size a)
        \<and> (plane_exact p \<longrightarrow> plane_exact p'))"
proof (cases "map_of (plane_Allocations p) z")
  case None
  then show ?thesis by (simp add: Plane_Free_unknown)
next
  case (Some a)
  show ?thesis
  proof (simp only: Some option.case, intro impI)
    assume np: "\<not> IsYPromoted a"
    note f = Plane_Free_inv [OF assms Some np]
    have b: "block (z, a) = {unat z..<unat z + unat (alloc_Size a)}"
      using np by (simp add: block_def entry_size_def)
    have "Plane_Free p z = (fst (Plane_Free p z), True)" using f(1) by (simp add: prod_eq_iff)
    with f b show "\<exists>p'. Plane_Free p z = (p', True)
        \<and> plane_inv p' \<and> plane_used p' = plane_used p - {unat z..<unat z + unat (alloc_Size a)}
        \<and> plane_Allocations p' = AList.delete z (plane_Allocations p)
        \<and> unat (Plane_FreeBytes p') = unat (Plane_FreeBytes p) + unat (alloc_Size a)
        \<and> (plane_exact p \<longrightarrow> plane_exact p')" by metis
  qed
qed

theorem Plane_Free_correct_witness: "Plane_Free (NewPlane 1 2 50) 3 = (NewPlane 1 2 50, False)"
proof -
  have "map_of (plane_Allocations (NewPlane 1 2 50)) 3 = None" by (simp add: NewPlane_def Let_def)
  then show ?thesis using Plane_Free_correct [OF NewPlane_inv(1), of 1 2 50 3] by simp
qed

text \<open>
  The two lookups agree with the bitmap and do not depend on the order in which the run
  time visits the allocation map: a position is reported allocated exactly when its bit is set,
  and the allocation returned for it is the one whose block contains it.
\<close>

theorem Plane_lookups_correct:
  assumes "plane_inv p" "plane_exact p" "plane_plain p" "valid_order ord"
  shows "(Plane_IsAllocated ord p pos \<longleftrightarrow> Bitmap_IsSet (plane_FreeMap p) pos)
    \<and> (GetContainingAllocation ord p pos = Some a \<longleftrightarrow>
        (\<exists>z. map_of (plane_Allocations p) z = Some a \<and> unat z \<le> unat pos
           \<and> unat pos < unat z + unat (alloc_Size a)))"
proof
  show "Plane_IsAllocated ord p pos \<longleftrightarrow> Bitmap_IsSet (plane_FreeMap p) pos"
    by (rule IsAllocated_iff_used [OF assms])
  note d = plane_wfD(4) [OF plane_invD(1) [OF assms(1)]]
  have "(z, a) \<in> set (plane_Allocations p) \<and> unat pos \<in> block (z, a) \<longleftrightarrow>
      map_of (plane_Allocations p) z = Some a \<and> unat z \<le> unat pos
           \<and> unat pos < unat z + unat (alloc_Size a)" for z
    using assms(3) map_of_eq_Some_iff [OF d, of z a]
    by (auto simp: plane_plain_def block_def entry_size_def)
  then show "GetContainingAllocation ord p pos = Some a \<longleftrightarrow>
        (\<exists>z. map_of (plane_Allocations p) z = Some a \<and> unat z \<le> unat pos
           \<and> unat pos < unat z + unat (alloc_Size a))"
    using GetContainingAllocation_unique [OF assms(1,3,4)] by simp
qed

theorem Plane_lookups_correct_witness:
  "Plane_IsAllocated (\<lambda>n. rev [0..<n]) (NewPlane 1 2 50) 3 \<longleftrightarrow>
     Bitmap_IsSet (plane_FreeMap (NewPlane 1 2 50)) 3"
proof -
  have "plane_plain (NewPlane 1 2 50)" by (simp add: plane_plain_def NewPlane_def Let_def)
  from Plane_lookups_correct [OF NewPlane_inv this valid_order_rev] show ?thesis by blast
qed


end
