(* ===== verification/Region.thy ===== *)
theory Region
  imports Plane
begin

text \<open>
  \<^verbatim>\<open>internal/types/region.go\<close> and \<^verbatim>\<open>internal/types/permissions.go\<close>: a region is a list of planes
  with byte counters kept beside them, default permissions by region type, and the permission
  check of an address.  The counters are 64-bit words, and a subtraction of \<open>k\<close> is written in
  the code as the addition of \<^verbatim>\<open>^uint64(k-1)\<close>, which is what the model writes.
\<close>

section \<open>Permissions\<close>

record Permissions =
  Readable :: bool
  Writable :: bool
  Executable :: bool
  Shared :: bool
  Atomic :: bool

type_synonym Permission = u8

definition PermissionRead :: Permission where "PermissionRead = 1"
definition PermissionWrite :: Permission where "PermissionWrite = 2"
definition PermissionExecute :: Permission where "PermissionExecute = 4"
definition PermissionFree :: Permission where "PermissionFree = 8"
definition PermissionShare :: Permission where "PermissionShare = 16"

definition noPermissions :: Permissions where
  "noPermissions = \<lparr>Readable = False, Writable = False, Executable = False, Shared = False,
     Atomic = False\<rparr>"

definition GetDefaultPermissions :: "RegionType \<Rightarrow> Permissions" where
  "GetDefaultPermissions t =
     (if t = RegionTypeVMControl then noPermissions\<lparr>Readable := True, Writable := True\<rparr>
      else if t = RegionTypeCode then noPermissions\<lparr>Readable := True, Executable := True\<rparr>
      else if t = RegionTypeState then noPermissions\<lparr>Readable := True, Writable := True\<rparr>
      else if t = RegionTypeHeap then noPermissions\<lparr>Readable := True, Writable := True\<rparr>
      else if t = RegionTypeStack then noPermissions\<lparr>Readable := True, Writable := True\<rparr>
      else if t = RegionTypeShared
        then noPermissions\<lparr>Readable := True, Writable := True, Shared := True\<rparr>
      else if t = RegionTypeTransient then noPermissions\<lparr>Readable := True, Writable := True\<rparr>
      else noPermissions)"

definition CheckPermission :: "Permissions \<Rightarrow> Permission \<Rightarrow> bool" where
  "CheckPermission p perm =
     (if perm = PermissionRead then Readable p
      else if perm = PermissionWrite then Writable p
      else if perm = PermissionExecute then Executable p
      else if perm = PermissionFree then True
      else if perm = PermissionShare then Shared p
      else False)"

section \<open>Regions\<close>

record Region =
  reg_ID :: u64
  reg_Type :: RegionType
  reg_Permissions :: Permissions
  reg_Planes :: "Plane list"
  reg_MerkleRoot :: bytes
  reg_AllocCount :: u64
  reg_FreeBytes :: u64
  reg_TotalBytes :: u64
  reg_AccessCount :: u64
  reg_LastAccess :: u64
  reg_HotnessScore :: rat

definition NewRegion :: "u64 \<Rightarrow> RegionType \<Rightarrow> u64 \<Rightarrow> Region" where
  "NewRegion ident regionType now =
     \<lparr>reg_ID = ident, reg_Type = regionType, reg_Permissions = GetDefaultPermissions regionType,
      reg_Planes = [], reg_MerkleRoot = replicate 32 0, reg_AllocCount = 0, reg_FreeBytes = 0,
      reg_TotalBytes = 0, reg_AccessCount = 0, reg_LastAccess = now, reg_HotnessScore = 0\<rparr>"

definition AddPlane :: "Region \<Rightarrow> Plane \<Rightarrow> Region" where
  "AddPlane r plane =
     r\<lparr>reg_Planes := reg_Planes r @ [plane],
       reg_TotalBytes := reg_TotalBytes r + ucast (plane_Size plane),
       reg_FreeBytes := reg_FreeBytes r + ucast (Plane_FreeBytes plane)\<rparr>"

text \<open>Removing the first plane with the given identifier from the slice.\<close>

fun remove_plane :: "u32 \<Rightarrow> Plane list \<Rightarrow> (Plane \<times> Plane list) option" where
  "remove_plane planeID [] = None"
| "remove_plane planeID (p # ps) =
     (if plane_ID p = planeID then Some (p, ps)
      else map_option (\<lambda>(q, qs). (q, p # qs)) (remove_plane planeID ps))"

definition RemovePlane :: "Region \<Rightarrow> u32 \<Rightarrow> Region \<times> bool" where
  "RemovePlane r planeID =
     (case remove_plane planeID (reg_Planes r) of
        None \<Rightarrow> (r, False)
      | Some (plane, rest) \<Rightarrow>
          (r\<lparr>reg_TotalBytes := reg_TotalBytes r + NOT (ucast (plane_Size plane - 1)),
             reg_FreeBytes := reg_FreeBytes r + NOT (ucast (Plane_FreeBytes plane - 1)),
             reg_Planes := rest\<rparr>, True))"

definition GetPlane :: "Region \<Rightarrow> u32 \<Rightarrow> Plane option" where
  "GetPlane r planeID = find (\<lambda>p. plane_ID p = planeID) (reg_Planes r)"

definition Region_UpdateAccess :: "Region \<Rightarrow> u64 \<Rightarrow> Region" where
  "Region_UpdateAccess r now =
     r\<lparr>reg_LastAccess := now, reg_AccessCount := reg_AccessCount r + 1\<rparr>"

definition Region_Fragmentation :: "Region \<Rightarrow> rat" where
  "Region_Fragmentation r =
     (if length (reg_Planes r) = 0 then 0
      else sum_list (map Plane_Fragmentation (reg_Planes r)) / of_nat (length (reg_Planes r)))"

definition UpdateMerkleRoot :: "Region \<Rightarrow> bytes \<Rightarrow> Region" where
  "UpdateMerkleRoot r h = r\<lparr>reg_MerkleRoot := h\<rparr>"

definition Region_GetMerkleRoot :: "Region \<Rightarrow> bytes" where
  "Region_GetMerkleRoot r = reg_MerkleRoot r"

definition CanAccess :: "order \<Rightarrow> Address3D \<Rightarrow> Permission \<Rightarrow> Region option \<Rightarrow> bool" where
  "CanAccess ord addr perm region =
     (case region of None \<Rightarrow> False
      | Some r \<Rightarrow>
          if \<not> CheckPermission (reg_Permissions r) perm then False
          else (case GetPlane r (addr_Y addr) of None \<Rightarrow> False
                | Some plane \<Rightarrow>
                    if addr_Z addr \<ge> plane_Size plane then False
                    else if perm = PermissionWrite then Plane_IsAllocated ord plane (addr_Z addr)
                    else True))"

record CompactionReport =
  rep_RegionID :: u64
  rep_TotalBytes :: u64
  rep_UsedBytes :: u64
  rep_FreeBytes :: u64
  rep_Fragmentation :: rat
  rep_AllocationCount :: u32
  rep_RecommendCompact :: bool
  rep_EstimatedGasSavings :: u64

definition Region_GetCompactionReport :: "Region \<Rightarrow> CompactionReport" where
  "Region_GetCompactionReport r =
     (let total = reg_TotalBytes r; usedB = reg_TotalBytes r - reg_FreeBytes r;
          free = reg_FreeBytes r; frag = Region_Fragmentation r;
          recommendCompact = (frag > 3 / 10 \<and> free > 0);
          estimatedSavings = (if recommendCompact \<and> free > 1024 then (free div 1024) * 50 else 0)
      in \<lparr>rep_RegionID = reg_ID r, rep_TotalBytes = total, rep_UsedBytes = usedB,
          rep_FreeBytes = free, rep_Fragmentation = frag,
          rep_AllocationCount = ucast (reg_AllocCount r),
          rep_RecommendCompact = recommendCompact, rep_EstimatedGasSavings = estimatedSavings\<rparr>)"

section \<open>The region invariant and its accounting\<close>

definition free_sum :: "Plane list \<Rightarrow> nat" where
  "free_sum ps = sum_list (map (\<lambda>p. unat (Plane_FreeBytes p)) ps)"

definition size_sum :: "Plane list \<Rightarrow> nat" where
  "size_sum ps = sum_list (map (\<lambda>p. unat (plane_Size p)) ps)"

definition planes_ok :: "Plane list \<Rightarrow> bool" where
  "planes_ok ps \<longleftrightarrow> (\<forall>p \<in> set ps. plane_inv p \<and> plane_safe p) \<and> distinct (map plane_ID ps)"

text \<open>The counters agree with the planes.\<close>

definition region_inv :: "Region \<Rightarrow> bool" where
  "region_inv r \<longleftrightarrow> planes_ok (reg_Planes r)
     \<and> reg_FreeBytes r = of_nat (free_sum (reg_Planes r))
     \<and> reg_TotalBytes r = of_nat (size_sum (reg_Planes r))"

text \<open>The idiom \<^verbatim>\<open>^uint64(k-1)\<close> subtracts \<open>k\<close>, except for \<open>k = 0\<close>, where the narrower subtraction wraps.\<close>

lemma not_pred_u32: "k \<noteq> 0 \<Longrightarrow> (NOT (ucast (k - 1 :: u32)) :: u64) = - ucast k"
proof -
  assume "k \<noteq> 0"
  then have "unat (k - 1) = unat k - 1" "unat k \<noteq> 0"
    by (auto simp: unat_minus_one unat_eq_0)
  moreover from this have "(ucast k :: u64) \<noteq> 0" by (metis unat_0 unat_ucast_widen(2,3))
  ultimately have "ucast (k - 1) = (ucast k - 1 :: u64)"
    by (intro u64_eqI) (simp add: unat_minus_one)
  then show ?thesis by (simp add: not_eq_complement)
qed

lemma not_pred_u16: "k \<noteq> 0 \<Longrightarrow> (NOT (ucast (k - 1 :: u16)) :: u64) = - ucast k"
proof -
  assume "k \<noteq> 0"
  then have "unat (k - 1) = unat k - 1" "unat k \<noteq> 0"
    by (auto simp: unat_minus_one unat_eq_0)
  moreover from this have "(ucast k :: u64) \<noteq> 0" by (metis unat_0 unat_ucast_widen(2,3))
  ultimately have "ucast (k - 1) = (ucast k - 1 :: u64)"
    by (intro u64_eqI) (simp add: unat_minus_one)
  then show ?thesis by (simp add: not_eq_complement)
qed

lemma not_pred_zero [simp]:
  "(NOT (ucast (- 1 :: u16)) :: u64) = - 65536"
  "(NOT (ucast (- 1 :: u32)) :: u64) = - 4294967296"
proof -
  have "ucast (- 1 :: u16) = (65535 :: u64)" "ucast (- 1 :: u32) = (4294967295 :: u64)"
    by (rule u64_eqI, simp add: unsigned_minus_1_eq_mask mask_eq_exp_minus_1)+
  then show "(NOT (ucast (- 1 :: u16)) :: u64) = - 65536"
    "(NOT (ucast (- 1 :: u32)) :: u64) = - 4294967296" by simp_all
qed

lemma ucast_of_nat_u64 [acct_simps]:
  "(ucast (a :: u16) :: u64) = of_nat (unat a)" "(ucast (c :: u32) :: u64) = of_nat (unat c)"
  by simp_all

lemma NewRegion_inv: "region_inv (NewRegion i t now)"
  by (simp add: region_inv_def NewRegion_def planes_ok_def free_sum_def size_sum_def)

lemma AddPlane_inv:
  assumes "region_inv r" "plane_inv p" "plane_safe p" "plane_ID p \<notin> plane_ID ` set (reg_Planes r)"
  shows "region_inv (AddPlane r p)"
  using assms by (simp add: region_inv_def AddPlane_def planes_ok_def free_sum_def size_sum_def)

lemma remove_plane_Some:
  assumes "remove_plane i ps = Some (p, rest)"
  shows "plane_ID p = i" "mset ps = add_mset p (mset rest)"
    "free_sum ps = unat (Plane_FreeBytes p) + free_sum rest"
    "size_sum ps = unat (plane_Size p) + size_sum rest"
  using assms
  by (induction ps arbitrary: rest) (auto simp: free_sum_def size_sum_def split: if_splits)

lemma mset_planes_ok:
  assumes "mset ps = add_mset p (mset rest)" "planes_ok ps"
  shows "planes_ok rest" "plane_ID p \<notin> plane_ID ` set rest"
proof -
  have "mset (map plane_ID ps) = mset (map plane_ID (p # rest))" using assms(1) by simp
  then have "distinct (map plane_ID (p # rest))"
    using assms(2) mset_eq_imp_distinct_iff unfolding planes_ok_def by blast
  moreover have "set ps = insert p (set rest)" using assms(1) by (metis set_mset_add_mset_insert set_mset_mset)
  ultimately show "planes_ok rest" "plane_ID p \<notin> plane_ID ` set rest"
    using assms(2) by (auto simp: planes_ok_def)
qed

lemma RemovePlane_inv:
  assumes inv: "region_inv r" and rm: "remove_plane i (reg_Planes r) = Some (p, rest)"
    and free: "Plane_FreeBytes p \<noteq> 0" and sz: "plane_Size p \<noteq> 0"
  shows "region_inv (fst (RemovePlane r i))"
proof -
  note s = remove_plane_Some [OF rm]
  have "planes_ok rest" using mset_planes_ok(1) [OF s(2)] inv by (simp add: region_inv_def)
  then show ?thesis
    using inv rm s(3,4) free sz
    by (simp add: region_inv_def RemovePlane_def not_pred_u16)
qed

text \<open>Removing a plane without free bytes subtracts 65536 from the free counter.\<close>

lemma RemovePlane_full:
  assumes inv: "region_inv r" and rm: "remove_plane i (reg_Planes r) = Some (p, rest)"
    and full: "Plane_FreeBytes p = 0"
  shows "reg_FreeBytes (fst (RemovePlane r i)) = of_nat (free_sum rest) - 65536"
  using inv rm remove_plane_Some(3) [OF rm] full
  by (simp add: region_inv_def RemovePlane_def)

lemma GetPlane_Some:
  assumes "GetPlane r i = Some p"
  shows "p \<in> set (reg_Planes r)" "plane_ID p = i"
  using find_Some_mem [OF assms [unfolded GetPlane_def]] by auto

lemma GetPlane_iff:
  assumes "distinct (map plane_ID (reg_Planes r))"
  shows "GetPlane r i = Some p \<longleftrightarrow> p \<in> set (reg_Planes r) \<and> plane_ID p = i"
proof
  assume p: "p \<in> set (reg_Planes r) \<and> plane_ID p = i"
  then have "GetPlane r i \<noteq> None" by (auto simp: GetPlane_def find_None_iff)
  then obtain q where q: "GetPlane r i = Some q" by auto
  then have "q = p"
    using GetPlane_Some [OF q] p assms by (metis distinct_map inj_onD)
  with q show "GetPlane r i = Some p" by simp
qed (auto dest: GetPlane_Some)

lemma sum_list_bound:
  fixes f :: "'a \<Rightarrow> rat"
  assumes "\<And>x. x \<in> set xs \<Longrightarrow> 0 \<le> f x \<and> f x < 1" and "xs \<noteq> []"
  shows "0 \<le> sum_list (map f xs) \<and> sum_list (map f xs) < of_nat (length xs)"
  using assms(2,1)
proof (induction xs rule: list_nonempty_induct)
  case (cons x xs)
  then have "0 \<le> sum_list (map f xs)" "sum_list (map f xs) < of_nat (length xs)"
    "0 \<le> f x" "f x < 1" by auto
  then show ?case by simp
qed auto

lemma Region_Fragmentation_bounds:
  assumes "\<And>p. p \<in> set (reg_Planes r) \<Longrightarrow> plane_wf p"
  shows "0 \<le> Region_Fragmentation r \<and> Region_Fragmentation r < 1"
proof (cases "reg_Planes r = []")
  case False
  have "0 \<le> Plane_Fragmentation p \<and> Plane_Fragmentation p < 1" if "p \<in> set (reg_Planes r)" for p
    using Fragmentation_bounds plane_wfD(1) [OF assms [OF that]] by (simp add: Plane_Fragmentation_def)
  note b = sum_list_bound [OF this False]
  show ?thesis using b False by (simp add: Region_Fragmentation_def divide_less_eq_1)
qed (simp add: Region_Fragmentation_def)
section \<open>Properties\<close>

lemma remove_plane_snoc:
  "plane_ID p \<notin> plane_ID ` set ps \<Longrightarrow> remove_plane (plane_ID p) (ps @ [p]) = Some (p, ps)"
  by (induction ps) auto

lemma remove_plane_None: "remove_plane i ps = None \<longleftrightarrow> i \<notin> plane_ID ` set ps"
  by (induction ps) auto

text \<open>
  Adding a sound plane with a fresh identifier keeps the byte counters equal to the sums
  over the planes, and removing it again gives the region back, provided the plane has a free
  byte; removing an identifier that no plane has changes nothing.
\<close>

theorem Region_plane_accounting:
  assumes "region_inv r" "plane_inv p" "plane_safe p"
    and "plane_ID p \<notin> plane_ID ` set (reg_Planes r)" "Plane_FreeBytes p \<noteq> 0"
  shows "region_inv (AddPlane r p) \<and> GetPlane (AddPlane r p) (plane_ID p) = Some p
    \<and> RemovePlane (AddPlane r p) (plane_ID p) = (r, True)
    \<and> RemovePlane r (plane_ID p) = (r, False)"
proof -
  note inv = AddPlane_inv [OF assms(1-4)]
  have "unat (Plane_FreeBytes p) \<le> unat (plane_Size p)"
    using unat_Plane_FreeBytes [OF plane_invD(1) [OF assms(2)]] by linarith
  then have sz: "plane_Size p \<noteq> 0" using assms(5) by (auto simp: unat_eq_0)
  have planes: "reg_Planes (AddPlane r p) = reg_Planes r @ [p]" by (simp add: AddPlane_def)
  have "GetPlane (AddPlane r p) (plane_ID p) = Some p"
    using inv by (subst GetPlane_iff) (auto simp: region_inv_def planes_ok_def planes)
  moreover have "RemovePlane (AddPlane r p) (plane_ID p) = (r, True)"
    using assms(5) sz remove_plane_snoc [OF assms(4)]
    by (simp add: RemovePlane_def AddPlane_def not_pred_u16)
  moreover have "RemovePlane r (plane_ID p) = (r, False)"
    using assms(4) by (simp add: RemovePlane_def remove_plane_None [THEN iffD2])
  ultimately show ?thesis using inv by blast
qed

theorem Region_plane_accounting_witness:
  "RemovePlane (AddPlane (NewRegion 5 4 0) (NewPlane 3 5 100)) 3 = (NewRegion 5 4 0, True)"
proof -
  have "Plane_FreeBytes (NewPlane 3 5 100) \<noteq> 0" "3 \<notin> plane_ID ` set (reg_Planes (NewRegion 5 4 0))"
    by (simp_all add: NewPlane_FreeBytes NewRegion_def)
  then show ?thesis
    using Region_plane_accounting [OF NewRegion_inv NewPlane_inv(1) NewPlane_safe, of 3 5 100 5 4 0]
    by simp
qed

text \<open>
  The defect of \<^verbatim>\<open>RemovePlane\<close>: for a plane without free bytes, the 16-bit \<^verbatim>\<open>FreeBytes()-1\<close>
  wraps to 65535, and the region's free counter ends 65536 below the free bytes of the planes
  that are left.
\<close>

theorem RemovePlane_full_underflow:
  assumes "region_inv r" "p \<in> set (reg_Planes r)" "Plane_FreeBytes p = 0"
  shows "\<exists>r'. RemovePlane r (plane_ID p) = (r', True)
    \<and> reg_FreeBytes r' = of_nat (free_sum (reg_Planes r')) - 65536"
proof -
  obtain q rest where rm: "remove_plane (plane_ID p) (reg_Planes r) = Some (q, rest)"
    using assms(2) remove_plane_None [of "plane_ID p" "reg_Planes r"] by fastforce
  note s = remove_plane_Some [OF rm]
  have "q \<in> set (reg_Planes r)" using s(2) by (metis set_mset_mset union_single_eq_member)
  then have "q = p"
    using s(1) assms(1,2) by (auto simp: region_inv_def planes_ok_def distinct_map dest: inj_onD)
  then show ?thesis
    using RemovePlane_full [OF assms(1) rm] assms(3) rm by (simp add: RemovePlane_def)
qed

text \<open>A plane of one byte whose byte is taken, as the only plane of a region.\<close>

lemma full_plane:
  assumes p: "p = (NewPlane 0 1 1)\<lparr>plane_FreeMap := Bitmap_SetRange (NewBitmap 1) 0 1\<rparr>"
  shows "plane_inv p" "plane_safe p" "Plane_FreeBytes p = 0"
proof -
  have u: "plane_used p = {..<1}" by (auto simp: p used_SetRange NewBitmap_inv)
  have wf: "plane_wf p"
    using plane_invD(1) [OF NewPlane_inv(1), of 0 1 1]
    by (simp add: plane_wf_def p SetRange_inv NewBitmap_inv)
  show "plane_inv p" using wf by (simp add: plane_inv_def p NewPlane_def Let_def)
  have sz: "plane_Size p = 1" by (simp add: p)
  then show "plane_safe p" by (simp add: plane_safe_def)
  have "unat (Plane_FreeBytes p) = 0" by (simp only: unat_Plane_FreeBytes [OF wf] u sz) simp
  then show "Plane_FreeBytes p = 0" by (simp add: unat_eq_0)
qed

theorem RemovePlane_full_underflow_witness:
  "\<exists>r p r'. region_inv r \<and> p \<in> set (reg_Planes r) \<and> RemovePlane r (plane_ID p) = (r', True)
    \<and> reg_FreeBytes r' = of_nat (free_sum (reg_Planes r')) - 65536"
proof -
  define p where "p = (NewPlane 0 1 1)\<lparr>plane_FreeMap := Bitmap_SetRange (NewBitmap 1) 0 1\<rparr>"
  note f = full_plane [OF p_def]
  define r where "r = AddPlane (NewRegion 1 4 0) p"
  have "region_inv r"
    unfolding r_def by (rule AddPlane_inv [OF NewRegion_inv f(1,2)]) (simp add: NewRegion_def)
  moreover have "p \<in> set (reg_Planes r)" by (simp add: r_def AddPlane_def)
  ultimately show ?thesis using RemovePlane_full_underflow [OF _ _ f(3)] by blast
qed

text \<open>
  The permission check: an access is granted exactly when the region exists and grants
  the permission, the plane exists and the offset lies in it, and, for a write, the byte is
  marked used in the plane.  The answer does not depend on the iteration order.
\<close>

theorem CanAccess_correct:
  assumes "region_inv r" "valid_order ord"
    and "\<And>p. p \<in> set (reg_Planes r) \<Longrightarrow> plane_exact p \<and> plane_plain p"
  shows "CanAccess ord addr perm (Some r) \<longleftrightarrow>
      CheckPermission (reg_Permissions r) perm
    \<and> (\<exists>p \<in> set (reg_Planes r). plane_ID p = addr_Y addr \<and> addr_Z addr < plane_Size p
         \<and> (perm = PermissionWrite \<longrightarrow> unat (addr_Z addr) \<in> plane_used p))"
proof -
  have d: "distinct (map plane_ID (reg_Planes r))" and
    inv: "\<And>p. p \<in> set (reg_Planes r) \<Longrightarrow> plane_inv p"
    using assms(1) by (auto simp: region_inv_def planes_ok_def)
  have al: "Plane_IsAllocated ord p (addr_Z addr) \<longleftrightarrow> unat (addr_Z addr) \<in> plane_used p"
    if "p \<in> set (reg_Planes r)" for p
    using IsAllocated_iff_used [OF inv [OF that] _ _ assms(2)] assms(3) [OF that]
      IsSet_used [OF plane_wfD(1) [OF plane_invD(1) [OF inv [OF that]]]] by blast
  show ?thesis
  proof (cases "GetPlane r (addr_Y addr)")
    case None
    then have "\<forall>p \<in> set (reg_Planes r). plane_ID p \<noteq> addr_Y addr"
      by (auto simp: GetPlane_def find_None_iff)
    then show ?thesis using None by (auto simp: CanAccess_def)
  next
    case (Some p)
    have "q = p" if "q \<in> set (reg_Planes r)" "plane_ID q = addr_Y addr" for q
      using that Some GetPlane_iff [OF d, of "addr_Y addr" q] by simp
    then have ex: "(\<exists>q \<in> set (reg_Planes r). plane_ID q = addr_Y addr \<and> Q q) \<longleftrightarrow> Q p" for Q
      using GetPlane_Some [OF Some] by blast
    show ?thesis
      unfolding ex using Some al [OF GetPlane_Some(1) [OF Some]]
      by (cases "addr_Z addr < plane_Size p") (simp_all add: CanAccess_def not_le [symmetric])
  qed
qed

lemma NewPlane_plain: "plane_plain (NewPlane i rid sz)"
  by (simp add: plane_plain_def NewPlane_def Let_def)

theorem CanAccess_correct_witness:
  "CanAccess (\<lambda>n. [0..<n]) (NewAddress 5 3 10) PermissionRead
     (Some (AddPlane (NewRegion 5 RegionTypeHeap 0) (NewPlane 3 5 100)))
   \<and> \<not> CanAccess (\<lambda>n. [0..<n]) (NewAddress 5 3 10) PermissionWrite
     (Some (AddPlane (NewRegion 5 RegionTypeHeap 0) (NewPlane 3 5 100)))"
proof -
  let ?r = "AddPlane (NewRegion 5 RegionTypeHeap 0) (NewPlane 3 5 100)"
  have inv: "region_inv ?r"
    by (rule AddPlane_inv [OF NewRegion_inv NewPlane_inv(1) NewPlane_safe]) (simp add: NewRegion_def)
  have pl: "reg_Planes ?r = [NewPlane 3 5 100]" by (simp add: AddPlane_def NewRegion_def)
  have ok: "plane_exact p \<and> plane_plain p" if "p \<in> set (reg_Planes ?r)" for p
    using that NewPlane_inv(2) [of 3 5 100] by (simp add: pl NewPlane_plain)
  have pe: "CheckPermission (reg_Permissions ?r) PermissionRead"
    by (simp add: AddPlane_def NewRegion_def GetDefaultPermissions_def noPermissions_def
        CheckPermission_def RegionTypeHeap_def RegionTypeVMControl_def RegionTypeCode_def
        RegionTypeState_def)
  have "plane_used (NewPlane 3 5 100) = {}" by (simp add: NewPlane_def Let_def)
  then show ?thesis
    using CanAccess_correct [OF inv valid_order_upt ok, of "NewAddress 5 3 10"] pe
    by (simp add: pl NewAddress_def PermissionRead_def PermissionWrite_def)
qed


end
