(* ===== verification/Allocator.thy ===== *)
theory Allocator
  imports Region
begin

text \<open>
  \<^verbatim>\<open>internal/allocator/allocator.go\<close>: the allocator keeps the regions, the list of recently used
  regions and the identifier counters.  \<^verbatim>\<open>allocateSync\<close> tries the recently used regions, then a
  Y-promotion across the planes of one region, then a new region.  A region in the LRU list is
  represented by its identifier, under which the region map holds it.  The clock and the
  iteration order of the region map are arguments.  Every operation runs under the allocator's
  mutex, so it is one atomic step.
\<close>

section \<open>State\<close>

record Config =
  cfg_PlaneSize :: u16
  cfg_MaxYPlanes :: u32
  cfg_MaxYPromotions :: u8
  cfg_WorkerCount :: int
  cfg_EnableConcurrent :: bool
  cfg_EnablePooling :: bool

record Stats =
  st_Allocations :: u64
  st_Frees :: u64
  st_YPromotions :: u64
  st_Fragmentation :: rat
  st_CacheHits :: u64
  st_CacheMisses :: u64

record Allocator3D =
  al_regions :: "(u64, Region) gomap"
  al_config :: Config
  al_stats :: Stats
  al_regionLRU :: "u64 list"
  al_workersClosed :: bool
  al_freeWorkersClosed :: bool
  al_nextRegionID :: u64
  al_nextAllocID :: u64

definition NewAllocator3D :: "Config \<Rightarrow> Allocator3D" where
  "NewAllocator3D config =
     \<lparr>al_regions = [], al_config = config,
      al_stats = \<lparr>st_Allocations = 0, st_Frees = 0, st_YPromotions = 0, st_Fragmentation = 0,
        st_CacheHits = 0, st_CacheMisses = 0\<rparr>,
      al_regionLRU = [], al_workersClosed = False, al_freeWorkersClosed = False, al_nextRegionID = 1, al_nextAllocID = 1\<rparr>"

definition GetRegion :: "Allocator3D \<Rightarrow> u64 \<Rightarrow> Region option" where
  "GetRegion a x = map_of (al_regions a) x"

text \<open>
  Nothing is ever put into the plane pool, so \<^verbatim>\<open>Get\<close> always calls its \<^verbatim>\<open>New\<close> function.
\<close>

definition getPlaneFromPool :: "Allocator3D \<Rightarrow> u32 \<Rightarrow> u64 \<Rightarrow> Plane" where
  "getPlaneFromPool a ident regionID =
     (if cfg_EnablePooling (al_config a)
      then (NewPlane 0 0 (cfg_PlaneSize (al_config a)))\<lparr>plane_ID := ident, plane_RegionID := regionID\<rparr>
      else NewPlane ident regionID (cfg_PlaneSize (al_config a)))"

definition promoteRegionLRU :: "Allocator3D \<Rightarrow> u64 \<Rightarrow> Allocator3D" where
  "promoteRegionLRU a regionID =
     (let lru = remove1 regionID (al_regionLRU a)
      in case GetRegion a regionID of
           None \<Rightarrow> a\<lparr>al_regionLRU := lru\<rparr>
         | Some _ \<Rightarrow>
             (let lru' = regionID # lru
              in a\<lparr>al_regionLRU := (if length lru' > 100 then butlast lru' else lru')\<rparr>))"

section \<open>The fast path\<close>

text \<open>
  The loop over the planes of a region: the first plane with enough free bytes whose bitmap has
  a contiguous run takes the allocation that \<open>mk\<close> builds from the plane and the offset.
\<close>

fun alloc_in_planes ::
  "(u32 \<Rightarrow> u16 \<Rightarrow> Allocation) \<Rightarrow> u32 \<Rightarrow> Plane list \<Rightarrow> (Plane list \<times> Allocation) option go" where
  "alloc_in_planes mk sz [] = Inr None"
| "alloc_in_planes mk sz (p # ps) =
     (let rest = go_bind (alloc_in_planes mk sz ps)
            (\<lambda>r. Inr (map_option (\<lambda>(qs, alloc). (p # qs, alloc)) r))
      in if ucast (Plane_FreeBytes p) \<ge> sz then
           go_bind (Plane_Allocate p (ucast sz)) (\<lambda>(p', r). case r of
               None \<Rightarrow> rest
             | Some startZ \<Rightarrow>
                 (let alloc = mk (plane_ID p) startZ
                  in Inr (Some (Plane_record p' startZ alloc # ps, alloc))))
         else rest)"

text \<open>The counters of a region after an allocation of \<open>sz\<close> bytes in its planes.\<close>

definition charge_region :: "Region \<Rightarrow> Plane list \<Rightarrow> u32 \<Rightarrow> Region" where
  "charge_region r planes sz =
     r\<lparr>reg_Planes := planes, reg_AllocCount := reg_AllocCount r + 1,
       reg_FreeBytes := reg_FreeBytes r + NOT (ucast (sz - 1))\<rparr>"

fun fast_regions ::
  "Allocator3D \<Rightarrow> u32 \<Rightarrow> RegionType \<Rightarrow> u64 \<Rightarrow> u64 list \<Rightarrow> (Allocator3D \<times> Allocation) option go" where
  "fast_regions a sz regionType now [] = Inr None"
| "fast_regions a sz regionType now (x # xs) =
     (case GetRegion a x of
        None \<Rightarrow> fast_regions a sz regionType now xs
      | Some region \<Rightarrow>
          if reg_Type region \<noteq> regionType then fast_regions a sz regionType now xs
          else if reg_FreeBytes region < ucast sz then fast_regions a sz regionType now xs
          else
            (let allocID = al_nextAllocID a + 1;
                 mk = (\<lambda>y z. NewAllocation allocID
                    \<lparr>addr_X = reg_ID region, addr_Y = y, addr_Z = z\<rparr> sz regionType now)
             in go_bind (alloc_in_planes mk sz (reg_Planes region)) (\<lambda>r. case r of
                  None \<Rightarrow> fast_regions a sz regionType now xs
                | Some (planes, alloc) \<Rightarrow>
                    Inr (Some (promoteRegionLRU
                      (a\<lparr>al_nextAllocID := allocID,
                         al_regions := AList.update x (charge_region region planes sz) (al_regions a)\<rparr>)
                      (reg_ID region), alloc)))))"

definition tryFastAllocation ::
  "Allocator3D \<Rightarrow> u32 \<Rightarrow> RegionType \<Rightarrow> u64 \<Rightarrow> (Allocator3D \<times> Allocation) option go" where
  "tryFastAllocation a sz regionType now = fast_regions a sz regionType now (al_regionLRU a)"

section \<open>Y-promotion\<close>

definition min32 :: "u32 \<Rightarrow> u32 \<Rightarrow> u32" where
  "min32 a b = (if a < b then a else b)"

definition planes_free :: "Plane list \<Rightarrow> u64" where
  "planes_free ps =
     sum_list (map (\<lambda>p. ucast (Plane_FreeBytes p)) (filter (\<lambda>p. Plane_FreeBytes p > 0) ps))"

definition planes_with_free :: "Plane list \<Rightarrow> nat" where
  "planes_with_free ps = length (filter (\<lambda>p. Plane_FreeBytes p > 0) ps)"

text \<open>One round of the scan for the region with the most free bytes.\<close>

definition best_step ::
  "u32 \<Rightarrow> RegionType \<Rightarrow> u32 \<Rightarrow> (u64 \<times> Region) option \<times> u64 \<Rightarrow> u64 \<times> Region
     \<Rightarrow> (u64 \<times> Region) option \<times> u64" where
  "best_step sz regionType planesNeeded best e =
     (let region = snd e; totalFree = planes_free (reg_Planes region)
      in if reg_Type region \<noteq> regionType then best
         else if totalFree \<ge> ucast sz
              \<and> (of_nat (planes_with_free (reg_Planes region)) :: u32) \<ge> planesNeeded
              \<and> totalFree > snd best
         then (Some e, totalFree) else best)"

text \<open>
  The loop that carves fragments out of the planes in order.  The result is the planes, the
  bytes that remain to be placed and the fragments.  A plane without free bytes is not a
  candidate.
\<close>

fun carve :: "Plane list \<Rightarrow> u32 \<Rightarrow> Fragment list \<Rightarrow> (Plane list \<times> u32 \<times> Fragment list) go" where
  "carve [] remaining fragments = Inr ([], remaining, fragments)"
| "carve (p # ps) remaining fragments =
     (if remaining = 0 then Inr (p # ps, remaining, fragments)
      else let allocSize = ucast (min32 (ucast (Plane_FreeBytes p)) remaining) :: u16
        in if Plane_FreeBytes p = 0 \<or> allocSize = 0 then
             go_bind (carve ps remaining fragments) (\<lambda>(qs, rest). Inr (p # qs, rest))
           else go_bind (Plane_Allocate p allocSize) (\<lambda>(p', r). case r of
               None \<Rightarrow> go_bind (carve ps remaining fragments) (\<lambda>(qs, rest). Inr (p' # qs, rest))
             | Some startZ \<Rightarrow>
                 (let fragment = \<lparr>frag_PlaneID = plane_ID p, frag_StartZ = startZ,
                        frag_Size = allocSize, frag_IsFirst = (fragments = [])\<rparr>
                  in go_bind (carve ps (remaining - ucast allocSize) (fragments @ [fragment]))
                       (\<lambda>(qs, rest). Inr (p' # qs, rest)))))"

fun upd_first :: "('a \<Rightarrow> bool) \<Rightarrow> ('a \<Rightarrow> 'a) \<Rightarrow> 'a list \<Rightarrow> 'a list" where
  "upd_first P f [] = []"
| "upd_first P f (x # xs) = (if P x then f x # xs else x # upd_first P f xs)"

text \<open>The rollback of one fragment, and of all of them.\<close>

definition undo_fragment :: "Fragment \<Rightarrow> Plane \<Rightarrow> Plane" where
  "undo_fragment frag p =
     p\<lparr>plane_FreeMap := Bitmap_ClearRange (plane_FreeMap p) (frag_StartZ frag)
           (frag_StartZ frag + frag_Size frag),
       plane_Allocations := AList.delete (frag_StartZ frag) (plane_Allocations p)\<rparr>"

definition rollback :: "Fragment list \<Rightarrow> Plane list \<Rightarrow> Plane list" where
  "rollback fragments planes =
     fold (\<lambda>frag. upd_first (\<lambda>p. plane_ID p = frag_PlaneID frag) (undo_fragment frag)) fragments planes"

text \<open>What is recorded once all fragments are placed.\<close>

definition commit_promotion ::
  "Allocator3D \<Rightarrow> u64 \<Rightarrow> Region \<Rightarrow> Plane list \<Rightarrow> Fragment list \<Rightarrow> u32 \<Rightarrow> RegionType \<Rightarrow> AllocationFlags \<Rightarrow> u64
     \<Rightarrow> Allocator3D \<times> Allocation" where
  "commit_promotion a x region planes fragments sz regionType flags now =
     (let firstPlaneID = (case fragments of [] \<Rightarrow> 0 | f # _ \<Rightarrow> frag_PlaneID f);
          firstStartZ = (case fragments of [] \<Rightarrow> 0 | f # _ \<Rightarrow> frag_StartZ f);
          firstAllocAddr = (case fragments of
              [] \<Rightarrow> \<lparr>addr_X = 0, addr_Y = 0, addr_Z = 0\<rparr>
            | f # _ \<Rightarrow> \<lparr>addr_X = reg_ID region, addr_Y = frag_PlaneID f, addr_Z = frag_StartZ f\<rparr>);
          allocID = al_nextAllocID a + 1;
          alloc = \<lparr>alloc_ID = allocID, alloc_Address = firstAllocAddr, alloc_Size = sz,
            alloc_RegionType = regionType, alloc_Flags = flags, alloc_CreatedAt = now,
            alloc_LastUsed = now, alloc_AccessCount = 0, alloc_GasUsed = 0, alloc_Fragments = fragments\<rparr>;
          planes' = upd_first (\<lambda>p. plane_ID p = firstPlaneID) (\<lambda>p. Plane_record p firstStartZ alloc) planes;
          a' = promoteRegionLRU (a\<lparr>al_nextAllocID := allocID,
            al_regions := AList.update x (charge_region region planes' sz) (al_regions a)\<rparr>) (reg_ID region)
      in (a'\<lparr>al_stats := (al_stats a')\<lparr>st_YPromotions := st_YPromotions (al_stats a') + 1\<rparr>\<rparr>, alloc))"

definition tryYPromotion ::
  "order \<Rightarrow> Allocator3D \<Rightarrow> u32 \<Rightarrow> RegionType \<Rightarrow> AllocationFlags \<Rightarrow> u64
     \<Rightarrow> (Allocator3D \<times> Allocation option) go" where
  "tryYPromotion ord a sz regionType flags now =
     (let planeSize = ucast (cfg_PlaneSize (al_config a)) :: u32
      in if planeSize = 0 then Inl DivideByZero
         else let planesNeeded = (sz + planeSize - 1) div planeSize
           in if planesNeeded > ucast (cfg_MaxYPromotions (al_config a)) then Inr (a, None)
              else (case fst (foldl (best_step sz regionType planesNeeded) (None, 0)
                           (range_over ord (al_regions a))) of
                 None \<Rightarrow> Inr (a, None)
               | Some (x, region) \<Rightarrow>
                   go_bind (carve (reg_Planes region) sz []) (\<lambda>(planes, remaining, fragments).
                     if remaining > 0 then
                       Inr (a\<lparr>al_regions := AList.update x
                              (region\<lparr>reg_Planes := rollback fragments planes\<rparr>) (al_regions a)\<rparr>, None)
                     else
                       (let (a', alloc) = commit_promotion a x region planes fragments sz regionType flags now
                        in Inr (a', Some alloc)))))"

section \<open>New regions, allocation and release\<close>

definition allocateNewRegion ::
  "Allocator3D \<Rightarrow> u32 \<Rightarrow> RegionType \<Rightarrow> AllocationFlags \<Rightarrow> u64 \<Rightarrow> (Allocator3D \<times> (error + Allocation)) go"
where
  "allocateNewRegion a sz regionType flags now =
     (let regionID = al_nextRegionID a + 1;
          plane = getPlaneFromPool a 0 regionID;
          region = AddPlane (NewRegion regionID regionType now) plane;
          a1 = a\<lparr>al_nextRegionID := regionID,
                 al_regions := AList.update regionID region (al_regions a)\<rparr>
      in if ucast (Plane_FreeBytes plane) \<ge> sz then
           go_bind (Plane_Allocate plane (ucast sz)) (\<lambda>(plane', r). case r of
               None \<Rightarrow> Inr (a1, Inl NewPlaneAllocationFailed)
             | Some startZ \<Rightarrow>
                 (let allocID = al_nextAllocID a1 + 1;
                      addr = \<lparr>addr_X = regionID, addr_Y = 0, addr_Z = startZ\<rparr>;
                      alloc = (NewAllocation allocID addr sz regionType now)\<lparr>alloc_Flags := flags\<rparr>;
                      region' = charge_region region [Plane_record plane' startZ alloc] sz
                  in Inr (promoteRegionLRU
                       (a1\<lparr>al_nextAllocID := allocID,
                           al_regions := AList.update regionID region' (al_regions a1)\<rparr>) regionID,
                       Inr alloc)))
         else Inr (a1, Inl (InsufficientMemory sz)))"

definition allocateSync ::
  "order \<Rightarrow> Allocator3D \<Rightarrow> u32 \<Rightarrow> RegionType \<Rightarrow> AllocationFlags \<Rightarrow> u64
     \<Rightarrow> (Allocator3D \<times> (error + Allocation)) go" where
  "allocateSync ord a sz regionType flags now =
     go_bind (tryFastAllocation a sz regionType now) (\<lambda>fast. case fast of
         Some (a', alloc) \<Rightarrow> Inr (a', Inr alloc)
       | None \<Rightarrow>
           go_bind (tryYPromotion ord a sz regionType flags now) (\<lambda>(a', promoted). case promoted of
               Some alloc \<Rightarrow> Inr (a', Inr alloc)
             | None \<Rightarrow> allocateNewRegion a' sz regionType flags now))"

text \<open>
  With workers enabled, \<^verbatim>\<open>allocateConcurrent\<close> hands the request to a worker, which runs
  \<^verbatim>\<open>doAllocate\<close>, or falls back to a synchronous call when the queue is full.  The caller waits
  for the answer in either case.
\<close>

record AllocResult =
  res_Address :: Address3D
  res_Allocation :: "Allocation option"
  res_Error :: "error option"

definition doAllocate ::
  "order \<Rightarrow> Allocator3D \<Rightarrow> u32 \<Rightarrow> RegionType \<Rightarrow> AllocationFlags \<Rightarrow> u64
     \<Rightarrow> (Allocator3D \<times> AllocResult) go" where
  "doAllocate ord a sz regionType flags now =
     go_bind (allocateSync ord a sz regionType flags now) (\<lambda>(a', r). Inr (a', case r of
         Inl e \<Rightarrow> \<lparr>res_Address = \<lparr>addr_X = 0, addr_Y = 0, addr_Z = 0\<rparr>, res_Allocation = None,
                   res_Error = Some e\<rparr>
       | Inr alloc \<Rightarrow> \<lparr>res_Address = alloc_Address alloc, res_Allocation = Some alloc,
                       res_Error = None\<rparr>))"

fun freeSync_planes :: "Fragment list \<Rightarrow> Plane list \<Rightarrow> Plane list" where
  "freeSync_planes [] planes = planes"
| "freeSync_planes (frag # frags) planes =
     freeSync_planes frags
       (upd_first (\<lambda>p. plane_ID p = frag_PlaneID frag) (\<lambda>p. fst (Plane_Free p (frag_StartZ frag))) planes)"

definition credit_region :: "Region \<Rightarrow> Plane list \<Rightarrow> u32 \<Rightarrow> Region" where
  "credit_region r planes sz =
     r\<lparr>reg_Planes := planes, reg_AllocCount := reg_AllocCount r + NOT 0,
       reg_FreeBytes := reg_FreeBytes r + ucast sz\<rparr>"

definition count_free :: "Allocator3D \<Rightarrow> u64 \<Rightarrow> Region \<Rightarrow> Allocator3D" where
  "count_free a x region =
     a\<lparr>al_regions := AList.update x region (al_regions a),
       al_stats := (al_stats a)\<lparr>st_Frees := st_Frees (al_stats a) + 1\<rparr>\<rparr>"

definition freeSync :: "Allocator3D \<Rightarrow> Allocation \<Rightarrow> Allocator3D \<times> error option" where
  "freeSync a alloc =
     (let x = addr_X (alloc_Address alloc)
      in case GetRegion a x of
           None \<Rightarrow> (a, Some (RegionNotFound x))
         | Some region \<Rightarrow>
             if IsYPromoted alloc then
               (count_free a x (credit_region region
                  (freeSync_planes (alloc_Fragments alloc) (reg_Planes region)) (alloc_Size alloc)), None)
             else (case find (\<lambda>p. plane_ID p = addr_Y (alloc_Address alloc)) (reg_Planes region) of
                 None \<Rightarrow> (a, Some (PlaneNotFound (addr_Y (alloc_Address alloc))))
               | Some plane \<Rightarrow>
                   (let (plane', ok) = Plane_Free plane (addr_Z (alloc_Address alloc))
                    in if \<not> ok then (a, Some (FreeFailed (alloc_Address alloc)))
                       else (count_free a x (credit_region region
                          (upd_first (\<lambda>p. plane_ID p = addr_Y (alloc_Address alloc)) (\<lambda>_. plane')
                            (reg_Planes region)) (alloc_Size alloc)), None))))"

text \<open>
  The entry points.  A request to the concurrent allocator is handed to a worker when the queue
  accepts it (the argument \<open>queued\<close>, decided by the scheduler) and served by the caller
  otherwise.  A queued request is answered only if there is a worker: the outcome \<open>None\<close> stands
  for a call that waits for ever.  This is a single call, with no other in progress; queue,
  workers and result channels of concurrent calls are the step relation of \<^verbatim>\<open>Workers\<close>.
\<close>

definition allocateConcurrent ::
  "bool \<Rightarrow> order \<Rightarrow> Allocator3D \<Rightarrow> u32 \<Rightarrow> RegionType \<Rightarrow> AllocationFlags \<Rightarrow> u64
     \<Rightarrow> (Allocator3D \<times> Allocation option \<times> error option) go option" where
  "allocateConcurrent queued ord a sz regionType flags now =
     (if al_workersClosed a then Some (Inl ClosedChannel)
      else if queued then
        (if cfg_WorkerCount (al_config a) \<le> 0 then None
         else Some (go_bind (doAllocate ord a sz regionType flags now)
           (\<lambda>(a', result). Inr (a', res_Allocation result, res_Error result))))
      else Some (go_bind (allocateSync ord a sz regionType flags now) (\<lambda>(a', r). Inr (a', case r of
          Inl e \<Rightarrow> (None, Some e) | Inr alloc \<Rightarrow> (Some alloc, None)))))"

definition Allocate ::
  "bool \<Rightarrow> order \<Rightarrow> Allocator3D \<Rightarrow> u32 \<Rightarrow> RegionType \<Rightarrow> AllocationFlags \<Rightarrow> u64
     \<Rightarrow> (Allocator3D \<times> Allocation option \<times> error option) go option" where
  "Allocate queued ord a sz regionType flags now =
     (if cfg_EnableConcurrent (al_config a)
      then allocateConcurrent queued ord a sz regionType flags now
      else Some (go_bind (allocateSync ord a sz regionType flags now) (\<lambda>(a', r). Inr (a', case r of
          Inl e \<Rightarrow> (None, Some e) | Inr alloc \<Rightarrow> (Some alloc, None)))))"

definition freeConcurrent :: "Allocator3D \<Rightarrow> Allocation \<Rightarrow> Allocator3D \<times> error option" where
  "freeConcurrent a alloc = freeSync a alloc"

definition Allocator_Free :: "Allocator3D \<Rightarrow> Allocation \<Rightarrow> Allocator3D \<times> error option" where
  "Allocator_Free a alloc =
     (if cfg_EnableConcurrent (al_config a) then freeConcurrent a alloc else freeSync a alloc)"

text \<open>Closing a channel twice panics, and so does a request that is sent to a closed one.\<close>

definition Allocator_Shutdown :: "Allocator3D \<Rightarrow> Allocator3D go" where
  "Allocator_Shutdown a =
     (if al_workersClosed a then Inl ClosedChannel
      else if al_freeWorkersClosed a then Inl ClosedChannel
      else Inr (a\<lparr>al_workersClosed := True, al_freeWorkersClosed := True\<rparr>))"

definition IsConcurrent :: "Allocator3D \<Rightarrow> bool" where
  "IsConcurrent a = cfg_EnableConcurrent (al_config a)"

text \<open>
  \<^verbatim>\<open>AllocateInRegion\<close> on the region \<open>x\<close>.  Its contract asks the caller to hold the write lock
  of the region; \<open>locked\<close> says whether the caller does.  The existing planes are tried first.
  The second phase calls \<^verbatim>\<open>AddPlane\<close>, which takes the same lock again, so with the lock held it
  never returns, which is the outcome \<open>None\<close>.
\<close>

definition alloc_in_region_ok ::
  "Allocator3D \<Rightarrow> u64 \<Rightarrow> Region \<Rightarrow> Plane list \<Rightarrow> u32 \<Rightarrow> Allocation \<Rightarrow> Allocator3D" where
  "alloc_in_region_ok a x region planes sz alloc =
     promoteRegionLRU
       (a\<lparr>al_nextAllocID := alloc_ID alloc,
          al_regions := AList.update x (charge_region region planes sz) (al_regions a)\<rparr>)
       (reg_ID region)"

definition AllocateInRegion ::
  "bool \<Rightarrow> Allocator3D \<Rightarrow> u32 \<Rightarrow> u64 \<Rightarrow> AllocationFlags \<Rightarrow> u64
     \<Rightarrow> (Allocator3D \<times> (error + Allocation)) go option" where
  "AllocateInRegion locked a sz x flags now =
     (case GetRegion a x of
        None \<Rightarrow> Some (Inl NilDereference)
      | Some region \<Rightarrow>
          (let mk = (\<lambda>y z. (NewAllocation (al_nextAllocID a + 1)
                 \<lparr>addr_X = reg_ID region, addr_Y = y, addr_Z = z\<rparr> sz (reg_Type region) now)
                 \<lparr>alloc_Flags := flags\<rparr>)
           in case alloc_in_planes mk sz (reg_Planes region) of
                Inl e \<Rightarrow> Some (Inl e)
              | Inr (Some (planes, alloc)) \<Rightarrow>
                  Some (Inr (alloc_in_region_ok a x region planes sz alloc, Inr alloc))
              | Inr None \<Rightarrow>
                  if locked then None
                  else
                    (let newPlaneID = of_nat (length (reg_Planes region)) :: u32;
                         plane = getPlaneFromPool a newPlaneID (reg_ID region);
                         region1 = AddPlane region plane;
                         a1 = a\<lparr>al_regions := AList.update x region1 (al_regions a)\<rparr>
                     in case alloc_in_planes mk sz [plane] of
                          Inl e \<Rightarrow> Some (Inl e)
                        | Inr (Some (planes, alloc)) \<Rightarrow>
                            Some (Inr (alloc_in_region_ok a x region1 (reg_Planes region @ planes) sz alloc,
                                       Inr alloc))
                        | Inr None \<Rightarrow> Some (Inr (a1, Inl AllocateInRegionFailed)))))"

section \<open>Compaction analysis\<close>

record CompactionConfig =
  FragmentationThreshold :: rat
  MaxAllocationsToMove :: int
  GasRefundPercentage :: rat

definition DefaultCompactionConfig :: CompactionConfig where
  "DefaultCompactionConfig =
     \<lparr>FragmentationThreshold = 3 / 10, MaxAllocationsToMove = 10, GasRefundPercentage = 1 / 2\<rparr>"

definition GetCompactionReport :: "order \<Rightarrow> Allocator3D \<Rightarrow> (u64, CompactionReport) gomap" where
  "GetCompactionReport ord a =
     foldl (\<lambda>report (_, region). AList.update (reg_ID region) (Region_GetCompactionReport region) report)
       [] (range_over ord (al_regions a))"

text \<open>
  The two inner loops over the allocations of a plane and the planes of a region: \<open>Inl\<close> is the
  early return once enough allocations have been collected.  Each plane's map is visited in an
  order of its own.
\<close>

fun analyze_allocs :: "int \<Rightarrow> (u16 \<times> Allocation) list \<Rightarrow> u64 list \<Rightarrow> u64 list + u64 list" where
  "analyze_allocs limit [] moved = Inr moved"
| "analyze_allocs limit ((_, alloc) # es) moved =
     (if (alloc_Flags alloc AND FlagPinned) \<noteq> 0 \<or> IsYPromoted alloc
      then analyze_allocs limit es moved
      else let moved' = moved @ [alloc_ID alloc]
        in if int (length moved') \<ge> limit then Inl moved' else analyze_allocs limit es moved')"

fun analyze_planes :: "(Plane \<Rightarrow> order) \<Rightarrow> int \<Rightarrow> Plane list \<Rightarrow> u64 list \<Rightarrow> u64 list + u64 list" where
  "analyze_planes pord limit [] moved = Inr moved"
| "analyze_planes pord limit (p # ps) moved =
     (case analyze_allocs limit (range_over (pord p) (plane_Allocations p)) moved of
        Inl r \<Rightarrow> Inl r
      | Inr moved' \<Rightarrow> analyze_planes pord limit ps moved')"

fun analyze_regions ::
  "(Plane \<Rightarrow> order) \<Rightarrow> CompactionConfig \<Rightarrow> (u64 \<times> Region) list \<Rightarrow> u64 list \<Rightarrow> u64 list"
where
  "analyze_regions pord config [] moved = moved"
| "analyze_regions pord config ((_, region) # rs) moved =
     (let report = Region_GetCompactionReport region
      in if \<not> rep_RecommendCompact report
            \<or> rep_Fragmentation report < FragmentationThreshold config
         then analyze_regions pord config rs moved
         else (case analyze_planes pord (MaxAllocationsToMove config) (reg_Planes region) moved of
                 Inl r \<Rightarrow> r
               | Inr moved' \<Rightarrow> analyze_regions pord config rs moved'))"

definition AnalyzeCompaction ::
  "order \<Rightarrow> (Plane \<Rightarrow> order) \<Rightarrow> Allocator3D \<Rightarrow> CompactionConfig \<Rightarrow> u64 list" where
  "AnalyzeCompaction ord pord a config =
     analyze_regions pord config (range_over ord (al_regions a)) []"

end
