(* ===== verification/PlaneCells.thy ===== *)
theory PlaneCells
  imports Allocator
begin

text \<open>
  Allocation within the planes of one region: the cells that a list of planes has in use, the first
  plane that serves a request, and the fragments that a promotion carves out of several planes.
\<close>

section \<open>Cells of a list of planes\<close>

type_synonym cell = "u64 \<times> u32 \<times> nat"

definition pcells :: "Plane list \<Rightarrow> (u32 \<times> nat) set" where
  "pcells ps = {(plane_ID p, z) | p z. p \<in> set ps \<and> z \<in> plane_used p}"

definition frange :: "Fragment \<Rightarrow> nat set" where
  "frange f = {unat (frag_StartZ f)..<unat (frag_StartZ f) + unat (frag_Size f)}"

definition fcells :: "Fragment list \<Rightarrow> (u32 \<times> nat) set" where
  "fcells fs = {(frag_PlaneID f, z) | f z. f \<in> set fs \<and> z \<in> frange f}"

definition frag_sum :: "Fragment list \<Rightarrow> nat" where
  "frag_sum fs = sum_list (map (\<lambda>f. unat (frag_Size f)) fs)"

lemma pcells_simps [simp]:
  "pcells [] = {}"
  "pcells (p # ps) = Pair (plane_ID p) ` plane_used p \<union> pcells ps"
  "pcells (ps @ qs) = pcells ps \<union> pcells qs"
  by (auto simp: pcells_def)

lemma fcells_simps [simp]:
  "fcells [] = {}"
  "fcells (f # fs) = Pair (frag_PlaneID f) ` frange f \<union> fcells fs"
  by (auto simp: fcells_def)

lemma frag_sum_simps [simp]:
  "frag_sum [] = 0" "frag_sum (f # fs) = unat (frag_Size f) + frag_sum fs"
  by (simp_all add: frag_sum_def)

lemma free_sum_simps [simp]:
  "free_sum [] = 0" "free_sum (p # ps) = unat (Plane_FreeBytes p) + free_sum ps"
  "free_sum (ps @ qs) = free_sum ps + free_sum qs"
  by (simp_all add: free_sum_def)

lemma size_sum_simps [simp]:
  "size_sum [] = 0" "size_sum (p # ps) = unat (plane_Size p) + size_sum ps"
  "size_sum (ps @ qs) = size_sum ps + size_sum qs"
  by (simp_all add: size_sum_def)

lemma planes_ok_Cons:
  "planes_ok (p # ps) \<longleftrightarrow>
     plane_inv p \<and> plane_safe p \<and> plane_ID p \<notin> plane_ID ` set ps \<and> planes_ok ps"
  by (auto simp: planes_ok_def)

lemma planes_ok_append:
  "planes_ok (ps @ qs) \<longleftrightarrow>
     planes_ok ps \<and> planes_ok qs \<and> plane_ID ` set ps \<inter> plane_ID ` set qs = {}"
  by (auto simp: planes_ok_def)

text \<open>Replacing one plane of a sound list by a sound plane with the same identifier.\<close>

lemma planes_ok_replace:
  assumes "planes_ok (pre @ p # post)" "plane_inv q" "plane_safe q" "plane_ID q = plane_ID p"
  shows "planes_ok (pre @ q # post)"
  using assms by (simp add: planes_ok_append planes_ok_Cons)

lemma pcells_fresh: "y \<notin> plane_ID ` set ps \<Longrightarrow> (y, z) \<notin> pcells ps"
  by (auto simp: pcells_def)

text \<open>Plane identifiers are 32-bit words, so the byte sums of a sound list stay far below \<open>2 ^ 64\<close>.\<close>

lemma length_distinct_u32: "distinct (ids :: u32 list) \<Longrightarrow> length ids \<le> 2 ^ 32"
proof -
  assume "distinct ids"
  then have "length ids = card (set ids)" by (simp add: distinct_card)
  also have "\<dots> = card (unat ` set ids)"
    by (rule card_image [symmetric]) (auto simp: inj_on_def intro: unsigned_word_eqI)
  also have "\<dots> \<le> card {..<2 ^ 32 :: nat}"
    using unsigned_less [where ?'b = 32 and ?'a = nat] by (intro card_mono) auto
  finally show ?thesis by simp
qed

lemma sum_list_le_const: "(\<And>x. x \<in> set xs \<Longrightarrow> f x \<le> c) \<Longrightarrow> sum_list (map f xs) \<le> c * length xs"
  for f :: "'a \<Rightarrow> nat"
  by (induction xs) (auto simp: add_mono)

lemma size_sum_bound:
  assumes "planes_ok ps"
  shows "free_sum ps \<le> size_sum ps" and "size_sum ps < 2 ^ 64"
proof -
  have "unat (Plane_FreeBytes p) \<le> unat (plane_Size p)" if "p \<in> set ps" for p
    using that assms unat_Plane_FreeBytes [OF plane_invD(1)] by (auto simp: planes_ok_def)
  then show "free_sum ps \<le> size_sum ps"
    by (auto simp: free_sum_def size_sum_def intro!: sum_list_mono)
  have "size_sum ps \<le> 65535 * length ps"
    unfolding size_sum_def by (rule sum_list_le_const) simp
  also have "\<dots> \<le> 65535 * 2 ^ 32"
    using assms length_distinct_u32 [of "map plane_ID ps"] by (intro mult_le_mono2) (simp add: planes_ok_def)
  finally show "size_sum ps < 2 ^ 64" by simp
qed

section \<open>Allocation in one plane\<close>

text \<open>
  What taking \<open>n\<close> bytes at \<open>z\<close> of plane \<open>p\<close> and leaving \<open>p'\<close> means.  All strategies rest on it.
\<close>

definition takes :: "Plane \<Rightarrow> u16 \<Rightarrow> u16 \<Rightarrow> Plane \<Rightarrow> bool" where
  "takes p n z p' \<longleftrightarrow> 0 < n \<and> n \<le> Plane_FreeBytes p \<and> Plane_Allocate p n = Inr (p', Some z)"

lemma takes_facts:
  assumes t: "takes p n z p'" and inv: "plane_inv p" and safe: "plane_safe p"
  shows "plane_ID p' = plane_ID p" "plane_Size p' = plane_Size p" "plane_Data p' = plane_Data p"
    "plane_Allocations p' = plane_Allocations p"
    "plane_used p' = plane_used p \<union> {unat z..<unat z + unat n}"
    "{unat z..<unat z + unat n} \<inter> plane_used p = {}"
    "unat z + unat n \<le> unat (plane_Size p)"
    "unat (Plane_FreeBytes p') + unat n = unat (Plane_FreeBytes p)"
    "plane_safe p'" "plane_wf p'"
proof -
  note t' = t [unfolded takes_def]
  note wf = plane_invD(1) [OF inv]
  note a = Plane_Allocate_Some [OF wf safe]
  show "plane_ID p' = plane_ID p" "plane_Size p' = plane_Size p" "plane_Data p' = plane_Data p"
    "plane_Allocations p' = plane_Allocations p"
    using t' Plane_Allocate_frame by auto
  show "plane_used p' = plane_used p \<union> {unat z..<unat z + unat n}"
    "{unat z..<unat z + unat n} \<inter> plane_used p = {}"
    "unat z + unat n \<le> unat (plane_Size p)"
    "unat (Plane_FreeBytes p') + unat n = unat (Plane_FreeBytes p)" "plane_wf p'"
    using t' a(5) a(2) a(1) a(7) a(6) by blast+
  show "plane_safe p'" using t' Plane_Allocate_safe [OF wf safe] by blast
qed

lemma takes_inv:
  assumes t: "takes p n z p'" and inv: "plane_inv p" and safe: "plane_safe p"
  shows "plane_inv p'"
  unfolding plane_inv_def takes_facts(4) [OF assms]
  using takes_facts(5,10) [OF assms] plane_invD(2-4) [OF inv] by blast

lemma takes_record:
  assumes t: "takes p n z p'" and inv: "plane_inv p" and safe: "plane_safe p"
    and sz: "entry_size a = unat n"
  shows "plane_inv (Plane_record p' z a)" "plane_safe (Plane_record p' z a)"
    "map_of (plane_Allocations p) z = None"
proof -
  note f = takes_facts [OF t inv safe]
  have blk: "block (z, a) = {unat z..<unat z + unat n}" by (simp add: block_def sz)
  have ne: "block (z, a) \<noteq> {}" using t by (simp add: blk takes_def word_less_nat_alt)
  have u: "plane_used p' = plane_used p \<union> block (z, a)" "block (z, a) \<inter> plane_used p = {}"
    using f(5,6) by (simp_all only: blk)
  from Plane_record_inv [OF inv f(10) f(4) u ne]
  show "plane_inv (Plane_record p' z a)" "map_of (plane_Allocations p) z = None" by blast+
  show "plane_safe (Plane_record p' z a)"
    using f(9) by (simp add: plane_safe_def Plane_record_def Plane_FreeBytes_def)
qed

lemma Plane_record_simps [simp]:
  "plane_ID (Plane_record p z a) = plane_ID p" "plane_Size (Plane_record p z a) = plane_Size p"
  "plane_FreeMap (Plane_record p z a) = plane_FreeMap p" "plane_Data (Plane_record p z a) = plane_Data p"
  "Plane_FreeBytes (Plane_record p z a) = Plane_FreeBytes p"
  "plane_Allocations (Plane_record p z a) = AList.update z a (plane_Allocations p)"
  by (simp_all add: Plane_record_def Plane_FreeBytes_def)

section \<open>The fast path within a region\<close>

lemma plane_serves:
  fixes sz :: u32
  assumes inv: "plane_inv p" and safe: "plane_safe p" and sz: "0 < sz" "sz \<le> ucast (Plane_FreeBytes p)"
  obtains (refuses) "first_fit (plane_FreeMap p) (unat sz) = None" "Plane_Allocate p (ucast sz) = Inr (p, None)"
  | (serves) p' k where "first_fit (plane_FreeMap p) (unat sz) = Some k" "unat sz < 65536" "takes p (ucast sz) (of_nat k) p'"
      "Plane_Allocate p (ucast sz) = Inr (p', Some (of_nat k))"
proof -
  have lt: "unat sz \<le> unat (Plane_FreeBytes p)" using sz(2) by (simp add: word_le_nat_alt)
  then have b: "unat sz < 65536" using unat_u16_bound [of "Plane_FreeBytes p"] by linarith
  then have u: "unat (ucast sz :: u16) = unat sz" by (rule unat_ucast_narrow)
  have n: "0 < (ucast sz :: u16)" "ucast sz \<le> Plane_FreeBytes p" using sz(1) lt by (simp_all add: word_nat_alt u)
  note ff = Plane_Allocate_first_fit [OF plane_invD(1) [OF inv] safe n]
  show thesis
  proof (cases "first_fit (plane_FreeMap p) (unat sz)")
    case None
    then show thesis using ff u by (intro refuses) simp_all
  next
    case (Some k)
    then obtain p' where "Plane_Allocate p (ucast sz) = Inr (p', Some (of_nat k))" using ff u by simp
    then show thesis using n b Some by (intro serves) (simp_all add: takes_def)
  qed
qed

lemma alloc_in_planes_cases:
  assumes ok: "planes_ok ps" and sz: "0 < sz"
  obtains (refuses) "alloc_in_planes mk sz ps = Inr None"
      "\<forall>p \<in> set ps. sz \<le> ucast (Plane_FreeBytes p) \<longrightarrow> first_fit (plane_FreeMap p) (unat sz) = None"
  | (serves) pre p post p' z where "ps = pre @ p # post" "unat sz < 65536" "takes p (ucast sz) z p'"
      "alloc_in_planes mk sz ps = Inr (Some (pre @ Plane_record p' z (mk (plane_ID p) z) # post, mk (plane_ID p) z))"
  using ok
proof (induction ps arbitrary: thesis)
  case Nil
  then show ?case by simp
next
  case (Cons p ps)
  then have inv: "plane_inv p" and safe: "plane_safe p" and ok: "planes_ok ps"
    by (auto simp: planes_ok_Cons)
  have skip: ?case
    if e: "alloc_in_planes mk sz (p # ps) = go_bind (alloc_in_planes mk sz ps)
        (\<lambda>r. Inr (map_option (\<lambda>(qs, alloc). (p # qs, alloc)) r))"
      and n: "sz \<le> ucast (Plane_FreeBytes p) \<longrightarrow> first_fit (plane_FreeMap p) (unat sz) = None"
  proof (rule Cons.IH [OF _ _ ok])
    assume "alloc_in_planes mk sz ps = Inr None"
      "\<forall>p \<in> set ps. sz \<le> ucast (Plane_FreeBytes p) \<longrightarrow> first_fit (plane_FreeMap p) (unat sz) = None"
    then show ?case using e n by (intro Cons.prems(1)) simp_all
  next
    fix pre q post q' z
    assume "ps = pre @ q # post" "unat sz < 65536" "takes q (ucast sz) z q'"
      "alloc_in_planes mk sz ps = Inr (Some (pre @ Plane_record q' z (mk (plane_ID q) z) # post, mk (plane_ID q) z))"
    then show ?case using e by (intro Cons.prems(2) [of "p # pre" q post z q']) simp_all
  qed
  show ?case
  proof (cases "sz \<le> ucast (Plane_FreeBytes p)")
    case False
    then show ?thesis by (intro skip) simp_all
  next
    case True
    show ?thesis
    proof (rule plane_serves [OF inv safe sz True])
      assume "first_fit (plane_FreeMap p) (unat sz) = None" "Plane_Allocate p (ucast sz) = Inr (p, None)"
      then show ?thesis using True by (intro skip) simp_all
    next
      fix p' k assume "unat sz < 65536" "takes p (ucast sz) (of_nat k) p'" "Plane_Allocate p (ucast sz) = Inr (p', Some (of_nat k))"
      then show ?thesis using True by (intro Cons.prems(2) [of "[]" p ps "of_nat k" p']) (simp_all add: Let_def)
    qed
  qed
qed

section \<open>Carving fragments out of the planes\<close>

text \<open>
  The relation between the planes before and after the carving loop and the fragments it made:
  every plane is left alone or gives one fragment.
\<close>

inductive carved :: "Plane list \<Rightarrow> Plane list \<Rightarrow> Fragment list \<Rightarrow> bool" where
  nil: "carved [] [] []"
| skip: "carved ps ps' fs \<Longrightarrow> carved (p # ps) (p # ps') fs"
| take: "carved ps ps' fs \<Longrightarrow> takes p (frag_Size f) (frag_StartZ f) p' \<Longrightarrow> frag_PlaneID f = plane_ID p \<Longrightarrow>
    carved (p # ps) (p' # ps') (f # fs)"

lemma carved_refl: "carved ps ps []"
  by (induction ps) (auto intro: carved.intros)

lemma unat_min32: "unat (min32 a b) = min (unat a) (unat b)"
  by (simp add: min32_def min_def word_less_nat_alt)

text \<open>One turn of the loop: the size it asks for fits 16 bits and both bounds.\<close>

lemma carve_size:
  fixes p :: Plane and remaining :: u32
  assumes "remaining \<noteq> 0" "Plane_FreeBytes p \<noteq> 0"
  defines "n \<equiv> (ucast (min32 (ucast (Plane_FreeBytes p)) remaining) :: u16)"
  shows "0 < n" "n \<le> Plane_FreeBytes p" "unat n \<le> unat remaining"
    "unat (remaining - ucast n) + unat n = unat remaining"
proof -
  have m: "unat (min32 (ucast (Plane_FreeBytes p)) remaining) = min (unat (Plane_FreeBytes p)) (unat remaining)"
    by (simp add: unat_min32)
  then have "unat (min32 (ucast (Plane_FreeBytes p)) remaining) < 65536"
    using unat_u16_bound [of "Plane_FreeBytes p"] by linarith
  then have u: "unat n = min (unat (Plane_FreeBytes p)) (unat remaining)"
    unfolding n_def by (simp only: unat_ucast_narrow m)
  have "0 < unat remaining" "0 < unat (Plane_FreeBytes p)"
    using assms(1,2) by (simp_all add: unat_gt_0)
  then show "0 < n" "n \<le> Plane_FreeBytes p" and le: "unat n \<le> unat remaining"
    unfolding word_nat_alt u by simp_all
  then have "ucast n \<le> remaining" by (simp add: word_le_nat_alt)
  then show "unat (remaining - ucast n) + unat n = unat remaining"
    using le by (simp add: unat_sub)
qed

text \<open>The loop never panics, and what it does is described by the relation.\<close>


lemma carve_carved:
  assumes "planes_ok ps"
  shows "\<exists>ps' rem' new. carve ps remaining frs = Inr (ps', rem', frs @ new) \<and> carved ps ps' new
     \<and> unat rem' + frag_sum new = unat remaining"
  using assms
proof (induction ps arbitrary: remaining frs)
  case Nil
  then show ?case by (auto intro: carved.nil)
next
  case (Cons p ps)
  then have inv: "plane_inv p" and safe: "plane_safe p" and ok: "planes_ok ps"
    by (auto simp: planes_ok_Cons)
  define n :: u16 where "n = ucast (min32 (ucast (Plane_FreeBytes p)) remaining)"
  have skip: ?case
    if "carve (p # ps) remaining frs = go_bind (carve ps remaining frs) (\<lambda>(qs, rest). Inr (p # qs, rest))"
    using Cons.IH [OF ok, of remaining frs] that by (auto intro: carved.skip)
  consider (finished) "remaining = 0" | (full) "remaining \<noteq> 0" "Plane_FreeBytes p = 0"
    | (attempt) "remaining \<noteq> 0" "Plane_FreeBytes p \<noteq> 0" by blast
  then show ?case
  proof cases
    case finished
    then show ?thesis by (auto intro!: exI [of _ "[]"] carved_refl)
  next
    case full
    then show ?thesis by (intro skip) simp
  next
    case attempt
    note n = carve_size [OF attempt, folded n_def]
    have "n \<noteq> 0" using n(1) by (simp add: word_gt_0)
    then have c: "carve (p # ps) remaining frs = go_bind (Plane_Allocate p n) (\<lambda>(p', r). case r of
          None \<Rightarrow> go_bind (carve ps remaining frs) (\<lambda>(qs, rest). Inr (p' # qs, rest))
        | Some z \<Rightarrow> go_bind (carve ps (remaining - ucast n) (frs @ [\<lparr>frag_PlaneID = plane_ID p,
             frag_StartZ = z, frag_Size = n, frag_IsFirst = (frs = [])\<rparr>]))
             (\<lambda>(qs, rest). Inr (p' # qs, rest)))"
      using attempt by (simp add: Let_def flip: n_def)
    obtain p' r where a: "Plane_Allocate p n = Inr (p', r)"
      using Plane_Allocate_no_panic [OF plane_invD(1) [OF inv] safe n(1,2)] by blast
    show ?thesis
    proof (cases r)
      case None
      then have "p' = p" using a Plane_Allocate_None by blast
      then show ?thesis using None a c by (intro skip) simp
    next
      case (Some z)
      let ?f = "\<lparr>frag_PlaneID = plane_ID p, frag_StartZ = z, frag_Size = n, frag_IsFirst = (frs = [])\<rparr>"
      have t: "takes p (frag_Size ?f) (frag_StartZ ?f) p'" using a Some n by (simp add: takes_def)
      from Cons.IH [OF ok, of "remaining - ucast n" "frs @ [?f]"] obtain qs rem' new where
        q: "carve ps (remaining - ucast n) (frs @ [?f]) = Inr (qs, rem', (frs @ [?f]) @ new)"
          "carved ps qs new" "unat rem' + frag_sum new = unat (remaining - ucast n)" by blast
      have "carve (p # ps) remaining frs = Inr (p' # qs, rem', frs @ (?f # new))"
        using c a Some q(1) by simp
      moreover have "carved (p # ps) (p' # qs) (?f # new)" by (rule carved.take [OF q(2) t]) simp
      moreover have "unat rem' + frag_sum (?f # new) = unat remaining" using q(3) n(4) by simp
      ultimately show ?thesis by blast
    qed
  qed
qed

lemma carved_IDs:
  assumes "carved ps ps' fs" "planes_ok ps"
  shows "map plane_ID ps' = map plane_ID ps" "map plane_Size ps' = map plane_Size ps"
    "frag_PlaneID ` set fs \<subseteq> plane_ID ` set ps"
  using assms
proof (induction)
  case (skip ps ps' fs p)
  { case 1 then show ?case using skip by (simp add: planes_ok_Cons) }
  { case 2 then show ?case using skip by (simp add: planes_ok_Cons) }
  { case 3 then show ?case using skip by (auto simp: planes_ok_Cons) }
next
  case (take ps ps' fs p f p')
  { case 1 then show ?case using take takes_facts(1) [OF take.hyps(2)] by (simp add: planes_ok_Cons) }
  { case 2 then show ?case using take takes_facts(2) [OF take.hyps(2)] by (simp add: planes_ok_Cons) }
  { case 3 then show ?case using take by (auto simp: planes_ok_Cons) }
qed simp_all

lemma carved_ID_set:
  assumes "carved ps ps' fs" "planes_ok ps"
  shows "plane_ID ` set ps' = plane_ID ` set ps"
  using carved_IDs(1) [OF assms] by (metis list.set_map)

lemma carved_distinct:
  assumes "carved ps ps' fs" "planes_ok ps"
  shows "distinct (map frag_PlaneID fs)"
  using assms
proof (induction)
  case (take ps ps' fs p f p')
  then have "frag_PlaneID ` set fs \<subseteq> plane_ID ` set ps" "plane_ID p \<notin> plane_ID ` set ps"
    using carved_IDs(3) [OF take.hyps(1)] by (auto simp: planes_ok_Cons)
  then show ?case using take by (auto simp: planes_ok_Cons)
qed (auto simp: planes_ok_Cons)

lemma carved_sound:
  assumes "carved ps ps' fs" "planes_ok ps"
  shows "planes_ok ps' \<and> free_sum ps' + frag_sum fs = free_sum ps \<and> size_sum ps' = size_sum ps"
  using assms
proof (induction)
  case (skip ps ps' fs p)
  then have sound: "plane_inv p" "plane_safe p" "planes_ok ps" "plane_ID p \<notin> plane_ID ` set ps"
    by (auto simp: planes_ok_Cons)
  show ?case
    using skip.IH [OF sound(3)] carved_ID_set [OF skip.hyps sound(3)] sound
    by (simp add: planes_ok_Cons)
next
  case (take ps ps' fs p f p')
  then have sound: "plane_inv p" "plane_safe p" "planes_ok ps" "plane_ID p \<notin> plane_ID ` set ps"
    by (auto simp: planes_ok_Cons)
  note t = takes_facts [OF take.hyps(2) sound(1,2)]
  show ?case
    using take.IH [OF sound(3)] carved_ID_set [OF take.hyps(1) sound(3)] sound(4) t(1,2,8,9)
      takes_inv [OF take.hyps(2) sound(1,2)]
    by (simp add: planes_ok_Cons)
qed simp

lemma carved_cells:
  assumes "carved ps ps' fs" "planes_ok ps"
  shows "pcells ps' = pcells ps \<union> fcells fs \<and> pcells ps \<inter> fcells fs = {}"
  using assms
proof (induction)
  case (skip ps ps' fs p)
  then have "frag_PlaneID ` set fs \<subseteq> plane_ID ` set ps" "plane_ID p \<notin> plane_ID ` set ps"
    using carved_IDs(3) [OF skip.hyps] by (auto simp: planes_ok_Cons)
  then have "Pair (plane_ID p) ` plane_used p \<inter> fcells fs = {}" by (auto simp: fcells_def)
  then show ?case using skip by (auto simp: planes_ok_Cons)
next
  case (take ps ps' fs p f p')
  then have sound: "plane_inv p" "plane_safe p" "planes_ok ps" "plane_ID p \<notin> plane_ID ` set ps"
    by (auto simp: planes_ok_Cons)
  note t = takes_facts [OF take.hyps(2) sound(1,2)]
  have "frag_PlaneID ` set fs \<subseteq> plane_ID ` set ps"
    using carved_IDs(3) [OF take.hyps(1) sound(3)] .
  then have "Pair (plane_ID p) ` plane_used p \<inter> fcells fs = {}"
    "Pair (plane_ID p) ` frange f \<inter> pcells ps = {}"
    using sound(4) by (auto simp: fcells_def pcells_def)
  moreover have "Pair (plane_ID p) ` frange f \<inter> Pair (plane_ID p) ` plane_used p = {}"
    using t(6) by (auto simp: frange_def)
  moreover have "Pair (plane_ID p') ` plane_used p' =
      Pair (plane_ID p) ` plane_used p \<union> Pair (plane_ID p) ` frange f"
    unfolding t(1,5) frange_def by (rule image_Un)
  ultimately show ?case
    using take.IH [OF sound(3)] unfolding pcells_simps fcells_simps take.hyps(3)
    by (simp add: Int_Un_distrib Int_Un_distrib2 Int_commute Un_ac)
qed simp

text \<open>The rollback of the fragments gives back the planes exactly.\<close>

lemma AList_delete_absent: "map_of al k = None \<Longrightarrow> AList.delete k al = al"
  by (induction al) (auto split: if_splits)

lemma undo_takes:
  assumes t: "takes p (frag_Size f) (frag_StartZ f) p'" and inv: "plane_inv p" and safe: "plane_safe p"
  shows "undo_fragment f p' = p"
proof -
  note wf = plane_invD(1) [OF inv]
  note a = Plane_Allocate_Some [OF wf safe, of "frag_Size f" p' "frag_StartZ f"]
  note t' = t [unfolded takes_def]
  have p': "p' = p\<lparr>plane_FreeMap := Bitmap_SetRange (plane_FreeMap p) (frag_StartZ f) (frag_StartZ f + frag_Size f)\<rparr>"
    using a(4) t' by blast
  have "entry_size (NewAllocation 0 (NewAddress 0 0 0) (ucast (frag_Size f)) 0 0) = unat (frag_Size f)"
    by (simp add: entry_size_def)
  note none = takes_record(3) [OF t inv safe this]
  have "Bitmap_ClearRange (plane_FreeMap p') (frag_StartZ f) (frag_StartZ f + frag_Size f) = plane_FreeMap p"
    using fm.release_reserve_block [OF plane_wfD(1) [OF wf]] a(1,2) t' plane_wfD(2) [OF wf]
    by (simp add: p')
  then show ?thesis
    using none by (simp add: undo_fragment_def p' AList_delete_absent)
qed

lemma rollback_skip:
  "plane_ID p \<notin> frag_PlaneID ` set fs \<Longrightarrow> rollback fs (p # ps) = p # rollback fs ps"
  unfolding rollback_def by (induction fs arbitrary: ps) auto

lemma rollback_carved:
  assumes "carved ps ps' fs" "planes_ok ps"
  shows "rollback fs ps' = ps"
  using assms
proof (induction)
  case nil
  then show ?case by (simp add: rollback_def)
next
  case (skip ps ps' fs p)
  then have "plane_ID p \<notin> frag_PlaneID ` set fs"
    using carved_IDs(3) [OF skip.hyps] by (auto simp: planes_ok_Cons)
  then show ?case using skip by (simp add: rollback_skip planes_ok_Cons)
next
  case (take ps ps' fs p f p')
  then have sound: "plane_inv p" "plane_safe p" "planes_ok ps" "plane_ID p \<notin> plane_ID ` set ps"
    by (auto simp: planes_ok_Cons)
  then have "plane_ID p \<notin> frag_PlaneID ` set fs"
    using carved_IDs(3) [OF take.hyps(1) sound(3)] by blast
  moreover have "rollback (f # fs) (p' # ps') = rollback fs (p # ps')"
    using undo_takes [OF take.hyps(2) sound(1,2)] takes_facts(1) [OF take.hyps(2) sound(1,2)] take.hyps(3)
    by (simp add: rollback_def)
  ultimately show ?case using take.IH [OF sound(3)] by (simp add: rollback_skip)
qed

text \<open>The first fragment: where it was taken, and what recording the allocation there does.\<close>

lemma carved_first:
  assumes "carved ps ps' (f # fs)"
  shows "\<exists>pre p p' post post'. ps = pre @ p # post \<and> ps' = pre @ p' # post'
     \<and> takes p (frag_Size f) (frag_StartZ f) p' \<and> frag_PlaneID f = plane_ID p \<and> carved post post' fs"
  using assms
proof (induction ps ps' "f # fs" rule: carved.induct)
  case (skip ps ps' p)
  then obtain pre q q' post post' where "ps = pre @ q # post" "ps' = pre @ q' # post'"
      "takes q (frag_Size f) (frag_StartZ f) q'" "frag_PlaneID f = plane_ID q" "carved post post' fs"
    by blast
  then show ?case by (intro exI [of _ "p # pre"]) auto
next
  case (take ps ps' p p')
  then show ?case by (intro exI [of _ "[]"]) auto
qed

lemma upd_first_at:
  "(\<And>x. x \<in> set pre \<Longrightarrow> \<not> P x) \<Longrightarrow> P y \<Longrightarrow> upd_first P f (pre @ y # post) = pre @ f y # post"
  by (induction pre) auto

lemma carved_record:
  assumes c: "carved ps ps' (f # fs)" and ok: "planes_ok ps" and sz: "entry_size a = unat (frag_Size f)"
  defines "qs \<equiv> upd_first (\<lambda>p. plane_ID p = frag_PlaneID f) (\<lambda>p. Plane_record p (frag_StartZ f) a) ps'"
  shows "planes_ok qs" "pcells qs = pcells ps'" "free_sum qs = free_sum ps'" "size_sum qs = size_sum ps'"
    "map plane_ID qs = map plane_ID ps'" "map plane_Size qs = map plane_Size ps'"
proof -
  from carved_first [OF c] obtain pre p p' post post' where s: "ps = pre @ p # post" "ps' = pre @ p' # post'"
    and t: "takes p (frag_Size f) (frag_StartZ f) p'" and i: "frag_PlaneID f = plane_ID p" by blast
  have sound: "plane_inv p" "plane_safe p" "plane_ID p \<notin> plane_ID ` set pre"
    using ok s(1) by (auto simp: planes_ok_append planes_ok_Cons)
  note tf = takes_facts [OF t sound(1,2)]
  have qs: "qs = pre @ Plane_record p' (frag_StartZ f) a # post'"
    unfolding qs_def s(2) i using sound(3) tf(1) by (intro upd_first_at) (auto simp: image_iff)
  have "planes_ok ps'" using carved_sound [OF c ok] by simp
  then show "planes_ok qs" unfolding qs s(2)
    by (rule planes_ok_replace) (use takes_record [OF t sound(1,2) sz] in simp_all)
  show "pcells qs = pcells ps'" "free_sum qs = free_sum ps'" "size_sum qs = size_sum ps'"
    "map plane_ID qs = map plane_ID ps'" "map plane_Size qs = map plane_Size ps'"
    by (simp_all add: qs s(2))
qed

end
