(* ===== verification/AllocatorSafety.thy ===== *)
theory AllocatorSafety
  imports PlaneCells
begin

text \<open>
  Correctness of the allocator.  The abstract state is the set of cells (region, plane, offset)
  in use.  A successful allocation takes cells that were free, and exactly as many as asked
  for; a failed one takes none; freeing gives the cells back.  The theory proves this for each
  of the three strategies of \<^verbatim>\<open>allocateSync\<close>, then for their composition, and states it as an
  interface that a client can rely on.
\<close>

section \<open>The allocator invariant\<close>

text \<open>
  The key of a region is its identifier and is at most the counter; the region's own invariant
  holds; all planes have the configured size; the LRU list names known regions, each once, and
  at most 100 of them.
\<close>

definition cfg_size :: "Config \<Rightarrow> u16" where
  "cfg_size c = (if cfg_PlaneSize c = 0 then 65535 else cfg_PlaneSize c)"

definition al_entry :: "Allocator3D \<Rightarrow> u64 \<times> Region \<Rightarrow> bool" where
  "al_entry a e \<longleftrightarrow> reg_ID (snd e) = fst e \<and> region_inv (snd e) \<and> fst e \<le> al_nextRegionID a
     \<and> (\<forall>p \<in> set (reg_Planes (snd e)). plane_Size p = cfg_size (al_config a))"

definition lru_ok :: "u64 list \<Rightarrow> u64 set \<Rightarrow> bool" where
  "lru_ok lru known \<longleftrightarrow> distinct lru \<and> set lru \<subseteq> known \<and> length lru \<le> 100"

definition al_inv :: "Allocator3D \<Rightarrow> bool" where
  "al_inv a \<longleftrightarrow> distinct (map fst (al_regions a)) \<and> (\<forall>e \<in> set (al_regions a). al_entry a e)
     \<and> lru_ok (al_regionLRU a) (fst ` set (al_regions a))"

definition used_cells :: "Allocator3D \<Rightarrow> cell set" where
  "used_cells a = {(x, c) | x r c. GetRegion a x = Some r \<and> c \<in> pcells (reg_Planes r)}"

definition alloc_cells :: "Allocation \<Rightarrow> cell set" where
  "alloc_cells al =
     (if IsYPromoted al then Pair (addr_X (alloc_Address al)) ` fcells (alloc_Fragments al)
      else {(addr_X (alloc_Address al), addr_Y (alloc_Address al), z) | z.
              unat (addr_Z (alloc_Address al)) \<le> z
              \<and> z < unat (addr_Z (alloc_Address al)) + unat (alloc_Size al)})"

lemma NewAllocator3D_inv: "al_inv (NewAllocator3D c)" "used_cells (NewAllocator3D c) = {}"
  by (simp_all add: al_inv_def lru_ok_def NewAllocator3D_def used_cells_def GetRegion_def)

lemma al_invD:
  assumes "al_inv a" "GetRegion a x = Some r"
  shows "reg_ID r = x" "region_inv r" "x \<le> al_nextRegionID a" "planes_ok (reg_Planes r)"
    "\<And>p. p \<in> set (reg_Planes r) \<Longrightarrow> plane_Size p = cfg_size (al_config a)"
proof -
  have "(x, r) \<in> set (al_regions a)" using assms(2) by (simp add: GetRegion_def map_of_SomeD)
  then have e: "al_entry a (x, r)" using assms(1) by (simp add: al_inv_def)
  then show "reg_ID r = x" "region_inv r" "x \<le> al_nextRegionID a"
    "\<And>p. p \<in> set (reg_Planes r) \<Longrightarrow> plane_Size p = cfg_size (al_config a)"
    by (simp_all add: al_entry_def)
  then show "planes_ok (reg_Planes r)" by (simp add: region_inv_def)
qed

text \<open>Moving a region to the front of the LRU list.\<close>

lemma lru_ok_promote:
  assumes "lru_ok lru known" "x \<in> known"
  defines "lru' \<equiv> x # remove1 x lru"
  shows "lru_ok (if length lru' > 100 then butlast lru' else lru') known"
proof -
  have d: "distinct lru'" using assms(1) by (simp add: lru'_def lru_ok_def)
  moreover have s: "set lru' \<subseteq> known"
    using assms(1,2) by (auto simp: lru'_def lru_ok_def dest: notin_set_remove1)
  moreover have "length lru' \<le> 101"
    using assms(1) length_remove1 [of x lru] unfolding lru'_def lru_ok_def by (auto split: if_splits)
  ultimately show ?thesis
    by (auto simp: lru_ok_def distinct_butlast dest: in_set_butlastD)
qed

lemma promoteRegionLRU_regions [simp]:
  "al_regions (promoteRegionLRU a x) = al_regions a" "al_config (promoteRegionLRU a x) = al_config a"
  "al_nextRegionID (promoteRegionLRU a x) = al_nextRegionID a"
  "al_nextAllocID (promoteRegionLRU a x) = al_nextAllocID a"
  "al_stats (promoteRegionLRU a x) = al_stats a"
  by (simp_all add: promoteRegionLRU_def Let_def split: option.splits)

lemma promoteRegionLRU_cells [simp]:
  "used_cells (promoteRegionLRU a x) = used_cells a" "GetRegion (promoteRegionLRU a x) = GetRegion a"
  by (simp_all add: used_cells_def GetRegion_def fun_eq_iff)

lemma promoteRegionLRU_inv:
  assumes "al_inv a"
  shows "al_inv (promoteRegionLRU a x)"
proof -
  have "lru_ok (al_regionLRU (promoteRegionLRU a x)) (fst ` set (al_regions a))"
  proof (cases "GetRegion a x")
    case None
    then show ?thesis
      using assms by (auto simp: promoteRegionLRU_def al_inv_def lru_ok_def length_remove1
          dest: notin_set_remove1)
  next
    case (Some r)
    then have "x \<in> fst ` set (al_regions a)"
      by (metis GetRegion_def domI dom_map_of_conv_image_fst)
    from lru_ok_promote [OF _ this] show ?thesis
      using assms Some by (simp add: promoteRegionLRU_def al_inv_def Let_def)
  qed
  then show ?thesis using assms by (simp add: al_inv_def al_entry_def)
qed

section \<open>One region grows by an allocation\<close>

text \<open>
  What both strategies do to the planes of a region: the cells \<open>C\<close> are taken, the allocation is
  recorded at offset \<open>z\<close> of plane \<open>y\<close>, and nothing else changes.
\<close>

definition same_plane :: "u32 \<Rightarrow> u16 \<Rightarrow> Allocation \<Rightarrow> Plane \<Rightarrow> Plane \<Rightarrow> bool" where
  "same_plane y z al p q \<longleftrightarrow> plane_ID q = plane_ID p \<and> plane_Size q = plane_Size p
     \<and> plane_Data q = plane_Data p
     \<and> plane_Allocations q =
         (if plane_ID p = y then AList.update z al (plane_Allocations p) else plane_Allocations p)"

definition grown ::
  "Plane list \<Rightarrow> Plane list \<Rightarrow> (u32 \<times> nat) set \<Rightarrow> u32 \<Rightarrow> u16 \<Rightarrow> Allocation \<Rightarrow> bool" where
  "grown ps qs C y z al \<longleftrightarrow> planes_ok qs \<and> pcells qs = pcells ps \<union> C \<and> pcells ps \<inter> C = {}
     \<and> finite C \<and> card C = unat (alloc_Size al)
     \<and> free_sum qs + unat (alloc_Size al) = free_sum ps \<and> size_sum qs = size_sum ps
     \<and> y \<in> plane_ID ` set ps \<and> list_all2 (same_plane y z al) ps qs"

lemma same_plane_refl: "plane_ID p \<noteq> y \<Longrightarrow> same_plane y z al p p"
  by (simp add: same_plane_def)

lemma list_all2_same_plane:
  "y \<notin> plane_ID ` set ps \<Longrightarrow> list_all2 (same_plane y z al) ps ps"
  by (induction ps) (auto simp: same_plane_refl)

lemma takes_grown:
  assumes ok: "planes_ok (pre @ p # post)" and t: "takes p n z p'"
    and al: "\<not> IsYPromoted al" "unat (alloc_Size al) = unat n"
  shows "grown (pre @ p # post) (pre @ Plane_record p' z al # post)
     (Pair (plane_ID p) ` {unat z..<unat z + unat n}) (plane_ID p) z al"
proof -
  have sound: "plane_inv p" "plane_safe p" "plane_ID p \<notin> plane_ID ` set pre"
      "plane_ID p \<notin> plane_ID ` set post"
    using ok by (auto simp: planes_ok_append planes_ok_Cons)
  note f = takes_facts [OF t sound(1,2)]
  have es: "entry_size al = unat n" using al by (simp add: entry_size_def)
  note r = takes_record [OF t sound(1,2) es]
  have "planes_ok (pre @ Plane_record p' z al # post)"
    by (rule planes_ok_replace [OF ok]) (use r f(1) in simp_all)
  moreover have "(pcells (pre @ p # post) :: (u32 \<times> nat) set) \<inter> Pair (plane_ID p) ` {unat z..<unat z + unat n} = {}"
    using pcells_fresh [OF sound(3)] pcells_fresh [OF sound(4)] f(6) by auto
  moreover have "same_plane (plane_ID p) z al p (Plane_record p' z al)"
    using f(1-4) by (simp add: same_plane_def)
  then have "list_all2 (same_plane (plane_ID p) z al) (pre @ p # post) (pre @ Plane_record p' z al # post)"
    using sound(3,4) by (intro list_all2_appendI list.rel_intros(2)) (auto intro: list_all2_same_plane)
  moreover have "card (Pair (plane_ID p) ` {unat z..<unat z + unat n}) = unat n"
    by (simp add: card_image inj_on_def)
  moreover have "pcells (pre @ Plane_record p' z al # post) =
      pcells (pre @ p # post) \<union> Pair (plane_ID p) ` {unat z..<unat z + unat n}"
    by (simp add: f(1,5) image_Un) blast
  ultimately show ?thesis using f(2,8) al(2) by (simp add: grown_def)
qed

lemma carved_card:
  assumes "carved ps ps' fs" "planes_ok ps"
  shows "finite (fcells fs) \<and> card (fcells fs) = frag_sum fs"
  using assms
proof (induction)
  case (take ps ps' fs p f p')
  then have ok: "planes_ok ps" "plane_ID p \<notin> plane_ID ` set ps" by (auto simp: planes_ok_Cons)
  then have "Pair (frag_PlaneID f) ` frange f \<inter> fcells fs = {}"
    using carved_IDs(3) [OF take.hyps(1) ok(1)] take.hyps(3) by (auto simp: fcells_def)
  moreover have "card (Pair (frag_PlaneID f) ` frange f) = unat (frag_Size f)"
    by (simp add: card_image inj_on_def frange_def)
  ultimately show ?case
    using take.IH [OF ok(1)] by (simp add: card_Un_disjoint frange_def)
qed (auto simp: planes_ok_Cons)

lemma list_all2_source: "list_all2 P xs ys \<Longrightarrow> y \<in> set ys \<Longrightarrow> \<exists>x \<in> set xs. P x y"
  by (induction rule: list_all2_induct) auto

lemma carved_frame:
  assumes "carved ps ps' fs" "planes_ok ps" "y \<notin> plane_ID ` set ps"
  shows "list_all2 (same_plane y z al) ps ps'"
  using assms
proof (induction)
  case (take ps ps' fs p f p')
  then have sound: "plane_inv p" "plane_safe p" "planes_ok ps" by (auto simp: planes_ok_Cons)
  have "same_plane y z al p p'"
    using takes_facts(1-4) [OF take.hyps(2) sound(1,2)] take.prems by (auto simp: same_plane_def)
  then show ?case using take.IH sound(3) take.prems by simp
qed (auto simp: planes_ok_Cons same_plane_refl)

lemma carved_grown:
  assumes c: "carved ps ps' (f # fs)" and ok: "planes_ok ps"
    and al: "alloc_Fragments al = f # fs" "unat (alloc_Size al) = frag_sum (f # fs)"
  shows "grown ps (upd_first (\<lambda>p. plane_ID p = frag_PlaneID f) (\<lambda>p. Plane_record p (frag_StartZ f) al) ps')
     (fcells (f # fs)) (frag_PlaneID f) (frag_StartZ f) al"
proof -
  have es: "entry_size al = unat (frag_Size f)"
    using al by (cases fs) (auto simp: entry_size_def IsYPromoted_def)
  note r = carved_record [OF c ok es]
  from carved_first [OF c] obtain pre p p' post post' where s: "ps = pre @ p # post" "ps' = pre @ p' # post'"
    and t: "takes p (frag_Size f) (frag_StartZ f) p'" and i: "frag_PlaneID f = plane_ID p"
    and post: "carved post post' fs" by blast
  have sound: "plane_inv p" "plane_safe p" "plane_ID p \<notin> plane_ID ` set pre"
      "plane_ID p \<notin> plane_ID ` set post" "planes_ok post"
    using ok s(1) by (auto simp: planes_ok_append planes_ok_Cons)
  note tf = takes_facts [OF t sound(1,2)]
  have qs: "upd_first (\<lambda>p. plane_ID p = frag_PlaneID f) (\<lambda>p. Plane_record p (frag_StartZ f) al) ps' =
      pre @ Plane_record p' (frag_StartZ f) al # post'"
    unfolding s(2) i using sound(3) tf(1) by (intro upd_first_at) (auto simp: image_iff)
  have "same_plane (plane_ID p) (frag_StartZ f) al p (Plane_record p' (frag_StartZ f) al)"
    using tf(1-4) by (simp add: same_plane_def)
  then have "list_all2 (same_plane (frag_PlaneID f) (frag_StartZ f) al) ps
      (pre @ Plane_record p' (frag_StartZ f) al # post')"
    unfolding s(1) i using sound(3,4,5)
    by (intro list_all2_appendI list.rel_intros(2))
      (auto intro: list_all2_same_plane carved_frame [OF post])
  moreover have "frag_PlaneID f \<in> plane_ID ` set ps" using s(1) i by simp
  ultimately show ?thesis
    using r carved_sound [OF c ok] carved_cells [OF c ok] carved_card [OF c ok] al(2) qs
    by (simp add: grown_def del: fcells_simps frag_sum_simps)
qed

section \<open>From one region to the allocator\<close>

definition plane_at :: "Allocator3D \<Rightarrow> u64 \<Rightarrow> u32 \<Rightarrow> Plane option" where
  "plane_at a x y = Option.bind (GetRegion a x) (\<lambda>r. GetPlane r y)"

text \<open>
  The contract of a successful allocation: the invariant holds again; the cells in use grow by
  the cells of the allocation, which were free and are as many as its size; the planes keep
  their contents and their other allocations; the allocation is recorded where its address says.
\<close>

definition keeps :: "Allocation \<Rightarrow> Allocator3D \<Rightarrow> Allocator3D \<Rightarrow> bool" where
  "keeps al a a' \<longleftrightarrow> (\<forall>x y p. plane_at a x y = Some p \<longrightarrow>
     (\<exists>q. plane_at a' x y = Some q \<and> plane_Size q = plane_Size p \<and> plane_Data q = plane_Data p
        \<and> plane_Allocations q =
            (if x = addr_X (alloc_Address al) \<and> y = addr_Y (alloc_Address al)
             then AList.update (addr_Z (alloc_Address al)) al (plane_Allocations p)
             else plane_Allocations p)))"

definition recorded :: "Allocator3D \<Rightarrow> Allocation \<Rightarrow> bool" where
  "recorded a al \<longleftrightarrow> (\<exists>p. plane_at a (addr_X (alloc_Address al)) (addr_Y (alloc_Address al)) = Some p
     \<and> map_of (plane_Allocations p) (addr_Z (alloc_Address al)) = Some al)"

text \<open>Known regions keep their number of planes, and a new one has a single plane.\<close>

definition same_shape :: "Allocator3D \<Rightarrow> Allocator3D \<Rightarrow> bool" where
  "same_shape a a' \<longleftrightarrow>
     (\<forall>x r. GetRegion a x = Some r \<longrightarrow>
        (\<exists>r'. GetRegion a' x = Some r' \<and> length (reg_Planes r') = length (reg_Planes r)))
   \<and> (\<forall>x r'. GetRegion a' x = Some r' \<longrightarrow> GetRegion a x = None \<longrightarrow> length (reg_Planes r') = 1)"

lemma same_shape_trans:
  assumes ab: "same_shape a b" and bc: "same_shape b c"
  shows "same_shape a c"
  unfolding same_shape_def
proof (intro conjI allI impI)
  fix x r assume "GetRegion a x = Some r"
  then obtain r1 where "GetRegion b x = Some r1" "length (reg_Planes r1) = length (reg_Planes r)"
    using ab unfolding same_shape_def by blast
  then show "\<exists>r'. GetRegion c x = Some r' \<and> length (reg_Planes r') = length (reg_Planes r)"
    using bc by (fastforce simp: same_shape_def)
next
  fix x r' assume c: "GetRegion c x = Some r'" and a: "GetRegion a x = None"
  show "length (reg_Planes r') = 1"
  proof (cases "GetRegion b x")
    case None
    then show ?thesis using bc c by (simp add: same_shape_def)
  next
    case (Some r1)
    then have "length (reg_Planes r1) = 1" using ab a by (simp add: same_shape_def)
    then show ?thesis using bc c Some by (fastforce simp: same_shape_def)
  qed
qed

lemma same_shape_update:
  assumes "GetRegion a' = (GetRegion a)(x \<mapsto> r')"
    and "case GetRegion a x of None \<Rightarrow> length (reg_Planes r') = 1
         | Some r \<Rightarrow> length (reg_Planes r') = length (reg_Planes r)"
  shows "same_shape a a'"
  using assms by (auto simp: same_shape_def split: option.splits)

definition allocated :: "Allocator3D \<Rightarrow> Allocator3D \<Rightarrow> Allocation \<Rightarrow> bool" where
  "allocated a a' al \<longleftrightarrow> al_inv a' \<and> same_shape a a' \<and> used_cells a' = used_cells a \<union> alloc_cells al
     \<and> used_cells a \<inter> alloc_cells al = {} \<and> card (alloc_cells al) = unat (alloc_Size al)
     \<and> al_config a' = al_config a
     \<and> alloc_ID al = al_nextAllocID a + 1 \<and> al_nextAllocID a' = alloc_ID al
     \<and> keeps al a a' \<and> recorded a' al"

lemma al_inv_update:
  assumes "al_inv a" "al_regions a' = AList.update x r' (al_regions a)" "al_config a' = al_config a"
    and "al_nextRegionID a \<le> al_nextRegionID a'" "al_regionLRU a' = al_regionLRU a" "al_entry a' (x, r')"
  shows "al_inv a'"
proof -
  have d: "distinct (map fst (al_regions a))" using assms(1) by (simp add: al_inv_def)
  have set: "set (al_regions a') = insert (x, r') {e \<in> set (al_regions a). fst e \<noteq> x}"
    using set_AList_update [OF d] by (simp add: assms(2))
  have "al_entry a' e" if "e \<in> set (al_regions a')" for e
  proof (cases "e = (x, r')")
    case False
    then have "al_entry a e" using that assms(1) by (auto simp: set al_inv_def)
    then show ?thesis using assms(3,4) by (auto simp: al_entry_def)
  qed (simp add: assms(6))
  moreover have "fst ` set (al_regions a) \<subseteq> fst ` set (al_regions a')"
    unfolding set by force
  then have "lru_ok (al_regionLRU a') (fst ` set (al_regions a'))"
    using assms(1,5) by (auto simp: al_inv_def lru_ok_def)
  ultimately show ?thesis
    using d by (simp add: al_inv_def assms(2) distinct_update)
qed

lemma GetRegion_update:
  "al_regions a' = AList.update x r' (al_regions a) \<Longrightarrow> GetRegion a' = (GetRegion a)(x \<mapsto> r')"
  by (simp add: GetRegion_def fun_eq_iff update_conv')

lemma used_cells_update:
  assumes "GetRegion a' = (GetRegion a)(x \<mapsto> r')"
  shows "used_cells a' = (used_cells a - {x} \<times> UNIV) \<union> Pair x ` pcells (reg_Planes r')"
  unfolding used_cells_def assms by (auto split: if_splits)

lemma used_cells_split:
  "GetRegion a x = Some r \<Longrightarrow> used_cells a = (used_cells a - {x} \<times> UNIV) \<union> Pair x ` pcells (reg_Planes r)"
  unfolding used_cells_def by auto

lemma region_inv_charge:
  assumes "region_inv r" "grown (reg_Planes r) qs C y z al" "alloc_Size al \<noteq> 0"
  shows "region_inv (charge_region r qs (alloc_Size al))"
proof -
  have "free_sum (reg_Planes r) = free_sum qs + unat (alloc_Size al)" using assms(2) by (simp add: grown_def)
  then show ?thesis
    using assms by (simp add: region_inv_def charge_region_def grown_def not_pred_u32)
qed

lemma grown_find:
  assumes l: "list_all2 (same_plane y z al) ps qs"
  shows "find (\<lambda>p. plane_ID p = i) ps = Some p \<Longrightarrow>
     \<exists>q. find (\<lambda>p. plane_ID p = i) qs = Some q \<and> same_plane y z al p q"
  using l by (induction) (auto simp: same_plane_def split: if_splits)

lemma grown_cells:
  assumes r: "GetRegion a x = Some r" and g: "grown (reg_Planes r) qs C y z al" and cells: "alloc_cells al = Pair x ` C"
    and a': "al_regions a' = AList.update x r' (al_regions a)" "reg_Planes r' = qs"
  shows "used_cells a' = used_cells a \<union> alloc_cells al" "used_cells a \<inter> alloc_cells al = {}"
    "card (alloc_cells al) = unat (alloc_Size al)"
proof -
  note gd = g [unfolded grown_def]
  have "used_cells a' = (used_cells a - {x} \<times> UNIV) \<union> Pair x ` (pcells (reg_Planes r) \<union> C)"
    using used_cells_update [OF GetRegion_update [OF a'(1)]] gd by (simp add: a'(2))
  also have "\<dots> = ((used_cells a - {x} \<times> UNIV) \<union> Pair x ` pcells (reg_Planes r)) \<union> Pair x ` C"
    by (simp add: image_Un Un_assoc)
  finally show "used_cells a' = used_cells a \<union> alloc_cells al"
    by (simp only: used_cells_split [OF r, symmetric] cells)
  have "pcells (reg_Planes r) \<inter> C = {}" using gd by blast
  then show "used_cells a \<inter> alloc_cells al = {}" using r unfolding cells used_cells_def by auto
  show "card (alloc_cells al) = unat (alloc_Size al)" using gd by (simp add: cells card_image inj_on_def)
qed

lemma grown_keeps:
  assumes inv: "al_inv a" and r: "GetRegion a x = Some r" and g: "grown (reg_Planes r) qs C y z al"
    and addr: "alloc_Address al = \<lparr>addr_X = x, addr_Y = y, addr_Z = z\<rparr>"
    and a': "al_regions a' = AList.update x r' (al_regions a)" "reg_Planes r' = qs"
  shows "keeps al a a'" "recorded a' al"
proof -
  note G = GetRegion_update [OF a'(1)] and gd = g [unfolded grown_def]
  have l: "list_all2 (same_plane y z al) (reg_Planes r) qs" using gd by blast
  have find: "\<exists>q. plane_at a' x i = Some q \<and> same_plane y z al p q" if "plane_at a x i = Some p" for i p
    using grown_find [OF l, of i p] that G r by (simp add: plane_at_def GetPlane_def a'(2))
  have other: "plane_at a' x' i = plane_at a x' i" if "x' \<noteq> x" for x' i
    using that by (simp add: plane_at_def G)
  show "keeps al a a'"
    unfolding keeps_def
  proof (intro allI impI)
    fix x' i p assume p: "plane_at a x' i = Some p"
    show "\<exists>q. plane_at a' x' i = Some q \<and> plane_Size q = plane_Size p \<and> plane_Data q = plane_Data p
        \<and> plane_Allocations q =
            (if x' = addr_X (alloc_Address al) \<and> i = addr_Y (alloc_Address al)
             then AList.update (addr_Z (alloc_Address al)) al (plane_Allocations p)
             else plane_Allocations p)"
    proof (cases "x' = x")
      case False
      then show ?thesis using other p by (simp add: addr)
    next
      case True
      from p True r have "plane_ID p = i" by (simp add: plane_at_def GetPlane_Some)
      with find [of i p] p True show ?thesis by (auto simp: addr same_plane_def)
    qed
  qed
  obtain p where p: "p \<in> set (reg_Planes r)" "plane_ID p = y" using gd by blast
  then have "GetPlane r y = Some p"
    using al_invD(4) [OF inv r] by (subst GetPlane_iff) (simp_all add: planes_ok_def)
  then have "plane_at a x y = Some p" using r by (simp add: plane_at_def)
  from find [OF this] p(2) show "recorded a' al"
    by (auto simp: recorded_def addr same_plane_def update_conv')
qed

lemma grown_allocated:
  assumes inv: "al_inv a" and r: "GetRegion a x = Some r"
    and g: "grown (reg_Planes r) qs C y z al" and sz: "alloc_Size al \<noteq> 0"
    and addr: "alloc_Address al = \<lparr>addr_X = x, addr_Y = y, addr_Z = z\<rparr>"
    and cells: "alloc_cells al = Pair x ` C"
    and a': "al_regions a' = AList.update x (charge_region r qs (alloc_Size al)) (al_regions a)"
      "al_config a' = al_config a" "al_nextRegionID a' = al_nextRegionID a"
      "al_regionLRU a' = al_regionLRU a" "al_nextAllocID a' = al_nextAllocID a + 1"
    and ident: "alloc_ID al = al_nextAllocID a + 1"
  shows "allocated a a' al"
proof -
  let ?r = "charge_region r qs (alloc_Size al)"
  note G = GetRegion_update [OF a'(1)]
  have planes: "reg_Planes ?r = qs" "reg_ID ?r = reg_ID r" by (simp_all add: charge_region_def)
  note gd = g [unfolded grown_def]
  have l: "list_all2 (same_plane y z al) (reg_Planes r) qs" using gd by blast
  have "plane_Size q = cfg_size (al_config a)" if "q \<in> set qs" for q
    using list_all2_source [OF l that] al_invD(5) [OF inv r] by (auto simp: same_plane_def)
  then have entry: "al_entry a' (x, ?r)"
    using al_invD [OF inv r] region_inv_charge [OF _ g sz] a'(2,3) by (simp add: al_entry_def planes)
  have 1: "al_inv a'" by (rule al_inv_update [OF inv a'(1,2) _ a'(4) entry]) (simp add: a'(3))
  have 7: "same_shape a a'"
    by (rule same_shape_update [OF G]) (simp add: r planes list_all2_lengthD [OF l])
  show ?thesis
    using 1 7 grown_cells [OF r g cells a'(1) planes(1)] grown_keeps [OF inv r g addr a'(1) planes(1)] a'(2,5) ident
    by (simp add: allocated_def)
qed

lemma al_stats_frame [simp]:
  "GetRegion (a\<lparr>al_stats := s\<rparr>) = GetRegion a" "al_inv (a\<lparr>al_stats := s\<rparr>) = al_inv a"
  by (simp_all add: GetRegion_def fun_eq_iff al_inv_def al_entry_def)

lemma al_stats_cells [simp]:
  "used_cells (a\<lparr>al_stats := s\<rparr>) = used_cells a" "plane_at (a\<lparr>al_stats := s\<rparr>) = plane_at a"
  by (simp_all add: used_cells_def plane_at_def fun_eq_iff)

lemma allocated_stats: "allocated a a' al \<Longrightarrow> allocated a (a'\<lparr>al_stats := s\<rparr>) al"
  by (simp add: allocated_def keeps_def recorded_def same_shape_def)

lemma allocated_promote:
  "allocated a a' al \<Longrightarrow> allocated a (promoteRegionLRU a' x) al"
  by (simp add: allocated_def promoteRegionLRU_inv keeps_def recorded_def plane_at_def same_shape_def)

section \<open>The three strategies\<close>

lemma unpromoted_cells:
  "\<not> IsYPromoted al \<Longrightarrow> alloc_cells al = Pair (addr_X (alloc_Address al)) `
     Pair (addr_Y (alloc_Address al)) ` {unat (addr_Z (alloc_Address al))..<
        unat (addr_Z (alloc_Address al)) + unat (alloc_Size al)}"
  by (auto simp: alloc_cells_def)

lemma u32_pos_iff: "0 < sz \<longleftrightarrow> sz \<noteq> (0 :: u32)"
  by (simp add: word_gt_0)

text \<open>A region one of whose planes takes the request.\<close>

lemma takes_allocated:
  assumes inv: "al_inv a" and r: "GetRegion a x = Some r" and ps: "reg_Planes r = pre @ p # post"
    and t: "unat sz < 65536" "takes p (ucast sz) z p'" and sz: "0 < sz"
    and al: "\<not> IsYPromoted al" "alloc_Size al = sz" "alloc_ID al = al_nextAllocID a + 1"
      "alloc_Address al = \<lparr>addr_X = x, addr_Y = plane_ID p, addr_Z = z\<rparr>"
  shows "allocated a (promoteRegionLRU (a\<lparr>al_nextAllocID := al_nextAllocID a + 1, al_regions :=
      AList.update x (charge_region r (pre @ Plane_record p' z al # post) sz) (al_regions a)\<rparr>) y) al"
proof (rule allocated_promote)
  have n: "unat (ucast sz :: u16) = unat sz" by (rule unat_ucast_narrow [OF t(1)])
  have g: "grown (reg_Planes r) (pre @ Plane_record p' z al # post)
      (Pair (plane_ID p) ` {unat z..<unat z + unat (ucast sz :: u16)}) (plane_ID p) z al"
    unfolding ps by (rule takes_grown [OF al_invD(4) [OF inv r, unfolded ps] t(2) al(1)]) (simp add: al(2) n)
  show "allocated a (a\<lparr>al_nextAllocID := al_nextAllocID a + 1, al_regions :=
      AList.update x (charge_region r (pre @ Plane_record p' z al # post) sz) (al_regions a)\<rparr>) al"
    by (rule grown_allocated [OF inv r g]) (use al sz n unpromoted_cells [OF al(1)] in \<open>simp_all add: u32_pos_iff\<close>)
qed

lemma fast_regions_step:
  assumes "GetRegion a x = Some r" "reg_Type r = rt" "\<not> reg_FreeBytes r < ucast sz"
  shows "fast_regions a sz rt now (x # xs) =
    go_bind (alloc_in_planes (\<lambda>y z. NewAllocation (al_nextAllocID a + 1) \<lparr>addr_X = reg_ID r, addr_Y = y, addr_Z = z\<rparr> sz rt now)
        sz (reg_Planes r)) (\<lambda>r'. case r' of
      None \<Rightarrow> fast_regions a sz rt now xs
    | Some (planes, alloc) \<Rightarrow>
        Inr (Some (promoteRegionLRU
          (a\<lparr>al_nextAllocID := al_nextAllocID a + 1,
             al_regions := AList.update x (charge_region r planes sz) (al_regions a)\<rparr>) (reg_ID r), alloc)))"
  using assms by (simp add: Let_def)

lemma fast_regions_cases:
  assumes inv: "al_inv a" and sz: "0 < sz"
  shows "fast_regions a sz rt now xs = Inr None \<or>
    (\<exists>a' al. fast_regions a sz rt now xs = Inr (Some (a', al)) \<and> allocated a a' al
       \<and> alloc_Size al = sz \<and> alloc_RegionType al = rt \<and> \<not> IsYPromoted al \<and> alloc_Flags al = 0
       \<and> al_nextRegionID a' = al_nextRegionID a)"
proof (induction xs)
  case (Cons x xs)
  show ?case
  proof (cases "\<exists>r. GetRegion a x = Some r \<and> reg_Type r = rt \<and> \<not> reg_FreeBytes r < ucast sz")
    case False
    then have "fast_regions a sz rt now (x # xs) = fast_regions a sz rt now xs"
      by (cases "GetRegion a x") auto
    with Cons show ?thesis by simp
  next
    case True
    then obtain r where r: "GetRegion a x = Some r" "reg_Type r = rt" "\<not> reg_FreeBytes r < ucast sz" by blast
    let ?mk = "\<lambda>y z. NewAllocation (al_nextAllocID a + 1) \<lparr>addr_X = reg_ID r, addr_Y = y, addr_Z = z\<rparr> sz rt now"
    show ?thesis
    proof (rule alloc_in_planes_cases [OF al_invD(4) [OF inv r(1)] sz, of ?mk])
      assume "alloc_in_planes ?mk sz (reg_Planes r) = Inr None"
      then show ?thesis using fast_regions_step [OF r, of now xs] Cons by simp
    next
      fix pre p post p' z
      assume s: "reg_Planes r = pre @ p # post" "unat sz < 65536" "takes p (ucast sz) z p'"
        "alloc_in_planes ?mk sz (reg_Planes r)
          = Inr (Some (pre @ Plane_record p' z (?mk (plane_ID p) z) # post, ?mk (plane_ID p) z))"
      have al: "\<not> IsYPromoted (?mk (plane_ID p) z)" "alloc_Size (?mk (plane_ID p) z) = sz"
          "alloc_ID (?mk (plane_ID p) z) = al_nextAllocID a + 1"
          "alloc_Address (?mk (plane_ID p) z) = \<lparr>addr_X = x, addr_Y = plane_ID p, addr_Z = z\<rparr>"
          "alloc_RegionType (?mk (plane_ID p) z) = rt" "alloc_Flags (?mk (plane_ID p) z) = 0"
        using al_invD(1) [OF inv r(1)] by (simp_all add: NewAllocation_def IsYPromoted_def)
      show ?thesis
        using takes_allocated [OF inv r(1) s(1-3) sz al(1-4), of "reg_ID r"] fast_regions_step [OF r, of now xs] s(4) al
        by fastforce
    qed
  qed
qed simp

lemma best_region:
  assumes "fst (foldl (best_step sz rt n) best es) = Some e" "fst best \<noteq> Some e"
  shows "e \<in> set es \<and> reg_Type (snd e) = rt"
  using assms
proof (induction es arbitrary: best)
  case (Cons e' es)
  then show ?case
    by (cases "fst (best_step sz rt n best e') = Some e")
      (auto simp: best_step_def Let_def split: if_splits)
qed simp

text \<open>
  Y-promotion either leaves the allocator as it was, rollback included, or allocates across the
  planes of one region.
\<close>

text \<open>Recording a promotion whose fragments add up to the request.\<close>

lemma commit_promotion_allocated:
  assumes inv: "al_inv a" and r: "GetRegion a x = Some r" and c: "carved (reg_Planes r) ps' fs"
    and sum: "frag_sum fs = unat sz" and sz: "0 < sz"
  shows "\<exists>a' al. commit_promotion a x r ps' fs sz rt flags now = (a', al) \<and> allocated a a' al
    \<and> alloc_Size al = sz \<and> alloc_RegionType al = rt \<and> alloc_Flags al = flags \<and> alloc_Fragments al = fs
    \<and> addr_X (alloc_Address al) = x \<and> al_nextRegionID a' = al_nextRegionID a"
proof -
  note ok = al_invD(4) [OF inv r] and x = al_invD(1) [OF inv r]
  have "0 < unat sz" using sz by (simp add: word_less_nat_alt)
  then obtain f fs' where fs: "fs = f # fs'" using sum by (cases fs) auto
  define al where "al = \<lparr>alloc_ID = al_nextAllocID a + 1,
      alloc_Address = \<lparr>addr_X = reg_ID r, addr_Y = frag_PlaneID f, addr_Z = frag_StartZ f\<rparr>,
      alloc_Size = sz, alloc_RegionType = rt, alloc_Flags = flags, alloc_CreatedAt = now,
      alloc_LastUsed = now, alloc_AccessCount = 0, alloc_GasUsed = 0, alloc_Fragments = fs\<rparr>"
  define qs where "qs = upd_first (\<lambda>p. plane_ID p = frag_PlaneID f) (\<lambda>p. Plane_record p (frag_StartZ f) al) ps'"
  define a1 where "a1 = a\<lparr>al_nextAllocID := al_nextAllocID a + 1,
      al_regions := AList.update x (charge_region r qs sz) (al_regions a)\<rparr>"
  define a2 where "a2 = promoteRegionLRU a1 (reg_ID r)"
  define a3 where "a3 = a2\<lparr>al_stats := (al_stats a2)\<lparr>st_YPromotions := st_YPromotions (al_stats a2) + 1\<rparr>\<rparr>"
  have e: "commit_promotion a x r ps' fs sz rt flags now = (a3, al)"
    by (simp add: commit_promotion_def a3_def a2_def a1_def qs_def al_def fs Let_def)
  have alf: "alloc_Fragments al = f # fs'" "unat (alloc_Size al) = frag_sum (f # fs')"
    using sum fs by (simp_all add: al_def)
  note g = carved_grown [OF c [unfolded fs] ok alf, folded qs_def]
  have cells: "alloc_cells al = Pair x ` fcells (f # fs')"
    using x sum by (cases "fs' = []") (auto simp: alloc_cells_def al_def fs IsYPromoted_def frange_def)
  have "allocated a a1 al"
    by (rule grown_allocated [OF inv r g]) (use sz cells x in \<open>simp_all add: a1_def al_def u32_pos_iff del: fcells_simps\<close>)
  then have "allocated a a3 al" unfolding a3_def a2_def by (intro allocated_stats allocated_promote)
  then show ?thesis using e x by (simp add: al_def a3_def a2_def a1_def)
qed

lemma tryYPromotion_cases:
  assumes inv: "al_inv a" and sz: "0 < sz" and ord: "valid_order ord"
    and cfg: "cfg_PlaneSize (al_config a) \<noteq> 0"
  shows "tryYPromotion ord a sz rt flags now = Inr (a, None) \<or>
    (\<exists>a' al. tryYPromotion ord a sz rt flags now = Inr (a', Some al) \<and> allocated a a' al
       \<and> alloc_Size al = sz \<and> alloc_RegionType al = rt \<and> alloc_Flags al = flags
       \<and> al_nextRegionID a' = al_nextRegionID a
       \<and> frag_sum (alloc_Fragments al) = unat sz \<and> distinct (map frag_PlaneID (alloc_Fragments al))
       \<and> (\<exists>r. GetRegion a (addr_X (alloc_Address al)) = Some r
            \<and> length (alloc_Fragments al) \<le> length (reg_Planes r)))"
proof -
  define planeSize where "planeSize = (ucast (cfg_PlaneSize (al_config a)) :: u32)"
  define needed where "needed = (sz + planeSize - 1) div planeSize"
  have "planeSize \<noteq> 0"
    using cfg unfolding planeSize_def by (metis unat_0 unat_ucast_widen(1) unsigned_word_eqI)
  note def = tryYPromotion_def [of ord a sz rt flags now, folded planeSize_def, unfolded Let_def,
      folded needed_def]
  show ?thesis
  proof (cases "needed > ucast (cfg_MaxYPromotions (al_config a))
      \<or> fst (foldl (best_step sz rt needed) (None, 0) (range_over ord (al_regions a))) = None")
    case True
    then show ?thesis using \<open>planeSize \<noteq> 0\<close> by (auto simp: def)
  next
    case False
    then obtain x r where b: "fst (foldl (best_step sz rt needed) (None, 0) (range_over ord (al_regions a))) = Some (x, r)"
      by auto
    from best_region [OF b] have mem: "(x, r) \<in> set (al_regions a)" using ord by simp
    then have r: "GetRegion a x = Some r"
      using inv by (simp add: GetRegion_def al_inv_def)
    note ok = al_invD(4) [OF inv r]
    from carve_carved [OF ok, of sz "[]"] obtain ps' rem' fs where
      c: "carve (reg_Planes r) sz [] = Inr (ps', rem', fs)" "carved (reg_Planes r) ps' fs"
        "unat rem' + frag_sum fs = unat sz" by auto
    show ?thesis
    proof (cases "rem' = 0")
      case False
      have "tryYPromotion ord a sz rt flags now = Inr (a\<lparr>al_regions := AList.update x
           (r\<lparr>reg_Planes := rollback fs ps'\<rparr>) (al_regions a)\<rparr>, None)"
        using \<open>planeSize \<noteq> 0\<close> \<open>\<not> (needed > _ \<or> _)\<close> b c(1) False by (simp add: def word_gt_0)
      also have "r\<lparr>reg_Planes := rollback fs ps'\<rparr> = r" using rollback_carved [OF c(2) ok] by simp
      also have "AList.update x r (al_regions a) = al_regions a"
        using r by (simp add: GetRegion_def update_triv)
      finally show ?thesis by simp
    next
      case True
      then have sum: "frag_sum fs = unat sz" using c(3) by simp
      from commit_promotion_allocated [OF inv r c(2) sum sz, of rt flags now] obtain a' al where
        p: "commit_promotion a x r ps' fs sz rt flags now = (a', al)" "allocated a a' al" "alloc_Size al = sz"
          "alloc_RegionType al = rt" "alloc_Flags al = flags" "alloc_Fragments al = fs" "addr_X (alloc_Address al) = x"
          "al_nextRegionID a' = al_nextRegionID a" by blast
      have "tryYPromotion ord a sz rt flags now = Inr (a', Some al)"
        using \<open>planeSize \<noteq> 0\<close> \<open>\<not> (needed > _ \<or> _)\<close> b c(1) True by (simp add: def p(1))
      moreover have "length fs \<le> length (reg_Planes r)" using c(2) by (induction) auto
      moreover have "distinct (map frag_PlaneID fs)" by (rule carved_distinct [OF c(2) ok])
      ultimately show ?thesis using p(2-) r sum by auto
    qed
  qed
qed

text \<open>A failed request may leave an empty region behind, but takes no cell.\<close>

definition untouched :: "Allocator3D \<Rightarrow> Allocator3D \<Rightarrow> bool" where
  "untouched a a' \<longleftrightarrow> al_inv a' \<and> same_shape a a' \<and> used_cells a' = used_cells a \<and> al_config a' = al_config a
     \<and> al_nextAllocID a' = al_nextAllocID a
     \<and> (\<forall>x y p. plane_at a x y = Some p \<longrightarrow> plane_at a' x y = Some p)"

lemma getPlaneFromPool_eq:
  "getPlaneFromPool a i x = NewPlane i x (cfg_PlaneSize (al_config a))"
  by (simp add: getPlaneFromPool_def NewPlane_def Let_def)

lemma cfg_size_NewPlane [simp]: "plane_Size (NewPlane i x (cfg_PlaneSize c)) = cfg_size c"
  by (simp add: cfg_size_def)

lemma NewPlane_used [simp]: "plane_used (NewPlane i x s) = {}"
  by (simp add: NewPlane_def Let_def)

text \<open>A new region: what adding it does to the allocator.\<close>

lemma unat_next: "unat c + 1 < 2 ^ 64 \<Longrightarrow> unat (c + 1 :: u64) = unat c + 1"
  by (simp add: unat_word_ariths)

lemma new_region:
  fixes a :: Allocator3D and rt :: RegionType and now :: u64
  assumes inv: "al_inv a" and room: "unat (al_nextRegionID a) + 1 < 2 ^ 64"
  defines "x \<equiv> al_nextRegionID a + 1"
  defines "plane \<equiv> NewPlane 0 x (cfg_PlaneSize (al_config a))"
  defines "r \<equiv> AddPlane (NewRegion x rt now) plane"
  defines "a1 \<equiv> a\<lparr>al_nextRegionID := x, al_regions := AList.update x r (al_regions a)\<rparr>"
  shows "untouched a a1" "GetRegion a1 x = Some r" "GetRegion a x = None" "reg_Planes r = [plane]"
proof -
  have ux: "unat x = unat (al_nextRegionID a) + 1" unfolding x_def by (rule unat_next [OF room])
  show none: "GetRegion a x = None"
  proof (rule ccontr)
    assume "GetRegion a x \<noteq> None"
    then obtain r where "GetRegion a x = Some r" by auto
    from al_invD(3) [OF inv this] show False by (simp add: word_le_nat_alt ux)
  qed
  show planes: "reg_Planes r = [plane]" by (simp add: r_def AddPlane_def NewRegion_def)
  have "region_inv r"
    unfolding r_def plane_def
    by (rule AddPlane_inv [OF NewRegion_inv NewPlane_inv(1) NewPlane_safe]) (simp add: NewRegion_def)
  then have entry: "al_entry a1 (x, r)"
    by (simp add: al_entry_def planes plane_def a1_def r_def AddPlane_def NewRegion_def cfg_size_def)
  have G: "GetRegion a1 = (GetRegion a)(x \<mapsto> r)"
    by (rule GetRegion_update) (simp add: a1_def)
  then show "GetRegion a1 x = Some r" by simp
  have "al_inv a1"
    by (rule al_inv_update [OF inv _ _ _ _ entry]) (simp_all add: a1_def word_le_nat_alt ux)
  moreover have "used_cells a1 = used_cells a"
    using none unfolding used_cells_update [OF G] planes plane_def by (auto simp: used_cells_def)
  moreover have "plane_at a1 x' y = Some p" if "plane_at a x' y = Some p" for x' y p
    using that none by (cases "x' = x") (simp_all add: plane_at_def G)
  moreover have "same_shape a a1"
    by (rule same_shape_update [OF G]) (simp add: none planes)
  ultimately show "untouched a a1" by (simp add: untouched_def a1_def)
qed

lemma untouched_allocated:
  assumes "untouched a a1" "allocated a1 a2 al"
  shows "allocated a a2 al"
proof -
  have "keeps al a a2"
    using assms unfolding untouched_def allocated_def keeps_def by blast
  moreover have "same_shape a a2"
    using assms same_shape_trans unfolding untouched_def allocated_def by blast
  ultimately show ?thesis using assms by (simp add: untouched_def allocated_def)
qed

lemma allocateNewRegion_cases:
  assumes inv: "al_inv a" and sz: "0 < sz" and room: "unat (al_nextRegionID a) + 1 < 2 ^ 64"
  shows "if sz \<le> ucast (cfg_size (al_config a))
    then \<exists>a' al. allocateNewRegion a sz rt flags now = Inr (a', Inr al) \<and> allocated a a' al
       \<and> alloc_Size al = sz \<and> alloc_RegionType al = rt \<and> alloc_Flags al = flags \<and> \<not> IsYPromoted al
       \<and> alloc_Address al = \<lparr>addr_X = al_nextRegionID a + 1, addr_Y = 0, addr_Z = 0\<rparr>
       \<and> al_nextRegionID a' = al_nextRegionID a + 1
    else \<exists>a'. allocateNewRegion a sz rt flags now = Inr (a', Inl (InsufficientMemory sz))
       \<and> untouched a a' \<and> al_nextRegionID a' = al_nextRegionID a + 1"
proof -
  define x where "x = al_nextRegionID a + 1"
  define plane where "plane = NewPlane 0 x (cfg_PlaneSize (al_config a))"
  define r where "r = AddPlane (NewRegion x rt now) plane"
  define a1 where "a1 = a\<lparr>al_nextRegionID := x, al_regions := AList.update x r (al_regions a)\<rparr>"
  note new = new_region(1,2,4) [OF inv room, of rt now, folded x_def, folded plane_def, folded r_def,
      folded a1_def]
  have pool: "getPlaneFromPool a 0 (al_nextRegionID a + 1) = plane"
    by (simp add: getPlaneFromPool_eq plane_def x_def)
  have free: "Plane_FreeBytes plane = cfg_size (al_config a)"
    by (simp add: plane_def NewPlane_FreeBytes cfg_size_def)
  note def = allocateNewRegion_def [of a sz rt flags now, unfolded Let_def, unfolded pool free,
      folded x_def, folded r_def, folded a1_def]
  show ?thesis
  proof (cases "sz \<le> ucast (cfg_size (al_config a))")
    case False
    then show ?thesis using new(1) by (simp add: def a1_def x_def)
  next
    case True
    have sound: "plane_inv plane" "plane_safe plane" by (simp_all add: plane_def NewPlane_inv NewPlane_safe)
    have "used (plane_FreeMap plane) = {}" and "bm_size (plane_FreeMap plane) = cfg_size (al_config a)"
      by (simp_all add: plane_def NewPlane_def cfg_size_def Let_def)
    then have ff: "first_fit (plane_FreeMap plane) (unat sz) = Some 0"
      using sz True by (simp add: first_fit_Some_iff fits_def word_nat_alt)
    obtain p' where p': "unat sz < 65536" "takes plane (ucast sz) 0 p'" "Plane_Allocate plane (ucast sz) = Inr (p', Some 0)"
      by (rule plane_serves [OF sound sz]) (use True ff in \<open>auto simp: free\<close>)
    define al where "al = (NewAllocation (al_nextAllocID a1 + 1)
        \<lparr>addr_X = x, addr_Y = 0, addr_Z = 0\<rparr> sz rt now)\<lparr>alloc_Flags := flags\<rparr>"
    have al: "alloc_Size al = sz" "alloc_RegionType al = rt" "alloc_Flags al = flags"
        "alloc_Address al = \<lparr>addr_X = x, addr_Y = 0, addr_Z = 0\<rparr>" "\<not> IsYPromoted al"
        "alloc_ID al = al_nextAllocID a1 + 1"
      by (simp_all add: al_def NewAllocation_def IsYPromoted_def)
    define a2 where "a2 = a1\<lparr>al_nextAllocID := al_nextAllocID a1 + 1,
        al_regions := AList.update x (charge_region r [Plane_record p' 0 al] sz) (al_regions a1)\<rparr>"
    have e: "allocateNewRegion a sz rt flags now = Inr (promoteRegionLRU a2 x, Inr al)"
      using True p'(3) by (simp add: def a2_def al_def)
    have inv1: "al_inv a1" using new(1) by (simp add: untouched_def)
    have "allocated a1 (promoteRegionLRU a2 x) al"
      unfolding a2_def by (rule takes_allocated [OF inv1 new(2) _ p'(1,2) sz, of "[]" "[]", simplified])
        (use new(3) al in \<open>simp_all add: plane_def\<close>)
    then have "allocated a (promoteRegionLRU a2 x) al"
      by (rule untouched_allocated [OF new(1)])
    then show ?thesis using e True al by (auto simp: a2_def a1_def x_def)
  qed
qed

section \<open>Allocating and freeing\<close>

lemma allocateSync_cases:
  assumes inv: "al_inv a" and sz: "0 < sz" and ord: "valid_order ord"
    and cfg: "cfg_PlaneSize (al_config a) \<noteq> 0" and room: "unat (al_nextRegionID a) + 1 < 2 ^ 64"
  shows "(\<exists>a' al. allocateSync ord a sz rt flags now = Inr (a', Inr al) \<and> allocated a a' al
       \<and> alloc_Size al = sz \<and> alloc_RegionType al = rt
       \<and> (\<not> IsYPromoted al \<or> (\<exists>r. GetRegion a (addr_X (alloc_Address al)) = Some r
             \<and> length (alloc_Fragments al) \<le> length (reg_Planes r)))
       \<and> unat (al_nextRegionID a') \<le> unat (al_nextRegionID a) + 1)
    \<or> (ucast (cfg_size (al_config a)) < sz
       \<and> (\<exists>a'. allocateSync ord a sz rt flags now = Inr (a', Inl (InsufficientMemory sz))
            \<and> untouched a a' \<and> unat (al_nextRegionID a') \<le> unat (al_nextRegionID a) + 1))"
    (is "?ok \<or> ?fail")
proof -
  note next' = unat_next [OF room]
  from fast_regions_cases [OF inv sz, of rt now "al_regionLRU a"]
  consider (fast) a' al where "tryFastAllocation a sz rt now = Inr (Some (a', al))" "allocated a a' al"
      "alloc_Size al = sz" "alloc_RegionType al = rt" "al_nextRegionID a' = al_nextRegionID a"
      "\<not> IsYPromoted al"
    | (slow) "tryFastAllocation a sz rt now = Inr None"
    unfolding tryFastAllocation_def by blast
  then show ?thesis
  proof cases
    case fast
    then have ?ok by (simp add: allocateSync_def)
    then show ?thesis ..
  next
    case slow
    from tryYPromotion_cases [OF inv sz ord cfg, of rt flags now]
    consider (promoted) a' al where "tryYPromotion ord a sz rt flags now = Inr (a', Some al)"
        "allocated a a' al" "alloc_Size al = sz" "alloc_RegionType al = rt"
        "al_nextRegionID a' = al_nextRegionID a"
        "\<exists>r. GetRegion a (addr_X (alloc_Address al)) = Some r
           \<and> length (alloc_Fragments al) \<le> length (reg_Planes r)"
      | (none) "tryYPromotion ord a sz rt flags now = Inr (a, None)" by blast
    then show ?thesis
    proof cases
      case promoted
      then have ?ok using slow by (simp add: allocateSync_def)
      then show ?thesis ..
    next
      case none
      then have e: "allocateSync ord a sz rt flags now = allocateNewRegion a sz rt flags now"
        using slow by (simp add: allocateSync_def)
      show ?thesis
        using allocateNewRegion_cases [OF inv sz room, of rt flags now] next' unfolding e
        by (fastforce simp: not_le split: if_splits)
    qed
  qed
qed

text \<open>The contract of a release.\<close>

definition held :: "Allocator3D \<Rightarrow> Allocation \<Rightarrow> bool" where
  "held a al \<longleftrightarrow> \<not> IsYPromoted al \<and>
     (\<exists>p e. plane_at a (addr_X (alloc_Address al)) (addr_Y (alloc_Address al)) = Some p
        \<and> map_of (plane_Allocations p) (addr_Z (alloc_Address al)) = Some e
        \<and> alloc_Size e = alloc_Size al \<and> \<not> IsYPromoted e)"

definition drops :: "Allocation \<Rightarrow> Allocator3D \<Rightarrow> Allocator3D \<Rightarrow> bool" where
  "drops al a a' \<longleftrightarrow> (\<forall>x y p. plane_at a x y = Some p \<longrightarrow>
     (\<exists>q. plane_at a' x y = Some q \<and> plane_Size q = plane_Size p \<and> plane_Data q = plane_Data p
        \<and> plane_Allocations q =
            (if x = addr_X (alloc_Address al) \<and> y = addr_Y (alloc_Address al)
             then AList.delete (addr_Z (alloc_Address al)) (plane_Allocations p)
             else plane_Allocations p)))"

definition freed :: "Allocator3D \<Rightarrow> Allocator3D \<Rightarrow> Allocation \<Rightarrow> bool" where
  "freed a a' al \<longleftrightarrow> al_inv a' \<and> same_shape a a' \<and> used_cells a' = used_cells a - alloc_cells al
     \<and> alloc_cells al \<subseteq> used_cells a \<and> al_config a' = al_config a
     \<and> al_nextAllocID a' = al_nextAllocID a \<and> al_nextRegionID a' = al_nextRegionID a
     \<and> drops al a a'"

lemma find_split:
  "find P xs = Some x \<Longrightarrow> \<exists>pre post. xs = pre @ x # post \<and> P x \<and> (\<forall>y \<in> set pre. \<not> P y)"
proof (induction xs)
  case (Cons y ys)
  show ?case
  proof (cases "P y")
    case True
    with Cons.prems show ?thesis by (intro exI [of _ "[]"] exI [of _ ys]) auto
  next
    case False
    with Cons obtain pre post where "ys = pre @ x # post" "P x" "\<forall>y \<in> set pre. \<not> P y" by auto
    with False show ?thesis by (intro exI [of _ "y # pre"] exI [of _ post]) auto
  qed
qed simp

lemma Plane_Free_frame:
  "plane_ID (fst (Plane_Free p z)) = plane_ID p" "plane_Size (fst (Plane_Free p z)) = plane_Size p"
  "plane_Data (fst (Plane_Free p z)) = plane_Data p"
  by (simp_all add: Plane_Free_def split: option.splits)

lemma find_replace:
  assumes "plane_ID q = plane_ID p" "\<forall>y \<in> set pre. plane_ID y \<noteq> plane_ID p"
  shows "find (\<lambda>s. plane_ID s = i) (pre @ q # post) =
     (if i = plane_ID p then Some q else find (\<lambda>s. plane_ID s = i) (pre @ p # post))"
  using assms by (induction pre) auto

text \<open>One plane of a list gives up a recorded block.\<close>

lemma shrink_planes:
  assumes ok: "planes_ok (pre @ p # post)" and e: "map_of (plane_Allocations p) z = Some e"
    and np: "\<not> IsYPromoted e" and small: "unat (plane_Size p) \<le> 32768"
  defines "p' \<equiv> fst (Plane_Free p z)"
  shows "Plane_Free p z = (p', True)" "planes_ok (pre @ p' # post)"
    "pcells (pre @ p' # post) = pcells (pre @ p # post) - Pair (plane_ID p) ` block (z, e)"
    "Pair (plane_ID p) ` block (z, e) \<subseteq> pcells (pre @ p # post)"
    "free_sum (pre @ p' # post) = free_sum (pre @ p # post) + unat (alloc_Size e)"
    "size_sum (pre @ p' # post) = size_sum (pre @ p # post)"
    "plane_Allocations p' = AList.delete z (plane_Allocations p)"
proof -
  have pinv: "plane_inv p" using ok by (simp add: planes_ok_append planes_ok_Cons)
  note f = Plane_Free_inv [OF pinv e np, folded p'_def]
  note fr = Plane_Free_frame [of p z, folded p'_def]
  show "Plane_Free p z = (p', True)" using f(1) by (simp add: p'_def prod_eq_iff)
  have "plane_safe p'" using small fr(2) by (simp add: plane_safe_def)
  then show "planes_ok (pre @ p' # post)"
    by (intro planes_ok_replace [OF ok]) (use f(3) fr(1) in auto)
  have "(plane_ID p, k) \<notin> pcells pre" "(plane_ID p, k) \<notin> pcells post" for k
    using ok by (auto simp: planes_ok_append planes_ok_Cons pcells_def image_iff)
  then show "pcells (pre @ p' # post) = pcells (pre @ p # post) - Pair (plane_ID p) ` block (z, e)"
    using fr(1) f(2) by auto
  have "block (z, e) \<subseteq> plane_used p" by (rule plane_invD(3) [OF pinv map_of_SomeD [OF e]])
  then show "Pair (plane_ID p) ` block (z, e) \<subseteq> pcells (pre @ p # post)" by auto
  show "free_sum (pre @ p' # post) = free_sum (pre @ p # post) + unat (alloc_Size e)"
    "size_sum (pre @ p' # post) = size_sum (pre @ p # post)"
    "plane_Allocations p' = AList.delete z (plane_Allocations p)"
    using f(5,6) fr(2) by simp_all
qed

text \<open>Putting the credited region back gives the contract.\<close>

lemma count_free_freed:
  assumes inv: "al_inv a" and r: "GetRegion a x = Some r" and s: "reg_Planes r = pre @ p # post"
    and pre: "\<forall>q \<in> set pre. plane_ID q \<noteq> plane_ID p"
    and e: "map_of (plane_Allocations p) z = Some e" "\<not> IsYPromoted e" "alloc_Size e = alloc_Size al"
    and small: "unat (cfg_size (al_config a)) \<le> 32768"
    and al: "\<not> IsYPromoted al" "alloc_Address al = \<lparr>addr_X = x, addr_Y = plane_ID p, addr_Z = z\<rparr>"
  defines "p' \<equiv> fst (Plane_Free p z)"
  defines "r' \<equiv> credit_region r (pre @ p' # post) (alloc_Size al)"
  shows "freed a (count_free a x r') al"
proof -
  have size: "plane_Size p = cfg_size (al_config a)" using al_invD(5) [OF inv r] s by simp
  note f = shrink_planes [OF al_invD(4) [OF inv r, unfolded s] e(1,2), unfolded size, OF small, folded p'_def]
  note fr = Plane_Free_frame [of p z, folded p'_def]
  have planes: "reg_Planes r' = pre @ p' # post" "reg_ID r' = reg_ID r"
    by (simp_all add: r'_def credit_region_def)
  have "region_inv r'"
    using al_invD(2) [OF inv r] f(2,5,6) e(3)
    by (simp add: region_inv_def r'_def credit_region_def s del: free_sum_simps size_sum_simps)
  moreover have "plane_Size q = cfg_size (al_config a)" if "q \<in> set (pre @ p' # post)" for q
    using that al_invD(5) [OF inv r] fr(2) size by (auto simp: s)
  ultimately have entry: "al_entry (count_free a x r') (x, r')"
    using al_invD(1,3) [OF inv r] by (simp add: al_entry_def planes count_free_def)
  have G: "GetRegion (count_free a x r') = (GetRegion a)(x \<mapsto> r')"
    by (rule GetRegion_update) (simp add: count_free_def)
  have 1: "al_inv (count_free a x r')"
    by (rule al_inv_update [OF inv _ _ _ _ entry]) (simp_all add: count_free_def)
  have cells: "alloc_cells al = Pair x ` Pair (plane_ID p) ` block (z, e)"
    using unpromoted_cells [OF al(1)] e by (simp add: al(2) block_def entry_size_def)
  have 2: "used_cells (count_free a x r') = used_cells a - alloc_cells al"
    using used_cells_split [OF r, unfolded s] unfolding used_cells_update [OF G] planes f(3) cells by blast
  have 3: "alloc_cells al \<subseteq> used_cells a"
    using used_cells_split [OF r, unfolded s] f(4) unfolding cells by blast
  have at: "plane_at (count_free a x r') x' y' =
      (if x' = x \<and> y' = plane_ID p then Some p' else plane_at a x' y')" for x' y'
    using find_replace [OF fr(1) pre, of y' post] r
    by (cases "x' = x") (simp_all add: plane_at_def G GetPlane_def planes s)
  moreover have "plane_at a x (plane_ID p) = Some p"
    using find_replace [of p p, OF refl pre, of "plane_ID p" post] r
    by (simp add: plane_at_def GetPlane_def s)
  ultimately have 4: "drops al a (count_free a x r')"
    using fr f(7) by (auto simp: drops_def al(2))
  have 5: "same_shape a (count_free a x r')"
    by (rule same_shape_update [OF G]) (simp add: r planes s)
  show ?thesis using 1 2 3 4 5 by (simp add: freed_def count_free_def)
qed

lemma freeSync_held:
  assumes inv: "al_inv a" and h: "held a al" and small: "unat (cfg_size (al_config a)) \<le> 32768"
  shows "\<exists>a'. freeSync a al = (a', None) \<and> freed a a' al"
proof -
  define x y z where "x = addr_X (alloc_Address al)" and "y = addr_Y (alloc_Address al)"
    and "z = addr_Z (alloc_Address al)"
  note ad = x_def [symmetric] y_def [symmetric] z_def [symmetric]
  from h obtain p e where p: "plane_at a x y = Some p" "map_of (plane_Allocations p) z = Some e"
      and e: "\<not> IsYPromoted e" "alloc_Size e = alloc_Size al" and np: "\<not> IsYPromoted al"
    by (auto simp: held_def ad)
  from p(1) obtain r where r: "GetRegion a x = Some r" "GetPlane r y = Some p"
    unfolding plane_at_def by (cases "GetRegion a x") auto
  from find_split [OF r(2) [unfolded GetPlane_def]] obtain pre post
    where s: "reg_Planes r = pre @ p # post" "plane_ID p = y" "\<forall>q \<in> set pre. plane_ID q \<noteq> y" by auto
  have size: "unat (plane_Size p) \<le> 32768" using al_invD(5) [OF inv r(1)] s(1) small by simp
  define p' where "p' = fst (Plane_Free p z)"
  have Pf: "Plane_Free p z = (p', True)"
    using shrink_planes(1) [OF al_invD(4) [OF inv r(1), unfolded s(1)] p(2) e(1) size]
    by (simp add: p'_def)
  have "upd_first (\<lambda>q. plane_ID q = y) (\<lambda>_. p') (reg_Planes r) = pre @ p' # post"
    unfolding s(1) using s(2,3) by (intro upd_first_at) auto
  then have res: "freeSync a al = (count_free a x (credit_region r (pre @ p' # post) (alloc_Size al)), None)"
    using r s(2) np Pf by (simp add: freeSync_def Let_def ad GetPlane_def)
  have "freed a (count_free a x (credit_region r (pre @ p' # post) (alloc_Size al))) al"
    unfolding p'_def
    by (rule count_free_freed [OF inv r(1) s(1) _ p(2) e small np]) (use s in \<open>simp_all add: x_def y_def z_def\<close>)
  then show ?thesis using res by blast
qed

end
