(* ===== verification/CellHeap.thy ===== *)
theory CellHeap
  imports Prelude3D
begin

text \<open>
  The interface of an allocator as its clients see it: a state in which a set of cells is in
  use, an operation that acquires a handle owning fresh cells or fails, and an operation that
  releases a handle.  The first argument of \<open>ok\<close> is the number of further requests for which
  the identifier counters have room.
\<close>

fun acquire_all :: "('s \<Rightarrow> 'q \<Rightarrow> 's \<times> 'h option) \<Rightarrow> 's \<Rightarrow> 'q list \<Rightarrow> 's \<times> 'h list" where
  "acquire_all acq s [] = (s, [])"
| "acquire_all acq s (q # qs) =
     (let (s1, h) = acq s q; (s2, hs) = acquire_all acq s1 qs
      in (s2, case h of None \<Rightarrow> hs | Some h' \<Rightarrow> h' # hs))"

fun release_all :: "('s \<Rightarrow> 'h \<Rightarrow> 's \<times> bool) \<Rightarrow> 's \<Rightarrow> 'h list \<Rightarrow> 's \<times> bool" where
  "release_all rel s [] = (s, True)"
| "release_all rel s (h # hs) =
     (let (s1, b) = rel s h; (s2, bs) = release_all rel s1 hs in (s2, b \<and> bs))"

definition pairwise_disjoint :: "('h \<Rightarrow> 'c set) \<Rightarrow> 'h list \<Rightarrow> bool" where
  "pairwise_disjoint own hs \<longleftrightarrow>
     (\<forall>i < length hs. \<forall>j < length hs. i \<noteq> j \<longrightarrow> own (hs ! i) \<inter> own (hs ! j) = {})"

lemma pairwise_disjoint_Nil [simp]: "pairwise_disjoint own []"
  by (simp add: pairwise_disjoint_def)

lemma pairwise_disjoint_Cons [simp]:
  "pairwise_disjoint own (h # hs) \<longleftrightarrow>
     own h \<inter> (\<Union>g \<in> set hs. own g) = {} \<and> pairwise_disjoint own hs"
proof
  assume p: "pairwise_disjoint own (h # hs)"
  have "own (hs ! i) \<inter> own (hs ! j) = {}" if "i < length hs" "j < length hs" "i \<noteq> j" for i j
    using p that unfolding pairwise_disjoint_def by (metis Suc_inject Suc_less_eq length_Cons nth_Cons_Suc)
  moreover have "own h \<inter> own (hs ! i) = {}" if "i < length hs" for i
    using p that unfolding pairwise_disjoint_def
    by (metis Suc_less_eq length_Cons nat.distinct(1) nth_Cons_0 nth_Cons_Suc zero_less_Suc)
  then have "\<forall>g \<in> set hs. own h \<inter> own g = {}" by (metis in_set_conv_nth)
  ultimately show "own h \<inter> (\<Union>g \<in> set hs. own g) = {} \<and> pairwise_disjoint own hs"
    unfolding pairwise_disjoint_def by blast
next
  assume d: "own h \<inter> (\<Union>g \<in> set hs. own g) = {} \<and> pairwise_disjoint own hs"
  have hd: "own h \<inter> own (hs ! i) = {}" if "i < length hs" for i
    using d nth_mem [OF that] by blast
  have tl: "own (hs ! i) \<inter> own (hs ! j) = {}" if "i < length hs" "j < length hs" "i \<noteq> j" for i j
    using d that by (simp add: pairwise_disjoint_def)
  show "pairwise_disjoint own (h # hs)"
    unfolding pairwise_disjoint_def
  proof (intro allI impI)
    fix i j assume "i < length (h # hs)" "j < length (h # hs)" "i \<noteq> j"
    then show "own ((h # hs) ! i) \<inter> own ((h # hs) ! j) = {}"
      using hd tl by (cases i; cases j) (simp_all add: Int_commute)
  qed
qed

locale cell_heap =
  fixes ok :: "nat \<Rightarrow> 's \<Rightarrow> bool" and good :: "'q \<Rightarrow> bool" and occ :: "'s \<Rightarrow> 'c set"
    and own :: "'h \<Rightarrow> 'c set" and acquire :: "'s \<Rightarrow> 'q \<Rightarrow> 's \<times> 'h option"
  assumes acquire_Some: "ok (Suc k) s \<Longrightarrow> good q \<Longrightarrow> acquire s q = (s', Some h) \<Longrightarrow>
      ok k s' \<and> occ s' = occ s \<union> own h \<and> occ s \<inter> own h = {}"
    and acquire_None: "ok (Suc k) s \<Longrightarrow> good q \<Longrightarrow> acquire s q = (s', None) \<Longrightarrow>
      ok k s' \<and> occ s' = occ s"
begin

text \<open>However many requests are made, the handles own disjoint fresh cells.\<close>

lemma acquire_all_disjoint:
  assumes "ok (length qs + k) s" "\<forall>q \<in> set qs. good q" "acquire_all acquire s qs = (s', hs)"
  shows "ok k s' \<and> occ s' = occ s \<union> (\<Union>h \<in> set hs. own h) \<and> occ s \<inter> (\<Union>h \<in> set hs. own h) = {}
    \<and> pairwise_disjoint own hs"
  using assms
proof (induction qs arbitrary: s hs)
  case (Cons q qs)
  obtain s1 h where a: "acquire s q = (s1, h)" by fastforce
  obtain hs1 where b: "acquire_all acquire s1 qs = (s', hs1)"
    and hs: "hs = (case h of None \<Rightarrow> hs1 | Some h' \<Rightarrow> h' # hs1)"
    using Cons.prems(3) a by (auto split: prod.splits)
  have k: "ok (Suc (length qs + k)) s" "good q" using Cons.prems(1,2) by simp_all
  show ?case
  proof (cases h)
    case None
    then have "ok (length qs + k) s1 \<and> occ s1 = occ s" using acquire_None [OF k] a by simp
    then show ?thesis using Cons.IH [of s1 hs1] Cons.prems(2) b hs None by simp
  next
    case (Some h')
    then have s1: "ok (length qs + k) s1" "occ s1 = occ s \<union> own h'" "occ s \<inter> own h' = {}"
      using acquire_Some [OF k] a by simp_all
    then show ?thesis using Cons.IH [of s1 hs1] Cons.prems(2) b hs Some by auto
  qed
qed simp

end

locale releasing_heap = cell_heap +
  fixes release :: "'s \<Rightarrow> 'h \<Rightarrow> 's \<times> bool" and holds :: "'s \<Rightarrow> 'h \<Rightarrow> bool"
  assumes acquire_holds: "ok (Suc k) s \<Longrightarrow> good q \<Longrightarrow> acquire s q = (s', Some h) \<Longrightarrow>
      holds s' h \<and> own h \<noteq> {} \<and> (\<forall>g. holds s g \<longrightarrow> holds s' g)"
    and acquire_keeps: "ok (Suc k) s \<Longrightarrow> good q \<Longrightarrow> acquire s q = (s', None) \<Longrightarrow>
      holds s g \<Longrightarrow> holds s' g"
    and release_holds: "ok k s \<Longrightarrow> holds s h \<Longrightarrow>
      \<exists>s'. release s h = (s', True) \<and> ok k s' \<and> occ s' = occ s - own h
         \<and> (\<forall>g. holds s g \<longrightarrow> own g \<inter> own h = {} \<longrightarrow> holds s' g)"
begin

lemma acquire_all_holds:
  assumes "ok (length qs + k) s" "\<forall>q \<in> set qs. good q" "acquire_all acquire s qs = (s', hs)"
  shows "(\<forall>h \<in> set hs. holds s' h) \<and> (\<forall>g. holds s g \<longrightarrow> holds s' g)"
  using assms
proof (induction qs arbitrary: s hs)
  case (Cons q qs)
  obtain s1 h where a: "acquire s q = (s1, h)" by fastforce
  obtain hs1 where b: "acquire_all acquire s1 qs = (s', hs1)"
    and hs: "hs = (case h of None \<Rightarrow> hs1 | Some h' \<Rightarrow> h' # hs1)"
    using Cons.prems(3) a by (auto split: prod.splits)
  have k: "ok (Suc (length qs + k)) s" "good q" using Cons.prems(1,2) by simp_all
  have s1: "ok (length qs + k) s1" using acquire_Some [OF k] acquire_None [OF k] a by (cases h) auto
  show ?case
    using Cons.IH [OF s1 _ b] Cons.prems(2) acquire_holds [OF k] acquire_keeps [OF k] a hs
    by (cases h) auto
qed simp

text \<open>Releasing disjoint handles that are held succeeds and gives back exactly their cells.\<close>

lemma release_all_frees:
  assumes "ok k s" "\<forall>h \<in> set hs. holds s h" "pairwise_disjoint own hs"
  shows "\<exists>s'. release_all release s hs = (s', True) \<and> ok k s' \<and> occ s' = occ s - (\<Union>h \<in> set hs. own h)"
  using assms
proof (induction hs arbitrary: s)
  case (Cons h hs)
  from release_holds [OF Cons.prems(1), of h] Cons.prems(2) obtain s1 where
    s1: "release s h = (s1, True)" "ok k s1" "occ s1 = occ s - own h"
      "\<forall>g. holds s g \<longrightarrow> own g \<inter> own h = {} \<longrightarrow> holds s1 g" by auto
  have "\<forall>g \<in> set hs. own g \<inter> own h = {}" using Cons.prems(3) by auto
  then have "\<forall>g \<in> set hs. holds s1 g" using s1(4) Cons.prems(2) by simp
  from Cons.IH [OF s1(2) this] Cons.prems(3) obtain s' where
    "release_all release s1 hs = (s', True)" "ok k s'" "occ s' = occ s1 - (\<Union>h \<in> set hs. own h)" by auto
  then show ?case using s1(1,3) by auto
qed simp

text \<open>Acquiring and releasing everything again leaves the same cells in use.\<close>

lemma acquire_release_all:
  assumes "ok (length qs + k) s" "\<forall>q \<in> set qs. good q" "acquire_all acquire s qs = (s', hs)"
  shows "\<exists>s''. release_all release s' hs = (s'', True) \<and> ok k s'' \<and> occ s'' = occ s"
proof -
  note d = acquire_all_disjoint [OF assms] and h = acquire_all_holds [OF assms]
  from release_all_frees [of k s' hs] d h obtain s'' where
    "release_all release s' hs = (s'', True)" "ok k s''" "occ s'' = occ s' - (\<Union>h \<in> set hs. own h)"
    by blast
  moreover have "occ s' - (\<Union>h \<in> set hs. own h) = occ s" using d by blast
  ultimately show ?thesis by auto
qed

end

end
