(* ===== verification/AllocatorHeap.thy ===== *)
theory AllocatorHeap
  imports AllocatorSafety CellHeap
begin

text \<open>
  The allocator provides the interface of \<^verbatim>\<open>CellHeap\<close>, and the main properties of
  \<^verbatim>\<open>allocator.go\<close>.
\<close>

section \<open>The allocator as a heap of cells\<close>

text \<open>A request, with the choices that the run time makes for it: the map order and the clock.\<close>

type_synonym request = "order \<times> u32 \<times> RegionType \<times> AllocationFlags \<times> u64"

definition good_request :: "request \<Rightarrow> bool" where
  "good_request q \<longleftrightarrow> (case q of (ord, sz, _) \<Rightarrow> valid_order ord \<and> 0 < sz)"

definition al_acquire :: "Allocator3D \<Rightarrow> request \<Rightarrow> Allocator3D \<times> Allocation option" where
  "al_acquire a q = (case q of (ord, sz, rt, flags, now) \<Rightarrow>
     (case allocateSync ord a sz rt flags now of
        Inl _ \<Rightarrow> (a, None)
      | Inr (a', Inl _) \<Rightarrow> (a', None)
      | Inr (a', Inr al) \<Rightarrow> (a', Some al)))"

definition al_release :: "Allocator3D \<Rightarrow> Allocation \<Rightarrow> Allocator3D \<times> bool" where
  "al_release a al = (case freeSync a al of (a', e) \<Rightarrow> (a', e = None))"

definition al_ok :: "nat \<Rightarrow> Allocator3D \<Rightarrow> bool" where
  "al_ok k a \<longleftrightarrow> al_inv a \<and> cfg_PlaneSize (al_config a) \<noteq> 0 \<and> unat (al_nextRegionID a) + k < 2 ^ 64"

text \<open>
  The additional condition for releasing: no region has more than one plane, and planes are at
  most half of the 16-bit range.
\<close>

definition single :: "Allocator3D \<Rightarrow> bool" where
  "single a \<longleftrightarrow> (\<forall>x r. GetRegion a x = Some r \<longrightarrow> length (reg_Planes r) \<le> 1)"

definition al_ok1 :: "nat \<Rightarrow> Allocator3D \<Rightarrow> bool" where
  "al_ok1 k a \<longleftrightarrow> al_ok k a \<and> single a \<and> unat (cfg_size (al_config a)) \<le> 32768"

lemma NewAllocator3D_ok: "cfg_PlaneSize c \<noteq> 0 \<Longrightarrow> k < 2 ^ 64 - 1 \<Longrightarrow> al_ok k (NewAllocator3D c)"
  by (simp add: al_ok_def NewAllocator3D_inv) (simp add: NewAllocator3D_def)

lemma NewAllocator3D_single: "single (NewAllocator3D c)"
  by (simp add: single_def NewAllocator3D_def GetRegion_def)

lemma same_shape_single:
  assumes "same_shape a a'" "single a"
  shows "single a'"
  unfolding single_def
proof (intro allI impI)
  fix x r' assume r': "GetRegion a' x = Some r'"
  show "length (reg_Planes r') \<le> 1"
  proof (cases "GetRegion a x")
    case None
    then show ?thesis using assms(1) r' by (simp add: same_shape_def)
  next
    case (Some r)
    then obtain r1 where "GetRegion a' x = Some r1" "length (reg_Planes r1) = length (reg_Planes r)"
      using assms(1) unfolding same_shape_def by blast
    then show ?thesis using assms(2) Some r' by (simp add: single_def)
  qed
qed

lemma al_acquire_cases:
  assumes ok: "al_ok (Suc k) a" and good: "good_request q"
  obtains (some) a' al where "al_acquire a q = (a', Some al)" "allocated a a' al" "al_ok k a'"
      "alloc_Size al \<noteq> 0" "single a \<longrightarrow> \<not> IsYPromoted al"
  | (none) a' where "al_acquire a q = (a', None)" "untouched a a'" "al_ok k a'"
proof -
  obtain ord sz rt flags now where q: "q = (ord, sz, rt, flags, now)" by (cases q) auto
  have o: "al_inv a" "cfg_PlaneSize (al_config a) \<noteq> 0" "unat (al_nextRegionID a) + Suc k < 2 ^ 64"
    using ok by (simp_all add: al_ok_def)
  have g: "valid_order ord" "0 < sz" using good by (simp_all add: q good_request_def)
  have room: "unat (al_nextRegionID a) + 1 < 2 ^ 64" using o(3) by linarith
  show thesis
    using allocateSync_cases [OF o(1) g(2) g(1) o(2) room, of rt flags now]
  proof (elim disjE exE conjE)
    fix a' al
    assume r: "allocateSync ord a sz rt flags now = Inr (a', Inr al)" "allocated a a' al"
      "alloc_Size al = sz" "unat (al_nextRegionID a') \<le> unat (al_nextRegionID a) + 1"
    have "al_ok k a'" using r(2,4) o by (simp add: al_ok_def allocated_def)
    moreover have "al_acquire a q = (a', Some al)" using r(1) by (simp add: al_acquire_def q)
    moreover assume "\<not> IsYPromoted al"
    ultimately show thesis using some r(2,3) g(2) by (simp add: u32_pos_iff)
  next
    fix a' al r
    assume r: "allocateSync ord a sz rt flags now = Inr (a', Inr al)" "allocated a a' al"
      "alloc_Size al = sz" "unat (al_nextRegionID a') \<le> unat (al_nextRegionID a) + 1"
    have "al_ok k a'" using r(2,4) o by (simp add: al_ok_def allocated_def)
    moreover have "al_acquire a q = (a', Some al)" using r(1) by (simp add: al_acquire_def q)
    moreover assume f: "GetRegion a (addr_X (alloc_Address al)) = Some r"
      "length (alloc_Fragments al) \<le> length (reg_Planes r)"
    have "single a \<longrightarrow> \<not> IsYPromoted al"
      using f by (fastforce simp: single_def IsYPromoted_def)
    ultimately show thesis using some r(2,3) g(2) by (simp add: u32_pos_iff)
  next
    fix a' assume r: "allocateSync ord a sz rt flags now = Inr (a', Inl (InsufficientMemory sz))"
      "untouched a a'" "unat (al_nextRegionID a') \<le> unat (al_nextRegionID a) + 1"
    have "al_ok k a'" using r(2,3) o by (simp add: al_ok_def untouched_def)
    moreover have "al_acquire a q = (a', None)" using r(1) by (simp add: al_acquire_def q)
    ultimately show thesis using none r(2) by blast
  qed
qed

interpretation heap: cell_heap al_ok good_request used_cells alloc_cells al_acquire
proof
  fix k s q s' h
  assume a: "al_ok (Suc k) s" "good_request q" "al_acquire s q = (s', Some h)"
  from al_acquire_cases [OF a(1,2)] a(3)
  show "al_ok k s' \<and> used_cells s' = used_cells s \<union> alloc_cells h \<and> used_cells s \<inter> alloc_cells h = {}"
    by (cases) (auto simp: allocated_def)
next
  fix k s q s'
  assume a: "al_ok (Suc k) s" "good_request q" "al_acquire s q = (s', None)"
  from al_acquire_cases [OF a(1,2)] a(3)
  show "al_ok k s' \<and> used_cells s' = used_cells s"
    by (cases) (auto simp: untouched_def)
qed

text \<open>
  The interface has no place for a panic; that the requests which a client makes one after the
  other never panic is stated beside it.
\<close>

fun never_panics :: "Allocator3D \<Rightarrow> request list \<Rightarrow> bool" where
  "never_panics a [] \<longleftrightarrow> True"
| "never_panics a ((ord, sz, rt, flags, now) # qs) \<longleftrightarrow>
     (case allocateSync ord a sz rt flags now of
        Inl _ \<Rightarrow> False
      | Inr (a', _) \<Rightarrow> never_panics a' qs)"

lemma never_panics_ok:
  assumes "al_ok (length qs + k) a" "\<forall>q \<in> set qs. good_request q"
  shows "never_panics a qs"
  using assms
proof (induction a qs rule: never_panics.induct)
  case (2 a ord sz rt flags now qs)
  have o: "al_inv a" "cfg_PlaneSize (al_config a) \<noteq> 0" "unat (al_nextRegionID a) + 1 < 2 ^ 64"
    using 2(2) by (auto simp: al_ok_def)
  have g: "0 < sz" "valid_order ord" using 2(3) by (simp_all add: good_request_def)
  from allocateSync_cases [OF o(1) g o(2,3), of rt flags now]
  obtain a' r where r: "allocateSync ord a sz rt flags now = Inr (a', r)" by (elim disjE exE conjE)
  have k: "al_ok (Suc (length qs + k)) a" "good_request (ord, sz, rt, flags, now)" using 2(2,3) by simp_all
  have "al_ok (length qs + k) (fst (al_acquire a (ord, sz, rt, flags, now)))"
    by (rule al_acquire_cases [OF k]) simp_all
  moreover have "fst (al_acquire a (ord, sz, rt, flags, now)) = a'"
    by (simp add: al_acquire_def r split: sum.split)
  ultimately have "al_ok (length qs + k) a'" by simp
  then show ?case using 2(1) [OF r refl] 2(3) r by simp
qed simp

text \<open>A held allocation owns cells in use, its first cell among them.\<close>

lemma held_cells:
  assumes inv: "al_inv a" and h: "held a al"
  shows "alloc_cells al \<subseteq> used_cells a"
    and "(addr_X (alloc_Address al), addr_Y (alloc_Address al), unat (addr_Z (alloc_Address al))) \<in> alloc_cells al"
proof -
  from h obtain p e r where np: "\<not> IsYPromoted al" and e: "\<not> IsYPromoted e" "alloc_Size e = alloc_Size al"
    and r: "GetRegion a (addr_X (alloc_Address al)) = Some r"
    and p: "GetPlane r (addr_Y (alloc_Address al)) = Some p"
    and m: "map_of (plane_Allocations p) (addr_Z (alloc_Address al)) = Some e"
    by (auto simp: held_def plane_at_def bind_eq_Some_conv)
  note mp = GetPlane_Some [OF p]
  have pinv: "plane_inv p" using al_invD(4) [OF inv r] mp(1) by (auto simp: planes_ok_def)
  have blk: "block (addr_Z (alloc_Address al), e) =
      {unat (addr_Z (alloc_Address al))..<unat (addr_Z (alloc_Address al)) + unat (alloc_Size al)}"
    using e by (simp add: block_def entry_size_def)
  note mem = map_of_SomeD [OF m]
  show "(addr_X (alloc_Address al), addr_Y (alloc_Address al), unat (addr_Z (alloc_Address al))) \<in> alloc_cells al"
    using plane_invD(2) [OF pinv mem] np unfolding blk by (auto simp: alloc_cells_def)
  have "Pair (addr_Y (alloc_Address al)) ` plane_used p \<subseteq> pcells (reg_Planes r)"
    using mp by (auto simp: pcells_def intro!: exI [of _ p])
  then have "Pair (addr_Y (alloc_Address al)) ` block (addr_Z (alloc_Address al), e) \<subseteq> pcells (reg_Planes r)"
    using plane_invD(3) [OF pinv mem] by blast
  then show "alloc_cells al \<subseteq> used_cells a"
    using used_cells_split [OF r] unfolding unpromoted_cells [OF np] blk by blast
qed

lemma held_other:
  assumes h: "held a g" and ne: "alloc_Address g \<noteq> alloc_Address al" and "keeps al a a' \<or> drops al a a'"
  shows "held a' g"
proof -
  from h obtain p e where p: "plane_at a (addr_X (alloc_Address g)) (addr_Y (alloc_Address g)) = Some p"
      "map_of (plane_Allocations p) (addr_Z (alloc_Address g)) = Some e"
      "alloc_Size e = alloc_Size g" "\<not> IsYPromoted e" "\<not> IsYPromoted g"
    by (auto simp: held_def)
  have z: "addr_Z (alloc_Address g) \<noteq> addr_Z (alloc_Address al)"
    if "addr_X (alloc_Address g) = addr_X (alloc_Address al)" "addr_Y (alloc_Address g) = addr_Y (alloc_Address al)"
    using ne that by (auto intro: Address3D.equality)
  from assms(3) p(1) obtain q where
    "plane_at a' (addr_X (alloc_Address g)) (addr_Y (alloc_Address g)) = Some q"
    "map_of (plane_Allocations q) (addr_Z (alloc_Address g)) = Some e"
    using p(2) z unfolding keeps_def drops_def
    by (fastforce simp: update_conv' delete_conv' split: if_splits)
  then show ?thesis using p(3-5) by (auto simp: held_def)
qed

lemma recorded_held: "recorded a al \<Longrightarrow> \<not> IsYPromoted al \<Longrightarrow> held a al"
  by (auto simp: recorded_def held_def)

text \<open>A new allocation has an address of its own.\<close>

lemma allocated_fresh:
  assumes inv: "al_inv a" and g: "held a g" and al: "allocated a a' h" and h: "held a' h"
  shows "alloc_Address g \<noteq> alloc_Address h"
proof
  assume e: "alloc_Address g = alloc_Address h"
  have "(addr_X (alloc_Address h), addr_Y (alloc_Address h), unat (addr_Z (alloc_Address h))) \<in> alloc_cells h"
    using held_cells(2) [OF _ h] al by (simp add: allocated_def)
  then show False using held_cells [OF inv g] al e by (auto simp: allocated_def)
qed

interpretation rheap: releasing_heap al_ok1 good_request used_cells alloc_cells al_acquire al_release held
proof
  fix k s q s' h
  assume a: "al_ok1 (Suc k) s" "good_request q" "al_acquire s q = (s', Some h)"
  have ok: "al_ok (Suc k) s" "single s" "al_inv s" using a(1) by (simp_all add: al_ok1_def al_ok_def)
  from al_acquire_cases [OF ok(1) a(2)] a(3) have r: "allocated s s' h" "al_ok k s'" "\<not> IsYPromoted h"
      "alloc_Size h \<noteq> 0"
    by (cases; use ok(2) in auto)+
  show "al_ok1 k s' \<and> used_cells s' = used_cells s \<union> alloc_cells h \<and> used_cells s \<inter> alloc_cells h = {}"
    using r a(1) same_shape_single [OF _ ok(2)] by (auto simp: allocated_def al_ok1_def)
  have held: "held s' h" using r by (simp add: recorded_held allocated_def)
  have "alloc_Address g \<noteq> alloc_Address h" if "held s g" for g
    by (rule allocated_fresh [OF ok(3) that r(1) held])
  then have "held s' g" if "held s g" for g
    using held_other [OF that, of h s'] r(1) that by (simp add: allocated_def)
  moreover have "alloc_cells h \<noteq> {}" using held_cells(2) [OF _ held] r(1) by (auto simp: allocated_def)
  ultimately show "held s' h \<and> alloc_cells h \<noteq> {} \<and> (\<forall>g. held s g \<longrightarrow> held s' g)" using held by blast
next
  fix k s q s'
  assume a: "al_ok1 (Suc k) s" "good_request q" "al_acquire s q = (s', None)"
  have ok: "al_ok (Suc k) s" "single s" using a(1) by (simp_all add: al_ok1_def)
  from al_acquire_cases [OF ok(1) a(2)] a(3) have r: "untouched s s'" "al_ok k s'" by (cases; auto)+
  show "al_ok1 k s' \<and> used_cells s' = used_cells s"
    using r a(1) same_shape_single [OF _ ok(2)] by (auto simp: untouched_def al_ok1_def)
  fix g assume "held s g"
  then show "held s' g" using r(1) by (fastforce simp: held_def untouched_def)
next
  fix k s h assume a: "al_ok1 k s" "held s h"
  have ok: "al_inv s" "single s" "unat (cfg_size (al_config s)) \<le> 32768"
    using a(1) by (simp_all add: al_ok1_def al_ok_def)
  from freeSync_held [OF ok(1) a(2) ok(3)] obtain s' where f: "freeSync s h = (s', None)" "freed s s' h" by blast
  have "al_ok1 k s'"
    using f(2) a(1) same_shape_single [OF _ ok(2)] by (auto simp: al_ok1_def al_ok_def freed_def)
  moreover have "held s' g" if g: "held s g" "alloc_cells g \<inter> alloc_cells h = {}" for g
  proof (rule held_other [OF g(1)])
    show "keeps h s s' \<or> drops h s s'" using f(2) by (simp add: freed_def)
    show "alloc_Address g \<noteq> alloc_Address h"
      using held_cells(2) [OF ok(1) g(1)] held_cells(2) [OF ok(1) a(2)] g(2) by auto
  qed
  ultimately show "\<exists>s'. al_release s h = (s', True) \<and> al_ok1 k s' \<and> used_cells s' = used_cells s - alloc_cells h
      \<and> (\<forall>g. held s g \<longrightarrow> alloc_cells g \<inter> alloc_cells h = {} \<longrightarrow> held s' g)"
    using f by (auto simp: al_release_def freed_def)
qed

section \<open>Properties\<close>

text \<open>
  C7.  \<^verbatim>\<open>allocateSync\<close> is total and safe.  From a sound allocator, a positive request never
  panics.  It succeeds whenever the request fits a plane; a success takes exactly as many cells
  as asked for, all of them free before, records the allocation at its address and hands out the
  next identifier; a failure reports insufficient memory and takes nothing.  The invariant of
  the allocator holds afterwards in either case.
\<close>

theorem allocateSync_safe:
  assumes "al_inv a" "0 < sz" "valid_order ord" "cfg_PlaneSize (al_config a) \<noteq> 0"
    and "unat (al_nextRegionID a) + 1 < 2 ^ 64"
  shows "\<exists>a' res. allocateSync ord a sz rt flags now = Inr (a', res) \<and> al_inv a' \<and>
    (case res of
       Inr al \<Rightarrow> alloc_Size al = sz \<and> alloc_ID al = al_nextAllocID a + 1 \<and> recorded a' al
         \<and> card (alloc_cells al) = unat sz \<and> used_cells a \<inter> alloc_cells al = {}
         \<and> used_cells a' = used_cells a \<union> alloc_cells al
     | Inl e \<Rightarrow> e = InsufficientMemory sz \<and> unat (cfg_PlaneSize (al_config a)) < unat sz
         \<and> used_cells a' = used_cells a)"
  using allocateSync_cases [OF assms, of rt flags now]
proof (elim disjE exE conjE)
  fix a' al
  assume "allocateSync ord a sz rt flags now = Inr (a', Inr al)" "allocated a a' al" "alloc_Size al = sz"
  then show ?thesis by (auto simp: allocated_def)
next
  fix a' al r
  assume "allocateSync ord a sz rt flags now = Inr (a', Inr al)" "allocated a a' al" "alloc_Size al = sz"
  then show ?thesis by (auto simp: allocated_def)
next
  fix a'
  assume "allocateSync ord a sz rt flags now = Inr (a', Inl (InsufficientMemory sz))" "untouched a a'"
    "ucast (cfg_size (al_config a)) < sz"
  then show ?thesis
    using assms(4) by (auto simp: untouched_def cfg_size_def word_less_nat_alt)
qed

definition demo_config :: Config where
  "demo_config = \<lparr>cfg_PlaneSize = 100, cfg_MaxYPlanes = 1024, cfg_MaxYPromotions = 8,
     cfg_WorkerCount = 4, cfg_EnableConcurrent = False, cfg_EnablePooling = False\<rparr>"

theorem allocateSync_safe_witness:
  "\<exists>a' al. allocateSync (\<lambda>n. [0..<n]) (NewAllocator3D demo_config) 40 4 0 0 = Inr (a', Inr al)
     \<and> card (used_cells a') = 40"
proof -
  have "0 < (40 :: u32)" "cfg_PlaneSize (al_config (NewAllocator3D demo_config)) \<noteq> 0"
      "unat (al_nextRegionID (NewAllocator3D demo_config)) + 1 < 2 ^ 64"
    and c: "cfg_PlaneSize (al_config (NewAllocator3D demo_config)) = 100"
    by (simp_all add: NewAllocator3D_def demo_config_def)
  from allocateSync_safe [OF NewAllocator3D_inv(1) this(1) valid_order_upt this(2,3), of 4 0 0]
  show ?thesis
    by (elim exE, rename_tac a' res, case_tac res) (auto simp: NewAllocator3D_inv c)
qed

text \<open>
  C8.  No two live allocations overlap.  Whatever requests a client makes of a fresh allocator,
  in whatever order the run time walks its maps, none of them panics, the allocations it gets own
  pairwise disjoint sets of cells, and the cells in use are exactly the cells of these
  allocations.  Requests are for at least one byte, and the plane size is not zero.
\<close>

theorem allocations_never_overlap:
  assumes "cfg_PlaneSize c \<noteq> 0" "\<forall>q \<in> set qs. good_request q" "length qs < 2 ^ 64 - 1"
    and "acquire_all al_acquire (NewAllocator3D c) qs = (a, als)"
  shows "never_panics (NewAllocator3D c) qs
    \<and> pairwise_disjoint alloc_cells als \<and> used_cells a = (\<Union>al \<in> set als. alloc_cells al)"
  using heap.acquire_all_disjoint [OF NewAllocator3D_ok [OF assms(1), of "length qs + 0"] assms(2,4)]
    never_panics_ok [OF NewAllocator3D_ok [OF assms(1), of "length qs + 0"] assms(2)]
    assms(3) by (simp add: NewAllocator3D_inv)

theorem allocations_never_overlap_witness:
  "pairwise_disjoint alloc_cells (snd (acquire_all al_acquire (NewAllocator3D demo_config)
     [(\<lambda>n. [0..<n], 40, 4, 0, 0), (\<lambda>n. rev [0..<n], 30, 4, 0, 0)]))"
proof -
  let ?qs = "[(\<lambda>n. [0..<n], 40, 4, 0, 0), (\<lambda>n. rev [0..<n], 30, 4, 0, 0)] :: request list"
  have "cfg_PlaneSize demo_config \<noteq> 0" "\<forall>q \<in> set ?qs. good_request q" "length ?qs < 2 ^ 64 - 1"
    by (simp_all add: demo_config_def good_request_def)
  from allocations_never_overlap [OF this, of "fst (acquire_all al_acquire (NewAllocator3D demo_config) ?qs)"]
  show ?thesis by simp
qed

text \<open>
  C24.  Allocate everything, free everything: on planes of at most 32768 bytes, no request of at
  least one byte that a client makes of a fresh allocator panics, every allocation that it got can
  be freed without error, and afterwards no cell is in use and the allocator is sound again.  The
  bound excludes the planes of 65535 bytes that the virtual machine configures.
\<close>

theorem allocate_then_free_all:
  assumes "cfg_PlaneSize c \<noteq> 0" "unat (cfg_PlaneSize c) \<le> 32768"
    and "\<forall>q \<in> set qs. good_request q" "length qs < 2 ^ 64 - 1"
    and "acquire_all al_acquire (NewAllocator3D c) qs = (a, als)"
  shows "never_panics (NewAllocator3D c) qs
    \<and> (\<exists>a'. release_all al_release a als = (a', True) \<and> al_inv a' \<and> used_cells a' = {})"
proof -
  have p: "never_panics (NewAllocator3D c) qs"
    by (rule never_panics_ok [OF NewAllocator3D_ok [OF assms(1), of "length qs + 0"] assms(3)]) (use assms(4) in simp)
  have "al_ok1 (length qs + 0) (NewAllocator3D c)"
    using NewAllocator3D_ok [OF assms(1)] assms(1,2,4) NewAllocator3D_single [of c]
    by (simp add: al_ok1_def) (simp add: NewAllocator3D_def cfg_size_def)
  from rheap.acquire_release_all [OF this assms(3,5)] show ?thesis
    using p by (auto simp: al_ok1_def al_ok_def NewAllocator3D_inv)
qed

theorem allocate_then_free_all_witness:
  "\<exists>a'. release_all al_release
      (fst (acquire_all al_acquire (NewAllocator3D demo_config) [(\<lambda>n. [0..<n], 40, 4, 0, 0)]))
      (snd (acquire_all al_acquire (NewAllocator3D demo_config) [(\<lambda>n. [0..<n], 40, 4, 0, 0)])) = (a', True)
    \<and> used_cells a' = {}"
proof -
  let ?qs = "[(\<lambda>n. [0..<n], 40, 4, 0, 0)] :: request list"
  have "cfg_PlaneSize demo_config \<noteq> 0" "unat (cfg_PlaneSize demo_config) \<le> 32768"
      "\<forall>q \<in> set ?qs. good_request q" "length ?qs < 2 ^ 64 - 1"
    by (simp_all add: demo_config_def good_request_def)
  from allocate_then_free_all [OF this, of "fst (acquire_all al_acquire (NewAllocator3D demo_config) ?qs)"]
  show ?thesis by (metis prod.collapse)
qed

text \<open>
  C39.  Y-promotion is atomic.  A search for at least one byte never panics when the plane size is not zero; when it does not
  find room, the fragments it had carved out are rolled back and the allocator is bit for bit
  what it was; when it succeeds, the fragments lie in distinct planes of one region of the right
  type, were free, and their sizes add up to the request.
\<close>

theorem tryYPromotion_atomic:
  assumes "al_inv a" "0 < sz" "valid_order ord" "cfg_PlaneSize (al_config a) \<noteq> 0"
  shows "\<exists>a' res. tryYPromotion ord a sz rt flags now = Inr (a', res) \<and>
    (case res of None \<Rightarrow> a' = a
     | Some al \<Rightarrow> al_inv a' \<and> alloc_Size al = sz \<and> alloc_Flags al = flags
         \<and> frag_sum (alloc_Fragments al) = unat sz
         \<and> distinct (map frag_PlaneID (alloc_Fragments al))
         \<and> card (alloc_cells al) = unat sz \<and> used_cells a \<inter> alloc_cells al = {}
         \<and> used_cells a' = used_cells a \<union> alloc_cells al)"
  using tryYPromotion_cases [OF assms, of rt flags now]
proof
  assume "tryYPromotion ord a sz rt flags now = Inr (a, None)"
  then show ?thesis by simp
next
  assume "\<exists>a' al. tryYPromotion ord a sz rt flags now = Inr (a', Some al) \<and> allocated a a' al
       \<and> alloc_Size al = sz \<and> alloc_RegionType al = rt \<and> alloc_Flags al = flags
       \<and> al_nextRegionID a' = al_nextRegionID a
       \<and> frag_sum (alloc_Fragments al) = unat sz \<and> distinct (map frag_PlaneID (alloc_Fragments al))
       \<and> (\<exists>r. GetRegion a (addr_X (alloc_Address al)) = Some r
            \<and> length (alloc_Fragments al) \<le> length (reg_Planes r))"
  then show ?thesis by (auto simp: allocated_def)
qed

text \<open>A region with two planes of two bytes.\<close>

definition two_planes :: Allocator3D where
  "two_planes = (NewAllocator3D (demo_config\<lparr>cfg_PlaneSize := 2\<rparr>))\<lparr>al_regions :=
     [(1, AddPlane (AddPlane (NewRegion 1 RegionTypeHeap 0) (NewPlane 0 1 2)) (NewPlane 1 1 2))]\<rparr>"

lemma two_planes_inv: "al_inv two_planes" "cfg_PlaneSize (al_config two_planes) = 2"
proof -
  have "region_inv (AddPlane (AddPlane (NewRegion 1 RegionTypeHeap 0) (NewPlane 0 1 2)) (NewPlane 1 1 2))"
    by (intro AddPlane_inv NewRegion_inv NewPlane_inv NewPlane_safe)
      (simp_all add: NewRegion_def AddPlane_def)
  then show "al_inv two_planes"
    by (simp add: al_inv_def two_planes_def al_entry_def lru_ok_def cfg_size_def)
      (simp add: NewAllocator3D_def AddPlane_def NewRegion_def demo_config_def cfg_size_def)
  show "cfg_PlaneSize (al_config two_planes) = 2" by (simp add: two_planes_def NewAllocator3D_def)
qed

theorem tryYPromotion_atomic_witness:
  "\<exists>a' al. tryYPromotion (\<lambda>n. [0..<n]) two_planes 3 RegionTypeHeap 0 0 = Inr (a', Some al)
     \<and> IsYPromoted al \<and> card (used_cells a') = 3"
proof -
  have "map_option IsYPromoted (snd (projr (tryYPromotion (\<lambda>n. [0..<n]) two_planes 3 RegionTypeHeap 0 0)))
      = Some True" by code_simp
  moreover have "used_cells two_planes = {}"
    by (auto simp: used_cells_def GetRegion_def two_planes_def AddPlane_def NewRegion_def NewPlane_used
        split: if_splits)
  moreover have "0 < (3 :: u32)" "cfg_PlaneSize (al_config two_planes) \<noteq> 0"
    by (simp_all add: two_planes_inv)
  note tryYPromotion_atomic [OF two_planes_inv(1) this(1) valid_order_upt this(2), of RegionTypeHeap 0 0]
  ultimately show ?thesis
    by (elim exE, rename_tac a' res, case_tac res) auto
qed

lemma acquire_all_single:
  assumes "al_ok (length qs + k) a" "single a" "\<forall>q \<in> set qs. good_request q"
    and "acquire_all al_acquire a qs = (a', als)"
  shows "single a' \<and> (\<forall>al \<in> set als. \<not> IsYPromoted al)"
  using assms
proof (induction qs arbitrary: a als)
  case (Cons q qs)
  obtain a1 h where a1: "al_acquire a q = (a1, h)" by fastforce
  obtain hs where b: "acquire_all al_acquire a1 qs = (a', hs)"
    and als: "als = (case h of None \<Rightarrow> hs | Some h' \<Rightarrow> h' # hs)"
    using Cons.prems(4) a1 by (auto split: prod.splits)
  have k: "al_ok (Suc (length qs + k)) a" "good_request q" using Cons.prems(1,3) by simp_all
  from k show ?case
  proof (cases rule: al_acquire_cases)
    case (some a'' al)
    then have "single a1" using same_shape_single [OF _ Cons.prems(2)] a1 by (simp add: allocated_def)
    then show ?thesis using Cons.IH [OF _ _ _ b] Cons.prems(2,3) some a1 als by auto
  next
    case (none a'')
    then have "single a1" using same_shape_single [OF _ Cons.prems(2)] a1 by (simp add: untouched_def)
    then show ?thesis using Cons.IH [OF _ _ _ b] Cons.prems(3) none a1 als by auto
  qed
qed simp

text \<open>
  Y-promotion across planes never happens to a client that only allocates and frees: a
  region is created with one plane and nothing in the allocation path adds another, so every
  allocation is a single contiguous block.
\<close>

theorem allocations_never_promoted:
  assumes "cfg_PlaneSize c \<noteq> 0" "\<forall>q \<in> set qs. good_request q" "length qs < 2 ^ 64 - 1"
    and "acquire_all al_acquire (NewAllocator3D c) qs = (a, als)" "al \<in> set als"
  shows "\<not> IsYPromoted al"
  using acquire_all_single [OF NewAllocator3D_ok [OF assms(1), of "length qs + 0"] NewAllocator3D_single
      assms(2,4)] assms(3,5) by simp

theorem allocations_never_promoted_witness:
  "\<exists>al. snd (acquire_all al_acquire (NewAllocator3D demo_config) [(\<lambda>n. [0..<n], 3, 4, 0, 0)]) = [al]
     \<and> \<not> IsYPromoted al"
proof -
  let ?qs = "[(\<lambda>n. [0..<n], 3, 4, 0, 0)] :: request list"
  let ?r = "acquire_all al_acquire (NewAllocator3D demo_config) ?qs"
  have p: "cfg_PlaneSize demo_config \<noteq> 0" "\<forall>q \<in> set ?qs. good_request q" "length ?qs < 2 ^ 64 - 1"
    by (simp_all add: demo_config_def good_request_def)
  have "length (snd ?r) = 1" by code_simp
  then obtain al where al: "snd ?r = [al]" by (auto simp: length_Suc_conv)
  then have "\<not> IsYPromoted al"
    using allocations_never_promoted [OF p prod.collapse [symmetric], of al] by (simp del: acquire_all.simps)
  then show ?thesis using al by blast
qed

end
