(* ===== verification/MemoryManager.thy ===== *)
theory MemoryManager
  imports AllocatorHeap
begin

text \<open>
  \<^verbatim>\<open>internal/vm/memory_manager.go\<close>: the manager knows the live allocations by their address, keeps
  counters per region and a bounded log, and reads and writes the bytes of the planes.  The
  allocator, to which the manager has a pointer, is passed and returned explicitly.

  An allocation is one object in Go, to which both the manager and the plane that records it
  point.  Here each has its copy: what the allocator reads of its copy (identifier, size, flags
  and fragments) never changes, and the address and the access counters, which do, are only
  read through the manager.
\<close>

section \<open>State\<close>

record RegionStats =
  rs_TotalAllocations :: u64
  rs_TotalFrees :: u64
  rs_CurrentUsage :: u64
  rs_MaxUsage :: u64
  rs_AccessCount :: u64

datatype AccessType = AccessRead | AccessWrite | AccessAlloc | AccessFree

record AccessEntry =
  ae_Address :: Address3D
  ae_Time :: u64
  ae_Type :: AccessType
  ae_Size :: u32

record MemoryManager =
  mm_allocations :: "(Address3D, Allocation) gomap"
  mm_regions :: "(u64, RegionStats) gomap"
  mm_accessLog :: "AccessEntry list"

definition NewMemoryManager :: MemoryManager where
  "NewMemoryManager = \<lparr>mm_allocations = [], mm_regions = [], mm_accessLog = []\<rparr>"

definition zeroStats :: RegionStats where
  "zeroStats = \<lparr>rs_TotalAllocations = 0, rs_TotalFrees = 0, rs_CurrentUsage = 0, rs_MaxUsage = 0,
     rs_AccessCount = 0\<rparr>"

section \<open>Operations\<close>

definition logAccess :: "MemoryManager \<Rightarrow> Address3D \<Rightarrow> AccessType \<Rightarrow> u32 \<Rightarrow> u64 \<Rightarrow> MemoryManager" where
  "logAccess mm addr accessType sz now =
     (let entry = \<lparr>ae_Address = addr, ae_Time = now, ae_Type = accessType, ae_Size = sz\<rparr>;
          log = mm_accessLog mm @ [entry]
      in mm\<lparr>mm_accessLog := (if length log > 10000 then drop 1000 log else log)\<rparr>)"

definition MM_UpdateAccess :: "MemoryManager \<Rightarrow> Address3D \<Rightarrow> u64 \<Rightarrow> MemoryManager" where
  "MM_UpdateAccess mm addr now =
     (case map_of (mm_allocations mm) addr of
        None \<Rightarrow> mm
      | Some alloc \<Rightarrow> mm\<lparr>mm_allocations :=
          AList.update addr (Allocation_UpdateAccess alloc 0 now) (mm_allocations mm)\<rparr>)"

text \<open>
  The lookup returns the key under which the allocation is kept as well, which stands for the
  pointer: an update of the allocation goes through it.
\<close>

definition frag_covers :: "Address3D \<Rightarrow> Fragment \<Rightarrow> bool" where
  "frag_covers addr frag \<longleftrightarrow> addr_Y addr = frag_PlaneID frag \<and> addr_Z addr \<ge> frag_StartZ frag
     \<and> addr_Z addr < frag_StartZ frag + frag_Size frag"

definition getAllocationLocked :: "order \<Rightarrow> MemoryManager \<Rightarrow> Address3D \<Rightarrow> (Address3D \<times> Allocation) option" where
  "getAllocationLocked ord mm addr =
     (case map_of (mm_allocations mm) addr of
        Some alloc \<Rightarrow> Some (addr, alloc)
      | None \<Rightarrow> find (\<lambda>(_, alloc). IsYPromoted alloc \<and> list_ex (frag_covers addr) (alloc_Fragments alloc))
          (range_over ord (mm_allocations mm)))"

definition getAllocation :: "order \<Rightarrow> MemoryManager \<Rightarrow> Address3D \<Rightarrow> Allocation option" where
  "getAllocation ord mm addr =
     (case map_of (mm_allocations mm) addr of
        Some alloc \<Rightarrow> Some alloc
      | None \<Rightarrow> map_option snd
          (find (\<lambda>(_, alloc). IsYPromoted alloc \<and> list_ex (frag_covers addr) (alloc_Fragments alloc))
             (range_over ord (mm_allocations mm))))"

text \<open>The statistics of a region count an access, when there are any.\<close>

definition count_access :: "MemoryManager \<Rightarrow> u64 \<Rightarrow> MemoryManager" where
  "count_access mm x =
     (case map_of (mm_regions mm) x of
        None \<Rightarrow> mm
      | Some stats \<Rightarrow> mm\<lparr>mm_regions :=
          AList.update x (stats\<lparr>rs_AccessCount := rs_AccessCount stats + 1\<rparr>) (mm_regions mm)\<rparr>)"

definition MM_Load3D ::
  "order \<Rightarrow> Allocator3D \<Rightarrow> MemoryManager \<Rightarrow> Address3D \<Rightarrow> u32 \<Rightarrow> u64 \<Rightarrow> (MemoryManager \<times> (error + bytes)) go" where
  "MM_Load3D ord a mm addr sz now =
     (case getAllocationLocked ord mm addr of
        None \<Rightarrow> Inr (mm, Inl (AddressNotAllocated addr))
      | Some (_, alloc) \<Rightarrow>
          (let relStart = addr_Z addr - addr_Z (alloc_Address alloc);
               endOffset = relStart + ucast sz
           in if endOffset > ucast (alloc_Size alloc) then Inr (mm, Inl (OutOfBounds ''read''))
              else (case GetRegion a (addr_X addr) of
                 None \<Rightarrow> Inr (mm, Inl (RegionNotFound (addr_X addr)))
               | Some region \<Rightarrow> (case GetPlane region (addr_Y addr) of
                    None \<Rightarrow> Inr (mm, Inl (PlaneNotFound (addr_Y addr)))
                  | Some plane \<Rightarrow>
                      (let planeStart = ucast (addr_Z addr) :: u32; planeEnd = planeStart + sz
                       in if planeEnd > of_nat (length (plane_Data plane)) then Inr (mm, Inl (OutOfBounds ''plane read''))
                          else if planeStart > planeEnd then Inl IndexOutOfRange
                          else
                            (let data = take (unat sz) (drop (unat planeStart) (take (unat planeEnd) (plane_Data plane)))
                             in Inr (count_access (logAccess mm addr AccessRead sz now) (addr_X addr),
                                     Inr (data @ replicate (unat sz - length data) 0))))))))"

text \<open>Writing \<open>data\<close> over the bytes \<open>i\<close> to \<open>j\<close> of a slice, as \<^verbatim>\<open>copy(dst[i:j], data)\<close> does.\<close>

definition copy_into :: "bytes \<Rightarrow> nat \<Rightarrow> nat \<Rightarrow> bytes \<Rightarrow> bytes" where
  "copy_into dst i j data =
     (let src = take (j - i) data in take i dst @ src @ drop (i + length src) dst)"

definition write_plane :: "Allocator3D \<Rightarrow> Region \<Rightarrow> Address3D \<Rightarrow> (Plane \<Rightarrow> Plane) \<Rightarrow> Allocator3D" where
  "write_plane a region addr f =
     a\<lparr>al_regions := AList.update (addr_X addr)
         (region\<lparr>reg_Planes := upd_first (\<lambda>p. plane_ID p = addr_Y addr) f (reg_Planes region)\<rparr>) (al_regions a)\<rparr>"

definition MM_Store3D ::
  "order \<Rightarrow> Allocator3D \<Rightarrow> MemoryManager \<Rightarrow> Address3D \<Rightarrow> bytes \<Rightarrow> u64
     \<Rightarrow> (Allocator3D \<times> MemoryManager \<times> error option) go" where
  "MM_Store3D ord a mm addr data now =
     (let sz = of_nat (length data) :: u32
      in case getAllocationLocked ord mm addr of
           None \<Rightarrow> Inr (a, mm, Some (AddressNotAllocated addr))
         | Some (key, alloc) \<Rightarrow>
             (let relStart = addr_Z addr - addr_Z (alloc_Address alloc);
                  endOffset = relStart + ucast sz
              in if endOffset > ucast (alloc_Size alloc) then Inr (a, mm, Some (OutOfBounds ''write''))
                 else (case GetRegion a (addr_X addr) of
                    None \<Rightarrow> Inr (a, mm, Some (RegionNotFound (addr_X addr)))
                  | Some region \<Rightarrow> (case GetPlane region (addr_Y addr) of
                       None \<Rightarrow> Inr (a, mm, Some (PlaneNotFound (addr_Y addr)))
                     | Some plane \<Rightarrow>
                         (let planeStart = ucast (addr_Z addr) :: u32; planeEnd = planeStart + sz
                          in if planeEnd > of_nat (length (plane_Data plane)) then Inr (a, mm, Some (OutOfBounds ''plane write''))
                             else if planeStart > planeEnd then Inl IndexOutOfRange
                             else
                               (let a' = write_plane a region addr (\<lambda>p. p\<lparr>plane_Data :=
                                      copy_into (plane_Data p) (unat planeStart) (unat planeEnd) data\<rparr>);
                                    mm' = logAccess mm addr AccessWrite sz now
                                in Inr (a', mm'\<lparr>mm_allocations := AList.update key
                                      (Allocation_UpdateAccess alloc 0 now) (mm_allocations mm')\<rparr>, None)))))))"

definition trackAllocation :: "MemoryManager \<Rightarrow> Allocation \<Rightarrow> u64 \<Rightarrow> MemoryManager" where
  "trackAllocation mm alloc now =
     (let x = addr_X (alloc_Address alloc);
          stats = (case map_of (mm_regions mm) x of Some stats \<Rightarrow> stats | None \<Rightarrow> zeroStats);
          usage = rs_CurrentUsage stats + ucast (alloc_Size alloc);
          stats' = stats\<lparr>rs_TotalAllocations := rs_TotalAllocations stats + 1, rs_CurrentUsage := usage,
             rs_MaxUsage := (if usage > rs_MaxUsage stats then usage else rs_MaxUsage stats)\<rparr>
      in logAccess (mm\<lparr>mm_allocations := AList.update (alloc_Address alloc) alloc (mm_allocations mm),
            mm_regions := AList.update x stats' (mm_regions mm)\<rparr>) (alloc_Address alloc) AccessAlloc
           (alloc_Size alloc) now)"

definition untrackAllocation :: "MemoryManager \<Rightarrow> Address3D \<Rightarrow> u64 \<Rightarrow> MemoryManager" where
  "untrackAllocation mm addr now =
     (case map_of (mm_allocations mm) addr of
        None \<Rightarrow> mm
      | Some alloc \<Rightarrow>
          (let mm1 = (case map_of (mm_regions mm) (addr_X addr) of
                   None \<Rightarrow> mm
                 | Some stats \<Rightarrow> mm\<lparr>mm_regions := AList.update (addr_X addr)
                     (stats\<lparr>rs_TotalFrees := rs_TotalFrees stats + 1,
                        rs_CurrentUsage := rs_CurrentUsage stats + NOT (ucast (alloc_Size alloc - 1))\<rparr>)
                     (mm_regions mm)\<rparr>)
           in logAccess (mm1\<lparr>mm_allocations := AList.delete addr (mm_allocations mm1)\<rparr>) addr AccessFree
                (alloc_Size alloc) now))"

definition GetFreeMemory :: "Allocator3D \<Rightarrow> MemoryManager \<Rightarrow> u64 \<Rightarrow> u64 go" where
  "GetFreeMemory a mm regionX =
     (case map_of (mm_regions mm) regionX of
        None \<Rightarrow> Inr 0
      | Some stats \<Rightarrow> (case GetRegion a regionX of
            None \<Rightarrow> Inl NilDereference
          | Some region \<Rightarrow> Inr (reg_FreeBytes region)))"

definition GetFragmentation :: "Allocator3D \<Rightarrow> u64 \<Rightarrow> rat go" where
  "GetFragmentation a regionX =
     (case GetRegion a regionX of None \<Rightarrow> Inl NilDereference | Some region \<Rightarrow> Inr (Region_Fragmentation region))"

definition RelocateAllocation ::
  "MemoryManager \<Rightarrow> Address3D \<Rightarrow> Address3D \<Rightarrow> u64 \<Rightarrow> MemoryManager \<times> error option" where
  "RelocateAllocation mm oldAddr newAddr now =
     (case map_of (mm_allocations mm) oldAddr of
        None \<Rightarrow> (mm, Some (NoAllocationAt oldAddr))
      | Some alloc \<Rightarrow>
          if map_of (mm_allocations mm) newAddr \<noteq> None then (mm, Some (DestinationOccupied newAddr))
          else (logAccess (mm\<lparr>mm_allocations := AList.update newAddr (alloc\<lparr>alloc_Address := newAddr\<rparr>)
                  (AList.delete oldAddr (mm_allocations mm))\<rparr>) newAddr AccessAlloc (alloc_Size alloc) now, None))"

definition GetAllAllocations :: "order \<Rightarrow> MemoryManager \<Rightarrow> Allocation list" where
  "GetAllAllocations ord mm = map snd (range_over ord (mm_allocations mm))"

definition UpdateAllocationAddress ::
  "MemoryManager \<Rightarrow> Address3D \<Rightarrow> Address3D \<Rightarrow> Allocation \<Rightarrow> MemoryManager" where
  "UpdateAllocationAddress mm oldAddr newAddr alloc =
     mm\<lparr>mm_allocations := AList.update newAddr (alloc\<lparr>alloc_Address := newAddr\<rparr>)
          (AList.delete oldAddr (mm_allocations mm))\<rparr>"


section \<open>The bytes behind an address\<close>

definition block_bytes :: "Plane \<Rightarrow> Allocation \<Rightarrow> bytes" where
  "block_bytes p al = take (unat (alloc_Size al)) (drop (unat (addr_Z (alloc_Address al))) (plane_Data p))"

text \<open>What the manager stores: for every tracked address the bytes of its block.\<close>

definition mem_view :: "Allocator3D \<Rightarrow> MemoryManager \<Rightarrow> Address3D \<rightharpoonup> bytes" where
  "mem_view a mm addr = Option.bind (map_of (mm_allocations mm) addr) (\<lambda>al.
     map_option (\<lambda>p. block_bytes p al) (plane_at a (addr_X addr) (addr_Y addr)))"

text \<open>
  The invariant: the allocator is sound, and every tracked allocation is kept under its own
  address and held by the allocator.
\<close>

definition mem_inv :: "Allocator3D \<Rightarrow> MemoryManager \<Rightarrow> bool" where
  "mem_inv a mm \<longleftrightarrow> al_inv a \<and> distinct (map fst (mm_allocations mm))
     \<and> (\<forall>(k, al) \<in> set (mm_allocations mm). alloc_Address al = k \<and> held a al)"

lemma mem_invD:
  assumes "mem_inv a mm" "map_of (mm_allocations mm) addr = Some al"
  shows "alloc_Address al = addr" "held a al" "\<not> IsYPromoted al"
proof -
  have "(addr, al) \<in> set (mm_allocations mm)" using assms(2) by (rule map_of_SomeD)
  then show "alloc_Address al = addr" "held a al" using assms(1) by (auto simp: mem_inv_def)
  then show "\<not> IsYPromoted al" by (simp add: held_def)
qed

lemma lookup_exact:
  assumes "mem_inv a mm" "valid_order ord"
  shows "getAllocationLocked ord mm addr = map_option (Pair addr) (map_of (mm_allocations mm) addr)"
    "getAllocation ord mm addr = map_of (mm_allocations mm) addr"
proof -
  have "find (\<lambda>(_, alloc). IsYPromoted alloc \<and> list_ex (frag_covers addr) (alloc_Fragments alloc))
      (range_over ord (mm_allocations mm)) = None"
    using assms unfolding find_None_iff mem_inv_def by (auto simp: held_def)
  then show "getAllocationLocked ord mm addr = map_option (Pair addr) (map_of (mm_allocations mm) addr)"
    "getAllocation ord mm addr = map_of (mm_allocations mm) addr"
    by (simp_all add: getAllocationLocked_def getAllocation_def split: option.split)
qed

text \<open>A held allocation lies in its plane.\<close>

lemma held_plane:
  assumes inv: "al_inv a" and h: "held a al"
  obtains r p where "GetRegion a (addr_X (alloc_Address al)) = Some r"
    "GetPlane r (addr_Y (alloc_Address al)) = Some p"
    "plane_inv p" "unat (addr_Z (alloc_Address al)) + unat (alloc_Size al) \<le> length (plane_Data p)"
    "length (plane_Data p) \<le> 65535" "0 < unat (alloc_Size al)"
    "\<exists>e. map_of (plane_Allocations p) (addr_Z (alloc_Address al)) = Some e \<and> entry_size e = unat (alloc_Size al)"
proof -
  from h obtain p e r where e: "\<not> IsYPromoted e" "alloc_Size e = alloc_Size al"
    and r: "GetRegion a (addr_X (alloc_Address al)) = Some r"
    and p: "GetPlane r (addr_Y (alloc_Address al)) = Some p"
    and m: "map_of (plane_Allocations p) (addr_Z (alloc_Address al)) = Some e"
    by (auto simp: held_def plane_at_def bind_eq_Some_conv)
  have pinv: "plane_inv p"
    using al_invD(4) [OF inv r] GetPlane_Some(1) [OF p] by (auto simp: planes_ok_def)
  note wf = plane_wfD [OF plane_invD(1) [OF pinv]]
  note b = plane_invD(2,3) [OF pinv map_of_SomeD [OF m]]
  have "plane_used p \<subseteq> {..<unat (plane_Size p)}" using used_subset [of "plane_FreeMap p"] wf(2) by simp
  then have "block (addr_Z (alloc_Address al), e) \<subseteq> {..<length (plane_Data p)}" "entry_size e = unat (alloc_Size al)"
    using b wf(3) e by (auto simp: entry_size_def)
  moreover from this b(1) have "0 < unat (alloc_Size al)" by (simp add: block_def)
  moreover have "length (plane_Data p) \<le> 65535" using wf(3) by simp
  moreover have "unat (addr_Z (alloc_Address al)) + unat (alloc_Size al) - 1 \<in> block (addr_Z (alloc_Address al), e)"
    using calculation(2,3) by (simp add: block_def)
  ultimately show thesis
    using that [OF r p pinv] m by fastforce
qed

text \<open>
  The two bounds checks together admit exactly the accesses within the allocation, although
  each is made on truncated numbers; the plane bound catches the sizes that the 16-bit check
  lets through.
\<close>

lemma access_check:
  fixes z :: u16 and s sz :: u32
  assumes "unat z + unat s \<le> len" "len \<le> 65535"
  shows "(ucast sz :: u16) \<le> ucast s \<and> ucast z + sz \<le> of_nat len \<longleftrightarrow> unat sz \<le> unat s"
    and "unat sz \<le> unat s \<Longrightarrow> unat (ucast z + sz) = unat z + unat sz"
proof -
  have s: "unat (ucast s :: u16) = unat s" using assms by (simp add: unat_ucast_narrow)
  have t: "unat (ucast sz :: u16) = unat sz mod 65536" by (simp add: unsigned_ucast_eq take_bit_eq_mod)
  have l: "unat (of_nat len :: u32) = len" using assms(2) by (simp add: unsigned_of_nat take_bit_nat_eq_self_iff)
  have b: "unat sz < 4294967296" using unsigned_less [of sz] by simp
  have e: "unat (ucast z + sz) = (unat z + unat sz) mod 4294967296" by (simp add: unat_word_ariths)
  show e': "unat (ucast z + sz) = unat z + unat sz" if "unat sz \<le> unat s" using that assms e by simp
  show "(ucast sz :: u16) \<le> ucast s \<and> ucast z + sz \<le> of_nat len \<longleftrightarrow> unat sz \<le> unat s"
  proof
    assume "unat sz \<le> unat s"
    then show "(ucast sz :: u16) \<le> ucast s \<and> ucast z + sz \<le> of_nat len"
      using e' assms by (simp add: word_le_nat_alt s t l)
  next
    assume "(ucast sz :: u16) \<le> ucast s \<and> ucast z + sz \<le> of_nat len"
    then have c: "unat sz mod 65536 \<le> unat s" "(unat z + unat sz) mod 4294967296 \<le> len"
      by (simp_all add: word_le_nat_alt s t l e)
    show "unat sz \<le> unat s"
    proof (rule ccontr)
      assume n: "\<not> unat sz \<le> unat s"
      define q where "q = unat sz div 65536"
      have q: "unat sz = 65536 * q + unat sz mod 65536" by (simp add: q_def)
      with n c(1) have "1 \<le> q" by (cases q) auto
      moreover have "q \<le> 65535" using q b by linarith
      ultimately have "(unat z + unat sz) mod 4294967296 = unat z + unat sz"
        using q c(1) assms by simp
      then show False using c(2) q \<open>1 \<le> q\<close> assms by linarith
    qed
  qed
qed

section \<open>Loading\<close>

lemma log_frame [simp]:
  "mm_allocations (logAccess mm ad t sz now) = mm_allocations mm"
  "mm_regions (logAccess mm ad t sz now) = mm_regions mm"
  "mm_allocations (count_access mm x) = mm_allocations mm"
  by (simp_all add: logAccess_def count_access_def Let_def split: option.split)

lemma mem_view_cong:
  "mm_allocations mm' = mm_allocations mm \<Longrightarrow> mem_view a mm' = mem_view a mm"
  "mm_allocations mm' = mm_allocations mm \<Longrightarrow> mem_inv a mm' = mem_inv a mm"
  by (simp_all add: mem_view_def mem_inv_def fun_eq_iff)

lemma mem_view_Some:
  assumes "mem_inv a mm" "map_of (mm_allocations mm) addr = Some al"
  obtains r p where "GetRegion a (addr_X addr) = Some r" "GetPlane r (addr_Y addr) = Some p"
    "plane_inv p" "unat (addr_Z addr) + unat (alloc_Size al) \<le> length (plane_Data p)"
    "length (plane_Data p) \<le> 65535"
    "mem_view a mm addr = Some (take (unat (alloc_Size al)) (drop (unat (addr_Z addr)) (plane_Data p)))"
proof -
  note al = mem_invD [OF assms]
  have "al_inv a" using assms(1) by (simp add: mem_inv_def)
  from held_plane [OF this al(2)] obtain r p where "GetRegion a (addr_X addr) = Some r"
    "GetPlane r (addr_Y addr) = Some p" "plane_inv p" "length (plane_Data p) \<le> 65535"
    "unat (addr_Z addr) + unat (alloc_Size al) \<le> length (plane_Data p)"
    unfolding al(1) by blast
  then show thesis
    using that by (simp add: mem_view_def assms(2) plane_at_def al(1) block_bytes_def)
qed

lemma Load3D_law:
  assumes inv: "mem_inv a mm" and ord: "valid_order ord"
  shows "\<exists>mm' res. MM_Load3D ord a mm addr sz now = Inr (mm', res) \<and> mm_allocations mm' = mm_allocations mm
    \<and> (case mem_view a mm addr of
         None \<Rightarrow> res = Inl (AddressNotAllocated addr)
       | Some v \<Rightarrow> if unat sz \<le> length v then res = Inr (take (unat sz) v)
                   else res \<in> {Inl (OutOfBounds ''read''), Inl (OutOfBounds ''plane read'')})"
proof (cases "map_of (mm_allocations mm) addr")
  case None
  then show ?thesis by (simp add: MM_Load3D_def lookup_exact [OF inv ord] mem_view_def)
next
  case (Some al)
  note ad = mem_invD(1) [OF inv Some]
  from mem_view_Some [OF inv Some] obtain r p where p: "GetRegion a (addr_X addr) = Some r"
    "GetPlane r (addr_Y addr) = Some p" "plane_inv p"
    "unat (addr_Z addr) + unat (alloc_Size al) \<le> length (plane_Data p)" "length (plane_Data p) \<le> 65535"
    and v: "mem_view a mm addr = Some (take (unat (alloc_Size al)) (drop (unat (addr_Z addr)) (plane_Data p)))"
    by blast
  note c = access_check [OF p(4,5)]
  define pe where "pe = ucast (addr_Z addr) + sz"
  show ?thesis
  proof (cases "unat sz \<le> unat (alloc_Size al)")
    case True
    then have ok: "\<not> (ucast sz :: u16) > ucast (alloc_Size al)" "\<not> pe > of_nat (length (plane_Data p))"
      "unat pe = unat (addr_Z addr) + unat sz"
      using c(1) [of sz] c(2) [of sz] by (simp_all add: pe_def not_less)
    then have le: "\<not> ucast (addr_Z addr) > pe" by (simp add: word_less_nat_alt)
    have fits: "unat sz \<le> length (plane_Data p) - unat (addr_Z addr)" using True p(4) by linarith
    show ?thesis
      using True ok le p v fits
      by (simp add: MM_Load3D_def lookup_exact [OF inv ord] Some ad Let_def drop_take min_def flip: pe_def)
  next
    case False
    then have "(ucast sz :: u16) > ucast (alloc_Size al) \<or> pe > of_nat (length (plane_Data p))"
      using c(1) [of sz] by (auto simp: pe_def not_less)
    then show ?thesis
      using False p v
      by (auto simp: MM_Load3D_def lookup_exact [OF inv ord] Some ad Let_def simp flip: pe_def)
  qed
qed

section \<open>Storing\<close>

lemma same_shape_refl [simp]: "same_shape a a"
  by (simp add: same_shape_def)


lemma length_copy_into [simp]: "i + length data \<le> length dst \<Longrightarrow> length (copy_into dst i j data) = length dst"
  by (auto simp: copy_into_def Let_def min_def)

lemma copy_into_same:
  assumes "i + n \<le> length dst" "length data \<le> n"
  shows "take n (drop i (copy_into dst i (i + length data) data)) = data @ drop (length data) (take n (drop i dst))"
  using assms by (simp add: copy_into_def Let_def drop_take min_def add.commute)

lemma copy_into_other:
  assumes "{i..<i + length data} \<inter> {z..<z + n} = {}" "i + length data \<le> length dst"
  shows "take n (drop z (copy_into dst i (i + length data) data)) = take n (drop z dst)"
proof (cases "n = 0 \<or> data = []")
  case True
  moreover have "copy_into dst i i [] = dst" by (simp add: copy_into_def)
  ultimately show ?thesis by auto
next
  case False
  then consider "z + n \<le> i" | "i + length data \<le> z" using assms(1)
    by (metis atLeastLessThan_iff disjoint_iff le_add1 le_neq_implies_less length_greater_0_conv less_add_same_cancel1 linorder_not_le nat_less_le gr0I)
  then show ?thesis
  proof cases
    case 1
    then have "take n (drop z (take i dst)) = take n (drop z dst)" "length (drop z (take i dst)) \<ge> n"
      using assms(2) by (simp_all add: drop_take min_absorb1)
    then show ?thesis using 1 by (simp add: copy_into_def Let_def)
  next
    case 2
    then show ?thesis using assms(2) by (simp add: copy_into_def Let_def)
  qed
qed

text \<open>Changing the bytes of a plane, and nothing else, keeps the allocator sound.\<close>

definition rewritten :: "Allocator3D \<Rightarrow> Allocator3D \<Rightarrow> u64 \<Rightarrow> u32 \<Rightarrow> bytes \<Rightarrow> bool" where
  "rewritten a a' x y data \<longleftrightarrow> al_inv a' \<and> same_shape a a' \<and> al_config a' = al_config a
     \<and> al_nextRegionID a' = al_nextRegionID a \<and> al_nextAllocID a' = al_nextAllocID a
     \<and> used_cells a' = used_cells a
     \<and> (\<forall>x' y'. plane_at a' x' y' =
          (if x' = x \<and> y' = y then map_option (\<lambda>p. p\<lparr>plane_Data := data\<rparr>) (plane_at a x y) else plane_at a x' y'))"

lemma plane_data_inv:
  "length data = length (plane_Data p) \<Longrightarrow> plane_inv (p\<lparr>plane_Data := data\<rparr>) = plane_inv p"
  "plane_safe (p\<lparr>plane_Data := data\<rparr>) = plane_safe p"
  "Plane_FreeBytes (p\<lparr>plane_Data := data\<rparr>) = Plane_FreeBytes p"
  by (simp_all add: plane_inv_def plane_wf_def plane_safe_def Plane_FreeBytes_def)

lemma write_plane_rewritten:
  assumes inv: "al_inv a" and r: "GetRegion a (addr_X addr) = Some r" and p: "GetPlane r (addr_Y addr) = Some p"
    and f: "f p = p\<lparr>plane_Data := data\<rparr>" "length data = length (plane_Data p)"
  shows "rewritten a (write_plane a r addr f) (addr_X addr) (addr_Y addr) data"
proof -
  define x y where "x = addr_X addr" and "y = addr_Y addr"
  note r = r [folded x_def] and p = p [folded y_def]
  let ?p = "p\<lparr>plane_Data := data\<rparr>" and ?a = "write_plane a r addr f"
  from find_split [OF p [unfolded GetPlane_def]] obtain pre post
    where s: "reg_Planes r = pre @ p # post" "plane_ID p = y" "\<forall>q \<in> set pre. plane_ID q \<noteq> y" by auto
  have u: "upd_first (\<lambda>q. plane_ID q = y) f (reg_Planes r) = pre @ ?p # post"
    unfolding s(1) f(1) [symmetric] using s(2,3) by (intro upd_first_at) auto
  let ?r = "r\<lparr>reg_Planes := pre @ ?p # post\<rparr>"
  have regs: "al_regions ?a = AList.update x ?r (al_regions a)"
    by (simp add: write_plane_def u flip: x_def y_def)
  have frame: "al_config ?a = al_config a" "al_nextRegionID ?a = al_nextRegionID a"
    "al_nextAllocID ?a = al_nextAllocID a" "al_regionLRU ?a = al_regionLRU a"
    by (simp_all add: write_plane_def)
  have G: "GetRegion ?a = (GetRegion a)(x \<mapsto> ?r)" by (rule GetRegion_update [OF regs])
  have ok: "planes_ok (pre @ ?p # post)"
  proof (rule planes_ok_replace [of pre p post])
    show l: "planes_ok (pre @ p # post)" using al_invD(4) [OF inv r] by (simp only: s(1))
    then have "plane_inv p" "plane_safe p" by (simp_all add: planes_ok_append planes_ok_Cons)
    then show "plane_inv ?p" "plane_safe ?p" using plane_data_inv(1) [OF f(2)] by (simp_all only: plane_data_inv(2))
  qed simp
  have "free_sum (pre @ ?p # post) = free_sum (reg_Planes r)" "size_sum (pre @ ?p # post) = size_sum (reg_Planes r)"
    by (simp_all only: s(1) free_sum_def size_sum_def map_append list.map plane_data_inv(3)) simp_all
  then have "region_inv ?r"
    using al_invD(2) [OF inv r] ok unfolding region_inv_def by (simp del: free_sum_simps size_sum_simps)
  then have "al_entry ?a (x, ?r)"
    using al_invD(1,3,5) [OF inv r] by (auto simp: al_entry_def frame s(1))
  then have 1: "al_inv ?a" using frame by (intro al_inv_update [OF inv regs]) auto
  have 2: "same_shape a ?a" by (rule same_shape_update [OF G]) (simp add: r s(1))
  have "pcells (pre @ ?p # post) = pcells (reg_Planes r)" by (simp add: s(1))
  then have 3: "used_cells ?a = used_cells a"
    using used_cells_update [OF G] used_cells_split [OF r] by simp
  have at: "plane_at a x y = Some p" using r p by (simp add: plane_at_def)
  have "plane_at ?a x' y' = (if x' = x \<and> y' = y then Some ?p else plane_at a x' y')" for x' y'
    using find_replace [of ?p p pre y' post] s(2,3) r
    by (cases "x' = x") (simp_all add: plane_at_def G GetPlane_def s(1))
  then show ?thesis
    unfolding rewritten_def x_def [symmetric] y_def [symmetric] at using 1 2 3 frame by simp
qed

lemma rewritten_held: "rewritten a a' x y data \<Longrightarrow> held a g \<Longrightarrow> held a' g"
  unfolding rewritten_def held_def by auto

lemma held_cong:
  "alloc_Address g' = alloc_Address g \<Longrightarrow> alloc_Size g' = alloc_Size g \<Longrightarrow> IsYPromoted g' = IsYPromoted g \<Longrightarrow>
    held a g' = held a g"
  by (simp add: held_def)

lemma block_bytes_UpdateAccess [simp]:
  "block_bytes p (Allocation_UpdateAccess al g now) = block_bytes p al"
  by (simp add: block_bytes_def)

lemma mem_inv_update:
  assumes "mem_inv a mm" "al_inv a'" "\<And>g. held a g \<Longrightarrow> held a' g" "held a' al" "alloc_Address al = addr"
    and "mm_allocations mm' = AList.update addr al (mm_allocations mm)"
  shows "mem_inv a' mm'"
proof -
  have d: "distinct (map fst (mm_allocations mm))" using assms(1) by (simp add: mem_inv_def)
  have "set (mm_allocations mm') = insert (addr, al) {e \<in> set (mm_allocations mm). fst e \<noteq> addr}"
    using set_AList_update [OF d] by (simp add: assms(6))
  then show ?thesis
    using assms d by (auto simp: mem_inv_def distinct_update)
qed

lemma ivl_subset_left: "m \<le> n \<Longrightarrow> {i..<i + m} \<subseteq> {i..<i + (n :: nat)}"
  by auto

text \<open>Blocks of different tracked addresses in one plane do not meet.\<close>

lemma tracked_disjoint:
  assumes inv: "mem_inv a mm" and al: "map_of (mm_allocations mm) b = Some al"
    and g: "map_of (mm_allocations mm) c = Some g" and ne: "b \<noteq> c" and xy: "addr_X b = addr_X c" "addr_Y b = addr_Y c"
  shows "{unat (addr_Z b)..<unat (addr_Z b) + unat (alloc_Size al)}
    \<inter> {unat (addr_Z c)..<unat (addr_Z c) + unat (alloc_Size g)} = {}"
proof -
  have ai: "al_inv a" using inv by (simp add: mem_inv_def)
  from held_plane [OF ai mem_invD(2) [OF inv al]] obtain r p e where p: "GetRegion a (addr_X b) = Some r"
    "GetPlane r (addr_Y b) = Some p" "plane_inv p"
    and e: "map_of (plane_Allocations p) (addr_Z b) = Some e" "entry_size e = unat (alloc_Size al)"
    unfolding mem_invD(1) [OF inv al] by blast
  from held_plane [OF ai mem_invD(2) [OF inv g]] obtain r' p' f where q: "GetRegion a (addr_X c) = Some r'"
    "GetPlane r' (addr_Y c) = Some p'"
    and f: "map_of (plane_Allocations p') (addr_Z c) = Some f" "entry_size f = unat (alloc_Size g)"
    unfolding mem_invD(1) [OF inv g] by blast
  have "p' = p" using p q xy by simp
  moreover have "addr_Z b \<noteq> addr_Z c" using ne xy by (auto intro: Address3D.equality)
  ultimately show ?thesis
    using plane_invD(4) [OF p(3) map_of_SomeD [OF e(1)] map_of_SomeD [OF f(1) [unfolded \<open>p' = p\<close>]]] e(2) f(2)
    by (simp add: block_def)
qed

lemma store_view:
  assumes inv: "mem_inv a mm" and al: "map_of (mm_allocations mm) addr = Some al"
    and p: "plane_at a (addr_X addr) (addr_Y addr) = Some p"
    and n: "length data \<le> unat (alloc_Size al)" "unat (addr_Z addr) + unat (alloc_Size al) \<le> length (plane_Data p)"
    and a': "rewritten a a' (addr_X addr) (addr_Y addr)
       (copy_into (plane_Data p) (unat (addr_Z addr)) (unat (addr_Z addr) + length data) data)"
    and mm': "mm_allocations mm' = AList.update addr (Allocation_UpdateAccess al 0 now) (mm_allocations mm)"
    and v: "mem_view a mm addr = Some v"
  shows "mem_view a' mm' = (mem_view a mm)(addr \<mapsto> data @ drop (length data) v)"
proof
  fix b
  let ?d = "copy_into (plane_Data p) (unat (addr_Z addr)) (unat (addr_Z addr) + length data) data"
  have at: "plane_at a' x y = (if x = addr_X addr \<and> y = addr_Y addr then Some (p\<lparr>plane_Data := ?d\<rparr>) else plane_at a x y)" for x y
    using a' p by (simp add: rewritten_def)
  note ad = mem_invD(1) [OF inv al]
  show "mem_view a' mm' b = ((mem_view a mm)(addr \<mapsto> data @ drop (length data) v)) b"
  proof (cases "b = addr")
    case True
    have "v = block_bytes p al" using v p al by (simp add: mem_view_def)
    then show ?thesis
      using True copy_into_same [OF n(2,1)]
      by (simp add: mem_view_def mm' update_conv' at) (simp add: block_bytes_def ad)
  next
    case False
    show ?thesis
    proof (cases "map_of (mm_allocations mm) b")
      case None
      then show ?thesis using False by (simp add: mem_view_def mm' update_conv')
    next
      case (Some g)
      show ?thesis
      proof (cases "addr_X b = addr_X addr \<and> addr_Y b = addr_Y addr")
        case True
        from False True have "addr \<noteq> b" "addr_X addr = addr_X b" "addr_Y addr = addr_Y b" by simp_all
        note dj = tracked_disjoint [OF inv al Some this]
        have "{unat (addr_Z addr)..<unat (addr_Z addr) + length data}
            \<inter> {unat (addr_Z b)..<unat (addr_Z b) + unat (alloc_Size g)} = {}"
          using dj ivl_subset_left [OF n(1), of "unat (addr_Z addr)"] by blast
        then have "block_bytes (p\<lparr>plane_Data := ?d\<rparr>) g = block_bytes p g"
          using copy_into_other [of "unat (addr_Z addr)" data "unat (addr_Z b)" "unat (alloc_Size g)" "plane_Data p"] n
          by (simp add: block_bytes_def mem_invD(1) [OF inv Some])
        then show ?thesis using False Some True p by (simp add: mem_view_def mm' update_conv' at)
      next
        case F: False
        then have "plane_at a' (addr_X b) (addr_Y b) = plane_at a (addr_X b) (addr_Y b)"
          unfolding at by (rule if_not_P)
        then show ?thesis using False Some by (simp add: mem_view_def mm' update_conv')
      qed
    qed
  qed
qed

lemma Store3D_stored:
  assumes inv: "mem_inv a mm" and ord: "valid_order ord" and len: "length data < 2 ^ 32" and al: "map_of (mm_allocations mm) addr = Some al"
    and p: "GetRegion a (addr_X addr) = Some r" "GetPlane r (addr_Y addr) = Some p"
      "unat (addr_Z addr) + unat (alloc_Size al) \<le> length (plane_Data p)" "length (plane_Data p) \<le> 65535"
    and fits: "length data \<le> unat (alloc_Size al)"
  shows "\<exists>a' mm'. MM_Store3D ord a mm addr data now = Inr (a', mm', None) \<and> mem_inv a' mm'
    \<and> rewritten a a' (addr_X addr) (addr_Y addr)
        (copy_into (plane_Data p) (unat (addr_Z addr)) (unat (addr_Z addr) + length data) data)
    \<and> mm_allocations mm' = AList.update addr (Allocation_UpdateAccess al 0 now) (mm_allocations mm)"
proof -
  note ad = mem_invD(1) [OF inv al]
  have ai: "al_inv a" using inv by (simp add: mem_inv_def)
  define sz :: u32 where "sz = of_nat (length data)"
  have sz: "unat sz = length data" using len by (simp add: sz_def unsigned_of_nat take_bit_nat_eq_self_iff)
  define pe where "pe = ucast (addr_Z addr) + sz"
  have ok: "\<not> (ucast sz :: u16) > ucast (alloc_Size al)" "\<not> pe > of_nat (length (plane_Data p))"
    "unat pe = unat (addr_Z addr) + length data"
    using access_check [OF p(3,4), of sz] fits by (simp_all add: pe_def not_less sz)
  then have le: "\<not> ucast (addr_Z addr) > pe" by (simp add: word_less_nat_alt)
  define a' where "a' = write_plane a r addr (\<lambda>q. q\<lparr>plane_Data :=
      copy_into (plane_Data q) (unat (addr_Z addr)) (unat (addr_Z addr) + length data) data\<rparr>)"
  define mm' where "mm' = (logAccess mm addr AccessWrite sz now)\<lparr>mm_allocations :=
      AList.update addr (Allocation_UpdateAccess al 0 now) (mm_allocations mm)\<rparr>"
  have res: "MM_Store3D ord a mm addr data now = Inr (a', mm', None)"
    using p ok le
    by (simp add: MM_Store3D_def lookup_exact [OF inv ord] al ad Let_def a'_def mm'_def flip: sz_def pe_def)
  have w: "rewritten a a' (addr_X addr) (addr_Y addr)
      (copy_into (plane_Data p) (unat (addr_Z addr)) (unat (addr_Z addr) + length data) data)"
    unfolding a'_def using fits p(3) by (intro write_plane_rewritten [OF ai p(1,2)]) simp_all
  have m: "mm_allocations mm' = AList.update addr (Allocation_UpdateAccess al 0 now) (mm_allocations mm)"
    by (simp add: mm'_def)
  have "held a' (Allocation_UpdateAccess al 0 now)"
    using rewritten_held [OF w mem_invD(2) [OF inv al]] by (simp add: held_def)
  then have "mem_inv a' mm'"
    using w rewritten_held [OF w] ad by (intro mem_inv_update [OF inv _ _ _ _ m]) (simp_all add: rewritten_def)
  with res w m show ?thesis by blast
qed

lemma Store3D_law:
  assumes inv: "mem_inv a mm" and ord: "valid_order ord" and len: "length data < 2 ^ 32"
  shows "\<exists>a' mm' res. MM_Store3D ord a mm addr data now = Inr (a', mm', res) \<and> mem_inv a' mm' \<and> same_shape a a'
    \<and> al_config a' = al_config a \<and> al_nextRegionID a' = al_nextRegionID a \<and> used_cells a' = used_cells a
    \<and> (case mem_view a mm addr of
         None \<Rightarrow> res = Some (AddressNotAllocated addr) \<and> a' = a \<and> mm' = mm
       | Some v \<Rightarrow> if length data \<le> length v
                   then res = None \<and> mem_view a' mm' = (mem_view a mm)(addr \<mapsto> data @ drop (length data) v)
                   else res \<in> {Some (OutOfBounds ''write''), Some (OutOfBounds ''plane write'')} \<and> a' = a \<and> mm' = mm)"
proof (cases "map_of (mm_allocations mm) addr")
  case None
  then show ?thesis using inv
    by (simp add: MM_Store3D_def lookup_exact [OF inv ord] mem_view_def Let_def same_shape_refl)
next
  case (Some al)
  note ad = mem_invD(1) [OF inv Some]
  from mem_view_Some [OF inv Some] obtain r p where p: "GetRegion a (addr_X addr) = Some r"
    "GetPlane r (addr_Y addr) = Some p" "plane_inv p"
    "unat (addr_Z addr) + unat (alloc_Size al) \<le> length (plane_Data p)" "length (plane_Data p) \<le> 65535"
    and v: "mem_view a mm addr = Some (take (unat (alloc_Size al)) (drop (unat (addr_Z addr)) (plane_Data p)))"
    by blast
  define sz :: u32 where "sz = of_nat (length data)"
  have sz: "unat sz = length data" using len by (simp add: sz_def unsigned_of_nat take_bit_nat_eq_self_iff)
  note c = access_check [OF p(4,5), of sz]
  define pe where "pe = ucast (addr_Z addr) + sz"
  show ?thesis
  proof (cases "unat sz \<le> unat (alloc_Size al)")
    case True
    with Store3D_stored [OF inv ord len Some p(1,2,4,5), of now] sz obtain a' mm' where
      "MM_Store3D ord a mm addr data now = Inr (a', mm', None)" "mem_inv a' mm'" "rewritten a a' (addr_X addr) (addr_Y addr)
        (copy_into (plane_Data p) (unat (addr_Z addr)) (unat (addr_Z addr) + length data) data)"
      "mm_allocations mm' = AList.update addr (Allocation_UpdateAccess al 0 now) (mm_allocations mm)" by auto
    moreover have "plane_at a (addr_X addr) (addr_Y addr) = Some p" using p by (simp add: plane_at_def)
    ultimately show ?thesis using store_view [OF inv Some _ _ p(4) _ _ v] True sz v p(4) by (auto simp: rewritten_def)
  next
    case False
    then have "(ucast sz :: u16) > ucast (alloc_Size al) \<or> pe > of_nat (length (plane_Data p))"
      using c(1) by (auto simp: pe_def not_less)
    then show ?thesis
      using False p v inv
      by (auto simp: MM_Store3D_def lookup_exact [OF inv ord] Some ad Let_def same_shape_refl sz simp flip: sz_def pe_def)
  qed
qed


end
