(* ===== verification/BlockMemory.thy ===== *)
theory BlockMemory
  imports MemoryManager
begin

text \<open>
  The interface that the allocator and the memory manager offer together: a map from addresses to
  blocks of bytes, in which blocks are allocated, freed, read and written from their start.  The
  contract is a step relation on such maps; the locale lifts it to whole sequences of operations,
  and the model of the code provides it.
\<close>

section \<open>The interface\<close>

datatype 'k mem_op = MAlloc u32 RegionType AllocationFlags | MFree 'k | MRead 'k u32 | MWrite 'k bytes

datatype 'k mem_reply = Granted 'k | Contents bytes | Accepted | Refused

text \<open>
  What each operation may answer and what it does to the blocks, with at most \<open>limit\<close> bytes per
  block: an allocation picks a free address and a block of the size asked for, with any contents.
\<close>

inductive block_step :: "nat \<Rightarrow> ('k \<rightharpoonup> bytes) \<Rightarrow> 'k mem_op \<Rightarrow> 'k mem_reply \<Rightarrow> ('k \<rightharpoonup> bytes) \<Rightarrow> bool" for limit where
  alloc: "unat n \<le> limit \<Longrightarrow> m k = None \<Longrightarrow> length v = unat n \<Longrightarrow>
    block_step limit m (MAlloc n t f) (Granted k) (m(k \<mapsto> v))"
| alloc_refused: "limit < unat n \<Longrightarrow> block_step limit m (MAlloc n t f) Refused m"
| free: "m k \<noteq> None \<Longrightarrow> block_step limit m (MFree k) Accepted (m(k := None))"
| free_refused: "m k = None \<Longrightarrow> block_step limit m (MFree k) Refused m"
| read: "m k = Some v \<Longrightarrow> unat n \<le> length v \<Longrightarrow>
    block_step limit m (MRead k n) (Contents (take (unat n) v)) m"
| read_refused: "\<forall>v. m k = Some v \<longrightarrow> length v < unat n \<Longrightarrow> block_step limit m (MRead k n) Refused m"
| wrote: "m k = Some v \<Longrightarrow> length d \<le> length v \<Longrightarrow>
    block_step limit m (MWrite k d) Accepted (m(k \<mapsto> d @ drop (length d) v))"
| write_refused: "\<forall>v. m k = Some v \<longrightarrow> length v < length d \<Longrightarrow> block_step limit m (MWrite k d) Refused m"

inductive_simps block_step_simps:
  "block_step limit m (MAlloc n t f) r m'" "block_step limit m (MFree k) r m'"
  "block_step limit m (MRead k n) r m'" "block_step limit m (MWrite k d) r m'"

inductive block_run :: "nat \<Rightarrow> ('k \<rightharpoonup> bytes) \<Rightarrow> 'k mem_op list \<Rightarrow> 'k mem_reply list \<Rightarrow> ('k \<rightharpoonup> bytes) \<Rightarrow> bool"
  for limit where
  empty: "block_run limit m [] [] m"
| step: "block_step limit m op r m1 \<Longrightarrow> block_run limit m1 ops rs m2 \<Longrightarrow>
    block_run limit m (op # ops) (r # rs) m2"

inductive_simps block_run_simps: "block_run limit m [] rs m'" "block_run limit m (op # ops) rs m'"

text \<open>
  A sequence of operations on an implementation, each with the choices \<open>e\<close> that the run time makes
  for it.  An operation may panic, which ends the sequence.
\<close>

fun mem_run :: "('e \<Rightarrow> 's \<Rightarrow> 'o \<Rightarrow> ('s \<times> 'r) go) \<Rightarrow> 's \<Rightarrow> ('e \<times> 'o) list \<Rightarrow> ('s \<times> 'r list) go" where
  "mem_run act s [] = Inr (s, [])"
| "mem_run act s ((e, op) # ops) =
     go_bind (act e s op) (\<lambda>(s1, r). go_bind (mem_run act s1 ops) (\<lambda>(s2, rs). Inr (s2, r # rs)))"

locale block_memory =
  fixes inv :: "nat \<Rightarrow> 's \<Rightarrow> bool" and view :: "'s \<Rightarrow> 'k \<rightharpoonup> bytes" and limit :: nat
    and good :: "'e \<Rightarrow> bool" and fine :: "'k mem_op \<Rightarrow> bool"
    and act :: "'e \<Rightarrow> 's \<Rightarrow> 'k mem_op \<Rightarrow> ('s \<times> 'k mem_reply) go"
  assumes act_law: "inv (Suc n) s \<Longrightarrow> good e \<Longrightarrow> fine op \<Longrightarrow>
      \<exists>s' r. act e s op = Inr (s', r) \<and> inv n s' \<and> block_step limit (view s) op r (view s')"
begin

lemma run_refines:
  assumes "inv (length ops + n) s" "\<forall>(e, op) \<in> set ops. good e \<and> fine op"
  shows "\<exists>s' rs. mem_run act s ops = Inr (s', rs) \<and> inv n s'
    \<and> block_run limit (view s) (map snd ops) rs (view s')"
  using assms
proof (induction ops arbitrary: s)
  case Nil
  then show ?case by (simp add: block_run_simps)
next
  case (Cons eop ops)
  obtain e op where eop: "eop = (e, op)" by (cases eop)
  have g: "good e" "fine op" "\<forall>(e, op) \<in> set ops. good e \<and> fine op"
    using Cons.prems(2) by (auto simp: eop)
  from act_law [of "length ops + n" s e op] Cons.prems(1) g(1,2) obtain s1 r where
    s1: "act e s op = Inr (s1, r)" "inv (length ops + n) s1" "block_step limit (view s) op r (view s1)" by auto
  from Cons.IH [OF s1(2) g(3)] obtain s' rs where
    "mem_run act s1 ops = Inr (s', rs)" "inv n s'" "block_run limit (view s1) (map snd ops) rs (view s')" by blast
  with s1 show ?case by (auto simp: eop intro: block_run.step)
qed

end

section \<open>Tracking\<close>

text \<open>The planes keep their bytes.\<close>

definition data_kept :: "Allocator3D \<Rightarrow> Allocator3D \<Rightarrow> bool" where
  "data_kept a a' \<longleftrightarrow> (\<forall>x y p. plane_at a x y = Some p \<longrightarrow>
     (\<exists>q. plane_at a' x y = Some q \<and> plane_Data q = plane_Data p))"

lemma data_kept_intros:
  "keeps al a a' \<Longrightarrow> data_kept a a'" "drops al a a' \<Longrightarrow> data_kept a a'" "untouched a a' \<Longrightarrow> data_kept a a'"
  unfolding data_kept_def keeps_def drops_def untouched_def by blast+

lemma view_kept:
  assumes inv: "mem_inv a mm" and kept: "data_kept a a'"
    and same: "map_of (mm_allocations mm') b = map_of (mm_allocations mm) b"
  shows "mem_view a' mm' b = mem_view a mm b"
proof (cases "map_of (mm_allocations mm) b")
  case None
  then show ?thesis by (simp add: mem_view_def same)
next
  case (Some al)
  from mem_view_Some [OF inv Some] obtain r p where "GetRegion a (addr_X b) = Some r" "GetPlane r (addr_Y b) = Some p"
    by blast
  then have p: "plane_at a (addr_X b) (addr_Y b) = Some p" by (simp add: plane_at_def)
  with kept obtain q where "plane_at a' (addr_X b) (addr_Y b) = Some q" "plane_Data q = plane_Data p"
    unfolding data_kept_def by blast
  then show ?thesis using p Some by (simp add: mem_view_def same block_bytes_def)
qed

lemma track_allocations:
  "mm_allocations (trackAllocation mm al now) = AList.update (alloc_Address al) al (mm_allocations mm)"
  by (simp add: trackAllocation_def Let_def)

lemma untrack_allocations:
  "mm_allocations (untrackAllocation mm addr now) =
     (if map_of (mm_allocations mm) addr = None then mm_allocations mm else AList.delete addr (mm_allocations mm))"
  by (simp add: untrackAllocation_def Let_def split: option.split)

lemma track_law:
  assumes inv: "mem_inv a mm" and al: "allocated a a' al" and np: "\<not> IsYPromoted al"
  shows "map_of (mm_allocations mm) (alloc_Address al) = None"
    and "mem_inv a' (trackAllocation mm al now)"
    and "\<exists>v. length v = unat (alloc_Size al) \<and>
       mem_view a' (trackAllocation mm al now) = (mem_view a mm)(alloc_Address al \<mapsto> v)"
proof -
  have ai: "al_inv a" using inv by (simp add: mem_inv_def)
  have ai': "al_inv a'" and keeps: "keeps al a a'" and rec: "recorded a' al" using al by (simp_all add: allocated_def)
  have h: "held a' al" by (rule recorded_held [OF rec np])
  have ne: "alloc_Address g \<noteq> alloc_Address al" if "held a g" for g
    by (rule allocated_fresh [OF ai that al h])
  show fresh: "map_of (mm_allocations mm) (alloc_Address al) = None"
  proof (cases "map_of (mm_allocations mm) (alloc_Address al)")
    case (Some g)
    then show ?thesis using ne [OF mem_invD(2) [OF inv Some]] mem_invD(1) [OF inv Some] by simp
  qed
  show i: "mem_inv a' (trackAllocation mm al now)"
    by (rule mem_inv_update [OF inv ai' _ h refl track_allocations])
      (use ne held_other keeps in blast)
  have m: "map_of (mm_allocations (trackAllocation mm al now)) b =
      (if b = alloc_Address al then Some al else map_of (mm_allocations mm) b)" for b
    by (simp add: track_allocations update_conv')
  have "map_of (mm_allocations (trackAllocation mm al now)) (alloc_Address al) = Some al" by (simp add: m)
  then obtain r p where "GetRegion a' (addr_X (alloc_Address al)) = Some r"
    "GetPlane r (addr_Y (alloc_Address al)) = Some p" "plane_inv p"
    and l: "unat (addr_Z (alloc_Address al)) + unat (alloc_Size al) \<le> length (plane_Data p)"
    and "length (plane_Data p) \<le> 65535"
    and v: "mem_view a' (trackAllocation mm al now) (alloc_Address al) =
      Some (take (unat (alloc_Size al)) (drop (unat (addr_Z (alloc_Address al))) (plane_Data p)))"
    by (rule mem_view_Some [OF i])
  define w where "w = take (unat (alloc_Size al)) (drop (unat (addr_Z (alloc_Address al))) (plane_Data p))"
  have "length w = unat (alloc_Size al)" using l by (simp add: w_def)
  moreover have "mem_view a' (trackAllocation mm al now) b = ((mem_view a mm)(alloc_Address al \<mapsto> w)) b" for b
    using view_kept [OF inv data_kept_intros(1) [OF keeps], of "trackAllocation mm al now" b] m [of b] v
    by (cases "b = alloc_Address al") (simp_all add: w_def)
  ultimately show "\<exists>v. length v = unat (alloc_Size al) \<and>
       mem_view a' (trackAllocation mm al now) = (mem_view a mm)(alloc_Address al \<mapsto> v)" by blast
qed

lemma untrack_law:
  assumes inv: "mem_inv a mm" and al: "map_of (mm_allocations mm) addr = Some al" and f: "freed a a' al"
  shows "mem_inv a' (untrackAllocation mm addr now)"
    and "mem_view a' (untrackAllocation mm addr now) = (mem_view a mm)(addr := None)"
proof -
  have m: "mm_allocations (untrackAllocation mm addr now) = AList.delete addr (mm_allocations mm)"
    by (simp add: untrack_allocations al)
  have dr: "drops al a a'" and ai': "al_inv a'" using f by (simp_all add: freed_def)
  have "alloc_Address g = k \<and> held a' g" if "(k, g) \<in> set (AList.delete addr (mm_allocations mm))" for k g
  proof -
    have "(k, g) \<in> set (mm_allocations mm)" "k \<noteq> addr" using that by (auto simp: AList.delete_eq)
    then have "alloc_Address g = k" "held a g" using inv by (auto simp: mem_inv_def)
    then show ?thesis
      using held_other [of a g al a'] \<open>k \<noteq> addr\<close> dr mem_invD(1) [OF inv al] by simp
  qed
  then show "mem_inv a' (untrackAllocation mm addr now)"
    using inv ai' by (auto simp: mem_inv_def m distinct_delete)
  have "mem_view a' (untrackAllocation mm addr now) b = ((mem_view a mm)(addr := None)) b" for b
    using view_kept [OF inv data_kept_intros(2) [OF dr], of "untrackAllocation mm addr now" b]
    by (cases "b = addr") (simp_all add: m delete_conv' mem_view_def)
  then show "mem_view a' (untrackAllocation mm addr now) = (mem_view a mm)(addr := None)" by blast
qed

lemma untouched_law:
  assumes inv: "mem_inv a mm" and u: "untouched a a'"
  shows "mem_inv a' mm" "mem_view a' mm = mem_view a mm"
proof -
  have "held a' g" if "held a g" for g using that u by (fastforce simp: held_def untouched_def)
  then show "mem_inv a' mm" using inv u by (auto simp: mem_inv_def untouched_def)
  show "mem_view a' mm = mem_view a mm"
    using view_kept [OF inv data_kept_intros(3) [OF u]] by blast
qed

lemma UpdateAccess_law:
  assumes inv: "mem_inv a mm"
  shows "mem_inv a (MM_UpdateAccess mm addr now)" "mem_view a (MM_UpdateAccess mm addr now) = mem_view a mm"
proof -
  show "mem_inv a (MM_UpdateAccess mm addr now)"
  proof (cases "map_of (mm_allocations mm) addr")
    case (Some al)
    have "held a (Allocation_UpdateAccess al 0 now)" using mem_invD(2) [OF inv Some] by (simp add: held_def)
    then show ?thesis
      using inv Some mem_invD(1) [OF inv Some]
      by (intro mem_inv_update [OF inv]) (simp_all add: MM_UpdateAccess_def mem_inv_def)
  qed (simp add: MM_UpdateAccess_def inv)
  show "mem_view a (MM_UpdateAccess mm addr now) = mem_view a mm"
  proof
    fix b
    show "mem_view a (MM_UpdateAccess mm addr now) b = mem_view a mm b"
      by (cases "map_of (mm_allocations mm) addr")
        (auto simp: MM_UpdateAccess_def mem_view_def update_conv')
  qed
qed

lemma NewMemoryManager_law: "al_inv a \<Longrightarrow> mem_inv a NewMemoryManager" "mem_view a NewMemoryManager = Map.empty"
  by (simp_all add: mem_inv_def mem_view_def NewMemoryManager_def fun_eq_iff)

section \<open>The allocator and the manager provide the interface\<close>

type_synonym mem_state = "Allocator3D \<times> MemoryManager"

text \<open>The orders in which the region and the allocation maps are walked, and the clock.\<close>

type_synonym mem_env = "order \<times> order \<times> u64"

text \<open>
  The operations as the handlers of the virtual machine compose them: an allocation is tracked
  under its address, and an address is looked up before its allocation is freed and untracked.
\<close>

fun mm_act :: "mem_env \<Rightarrow> mem_state \<Rightarrow> Address3D mem_op \<Rightarrow> (mem_state \<times> Address3D mem_reply) go" where
  "mm_act (rord, aord, now) (a, mm) (MAlloc n t f) =
     go_bind (allocateSync rord a n t f now) (\<lambda>(a', res). case res of
         Inl _ \<Rightarrow> Inr ((a', mm), Refused)
       | Inr al \<Rightarrow> Inr ((a', trackAllocation mm al now), Granted (alloc_Address al)))"
| "mm_act (rord, aord, now) (a, mm) (MFree addr) =
     (case getAllocation aord mm addr of
        None \<Rightarrow> Inr ((a, mm), Refused)
      | Some al \<Rightarrow> (case freeSync a al of
            (a', Some _) \<Rightarrow> Inr ((a', mm), Refused)
          | (a', None) \<Rightarrow> Inr ((a', untrackAllocation mm addr now), Accepted)))"
| "mm_act (rord, aord, now) (a, mm) (MRead addr n) =
     go_bind (MM_Load3D aord a mm addr n now) (\<lambda>(mm', res). case res of
         Inl _ \<Rightarrow> Inr ((a, mm'), Refused)
       | Inr d \<Rightarrow> Inr ((a, mm'), Contents d))"
| "mm_act (rord, aord, now) (a, mm) (MWrite addr d) =
     go_bind (MM_Store3D aord a mm addr d now) (\<lambda>(a', mm', err).
       Inr ((a', mm'), if err = None then Accepted else Refused))"

definition mm_good :: "mem_env \<Rightarrow> bool" where
  "mm_good e \<longleftrightarrow> (case e of (rord, aord, now) \<Rightarrow> valid_order rord \<and> valid_order aord)"

text \<open>
  Requests are for at least one byte, data is shorter than 4 GB, and blocks are freed only where
  planes are at most half of the 16-bit range.
\<close>

fun mm_fine :: "u16 \<Rightarrow> 'k mem_op \<Rightarrow> bool" where
  "mm_fine ps (MAlloc n t f) \<longleftrightarrow> n \<noteq> 0"
| "mm_fine ps (MFree k) \<longleftrightarrow> unat ps \<le> 32768"
| "mm_fine ps (MRead k n) \<longleftrightarrow> True"
| "mm_fine ps (MWrite k d) \<longleftrightarrow> length d < 2 ^ 32"

definition mem_ok :: "u16 \<Rightarrow> nat \<Rightarrow> Allocator3D \<Rightarrow> MemoryManager \<Rightarrow> bool" where
  "mem_ok ps k a mm \<longleftrightarrow> mem_inv a mm \<and> al_ok k a \<and> single a \<and> cfg_PlaneSize (al_config a) = ps"

lemma New_mem_ok:
  assumes "cfg_PlaneSize c \<noteq> 0" "k < 2 ^ 64 - 1"
  shows "mem_ok (cfg_PlaneSize c) k (NewAllocator3D c) NewMemoryManager"
  using assms
  by (simp add: mem_ok_def NewMemoryManager_law NewAllocator3D_inv NewAllocator3D_single NewAllocator3D_ok)
    (simp add: NewAllocator3D_def)

text \<open>A block is not larger than a plane.\<close>

lemma mem_fits:
  assumes ok: "mem_ok ps k a mm" and al: "allocated a a' al" "\<not> IsYPromoted al"
  shows "unat (alloc_Size al) \<le> unat ps"
proof (rule held_plane [of a' al])
  show inv': "al_inv a'" and "held a' al" using al by (simp_all add: allocated_def recorded_held)
  fix r p
  assume r: "GetRegion a' (addr_X (alloc_Address al)) = Some r" "GetPlane r (addr_Y (alloc_Address al)) = Some p"
    "plane_inv p" "unat (addr_Z (alloc_Address al)) + unat (alloc_Size al) \<le> length (plane_Data p)"
  have "length (plane_Data p) = unat (plane_Size p)" using plane_wfD(3) [OF plane_invD(1) [OF r(3)]] .
  moreover have "plane_Size p = ps"
    using al_invD(5) [OF inv' r(1) GetPlane_Some(1) [OF r(2)]] al(1) ok
    by (auto simp: allocated_def cfg_size_def mem_ok_def al_ok_def)
  ultimately show ?thesis using r(4) by simp
qed

lemma mem_allocate:
  assumes ok: "mem_ok ps (Suc k) a mm" and ord: "valid_order ord" and sz: "sz \<noteq> 0"
  obtains (some) a' al v where "allocateSync ord a sz rt flags now = Inr (a', Inr al)"
      "mem_ok ps k a' (trackAllocation mm al now')" "al_config a' = al_config a"
      "\<not> IsYPromoted al" "alloc_Size al = sz"
      "mem_view a mm (alloc_Address al) = None" "length v = unat sz" "unat sz \<le> unat ps"
      "mem_view a' (trackAllocation mm al now') = (mem_view a mm)(alloc_Address al \<mapsto> v)"
  | (none) a' where "allocateSync ord a sz rt flags now = Inr (a', Inl (InsufficientMemory sz))"
      "mem_ok ps k a' mm" "al_config a' = al_config a" "mem_view a' mm = mem_view a mm" "unat ps < unat sz"
proof -
  have i: "mem_inv a mm" "al_ok (Suc k) a" "single a" "al_inv a"
    "cfg_PlaneSize (al_config a) \<noteq> 0" "unat (al_nextRegionID a) + 1 < 2 ^ 64" "cfg_PlaneSize (al_config a) = ps"
    using ok by (auto simp: mem_ok_def al_ok_def)
  have pos: "0 < sz" using sz by (simp add: u32_pos_iff)
  from allocateSync_cases [OF i(4) pos ord i(5,6), of rt flags now]
  consider (ok) a' al where "allocateSync ord a sz rt flags now = Inr (a', Inr al)" "allocated a a' al" "alloc_Size al = sz"
      "unat (al_nextRegionID a') \<le> unat (al_nextRegionID a) + 1"
      "\<not> IsYPromoted al \<or> (\<exists>r. GetRegion a (addr_X (alloc_Address al)) = Some r
             \<and> length (alloc_Fragments al) \<le> length (reg_Planes r))"
    | (bad) a' where "ucast (cfg_size (al_config a)) < sz"
        "allocateSync ord a sz rt flags now = Inr (a', Inl (InsufficientMemory sz))" "untouched a a'"
        "unat (al_nextRegionID a') \<le> unat (al_nextRegionID a) + 1" by blast
  then show thesis
  proof cases
    case ok: ok
    have np: "\<not> IsYPromoted al"
      using ok(5) i(3) by (fastforce simp: single_def IsYPromoted_def)
    note t = track_law(1) [OF i(1) ok(2) np] track_law(2,3) [OF i(1) ok(2) np, of now']
    from t(3) obtain v where v: "length v = unat sz"
      "mem_view a' (trackAllocation mm al now') = (mem_view a mm)(alloc_Address al \<mapsto> v)" by (auto simp: ok(3))
    have n: "mem_view a mm (alloc_Address al) = None" using t(1) by (simp add: mem_view_def)
    have s: "single a'" "al_config a' = al_config a" using ok(2) same_shape_single [OF _ i(3)] by (auto simp: allocated_def)
    have "al_ok k a'" using ok(2,4) i(2) by (simp add: al_ok_def allocated_def)
    then have "mem_ok ps k a' (trackAllocation mm al now')" using s t(2) i(7) by (simp add: mem_ok_def)
    moreover have "unat sz \<le> unat ps" using mem_fits [OF assms(1) ok(2) np] ok(3) by simp
    ultimately show thesis using some ok(1,3) s(2) np n v by simp
  next
    case bad
    note u = untouched_law [OF i(1) bad(3)]
    have s: "single a'" "al_config a' = al_config a" using bad(3) same_shape_single [OF _ i(3)] by (auto simp: untouched_def)
    have "al_ok k a'" using bad(3,4) i(2) by (simp add: al_ok_def untouched_def)
    then have "mem_ok ps k a' mm" using s u i(7) by (simp add: mem_ok_def)
    moreover have "unat ps < unat sz"
      using bad(1) i(5,7) by (simp add: cfg_size_def word_less_nat_alt)
    ultimately show thesis using none bad(2) s(2) u(2) by simp
  qed
qed

lemma mem_free:
  assumes ok: "mem_ok ps k a mm" and small: "unat ps \<le> 32768" and al: "map_of (mm_allocations mm) addr = Some al"
  obtains a' where "freeSync a al = (a', None)" "al_config a' = al_config a"
    "mem_ok ps k a' (untrackAllocation mm addr now)"
    "mem_view a' (untrackAllocation mm addr now) = (mem_view a mm)(addr := None)"
proof -
  have i: "mem_inv a mm" "al_ok k a" "single a" "al_inv a"
    "cfg_PlaneSize (al_config a) \<noteq> 0" "cfg_PlaneSize (al_config a) = ps"
    using ok by (auto simp: mem_ok_def al_ok_def)
  have "unat (cfg_size (al_config a)) \<le> 32768" using small i(5,6) by (simp add: cfg_size_def)
  from freeSync_held [OF i(4) mem_invD(2) [OF i(1) al] this] obtain a' where
    f: "freeSync a al = (a', None)" "freed a a' al" by blast
  note u = untrack_law [OF i(1) al f(2), of now]
  have s: "single a'" "al_config a' = al_config a" "al_ok k a'"
    using f(2) same_shape_single [OF _ i(3)] i(2) by (auto simp: freed_def al_ok_def)
  then have "mem_ok ps k a' (untrackAllocation mm addr now)" using u(1) i(6) by (simp add: mem_ok_def)
  then show thesis using that f(1) s(2) u(2) by blast
qed

lemma mem_ok_less: "mem_ok ps (Suc k) a mm \<Longrightarrow> mem_ok ps k a mm"
  by (auto simp: mem_ok_def al_ok_def)

lemma mem_ok_same:
  assumes "mem_ok ps k a mm" "mem_inv a' mm'" "same_shape a a'" "al_config a' = al_config a" "al_nextRegionID a' = al_nextRegionID a"
  shows "mem_ok ps k a' mm'"
  using assms same_shape_single [OF assms(3)] by (auto simp: mem_ok_def al_ok_def mem_inv_def)

text \<open>A live address is a tracked one.\<close>

lemma mem_view_tracked:
  assumes "mem_inv a mm"
  shows "mem_view a mm addr = None \<longleftrightarrow> map_of (mm_allocations mm) addr = None"
proof (cases "map_of (mm_allocations mm) addr")
  case (Some al)
  from mem_view_Some [OF assms Some] show ?thesis by (metis Some option.distinct(1))
qed (simp add: mem_view_def)

abbreviation mm_view :: "mem_state \<Rightarrow> Address3D \<rightharpoonup> bytes" where
  "mm_view s \<equiv> mem_view (fst s) (snd s)"

interpretation mem: block_memory "\<lambda>k s. mem_ok ps k (fst s) (snd s)" mm_view "unat ps" mm_good "mm_fine ps" mm_act for ps
proof
  fix k and s :: mem_state and e :: mem_env and op :: "Address3D mem_op"
  assume ok: "mem_ok ps (Suc k) (fst s) (snd s)" and good: "mm_good e" and fine: "mm_fine ps op"
  obtain a mm where s: "s = (a, mm)" by (cases s)
  obtain rord aord now where e: "e = (rord, aord, now)" by (cases e)
  have m: "mem_ok ps (Suc k) a mm" "mem_ok ps k a mm" "mem_inv a mm" using ok mem_ok_less by (auto simp: s mem_ok_def)
  have ord: "valid_order rord" "valid_order aord" using good by (simp_all add: e mm_good_def)
  show "\<exists>s' r. mm_act e s op = Inr (s', r) \<and> mem_ok ps k (fst s') (snd s') \<and> block_step (unat ps) (mm_view s) op r (mm_view s')"
  proof (cases op)
    case (MAlloc n t f)
    have "n \<noteq> 0" using fine by (simp add: MAlloc)
    from m(1) ord(1) this show ?thesis
      by (rule mem_allocate [where rt = t and flags = f and now = now and now' = now])
        (force simp: s e MAlloc block_step_simps)+
  next
    case (MFree addr)
    have small: "unat ps \<le> 32768" using fine by (simp add: MFree)
    show ?thesis
    proof (cases "map_of (mm_allocations mm) addr")
      case None
      then show ?thesis using m by (simp add: s e MFree lookup_exact [OF m(3) ord(2)] block_step_simps mem_view_tracked)
    next
      case (Some al)
      have live: "mem_view a mm addr \<noteq> None" using Some mem_view_tracked [OF m(3), of addr] by simp
      from m(2) small Some show ?thesis
        by (rule mem_free [where now = now])
          (use live in \<open>simp add: s e MFree lookup_exact [OF m(3) ord(2)] Some block_step_simps\<close>)
    qed
  next
    case (MRead addr n)
    from Load3D_law [OF m(3) ord(2), of addr n now] obtain mm' res where
      r: "MM_Load3D aord a mm addr n now = Inr (mm', res)" "mm_allocations mm' = mm_allocations mm"
      and c: "case mem_view a mm addr of None \<Rightarrow> res = Inl (AddressNotAllocated addr)
         | Some v \<Rightarrow> if unat n \<le> length v then res = Inr (take (unat n) v)
                     else res \<in> {Inl (OutOfBounds ''read''), Inl (OutOfBounds ''plane read'')}" by blast
    note v = mem_view_cong [OF r(2), of a]
    have "mem_ok ps k a mm'" using m(2) v by (simp add: mem_ok_def)
    then show ?thesis using r(1) c v by (auto simp: s e MRead block_step_simps split: option.splits if_splits)
  next
    case (MWrite addr d)
    have "length d < 2 ^ 32" using fine by (simp add: MWrite)
    from Store3D_law [OF m(3) ord(2) this, of addr now] obtain a' mm' res where
      r: "MM_Store3D aord a mm addr d now = Inr (a', mm', res)" "mem_inv a' mm'" "same_shape a a'"
      "al_config a' = al_config a" "al_nextRegionID a' = al_nextRegionID a"
      and c: "case mem_view a mm addr of
           None \<Rightarrow> res = Some (AddressNotAllocated addr) \<and> a' = a \<and> mm' = mm
         | Some v \<Rightarrow> if length d \<le> length v
                     then res = None \<and> mem_view a' mm' = (mem_view a mm)(addr \<mapsto> d @ drop (length d) v)
                     else res \<in> {Some (OutOfBounds ''write''), Some (OutOfBounds ''plane write'')} \<and> a' = a \<and> mm' = mm"
      by blast
    have "mem_ok ps k a' mm'" by (rule mem_ok_same [OF m(2) r(2-5)])
    then show ?thesis using r(1) c by (auto simp: s e MWrite block_step_simps split: option.splits if_splits)
  qed
qed

section \<open>Accounting\<close>

definition tracked_bytes :: "(Address3D, Allocation) gomap \<Rightarrow> u64 \<Rightarrow> nat" where
  "tracked_bytes m x = sum_list (map (\<lambda>(k, al). if addr_X k = x then unat (alloc_Size al) else 0) m)"

definition stats_of :: "MemoryManager \<Rightarrow> u64 \<Rightarrow> RegionStats" where
  "stats_of mm x = (case map_of (mm_regions mm) x of Some st \<Rightarrow> st | None \<Rightarrow> zeroStats)"

text \<open>The usage counter of every region is the sum of the sizes of its tracked allocations.\<close>

definition usage_exact :: "MemoryManager \<Rightarrow> bool" where
  "usage_exact mm \<longleftrightarrow> distinct (map fst (mm_allocations mm))
     \<and> (\<forall>(k, al) \<in> set (mm_allocations mm). map_of (mm_regions mm) (addr_X k) \<noteq> None \<and> alloc_Size al \<noteq> 0)
     \<and> (\<forall>x. rs_CurrentUsage (stats_of mm x) = of_nat (tracked_bytes (mm_allocations mm) x))"

lemma tracked_bytes_delete:
  "distinct (map fst m) \<Longrightarrow> map_of m k = Some al \<Longrightarrow>
    tracked_bytes m x = tracked_bytes (AList.delete k m) x + (if addr_X k = x then unat (alloc_Size al) else 0)"
proof (induction m)
  case (Cons e m)
  obtain k' al' where e: "e = (k', al')" by (cases e)
  show ?case
  proof (cases "k' = k")
    case True
    then have "k \<notin> fst ` set m" using Cons.prems(1) by (simp add: e)
    then have "AList.delete k m = m" by (simp add: delete_id)
    then show ?thesis using True Cons.prems(2) by (simp add: e tracked_bytes_def)
  next
    case False
    then show ?thesis using Cons by (simp add: e tracked_bytes_def)
  qed
qed simp

lemma usage_track:
  assumes u: "usage_exact mm" and fresh: "map_of (mm_allocations mm) (alloc_Address al) = None" and s: "alloc_Size al \<noteq> 0"
  shows "usage_exact (trackAllocation mm al now)"
proof -
  let ?mm = "trackAllocation mm al now"
  have m: "mm_allocations ?mm = mm_allocations mm @ [(alloc_Address al, al)]"
    by (simp add: track_allocations AList_update_fresh [OF fresh])
  have st: "rs_CurrentUsage (stats_of ?mm x) = rs_CurrentUsage (stats_of mm x)
      + (if x = addr_X (alloc_Address al) then ucast (alloc_Size al) else 0)" for x
    by (simp add: stats_of_def trackAllocation_def Let_def update_conv')
  have reg: "map_of (mm_regions ?mm) x = None \<longleftrightarrow> x \<noteq> addr_X (alloc_Address al) \<and> map_of (mm_regions mm) x = None" for x
    by (simp add: trackAllocation_def Let_def update_conv')
  have "rs_CurrentUsage (stats_of ?mm x) = of_nat (tracked_bytes (mm_allocations ?mm) x)" for x
    using u unfolding st m by (simp add: usage_exact_def tracked_bytes_def)
  moreover have "alloc_Address al \<notin> fst ` set (mm_allocations mm)" using fresh by (simp add: map_of_eq_None_iff)
  ultimately show ?thesis
    using u s unfolding usage_exact_def by (auto simp: m reg)
qed

lemma usage_untrack:
  assumes u: "usage_exact mm"
  shows "usage_exact (untrackAllocation mm addr now)"
proof (cases "map_of (mm_allocations mm) addr")
  case None
  then show ?thesis using u by (simp add: untrackAllocation_def)
next
  case (Some al)
  let ?mm = "untrackAllocation mm addr now"
  have d: "distinct (map fst (mm_allocations mm))" using u by (simp add: usage_exact_def)
  have al: "map_of (mm_regions mm) (addr_X addr) \<noteq> None" "alloc_Size al \<noteq> 0"
    using u map_of_SomeD [OF Some] by (auto simp: usage_exact_def)
  then obtain st where st: "map_of (mm_regions mm) (addr_X addr) = Some st" by blast
  have m: "mm_allocations ?mm = AList.delete addr (mm_allocations mm)" by (simp add: untrack_allocations Some)
  have reg: "map_of (mm_regions ?mm) x = None \<longleftrightarrow> map_of (mm_regions mm) x = None" for x
    using st by (simp add: untrackAllocation_def Some Let_def update_conv')
  have use: "rs_CurrentUsage (stats_of ?mm x) = rs_CurrentUsage (stats_of mm x)
      - (if x = addr_X addr then ucast (alloc_Size al) else 0)" for x
    using st not_pred_u32 [OF al(2)] by (simp add: stats_of_def untrackAllocation_def Some Let_def update_conv')
  have "rs_CurrentUsage (stats_of ?mm x) = of_nat (tracked_bytes (mm_allocations ?mm) x)" for x
    using u tracked_bytes_delete [OF d Some, of x] unfolding use m by (simp add: usage_exact_def)
  moreover have "set (AList.delete addr (mm_allocations mm)) \<subseteq> set (mm_allocations mm)" by (auto simp: AList.delete_eq)
  ultimately show ?thesis
    using u d unfolding usage_exact_def by (auto simp: m reg distinct_delete)
qed

lemma tracked_bytes_same_size:
  "map_of m k = Some al \<Longrightarrow> alloc_Size al' = alloc_Size al \<Longrightarrow> tracked_bytes (AList.update k al' m) x = tracked_bytes m x"
  by (induction m) (auto simp: tracked_bytes_def split: if_splits)

lemma usage_same:
  assumes u: "usage_exact mm" and al: "map_of (mm_allocations mm) addr = Some al" and s: "alloc_Size al' = alloc_Size al"
    and m: "mm_allocations mm' = AList.update addr al' (mm_allocations mm)" and r: "mm_regions mm' = mm_regions mm"
  shows "usage_exact mm'"
proof -
  have d: "distinct (map fst (mm_allocations mm))" using u by (simp add: usage_exact_def)
  have "(addr, al) \<in> set (mm_allocations mm)" using al by (rule map_of_SomeD)
  then have "\<forall>(k, g) \<in> set (mm_allocations mm'). map_of (mm_regions mm) (addr_X k) \<noteq> None \<and> alloc_Size g \<noteq> 0"
    using u s unfolding m set_AList_update [OF d] usage_exact_def by auto
  then show ?thesis
    using u d tracked_bytes_same_size [OF al s] unfolding usage_exact_def
    by (simp add: m r stats_of_def distinct_update)
qed

section \<open>Properties\<close>

text \<open>
  C15.  The planes, the allocator and the memory manager together are a memory of blocks.  From a
  fresh allocator and manager, any sequence of allocations, frees, loads and stores runs to its
  end without a panic, in whatever order the run time walks the maps, and its answers and final
  contents are those of a map from addresses to blocks: an allocation is granted exactly when it
  fits a plane, at an address that was free, and gives a block of the size asked for; a load
  returns the first bytes of the block and a store overwrites them and keeps the rest; a freed
  address is free again; an access without a block or beyond its end is refused; and no operation
  touches another block.  Requests are for at least one byte, data is shorter than 4 GB, and
  blocks are freed only where planes have at most 32768 bytes.
\<close>

theorem memory_refines_blocks:
  assumes "cfg_PlaneSize c \<noteq> 0" "length ops < 2 ^ 64 - 1"
    and "\<forall>(e, op) \<in> set ops. mm_good e \<and> mm_fine (cfg_PlaneSize c) op"
  shows "\<exists>a mm rs. mem_run mm_act (NewAllocator3D c, NewMemoryManager) ops = Inr ((a, mm), rs)
    \<and> mem_inv a mm \<and> block_run (unat (cfg_PlaneSize c)) Map.empty (map snd ops) rs (mem_view a mm)"
proof -
  have "mem_ok (cfg_PlaneSize c) (length ops + 0) (NewAllocator3D c) NewMemoryManager"
    by (rule New_mem_ok) (use assms(1,2) in simp_all)
  then show ?thesis
    using mem.run_refines [of "cfg_PlaneSize c" ops 0 "(NewAllocator3D c, NewMemoryManager)"] assms(3)
    by (fastforce simp: NewMemoryManager_law mem_ok_def)
qed

lemma demo_memory:
  obtains a al v where "allocateSync (\<lambda>n. [0..<n]) (NewAllocator3D demo_config) 40 4 0 0 = Inr (a, Inr al)"
    "alloc_Size al = 40"
    "mem_inv a (trackAllocation NewMemoryManager al 0)" "length v = 40"
    "mem_view a (trackAllocation NewMemoryManager al 0) = [alloc_Address al \<mapsto> v]"
proof -
  let ?a = "NewAllocator3D demo_config" and ?q = "(\<lambda>n. [0..<n], 40, 4, 0, 0) :: request"
  have ok: "al_ok (Suc 0) ?a" by (rule NewAllocator3D_ok) (simp_all add: demo_config_def)
  have good: "good_request ?q" by (simp add: good_request_def)
  have c: "al_config ?a = demo_config" "al_nextRegionID ?a = 1" by (simp_all add: NewAllocator3D_def)
  have h: "0 < (40 :: u32)" "cfg_PlaneSize (al_config ?a) \<noteq> 0" "unat (al_nextRegionID ?a) + 1 < 2 ^ 64"
    "\<not> ucast (cfg_size (al_config ?a)) < (40 :: u32)"
    unfolding c by (simp_all add: cfg_size_def demo_config_def)
  from allocateSync_cases [OF NewAllocator3D_inv(1) h(1) valid_order_upt h(2,3), of 4 0 0] h(4)
  obtain a al where r: "allocateSync (\<lambda>n. [0..<n]) ?a 40 4 0 0 = Inr (a, Inr al)" "allocated ?a a al" "alloc_Size al = 40"
    by blast
  have "\<not> IsYPromoted al"
    by (rule al_acquire_cases [OF ok good]) (use r in \<open>auto simp: al_acquire_def NewAllocator3D_single\<close>)
  note t = track_law(2,3) [OF NewMemoryManager_law(1) [OF NewAllocator3D_inv(1)] r(2) this, of 0]
  then show thesis using that [OF r(1,3)] r(3) NewMemoryManager_law(2) [of ?a] by auto
qed

text \<open>A session on planes of 100 bytes.\<close>

definition demo_ops :: "(mem_env \<times> Address3D mem_op) list" where
  "demo_ops = map (Pair (\<lambda>n. [0..<n], \<lambda>n. rev [0..<n], 0)) [MAlloc 40 4 0, MWrite (NewAddress 2 0 0) [1, 2, 3],
     MAlloc 101 4 0, MRead (NewAddress 2 0 0) 2, MRead (NewAddress 2 0 0) 41, MFree (NewAddress 2 0 0), MRead (NewAddress 2 0 0) 1]"

theorem memory_refines_blocks_witness:
  "\<exists>a mm. mem_run mm_act (NewAllocator3D demo_config, NewMemoryManager) demo_ops =
     Inr ((a, mm), [Granted (NewAddress 2 0 0), Accepted, Refused, Contents [1, 2], Refused, Accepted, Refused])
     \<and> mem_inv a mm \<and> mem_view a mm = Map.empty"
proof -
  have "cfg_PlaneSize demo_config \<noteq> 0" "length demo_ops < 2 ^ 64 - 1"
      "\<forall>(e, op) \<in> set demo_ops. mm_good e \<and> mm_fine (cfg_PlaneSize demo_config) op"
    and c: "unat (cfg_PlaneSize demo_config) = 100"
    by (simp_all add: demo_config_def mm_good_def demo_ops_def)
  from memory_refines_blocks [OF this(1-3)] obtain a mm rs where
    r: "mem_run mm_act (NewAllocator3D demo_config, NewMemoryManager) demo_ops = Inr ((a, mm), rs)" "mem_inv a mm"
      "block_run 100 Map.empty (map snd demo_ops) rs (mem_view a mm)"
    unfolding c by blast
  obtain rest where d: "demo_ops = ((\<lambda>n. [0..<n], \<lambda>n. rev [0..<n], 0), MAlloc 40 4 0) # rest"
    by (simp add: demo_ops_def)
  have "map_sum id (map_sum id alloc_Address \<circ> snd) (allocateSync (\<lambda>n. [0..<n]) (NewAllocator3D demo_config) 40 4 0 0)
      = Inr (Inr (NewAddress 2 0 0))" by code_simp
  then obtain a1 al where "allocateSync (\<lambda>n. [0..<n]) (NewAllocator3D demo_config) 40 4 0 0 = Inr (a1, Inr al)"
    "alloc_Address al = NewAddress 2 0 0" by (auto simp: map_sum_def split: sum.splits)
  then have h: "hd rs = Granted (NewAddress 2 0 0)"
    using r(1) unfolding d by (auto simp: go_bind_eq_Inr_iff split: prod.splits)
  have rs: "rs = [Granted (NewAddress 2 0 0), Accepted, Refused, Contents [1, 2], Refused, Accepted, Refused]
      \<and> mem_view a mm = Map.empty"
    using r(3) h by (clarsimp simp: demo_ops_def block_run_simps block_step_simps)
  show ?thesis using r(1,2) rs by blast
qed

text \<open>
  The outcome of every access, errors included, although both bounds checks are made on
  truncated numbers: no load or store panics; it succeeds exactly when the address is that of a
  tracked allocation and the access fits into it, and a failed store changes nothing.
\<close>

theorem memory_access_exact:
  assumes "mem_inv a mm" "valid_order ord" "length data < 2 ^ 32"
  shows "(\<exists>mm' res. MM_Load3D ord a mm addr sz now = Inr (mm', res) \<and>
      (case mem_view a mm addr of
         None \<Rightarrow> res = Inl (AddressNotAllocated addr)
       | Some v \<Rightarrow> if unat sz \<le> length v then res = Inr (take (unat sz) v)
                   else res = Inl (OutOfBounds ''read'') \<or> res = Inl (OutOfBounds ''plane read'')))
    \<and> (\<exists>a' mm' err. MM_Store3D ord a mm addr data now = Inr (a', mm', err) \<and>
      (case mem_view a mm addr of
         None \<Rightarrow> err = Some (AddressNotAllocated addr) \<and> a' = a \<and> mm' = mm
       | Some v \<Rightarrow> if length data \<le> length v then err = None \<and> mem_view a' mm' addr = Some (data @ drop (length data) v)
                   else (err = Some (OutOfBounds ''write'') \<or> err = Some (OutOfBounds ''plane write'')) \<and> a' = a \<and> mm' = mm))"
proof (rule conjI)
  show "\<exists>mm' res. MM_Load3D ord a mm addr sz now = Inr (mm', res) \<and>
      (case mem_view a mm addr of
         None \<Rightarrow> res = Inl (AddressNotAllocated addr)
       | Some v \<Rightarrow> if unat sz \<le> length v then res = Inr (take (unat sz) v)
                   else res = Inl (OutOfBounds ''read'') \<or> res = Inl (OutOfBounds ''plane read''))"
    using Load3D_law [OF assms(1,2), of addr sz now] by (auto split: option.splits if_splits)
  show "\<exists>a' mm' err. MM_Store3D ord a mm addr data now = Inr (a', mm', err) \<and>
      (case mem_view a mm addr of
         None \<Rightarrow> err = Some (AddressNotAllocated addr) \<and> a' = a \<and> mm' = mm
       | Some v \<Rightarrow> if length data \<le> length v then err = None \<and> mem_view a' mm' addr = Some (data @ drop (length data) v)
                   else (err = Some (OutOfBounds ''write'') \<or> err = Some (OutOfBounds ''plane write'')) \<and> a' = a \<and> mm' = mm)"
    using Store3D_law [OF assms, of addr now] by (auto split: option.splits if_splits)
qed

theorem memory_access_exact_witness:
  "\<exists>mm'. MM_Load3D (\<lambda>n. [0..<n]) (NewAllocator3D demo_config) NewMemoryManager \<lparr>addr_X = 2, addr_Y = 0, addr_Z = 0\<rparr> 5 0
     = Inr (mm', Inl (AddressNotAllocated \<lparr>addr_X = 2, addr_Y = 0, addr_Z = 0\<rparr>))"
  using memory_access_exact [OF NewMemoryManager_law(1) [OF NewAllocator3D_inv(1)] valid_order_upt, of "[]" demo_config
      "\<lparr>addr_X = 2, addr_Y = 0, addr_Z = 0\<rparr>" 5 0] NewMemoryManager_law(2)
  by auto

text \<open>
  Only the start of an allocation is an address.  An access at any later byte of a tracked
  block is refused as not allocated, although the comment on the lookup says that it finds the
  allocation that contains the address.
\<close>

theorem interior_address_refused:
  assumes "mem_inv a mm" "valid_order ord" "map_of (mm_allocations mm) addr = Some al"
    and "0 < k" "k < unat (alloc_Size al)"
  defines "inner \<equiv> addr\<lparr>addr_Z := addr_Z addr + of_nat k\<rparr>"
  shows "MM_Load3D ord a mm inner sz now = Inr (mm, Inl (AddressNotAllocated inner))
    \<and> MM_Store3D ord a mm inner data now = Inr (a, mm, Some (AddressNotAllocated inner))"
proof -
  have ai: "al_inv a" using assms(1) by (simp add: mem_inv_def)
  have "unat (addr_Z addr) + unat (alloc_Size al) \<le> 65535"
    by (rule mem_view_Some [OF assms(1,3)]) linarith
  then have z: "unat (addr_Z inner) = unat (addr_Z addr) + k"
    using assms(5) unat_of_nat_u16 [of k] by (simp add: inner_def unat_word_ariths)
  have "map_of (mm_allocations mm) inner = None"
  proof (cases "map_of (mm_allocations mm) inner")
    case (Some g)
    have "addr \<noteq> inner" using z assms(4) by auto
    from tracked_disjoint [OF assms(1,3) Some this] have
      "{unat (addr_Z addr)..<unat (addr_Z addr) + unat (alloc_Size al)}
       \<inter> {unat (addr_Z inner)..<unat (addr_Z inner) + unat (alloc_Size g)} = {}" by (simp add: inner_def)
    moreover have "0 < unat (alloc_Size g)"
      by (rule held_plane [OF ai mem_invD(2) [OF assms(1) Some]])
    ultimately show ?thesis using z assms(5) by (auto simp: disjoint_iff)
  qed
  then show ?thesis by (simp add: MM_Load3D_def MM_Store3D_def lookup_exact [OF assms(1,2)] Let_def)
qed

theorem interior_address_refused_witness:
  "\<exists>a mm addr. map_of (mm_allocations mm) addr \<noteq> None \<and>
     MM_Load3D (\<lambda>n. [0..<n]) a mm (addr\<lparr>addr_Z := addr_Z addr + 7\<rparr>) 1 0
       = Inr (mm, Inl (AddressNotAllocated (addr\<lparr>addr_Z := addr_Z addr + 7\<rparr>)))"
proof -
  obtain a al where d: "mem_inv a (trackAllocation NewMemoryManager al 0)" "alloc_Size al = 40" by (rule demo_memory)
  have m: "map_of (mm_allocations (trackAllocation NewMemoryManager al 0)) (alloc_Address al) = Some al"
    by (simp add: track_allocations update_conv')
  from interior_address_refused [OF d(1) valid_order_upt m, of 7 1 0] m show ?thesis using d(2) by auto
qed

text \<open>
  Usage accounting: tracking an allocation at a new address, untracking any address and
  recording an access keep the usage counter of every region equal to the sum of the sizes of
  its tracked allocations, and the access log never exceeds 10000 entries.
\<close>

theorem usage_accounting:
  assumes "usage_exact mm" "map_of (mm_allocations mm) (alloc_Address al) = None" "alloc_Size al \<noteq> 0"
  shows "usage_exact (trackAllocation mm al now) \<and> usage_exact (untrackAllocation mm addr now)
    \<and> usage_exact (MM_UpdateAccess mm addr now)
    \<and> (length (mm_accessLog mm) \<le> 10000 \<longrightarrow> length (mm_accessLog (logAccess mm addr t sz now)) \<le> 10000)"
proof (intro conjI impI)
  show "usage_exact (trackAllocation mm al now)" by (rule usage_track [OF assms])
  show "usage_exact (untrackAllocation mm addr now)" by (rule usage_untrack [OF assms(1)])
  show "usage_exact (MM_UpdateAccess mm addr now)"
  proof (cases "map_of (mm_allocations mm) addr")
    case (Some g)
    then show ?thesis by (intro usage_same [OF assms(1) Some, of "Allocation_UpdateAccess g 0 now"]) (simp_all add: MM_UpdateAccess_def)
  qed (simp add: MM_UpdateAccess_def assms(1))
  assume "length (mm_accessLog mm) \<le> 10000"
  then show "length (mm_accessLog (logAccess mm addr t sz now)) \<le> 10000" by (auto simp: logAccess_def Let_def)
qed

theorem usage_accounting_witness:
  "usage_exact (trackAllocation NewMemoryManager (NewAllocation 2 (NewAddress 2 0 0) 40 4 0) 0)"
proof -
  have "usage_exact NewMemoryManager"
    by (simp add: usage_exact_def NewMemoryManager_def stats_of_def zeroStats_def tracked_bytes_def)
  from usage_accounting [OF this, of "NewAllocation 2 (NewAddress 2 0 0) 40 4 0" 0 "NewAddress 2 0 0"] show ?thesis
    by (simp add: NewMemoryManager_def)
qed


end
