(* ===== verification/Gas.thy ===== *)
theory Gas
  imports Address
begin

text \<open>
  \<^verbatim>\<open>internal/vm/gas.go\<close>: the gas accountant with its buckets, and the distance-based cost.  The
  operations are modelled twice: as the single step they are for one caller, and, for
  \<^verbatim>\<open>Consume\<close>, as the atomic loads, swaps and additions that several callers interleave.
\<close>

section \<open>The accountant\<close>

record GasBucket =
  bk_remaining :: u64
  bk_used :: u64
  bk_promotions :: u32
  bk_regionChanges :: u32

record GasAccountant3D =
  ga_buckets :: "GasBucket list"
  ga_bucketIdx :: u64
  ga_totalGas :: u64

definition numBuckets :: nat where "numBuckets = 1"

definition NewAccountant :: "u64 \<Rightarrow> GasAccountant3D" where
  "NewAccountant GasLimit =
     (let gasPerBucket = GasLimit div of_nat numBuckets;
          remainder = GasLimit mod of_nat numBuckets
      in \<lparr>ga_buckets = map (\<lambda>i. \<lparr>bk_remaining = (if i = 0 then gasPerBucket + remainder else gasPerBucket),
              bk_used = 0, bk_promotions = 0, bk_regionChanges = 0\<rparr>) [0..<numBuckets],
          ga_bucketIdx = 0, ga_totalGas = GasLimit\<rparr>)"

text \<open>The position of the bucket that the round robin chooses; \<^verbatim>\<open>idx % 0\<close> panics.\<close>

definition getBucket :: "GasAccountant3D \<Rightarrow> (GasAccountant3D \<times> nat) go" where
  "getBucket g =
     (let idx = ga_bucketIdx g + 1
      in if ga_buckets g = [] then Inl DivideByZero
         else Inr (g\<lparr>ga_bucketIdx := idx\<rparr>, unat (idx mod of_nat (length (ga_buckets g)))))"

definition Consume :: "GasAccountant3D \<Rightarrow> u64 \<Rightarrow> (GasAccountant3D \<times> error option) go" where
  "Consume g gas =
     go_bind (getBucket g) (\<lambda>(g', i).
       let bucket = ga_buckets g' ! i; old = bk_remaining bucket
       in if old < gas then Inr (g', Some InsufficientGas)
          else Inr (g'\<lparr>ga_buckets := (ga_buckets g')[i :=
                 bucket\<lparr>bk_remaining := old - gas, bk_used := bk_used bucket + gas\<rparr>]\<rparr>, None))"

text \<open>The first bucket that has used gas takes the refund, and otherwise bucket 0.\<close>

fun refund_used :: "u64 \<Rightarrow> GasBucket list \<Rightarrow> GasBucket list option" where
  "refund_used gas [] = None"
| "refund_used gas (b # bs) =
     (if bk_used b = 0 then map_option (Cons b) (refund_used gas bs)
      else let newUsed = (if bk_used b \<le> gas then 0 else bk_used b - gas)
        in Some (b\<lparr>bk_used := newUsed, bk_remaining := bk_remaining b + gas\<rparr> # bs))"

definition Refund :: "GasAccountant3D \<Rightarrow> u64 \<Rightarrow> GasAccountant3D go" where
  "Refund g gas =
     (case refund_used gas (ga_buckets g) of
        Some bs \<Rightarrow> Inr (g\<lparr>ga_buckets := bs\<rparr>)
      | None \<Rightarrow> (case ga_buckets g of
            [] \<Rightarrow> Inl IndexOutOfRange
          | b # bs \<Rightarrow> Inr (g\<lparr>ga_buckets := b\<lparr>bk_remaining := bk_remaining b + gas\<rparr> # bs\<rparr>)))"

definition Used :: "GasAccountant3D \<Rightarrow> u64" where
  "Used g = sum_list (map bk_used (ga_buckets g))"

text \<open>The sum is taken in \<^verbatim>\<open>int64\<close>, whose addition wraps, and read as a signed number.\<close>

definition Remaining :: "GasAccountant3D \<Rightarrow> int" where
  "Remaining g =
     (let total = sint (sum_list (map bk_remaining (ga_buckets g)) :: u64)
      in if total < 0 then 0 else total)"

definition gas_absDiff64 :: "u64 \<Rightarrow> u64 \<Rightarrow> u64" where
  "gas_absDiff64 a b = (if a > b then a - b else b - a)"

definition gas_absDiff32 :: "u32 \<Rightarrow> u32 \<Rightarrow> u32" where
  "gas_absDiff32 a b = (if a > b then a - b else b - a)"

definition gas_absDiff16 :: "u16 \<Rightarrow> u16 \<Rightarrow> u16" where
  "gas_absDiff16 a b = (if a > b then a - b else b - a)"

definition calculateGas :: "Address3D \<Rightarrow> Address3D \<Rightarrow> u32 \<Rightarrow> u64" where
  "calculateGas addrFrom addrTo sz =
     (let gas = ucast (3 + sz);
          distances = [gas_absDiff64 (addr_X addrFrom) (addr_X addrTo) * 100,
                       ucast (gas_absDiff32 (addr_Y addrFrom) (addr_Y addrTo) * 10),
                       ucast (gas_absDiff16 (addr_Z addrFrom) (addr_Z addrTo))]
      in foldl (+) gas distances)"

text \<open>
  The cost of a transfer is a base of three and the size plus the distance of \<^verbatim>\<open>address.go\<close>, as long as the
  distance in Y, which is multiplied in 32 bits here, does not wrap; between valid addresses it does not.
\<close>

lemma calculateGas_distance:
  assumes "unat (absDiff32 (addr_Y a) (addr_Y b)) * 10 < 2 ^ 32"
  shows "calculateGas a b sz = ucast (3 + sz) + ManhattanDistance a b"
proof -
  have "(ucast (absDiff32 (addr_Y a) (addr_Y b) * 10) :: u64) = ucast (absDiff32 (addr_Y a) (addr_Y b)) * 10"
    using assms by (simp add: word_unat_eq_iff unat_word_ariths)
  then show ?thesis
    by (simp add: calculateGas_def ManhattanDistance_def gas_absDiff64_def gas_absDiff32_def gas_absDiff16_def
        absDiff64_def absDiff32_def absDiff16_def Let_def add.assoc)
qed

lemma calculateGas_valid:
  assumes "IsValid a" "IsValid b"
  shows "calculateGas a b sz = ucast (3 + sz) + ManhattanDistance a b"
proof (rule calculateGas_distance)
  have "unat (absDiff32 (addr_Y a) (addr_Y b)) < MaxYPlanes"
    using assms by (auto simp: IsValid_def absDiff32_def unat_sub_if' word_less_nat_alt)
  then show "unat (absDiff32 (addr_Y a) (addr_Y b)) * 10 < 2 ^ 32" by (simp add: MaxYPlanes_def)
qed

section \<open>The meter interface\<close>

text \<open>What the virtual machine relies on: a budget that pays for instructions or refuses.\<close>

fun pay_all :: "('s \<Rightarrow> u64 \<Rightarrow> 's \<times> bool) \<Rightarrow> 's \<Rightarrow> u64 list \<Rightarrow> 's \<times> nat" where
  "pay_all pay s [] = (s, 0)"
| "pay_all pay s (c # cs) =
     (let (s1, ok) = pay s c; (s2, n) = pay_all pay s1 cs in (s2, (if ok then unat c else 0) + n))"

locale meter =
  fixes sound :: "nat \<Rightarrow> 's \<Rightarrow> bool" and left :: "'s \<Rightarrow> nat" and spent :: "'s \<Rightarrow> nat"
    and pay :: "'s \<Rightarrow> u64 \<Rightarrow> 's \<times> bool"
  assumes balance: "sound limit s \<Longrightarrow> left s + spent s = limit"
    and pay_True: "sound limit s \<Longrightarrow> unat c \<le> left s \<Longrightarrow>
      \<exists>s'. pay s c = (s', True) \<and> sound limit s' \<and> spent s' = spent s + unat c"
    and pay_False: "sound limit s \<Longrightarrow> left s < unat c \<Longrightarrow>
      \<exists>s'. pay s c = (s', False) \<and> sound limit s' \<and> spent s' = spent s"
begin

lemma pay_sound: "sound limit s \<Longrightarrow> pay s c = (s', ok) \<Longrightarrow>
    sound limit s' \<and> spent s' = spent s + (if ok then unat c else 0)"
  using pay_True [of limit s c] pay_False [of limit s c] by (cases "unat c \<le> left s") force+

text \<open>Over any run of payments, exactly what was accepted is spent, and never more than the limit.\<close>

lemma pay_all_spent:
  assumes "sound limit s" "pay_all pay s cs = (s', n)"
  shows "sound limit s' \<and> spent s' = spent s + n \<and> spent s + n \<le> limit"
  using assms
proof (induction cs arbitrary: s n)
  case Nil
  then show ?case using balance [of limit s] by simp
next
  case (Cons c cs)
  obtain s1 ok where p: "pay s c = (s1, ok)" by fastforce
  obtain m where q: "pay_all pay s1 cs = (s', m)" and n: "n = (if ok then unat c else 0) + m"
    using Cons.prems(2) p by (auto split: prod.splits)
  note s1 = pay_sound [OF Cons.prems(1) p]
  then have "sound limit s1" by blast
  from Cons.IH [OF this q] s1 n show ?case by simp
qed

end

section \<open>Conservation of gas\<close>

lemma sint_u64: "sint (w :: u64) = (if unat w < 2 ^ 63 then int (unat w) else int (unat w) - 2 ^ 64)"
proof -
  have lt: "uint w < 2 ^ 64" "0 \<le> uint w" using unsigned_less [of w] by simp_all
  have "bit (uint w) 63 \<longleftrightarrow> 2 ^ 63 \<le> uint w"
  proof (cases "uint w < 2 ^ 63")
    case True
    then show ?thesis using lt(2) by (simp add: bit_iff_odd div_pos_pos_trivial)
  next
    case False
    then have "uint w div 2 ^ 63 = 1" using lt(1) by (subst div_pos_geq) (auto simp: div_pos_pos_trivial)
    then show ?thesis using False by (simp add: bit_iff_odd)
  qed
  moreover have "sint w = take_bit 64 (uint w) - 2 ^ 64 * of_bool (bit (uint w) 63)"
    by (simp add: sint_uint signed_take_bit_eq_take_bit_minus)
  moreover have "take_bit 64 (uint w) = uint w" using lt by (simp add: take_bit_int_eq_self)
  moreover have "unat w < 2 ^ 63 \<longleftrightarrow> uint w < 2 ^ 63"
  proof -
    have "int (unat w) < int (2 ^ 63) \<longleftrightarrow> uint w < 2 ^ 63" by simp
    then show ?thesis by (simp only: of_nat_less_iff)
  qed
  ultimately show ?thesis by auto
qed

text \<open>One bucket, as the accountant creates it, whose two counters add up to the limit.\<close>

definition gas_inv :: "nat \<Rightarrow> GasAccountant3D \<Rightarrow> bool" where
  "gas_inv limit g \<longleftrightarrow> limit < 2 ^ 64
     \<and> (\<exists>b. ga_buckets g = [b] \<and> unat (bk_remaining b) + unat (bk_used b) = limit)"

definition gas_left :: "GasAccountant3D \<Rightarrow> nat" where
  "gas_left g = unat (bk_remaining (hd (ga_buckets g)))"

lemma NewAccountant_inv: "gas_inv (unat limit) (NewAccountant limit)"
  using unsigned_less [of limit] by (simp add: gas_inv_def NewAccountant_def numBuckets_def Let_def)

lemma NewAccountant_left: "gas_left (NewAccountant limit) = unat limit" "Used (NewAccountant limit) = 0"
  by (simp_all add: gas_left_def NewAccountant_def numBuckets_def Let_def Used_def)

lemma gas_balance: "gas_inv limit g \<Longrightarrow> gas_left g + unat (Used g) = limit"
  by (auto simp: gas_inv_def gas_left_def Used_def)

lemma getBucket_single: "ga_buckets g = [b] \<Longrightarrow> getBucket g = Inr (g\<lparr>ga_bucketIdx := ga_bucketIdx g + 1\<rparr>, 0)"
  by (simp add: getBucket_def Let_def)

lemma Consume_cases:
  assumes inv: "gas_inv limit g"
  shows "if unat gas \<le> gas_left g
    then \<exists>g'. Consume g gas = Inr (g', None) \<and> gas_inv limit g' \<and> unat (Used g') = unat (Used g) + unat gas
    else \<exists>g'. Consume g gas = Inr (g', Some InsufficientGas) \<and> gas_inv limit g' \<and> Used g' = Used g"
proof -
  from inv obtain b where b: "ga_buckets g = [b]" "unat (bk_remaining b) + unat (bk_used b) = limit"
    by (auto simp: gas_inv_def)
  show ?thesis
  proof (cases "unat gas \<le> gas_left g")
    case False
    then have "bk_remaining b < gas" by (simp add: gas_left_def b(1) word_less_nat_alt)
    then show ?thesis
      using False b inv by (simp add: Consume_def getBucket_single [OF b(1)] gas_inv_def Used_def Let_def)
  next
    case True
    then have le: "gas \<le> bk_remaining b" "unat gas \<le> unat (bk_remaining b)"
      by (simp_all add: gas_left_def b(1) word_le_nat_alt)
    have r: "unat (bk_remaining b - gas) = unat (bk_remaining b) - unat gas" using le by (simp add: unat_sub)
    have u: "unat (bk_used b + gas) = unat (bk_used b) + unat gas"
      using b(2) le(2) inv by (simp add: gas_inv_def unat_plus_if')
    have c: "Consume g gas = Inr (g\<lparr>ga_bucketIdx := ga_bucketIdx g + 1,
        ga_buckets := [b\<lparr>bk_remaining := bk_remaining b - gas, bk_used := bk_used b + gas\<rparr>]\<rparr>, None)"
      using le(1) by (simp add: Consume_def getBucket_single [OF b(1)] b(1) Let_def)
    show ?thesis
      using True inv b le(2) r u by (simp add: c gas_inv_def Used_def)
  qed
qed

definition gas_pay :: "GasAccountant3D \<Rightarrow> u64 \<Rightarrow> GasAccountant3D \<times> bool" where
  "gas_pay g gas = (case Consume g gas of Inl _ \<Rightarrow> (g, False) | Inr (g', e) \<Rightarrow> (g', e = None))"

interpretation gas_meter: meter gas_inv gas_left "\<lambda>g. unat (Used g)" gas_pay
proof
  fix limit s c
  assume inv: "gas_inv limit s"
  then show "gas_left s + unat (Used s) = limit" by (rule gas_balance)
  note c = Consume_cases [OF inv, of c]
  show "\<exists>s'. gas_pay s c = (s', True) \<and> gas_inv limit s' \<and> unat (Used s') = unat (Used s) + unat c"
    if "unat c \<le> gas_left s"
    using c that by (auto simp: gas_pay_def)
  show "\<exists>s'. gas_pay s c = (s', False) \<and> gas_inv limit s' \<and> unat (Used s') = unat (Used s)"
    if "gas_left s < unat c"
    using c that by (auto simp: gas_pay_def)
qed

section \<open>Interleaved consumption\<close>

text \<open>
  A caller of \<^verbatim>\<open>Consume\<close> runs through these points: it is about to load the counter, it has
  loaded a value and is about to compare and swap, it has swapped and is about to add to the
  used counter, or it has returned.  Each arrow is one atomic operation on the shared bucket; a
  compare-and-swap that finds another value sends the caller back to the load.
\<close>

datatype caller =
    Loading u64
  | Swapping u64 u64
  | Adding u64
  | Returned u64 "error option"

inductive consume_step :: "GasBucket \<times> caller \<Rightarrow> GasBucket \<times> caller \<Rightarrow> bool" where
  refuse: "bk_remaining b < gas \<Longrightarrow> consume_step (b, Loading gas) (b, Returned gas (Some InsufficientGas))"
| load: "\<not> bk_remaining b < gas \<Longrightarrow> consume_step (b, Loading gas) (b, Swapping gas (bk_remaining b))"
| swap: "bk_remaining b = old \<Longrightarrow>
    consume_step (b, Swapping gas old) (b\<lparr>bk_remaining := old - gas\<rparr>, Adding gas)"
| retry: "bk_remaining b \<noteq> old \<Longrightarrow> consume_step (b, Swapping gas old) (b, Loading gas)"
| add: "consume_step (b, Adding gas) (b\<lparr>bk_used := bk_used b + gas\<rparr>, Returned gas None)"

inductive_cases consume_stepE: "consume_step (b, c) (b', c')"

text \<open>Any caller may take the next step.\<close>

inductive callers_step :: "GasBucket \<times> caller list \<Rightarrow> GasBucket \<times> caller list \<Rightarrow> bool" where
  one: "i < length cs \<Longrightarrow> consume_step (b, cs ! i) (b', c') \<Longrightarrow> callers_step (b, cs) (b', cs[i := c'])"

fun in_flight :: "caller \<Rightarrow> nat" where
  "in_flight (Adding gas) = unat gas"
| "in_flight _ = 0"

fun caller_ok :: "caller \<Rightarrow> bool" where
  "caller_ok (Swapping gas old) \<longleftrightarrow> gas \<le> old"
| "caller_ok _ \<longleftrightarrow> True"

fun accepted :: "caller \<Rightarrow> nat" where
  "accepted (Returned gas None) = unat gas"
| "accepted _ = 0"

text \<open>The counters and the amounts in flight add up to the limit, whatever the interleaving.\<close>

definition callers_inv :: "nat \<Rightarrow> GasBucket \<times> caller list \<Rightarrow> bool" where
  "callers_inv limit s \<longleftrightarrow> limit < 2 ^ 64 \<and> (\<forall>c \<in> set (snd s). caller_ok c)
     \<and> unat (bk_used (fst s)) = sum_list (map accepted (snd s))
     \<and> unat (bk_remaining (fst s)) + unat (bk_used (fst s)) + sum_list (map in_flight (snd s)) = limit"

lemma consume_step_balance:
  assumes "consume_step (b, c) (b', c')" "caller_ok c" "unat (bk_used b) + in_flight c < 2 ^ 64"
  shows "caller_ok c' \<and> unat (bk_used b') + accepted c = unat (bk_used b) + accepted c'
    \<and> unat (bk_remaining b') + unat (bk_used b') + in_flight c' =
        unat (bk_remaining b) + unat (bk_used b) + in_flight c"
  using assms(1)
proof (cases rule: consume_step.cases)
  case (swap old gas)
  then show ?thesis using assms by (simp add: unat_sub word_le_nat_alt)
next
  case (add gas)
  then show ?thesis using assms by (simp add: unat_plus_if')
qed (auto simp: not_less)

lemma in_flight_le: "i < length cs \<Longrightarrow> in_flight (cs ! i) \<le> sum_list (map in_flight cs)"
  using member_le_sum_list [of "in_flight (cs ! i)" "map in_flight cs"] by simp

lemma callers_step_inv:
  assumes "callers_step s s'" "callers_inv limit s"
  shows "callers_inv limit s'"
  using assms
proof (induction)
  case (one i cs b b' c')
  have ok: "caller_ok (cs ! i)" using one by (simp add: callers_inv_def)
  have "unat (bk_used b) + in_flight (cs ! i) < 2 ^ 64"
    using one.prems in_flight_le [OF one.hyps(1)] by (simp add: callers_inv_def)
  note s = consume_step_balance [OF one.hyps(2) ok this]
  have "sum_list (map in_flight (cs[i := c'])) + in_flight (cs ! i) = sum_list (map in_flight cs) + in_flight c'"
    by (rule sum_list_update_nat [OF one.hyps(1)])
  moreover have "sum_list (map accepted (cs[i := c'])) + accepted (cs ! i) = sum_list (map accepted cs) + accepted c'"
    by (rule sum_list_update_nat [OF one.hyps(1)])
  ultimately show ?case
    using one.prems s set_update_subset_insert [of cs i c'] by (auto simp: callers_inv_def)
qed

lemma callers_run_inv: "callers_step\<^sup>*\<^sup>* s s' \<Longrightarrow> callers_inv limit s \<Longrightarrow> callers_inv limit s'"
  by (induction rule: rtranclp_induct) (auto intro: callers_step_inv)

section \<open>Properties\<close>

text \<open>
  \<^verbatim>\<open>Consume\<close> conserves gas and never panics: with enough gas left it moves exactly the
  amount from the remaining to the used counter; otherwise it returns the insufficient-gas error
  and moves nothing.  The two counters always add up to the limit.
\<close>

theorem Consume_conserves:
  assumes "gas_inv limit g"
  shows "\<exists>g' e. Consume g gas = Inr (g', e) \<and> gas_inv limit g' \<and> gas_left g' + unat (Used g') = limit
    \<and> (e = None \<longleftrightarrow> unat gas \<le> gas_left g) \<and> (e \<noteq> None \<longrightarrow> e = Some InsufficientGas)
    \<and> unat (Used g') = unat (Used g) + (if e = None then unat gas else 0)"
proof (cases "unat gas \<le> gas_left g")
  case True
  with Consume_cases [OF assms, of gas] obtain g' where
    "Consume g gas = Inr (g', None)" "gas_inv limit g'" "unat (Used g') = unat (Used g) + unat gas" by auto
  with True show ?thesis using gas_balance [of limit g'] by (intro exI [of _ g'] exI [of _ None]) simp
next
  case False
  with Consume_cases [OF assms, of gas] obtain g' where
    "Consume g gas = Inr (g', Some InsufficientGas)" "gas_inv limit g'" "Used g' = Used g" by auto
  with False show ?thesis
    using gas_balance [of limit g'] by (intro exI [of _ g'] exI [of _ "Some InsufficientGas"]) simp
qed

theorem Consume_conserves_witness:
  "\<exists>g'. Consume (NewAccountant 100) 30 = Inr (g', None) \<and> unat (Used g') = 30 \<and> gas_left g' = 70"
  using Consume_conserves [OF NewAccountant_inv, of 100 30] NewAccountant_left [of 100] by auto

text \<open>
  Whatever a program asks for, the gas it is granted never exceeds the limit: over any
  sequence of \<^verbatim>\<open>Consume\<close> calls on a fresh accountant, the used gas is exactly the sum of the
  granted amounts and stays within the limit.
\<close>

theorem gas_never_exceeds_limit:
  assumes "pay_all gas_pay (NewAccountant limit) cs = (g, n)"
  shows "unat (Used g) = n \<and> n \<le> unat limit"
  using gas_meter.pay_all_spent [OF NewAccountant_inv assms] by (simp add: NewAccountant_left)

theorem gas_never_exceeds_limit_witness: "unat (Used (fst (pay_all gas_pay (NewAccountant 10) [4, 7, 6]))) = 10"
proof -
  have "snd (pay_all gas_pay (NewAccountant 10) [4, 7, 6]) = 10" by code_simp
  then show ?thesis
    using gas_never_exceeds_limit [OF prod.collapse [symmetric], of 10 "[4, 7, 6]"] by (simp only:)
qed

text \<open>
  C31.  Concurrent consumption is safe.  Let any number of callers run \<^verbatim>\<open>Consume\<close> on one fresh
  bucket, their atomic operations interleaved in any way.  At every moment the gas granted so
  far is what the used counter shows, and it never exceeds the limit; once all calls have
  returned, what remains is the limit less the granted amounts.
\<close>

theorem concurrent_consume_safe:
  assumes "callers_step\<^sup>*\<^sup>* (hd (ga_buckets (NewAccountant limit)), map Loading amounts) (b, cs)"
  shows "unat (bk_used b) = sum_list (map accepted cs) \<and> sum_list (map accepted cs) \<le> unat limit
    \<and> ((\<forall>c \<in> set cs. \<exists>gas e. c = Returned gas e) \<longrightarrow>
        unat (bk_remaining b) = unat limit - sum_list (map accepted cs))"
proof -
  have z: "sum_list (map in_flight (map Loading amounts)) = 0"
    "sum_list (map accepted (map Loading amounts)) = 0" by (induction amounts) auto
  have "callers_inv (unat limit) (hd (ga_buckets (NewAccountant limit)), map Loading amounts)"
    using unsigned_less [of limit] z
    by (auto simp: callers_inv_def NewAccountant_def numBuckets_def Let_def)
  note inv = callers_run_inv [OF assms this, unfolded callers_inv_def]
  have "sum_list (map in_flight cs) = 0" if "\<forall>c \<in> set cs. \<exists>gas e. c = Returned gas e"
    using that by (induction cs) auto
  then have "unat (bk_remaining b) = unat limit - sum_list (map accepted cs)"
    if "\<forall>c \<in> set cs. \<exists>gas e. c = Returned gas e"
    using inv that unfolding fst_conv snd_conv by linarith
  then show ?thesis using inv unfolding fst_conv snd_conv by linarith
qed

lemma two_callers:
  "callers_step\<^sup>*\<^sup>* (hd (ga_buckets (NewAccountant 10)), [Loading 7, Loading 6])
     (\<lparr>bk_remaining = 3, bk_used = 7, bk_promotions = 0, bk_regionChanges = 0\<rparr>,
      [Returned 7 None, Returned 6 (Some InsufficientGas)])"
proof -
  let ?b = "\<lambda>r u. \<lparr>bk_remaining = r, bk_used = u, bk_promotions = 0, bk_regionChanges = 0\<rparr>"
  have "hd (ga_buckets (NewAccountant 10)) = ?b 10 0" by (simp add: NewAccountant_def numBuckets_def)
  moreover have "callers_step (?b 10 0, [Loading 7, Loading 6]) (?b 10 0, [Swapping 7 10, Loading 6])"
    using callers_step.one [of 0 "[Loading 7, Loading 6]" "?b 10 0" "?b 10 0" "Swapping 7 10"]
      consume_step.load [of "?b 10 0" 7] by simp
  moreover have "callers_step (?b 10 0, [Swapping 7 10, Loading 6]) (?b 10 0, [Swapping 7 10, Swapping 6 10])"
    using callers_step.one [of 1 "[Swapping 7 10, Loading 6]" "?b 10 0" "?b 10 0" "Swapping 6 10"]
      consume_step.load [of "?b 10 0" 6] by simp
  moreover have "callers_step (?b 10 0, [Swapping 7 10, Swapping 6 10]) (?b 3 0, [Adding 7, Swapping 6 10])"
    using callers_step.one [of 0 "[Swapping 7 10, Swapping 6 10]" "?b 10 0" "?b 3 0" "Adding 7"]
      consume_step.swap [of "?b 10 0" 10 7] by simp
  moreover have "callers_step (?b 3 0, [Adding 7, Swapping 6 10]) (?b 3 0, [Adding 7, Loading 6])"
    using callers_step.one [of 1 "[Adding 7, Swapping 6 10]" "?b 3 0" "?b 3 0" "Loading 6"]
      consume_step.retry [of "?b 3 0" 10 6] by simp
  moreover have "callers_step (?b 3 0, [Adding 7, Loading 6]) (?b 3 0, [Adding 7, Returned 6 (Some InsufficientGas)])"
    using callers_step.one [of 1 "[Adding 7, Loading 6]" "?b 3 0" "?b 3 0" "Returned 6 (Some InsufficientGas)"]
      consume_step.refuse [of "?b 3 0" 6] by simp
  moreover have "callers_step (?b 3 0, [Adding 7, Returned 6 (Some InsufficientGas)])
      (?b 3 7, [Returned 7 None, Returned 6 (Some InsufficientGas)])"
    using callers_step.one [of 0 "[Adding 7, Returned 6 (Some InsufficientGas)]" "?b 3 0" "?b 3 7" "Returned 7 None"]
      consume_step.add [of "?b 3 0" 7] by simp
  ultimately show ?thesis by (simp add: converse_rtranclp_into_rtranclp)
qed

theorem concurrent_consume_safe_witness:
  "\<exists>b cs. callers_step\<^sup>*\<^sup>* (hd (ga_buckets (NewAccountant 10)), map Loading [7, 6]) (b, cs)
     \<and> cs = [Returned 7 None, Returned 6 (Some InsufficientGas)] \<and> unat (bk_used b) = 7 \<and> unat (bk_remaining b) = 3"
proof -
  let ?b = "\<lparr>bk_remaining = 3, bk_used = 7, bk_promotions = 0, bk_regionChanges = 0\<rparr>"
  let ?cs = "[Returned 7 None, Returned 6 (Some InsufficientGas)]"
  have run: "callers_step\<^sup>*\<^sup>* (hd (ga_buckets (NewAccountant 10)), map Loading [7, 6]) (?b, ?cs)"
    using two_callers by simp
  from concurrent_consume_safe [OF this] have "unat (bk_used ?b) = 7 \<and> unat (bk_remaining ?b) = 3" by simp
  with run show ?thesis by blast
qed

text \<open>
  A refund of at most the used gas is the inverse of a charge and keeps the balance.  A
  larger one is not: the used counter stops at zero while the whole amount is added to the
  remaining gas, so the account ends above its limit by the excess.
\<close>

theorem Refund_balance:
  assumes "gas_inv limit g" "gas_left g + unat gas < 2 ^ 64"
  shows "\<exists>g'. Refund g gas = Inr g' \<and> gas_left g' = gas_left g + unat gas
    \<and> unat (Used g') = unat (Used g) - unat gas
    \<and> gas_left g' + unat (Used g') = max limit (gas_left g + unat gas)
    \<and> (unat gas \<le> unat (Used g) \<longrightarrow> gas_inv limit g')"
proof -
  from assms(1) obtain b where b: "ga_buckets g = [b]" "unat (bk_remaining b) + unat (bk_used b) = limit"
    "limit < 2 ^ 64" by (auto simp: gas_inv_def)
  have r: "unat (bk_remaining b + gas) = unat (bk_remaining b) + unat gas"
    using assms(2) b(1) by (simp add: gas_left_def unat_plus_if')
  have u: "unat (if bk_used b \<le> gas then 0 else bk_used b - gas) = unat (bk_used b) - unat gas"
    by (auto simp: word_le_nat_alt unat_sub)
  have e: "Refund g gas = Inr (g\<lparr>ga_buckets := [b\<lparr>bk_used := (if bk_used b \<le> gas then 0 else bk_used b - gas),
      bk_remaining := bk_remaining b + gas\<rparr>]\<rparr>)"
    using b(1) by (simp add: Refund_def Let_def)
  show ?thesis
    using r u b unfolding e by (auto simp: gas_left_def Used_def gas_inv_def max_def)
qed

theorem Refund_balance_witness:
  "\<exists>g'. Refund (NewAccountant 100) 50 = Inr g' \<and> gas_left g' = 150"
  using Refund_balance [OF NewAccountant_inv, of 100 50] NewAccountant_left [of 100] by auto

text \<open>
  \<^verbatim>\<open>Remaining\<close> reports the remaining gas exactly for limits below \<open>2 ^ 63\<close>; from there on the
  signed reading turns a large balance into 0, so that a virtual machine with such a limit stops
  as exhausted after its first instruction.
\<close>

lemma Remaining_reading:
  assumes "gas_inv limit g"
  shows "Remaining g = (if gas_left g < 2 ^ 63 then int (gas_left g) else 0)"
proof -
  from assms obtain b where b: "ga_buckets g = [b]" by (auto simp: gas_inv_def)
  then show ?thesis
    using unsigned_less [of "bk_remaining b", where ?'a = int]
    by (auto simp: Remaining_def sint_u64 gas_left_def Let_def)
qed

end
