(* ===== verification/Registers.thy ===== *)
theory Registers
  imports Address
begin

text \<open>
  \<^verbatim>\<open>internal/vm/registers.go\<close> with the byte conversions of \<^verbatim>\<open>internal/vm/executor.go\<close>: sixteen
  registers that hold byte slices, read and written as raw bytes, numbers or addresses.  A
  register number above 15 names a special register, which the accessors do not reach.
\<close>

section \<open>Byte conversions\<close>

definition uint64ToBytes :: "u64 \<Rightarrow> bytes" where
  "uint64ToBytes v = put_be 8 v"

definition bytesToUint64 :: "bytes \<Rightarrow> u64" where
  "bytesToUint64 b = (if length b < 8 then 0 else get_be (take 8 b))"

section \<open>The register file\<close>

type_synonym Register = u8

definition R0 :: Register where "R0 = 0"
definition R1 :: Register where "R1 = 1"
definition R2 :: Register where "R2 = 2"
definition R3 :: Register where "R3 = 3"
definition R4 :: Register where "R4 = 4"
definition R5 :: Register where "R5 = 5"
definition R6 :: Register where "R6 = 6"
definition R7 :: Register where "R7 = 7"
definition R8 :: Register where "R8 = 8"
definition R9 :: Register where "R9 = 9"
definition R10 :: Register where "R10 = 10"
definition R11 :: Register where "R11 = 11"
definition R12 :: Register where "R12 = 12"
definition R13 :: Register where "R13 = 13"
definition R14 :: Register where "R14 = 14"
definition R15 :: Register where "R15 = 15"
definition SP :: Register where "SP = 16"
definition BP :: Register where "BP = 17"
definition PC :: Register where "PC = 18"
definition GP :: Register where "GP = 19"
definition MP :: Register where "MP = 20"

record Registers =
  General :: "bytes list"
  Special :: "u64 list"
  addrCache :: "(Address3D, bytes) gomap"

definition NewRegisters :: Registers where
  "NewRegisters = \<lparr>General = replicate 16 [], Special = replicate 5 0, addrCache = []\<rparr>"

definition Reg_Get :: "Registers \<Rightarrow> Register \<Rightarrow> bytes" where
  "Reg_Get r reg = (if reg \<le> R15 then General r ! unat reg else [])"

definition Reg_Set :: "Registers \<Rightarrow> Register \<Rightarrow> bytes \<Rightarrow> Registers" where
  "Reg_Set r reg v = (if reg \<le> R15 then r\<lparr>General := (General r)[unat reg := v]\<rparr> else r)"

definition GetUint64 :: "Registers \<Rightarrow> Register \<Rightarrow> u64" where
  "GetUint64 r reg =
     (if reg \<le> R15 then
        (if length (General r ! unat reg) \<ge> 8 then bytesToUint64 (take 8 (General r ! unat reg)) else 0)
      else 0)"

definition SetUint64 :: "Registers \<Rightarrow> Register \<Rightarrow> u64 \<Rightarrow> Registers" where
  "SetUint64 r reg v =
     (if reg \<le> R15 then r\<lparr>General := (General r)[unat reg := uint64ToBytes v]\<rparr> else r)"

definition GetAddress :: "Registers \<Rightarrow> Register \<Rightarrow> error + Address3D" where
  "GetAddress r reg =
     (let data = Reg_Get r reg
      in if length data \<noteq> 14 then Inl InvalidRegisterAddress else FromBytes data)"

definition SetAddress :: "Registers \<Rightarrow> Register \<Rightarrow> Address3D \<Rightarrow> Registers" where
  "SetAddress r reg addr = Reg_Set r reg (Bytes addr)"

section \<open>Laws\<close>

definition regs_inv :: "Registers \<Rightarrow> bool" where
  "regs_inv r \<longleftrightarrow> length (General r) = 16 \<and> length (Special r) = 5"

lemma NewRegisters_inv [simp]: "regs_inv NewRegisters"
  by (simp add: regs_inv_def NewRegisters_def)

lemma Reg_Set_inv [simp]: "regs_inv (Reg_Set r reg v) = regs_inv r"
  by (simp add: regs_inv_def Reg_Set_def)

lemma SetUint64_eq: "SetUint64 r reg v = Reg_Set r reg (uint64ToBytes v)"
  by (simp add: SetUint64_def Reg_Set_def)

lemma GetUint64_eq: "GetUint64 r reg = bytesToUint64 (Reg_Get r reg)"
  by (simp add: GetUint64_def Reg_Get_def bytesToUint64_def)

lemma special_registers:
  assumes "reg \<in> {SP, BP, PC, GP, MP}"
  shows "\<not> reg \<le> R15" "Reg_Set r reg v = r" "Reg_Get r reg = []" "GetUint64 r reg = 0" "SetUint64 r reg n = r"
  using assms
  by (auto simp: SP_def BP_def PC_def GP_def MP_def R15_def Reg_Set_def Reg_Get_def GetUint64_def SetUint64_def)

lemma R15_bound: "reg \<le> R15 \<longleftrightarrow> unat reg < 16"
  by (simp add: R15_def word_le_nat_alt) linarith

lemma Reg_Get_Set:
  assumes "regs_inv r"
  shows "Reg_Get (Reg_Set r reg v) reg' = (if reg' = reg \<and> reg \<le> R15 then v else Reg_Get r reg')"
  using assms
  by (auto simp: Reg_Get_def Reg_Set_def regs_inv_def R15_bound nth_list_update
      dest: unsigned_word_eqI)

lemma uint64_roundtrip: "bytesToUint64 (uint64ToBytes v) = v"
  by (simp add: bytesToUint64_def uint64ToBytes_def get_be_put_be)

section \<open>Properties\<close>

text \<open>
  The register file obeys the store laws: a general register reads back what was last
  written to it, as bytes, as a number or as an address, and no other register is affected; a
  write to a special register is ignored and reading one gives nothing.
\<close>

theorem register_file_laws:
  assumes "regs_inv r"
  shows "Reg_Get (Reg_Set r reg v) reg' = (if reg' = reg \<and> reg \<le> R15 then v else Reg_Get r reg')
    \<and> GetUint64 (SetUint64 r reg n) reg' = (if reg' = reg \<and> reg \<le> R15 then n else GetUint64 r reg')
    \<and> GetAddress (SetAddress r reg ad) reg' = (if reg' = reg \<and> reg \<le> R15 then Inr ad else GetAddress r reg')
    \<and> (\<not> reg \<le> R15 \<longrightarrow> Reg_Set r reg v = r \<and> Reg_Get r reg = [])"
proof (intro conjI)
  note gs = Reg_Get_Set [OF assms]
  show "Reg_Get (Reg_Set r reg v) reg' = (if reg' = reg \<and> reg \<le> R15 then v else Reg_Get r reg')" by (rule gs)
  show "GetUint64 (SetUint64 r reg n) reg' = (if reg' = reg \<and> reg \<le> R15 then n else GetUint64 r reg')"
    by (simp add: SetUint64_eq GetUint64_eq gs uint64_roundtrip)
  show "GetAddress (SetAddress r reg ad) reg' = (if reg' = reg \<and> reg \<le> R15 then Inr ad else GetAddress r reg')"
    by (simp add: GetAddress_def SetAddress_def gs Bytes_length FromBytes_Bytes)
  show "\<not> reg \<le> R15 \<longrightarrow> Reg_Set r reg v = r \<and> Reg_Get r reg = []"
    by (simp add: Reg_Set_def Reg_Get_def)
qed

theorem register_file_laws_witness:
  "GetUint64 (SetUint64 NewRegisters 3 77) 3 = 77 \<and> GetUint64 (SetUint64 NewRegisters 3 77) 4 = GetUint64 NewRegisters 4"
  using register_file_laws [OF NewRegisters_inv, of 3 "[]" 3 77] register_file_laws [OF NewRegisters_inv, of 3 "[]" 4 77]
  by (simp add: R15_def)

end
