(* ===== verification/Instructions.thy ===== *)
theory Instructions
  imports Registers Allocation
begin

text \<open>
  \<^verbatim>\<open>internal/vm/opcodes.go\<close>, \<^verbatim>\<open>internal/vm/instructions.go\<close> and \<^verbatim>\<open>fetchInstruction\<close> of
  \<^verbatim>\<open>internal/vm/vm.go\<close>: the opcodes, the decoders and the fetch.  The decoders are shown to
  invert the byte formats that their comments give.
\<close>

section \<open>Opcodes and operands\<close>

type_synonym Opcode = u8

definition OP_NOP :: Opcode where "OP_NOP = 0x00"
definition OP_MLOAD3D :: Opcode where "OP_MLOAD3D = 0x10"
definition OP_MSTORE3D :: Opcode where "OP_MSTORE3D = 0x11"
definition OP_MALLOC3D :: Opcode where "OP_MALLOC3D = 0x12"
definition OP_MFREE3D :: Opcode where "OP_MFREE3D = 0x13"
definition OP_MCOPY3D :: Opcode where "OP_MCOPY3D = 0x14"
definition OP_MSIZE3D :: Opcode where "OP_MSIZE3D = 0x15"
definition OP_MQUERY3D :: Opcode where "OP_MQUERY3D = 0x16"
definition OP_MCOMPACT3D :: Opcode where "OP_MCOMPACT3D = 0x17"
definition OP_MDEFRAG3D :: Opcode where "OP_MDEFRAG3D = 0x18"
definition OP_MLOADBATCH3D :: Opcode where "OP_MLOADBATCH3D = 0x19"
definition OP_MSTOREBATCH3D :: Opcode where "OP_MSTOREBATCH3D = 0x1A"
definition OP_MGAS3D :: Opcode where "OP_MGAS3D = 0x1B"
definition OP_MREFUND3D :: Opcode where "OP_MREFUND3D = 0x1C"
definition OP_JUMP3D :: Opcode where "OP_JUMP3D = 0x20"
definition OP_CALL3D :: Opcode where "OP_CALL3D = 0x21"
definition OP_RET3D :: Opcode where "OP_RET3D = 0x22"
definition OP_MOV3D :: Opcode where "OP_MOV3D = 0x30"
definition OP_ADD3D :: Opcode where "OP_ADD3D = 0x31"
definition OP_SUB3D :: Opcode where "OP_SUB3D = 0x32"
definition OP_HALT3D :: Opcode where "OP_HALT3D = 0xFF"

lemmas opcode_defs = OP_NOP_def OP_MLOAD3D_def OP_MSTORE3D_def OP_MALLOC3D_def OP_MFREE3D_def
  OP_MCOPY3D_def OP_MSIZE3D_def OP_MQUERY3D_def OP_MCOMPACT3D_def OP_MOV3D_def OP_ADD3D_def
  OP_SUB3D_def OP_HALT3D_def OP_MDEFRAG3D_def OP_MLOADBATCH3D_def OP_MSTOREBATCH3D_def OP_MGAS3D_def
  OP_MREFUND3D_def OP_JUMP3D_def OP_CALL3D_def OP_RET3D_def

text \<open>The opcodes that are declared but that no instruction is decoded from.\<close>

definition undecoded :: "Opcode list" where
  "undecoded = [OP_MQUERY3D, OP_MCOMPACT3D, OP_MDEFRAG3D, OP_MLOADBATCH3D, OP_MSTOREBATCH3D, OP_MGAS3D,
     OP_MREFUND3D, OP_JUMP3D, OP_CALL3D, OP_RET3D]"

datatype OperandType = OT_IMMEDIATE | OT_REGISTER | OT_ADDRESS | OT_ADDRESS_OFFSET | OT_SIZE | OT_FLAGS

text \<open>The \<^verbatim>\<open>interface{}\<close> value of an operand, by the dynamic types that occur.\<close>

datatype OperandValue =
    VAddress Address3D
  | VUint32 u32
  | VRegister Register
  | VRegionType RegionType
  | VFlags AllocationFlags
  | VByte u8

record Operand =
  op_Type :: OperandType
  op_Value :: OperandValue

record Instruction3D =
  inst_Opcode :: Opcode
  inst_Operands :: "Operand list"
  inst_Size :: u32
  inst_PC :: u64
  inst_GasLimit :: u64

definition operand :: "OperandType \<Rightarrow> OperandValue \<Rightarrow> Operand" where
  "operand t v = \<lparr>op_Type = t, op_Value = v\<rparr>"

definition instruction :: "Opcode \<Rightarrow> Operand list \<Rightarrow> u32 \<Rightarrow> Instruction3D" where
  "instruction opc ops sz =
     \<lparr>inst_Opcode = opc, inst_Operands = ops, inst_Size = sz, inst_PC = 0, inst_GasLimit = 0\<rparr>"

section \<open>Decoders\<close>

text \<open>The slice \<^verbatim>\<open>data[i:j]\<close>.\<close>

definition slice :: "nat \<Rightarrow> nat \<Rightarrow> 'a list \<Rightarrow> 'a list" where
  "slice i j xs = take (j - i) (drop i xs)"

definition decode_address :: "bytes \<Rightarrow> Address3D" where
  "decode_address data = \<lparr>addr_X = get_be (slice 1 9 data), addr_Y = get_be (slice 9 13 data),
     addr_Z = get_be (slice 13 15 data)\<rparr>"

definition decodeSub3D :: "bytes \<Rightarrow> error + Instruction3D" where
  "decodeSub3D data =
     (if length data \<noteq> 4 then Inl (RequiresBytes ''SUB3D'' 4)
      else Inr (instruction OP_SUB3D [operand OT_REGISTER (VRegister (data ! 1)),
        operand OT_REGISTER (VRegister (data ! 2)), operand OT_REGISTER (VRegister (data ! 3))] 4))"

definition decodeAdd3D :: "bytes \<Rightarrow> error + Instruction3D" where
  "decodeAdd3D data =
     (if length data \<noteq> 4 then Inl (RequiresBytes ''ADD3D'' 4)
      else Inr (instruction OP_ADD3D [operand OT_REGISTER (VRegister (data ! 1)),
        operand OT_REGISTER (VRegister (data ! 2)), operand OT_REGISTER (VRegister (data ! 3))] 4))"

definition decodeMCopy3D :: "bytes \<Rightarrow> error + Instruction3D" where
  "decodeMCopy3D data =
     (if length data \<noteq> 20 then Inl (RequiresBytes ''MCOPY3D'' 20)
      else
        (let srcX = get_be (slice 1 9 data); srcY = get_be (slice 9 11 data) :: u16;
             srcZ = get_be (slice 11 13 data); dstX = ucast (get_be (slice 13 17 data) :: u32);
             dstY = get_be (slice 17 19 data) :: u16; sz = ucast (data ! 19) :: u32
         in Inr (instruction OP_MCOPY3D
              [operand OT_ADDRESS (VAddress \<lparr>addr_X = srcX, addr_Y = ucast srcY, addr_Z = srcZ\<rparr>),
               operand OT_ADDRESS (VAddress \<lparr>addr_X = dstX, addr_Y = ucast dstY, addr_Z = 0\<rparr>),
               operand OT_SIZE (VUint32 sz)] 20)))"

definition decodeMFree3D :: "bytes \<Rightarrow> error + Instruction3D" where
  "decodeMFree3D data =
     (if length data \<noteq> 15 then Inl (RequiresBytes ''MFREE3D'' 15)
      else Inr (instruction OP_MFREE3D [operand OT_ADDRESS (VAddress (decode_address data))] 15))"

definition decodeMAlloc3D :: "bytes \<Rightarrow> error + Instruction3D" where
  "decodeMAlloc3D data =
     (if length data \<noteq> 14 then Inl (RequiresBytes ''MALLOC3D'' 14)
      else Inr (instruction OP_MALLOC3D
        [operand OT_SIZE (VUint32 (get_be (slice 1 5 data))),
         operand OT_FLAGS (VRegionType (data ! 5)), operand OT_FLAGS (VFlags (data ! 6))] 14))"

definition decodeMLoad3D :: "bytes \<Rightarrow> error + Instruction3D" where
  "decodeMLoad3D data =
     (if length data \<noteq> 20 then Inl (RequiresBytes ''MLOAD3D'' 20)
      else Inr (instruction OP_MLOAD3D
        [operand OT_ADDRESS (VAddress (decode_address data)),
         operand OT_SIZE (VUint32 (get_be (slice 15 19 data))),
         operand OT_REGISTER (VRegister (data ! 19))] 20))"

definition decodeMStore3D :: "bytes \<Rightarrow> error + Instruction3D" where
  "decodeMStore3D data =
     (if length data \<noteq> 20 then Inl (RequiresBytes ''MSTORE3D'' 20)
      else Inr (instruction OP_MSTORE3D
        [operand OT_ADDRESS (VAddress (decode_address data)),
         operand OT_REGISTER (VRegister (data ! 15)),
         operand OT_SIZE (VUint32 (get_be (slice 16 20 data)))] 20))"

definition decodeMov3D :: "bytes \<Rightarrow> error + Instruction3D" where
  "decodeMov3D data =
     (if length data \<noteq> 8 then Inl (RequiresBytes ''MOV3D'' 8)
      else Inr (instruction OP_MOV3D [operand OT_REGISTER (VRegister (data ! 1)),
        operand OT_REGISTER (VRegister (data ! 2))] 8))"

definition decodeMSize3D :: "bytes \<Rightarrow> error + Instruction3D" where
  "decodeMSize3D data =
     (if length data \<noteq> 16 then Inl (RequiresBytes ''MSIZE3D'' 16)
      else Inr (instruction OP_MSIZE3D
        [operand OT_ADDRESS (VAddress (decode_address data)),
         operand OT_REGISTER (VRegister (data ! 15))] 16))"

definition DecodeInstruction :: "bytes \<Rightarrow> error + Instruction3D" where
  "DecodeInstruction data =
     (if length data < 1 then Inl EmptyInstruction
      else let opcode = data ! 0
        in if opcode = OP_MLOAD3D then decodeMLoad3D data
           else if opcode = OP_MSTORE3D then decodeMStore3D data
           else if opcode = OP_MALLOC3D then decodeMAlloc3D data
           else if opcode = OP_MFREE3D then decodeMFree3D data
           else if opcode = OP_MCOPY3D then decodeMCopy3D data
           else if opcode = OP_ADD3D then decodeAdd3D data
           else if opcode = OP_SUB3D then decodeSub3D data
           else if opcode = OP_MOV3D then decodeMov3D data
           else if opcode = OP_MSIZE3D then decodeMSize3D data
           else if opcode = OP_NOP then Inr (instruction OP_NOP [] 1)
           else if opcode = OP_HALT3D then Inr (instruction OP_HALT3D [] 1)
           else Inl (UnknownOpcode opcode))"

section \<open>Fetch\<close>

definition instSize :: "Opcode \<Rightarrow> u32" where
  "instSize opcode =
     (if opcode = OP_MLOAD3D \<or> opcode = OP_MSTORE3D \<or> opcode = OP_MCOPY3D then 20
      else if opcode = OP_MALLOC3D then 14
      else if opcode = OP_MFREE3D then 15
      else if opcode = OP_MSIZE3D then 16
      else if opcode = OP_MOV3D then 8
      else if opcode = OP_ADD3D \<or> opcode = OP_SUB3D then 4
      else 1)"

definition fetchInstruction :: "u64 \<Rightarrow> bytes \<Rightarrow> (error + Instruction3D) go" where
  "fetchInstruction pc program =
     (let remaining = of_nat (length program) - pc
      in if remaining < 1 then Inr (Inl NoMoreInstructions)
         else if unat pc \<ge> length program then Inl IndexOutOfRange
         else let size0 = instSize (program ! unat pc)
           in if ucast size0 > remaining then Inr (Inl IncompleteInstruction)
              else Inr (DecodeInstruction (slice (unat pc) (unat pc + unat size0) program)))"

section \<open>The formats\<close>

text \<open>
  Instructions as a programmer writes them, the bytes that the decoders accept for them, with the
  padding bytes zero, and the decoded form.  A copy gives the source plane in 16 bits, the
  destination region in 32 and the destination plane in 16, has no destination offset and a size
  of one byte.  These are the formats in the comments of the decoders, except for the copy: its
  comment ends with a padding byte that the required length of 20 has no room for.
\<close>

datatype asm =
    Nop
  | Halt
  | Load Address3D u32 Register
  | Store Address3D Register u32
  | Alloc u32 RegionType AllocationFlags Register
  | Free Address3D
  | Copy u64 u16 u16 u32 u16 u8
  | SizeOf Address3D Register
  | Mov Register Register
  | Add Register Register Register
  | Sub Register Register Register

fun assemble :: "asm \<Rightarrow> bytes" where
  "assemble Nop = [0x00]"
| "assemble Halt = [0xFF]"
| "assemble (Load a n r) = 0x10 # Bytes a @ put_be 4 n @ [r]"
| "assemble (Store a r n) = 0x11 # Bytes a @ r # put_be 4 n"
| "assemble (Alloc n t f r) = 0x12 # put_be 4 n @ [t, f, r, 0, 0, 0, 0, 0, 0]"
| "assemble (Free a) = 0x13 # Bytes a"
| "assemble (Copy sx sy sz dx dy n) =
     0x14 # put_be 8 sx @ put_be 2 sy @ put_be 2 sz @ put_be 4 dx @ put_be 2 dy @ [n]"
| "assemble (SizeOf a r) = 0x15 # Bytes a @ [r]"
| "assemble (Mov d s) = [0x30, d, s, 0, 0, 0, 0, 0]"
| "assemble (Add d s1 s2) = [0x31, d, s1, s2]"
| "assemble (Sub d s1 s2) = [0x32, d, s1, s2]"

fun denote :: "asm \<Rightarrow> Instruction3D" where
  "denote Nop = instruction OP_NOP [] 1"
| "denote Halt = instruction OP_HALT3D [] 1"
| "denote (Load a n r) = instruction OP_MLOAD3D [operand OT_ADDRESS (VAddress a),
     operand OT_SIZE (VUint32 n), operand OT_REGISTER (VRegister r)] 20"
| "denote (Store a r n) = instruction OP_MSTORE3D [operand OT_ADDRESS (VAddress a),
     operand OT_REGISTER (VRegister r), operand OT_SIZE (VUint32 n)] 20"
| "denote (Alloc n t f r) = instruction OP_MALLOC3D [operand OT_SIZE (VUint32 n),
     operand OT_FLAGS (VRegionType t), operand OT_FLAGS (VFlags f)] 14"
| "denote (Free a) = instruction OP_MFREE3D [operand OT_ADDRESS (VAddress a)] 15"
| "denote (Copy sx sy sz dx dy n) = instruction OP_MCOPY3D
     [operand OT_ADDRESS (VAddress (NewAddress sx (ucast sy) sz)),
      operand OT_ADDRESS (VAddress (NewAddress (ucast dx) (ucast dy) 0)),
      operand OT_SIZE (VUint32 (ucast n))] 20"
| "denote (SizeOf a r) = instruction OP_MSIZE3D [operand OT_ADDRESS (VAddress a),
     operand OT_REGISTER (VRegister r)] 16"
| "denote (Mov d s) = instruction OP_MOV3D [operand OT_REGISTER (VRegister d),
     operand OT_REGISTER (VRegister s)] 8"
| "denote (Add d s1 s2) = instruction OP_ADD3D [operand OT_REGISTER (VRegister d),
     operand OT_REGISTER (VRegister s1), operand OT_REGISTER (VRegister s2)] 4"
| "denote (Sub d s1 s2) = instruction OP_SUB3D [operand OT_REGISTER (VRegister d),
     operand OT_REGISTER (VRegister s1), operand OT_REGISTER (VRegister s2)] 4"

text \<open>The number of padding bytes at the end of a format, and the format with these bytes given.\<close>

fun padding :: "asm \<Rightarrow> nat" where
  "padding (Alloc n t f r) = 6"
| "padding (Mov d s) = 5"
| "padding _ = 0"

definition padded :: "asm \<Rightarrow> bytes \<Rightarrow> bytes" where
  "padded i pad = take (length (assemble i) - padding i) (assemble i) @ pad"

lemma decode_address_Bytes: "decode_address (opc # Bytes a @ rest) = a"
  by (simp add: decode_address_def slice_def Bytes_def get_be_put_be)

lemma decode_address_Bytes' [simp]: "decode_address (opc # Bytes a) = a"
  using decode_address_Bytes [of opc a "[]"] by simp

lemmas decoder_defs = decodeMLoad3D_def decodeMStore3D_def decodeMAlloc3D_def decodeMFree3D_def
  decodeMCopy3D_def decodeAdd3D_def decodeSub3D_def decodeMov3D_def decodeMSize3D_def

lemma DecodeInstruction_assemble: "DecodeInstruction (assemble i) = Inr (denote i)"
  by (cases i)
    (simp_all add: DecodeInstruction_def opcode_defs decoder_defs decode_address_Bytes Bytes_length slice_def nth_append
      get_be_put_be NewAddress_def)

lemma length_assemble: "length (assemble i) = unat (inst_Size (denote i))"
  by (cases i) (simp_all add: Bytes_length instruction_def)

lemma instSize_assemble: "instSize (assemble i ! 0) = inst_Size (denote i)"
  by (cases i) (simp_all add: instSize_def opcode_defs instruction_def)

section \<open>Fetching\<close>

lemma decoded_shape:
  assumes "DecodeInstruction data = Inr inst"
  shows "unat (inst_Size inst) \<le> length data" "inst_Opcode inst = data ! 0"
    "inst_Size inst = instSize (data ! 0)" "data \<noteq> []"
    "data ! 0 \<notin> set undecoded"
  using assms
  by (auto simp: DecodeInstruction_def Let_def decodeMLoad3D_def decodeMStore3D_def decodeMAlloc3D_def
      decodeMFree3D_def decodeMCopy3D_def decodeAdd3D_def decodeSub3D_def decodeMov3D_def
      decodeMSize3D_def instruction_def instSize_def opcode_defs undecoded_def Suc_le_eq split: if_splits)

lemma remaining_bytes:
  assumes "unat (pc :: u64) < length program" "length program < 2 ^ 64"
  shows "unat (of_nat (length program) - pc) = length program - unat pc"
proof -
  have "unat (of_nat (length program) :: u64) = length program"
    using assms(2) by (simp add: unsigned_of_nat take_bit_nat_eq_self_iff)
  moreover from this have "pc \<le> of_nat (length program)" using assms(1) by (simp add: word_le_nat_alt)
  ultimately show ?thesis by (simp add: unat_sub)
qed

lemma fetchInstruction_cases:
  assumes "unat pc < length program" "length program < 2 ^ 64"
  shows "fetchInstruction pc program =
    (if unat pc + unat (instSize (program ! unat pc)) > length program then Inr (Inl IncompleteInstruction)
     else Inr (DecodeInstruction (slice (unat pc) (unat pc + unat (instSize (program ! unat pc))) program)))"
proof -
  define remaining where "remaining = (of_nat (length program) - pc :: u64)"
  have r: "unat remaining = length program - unat pc"
    unfolding remaining_def by (rule remaining_bytes [OF assms])
  have "\<not> remaining < 1" using r assms(1) by (simp add: word_less_nat_alt)
  moreover have "ucast (instSize (program ! unat pc)) > remaining \<longleftrightarrow>
      unat pc + unat (instSize (program ! unat pc)) > length program"
    using r assms(1) by (auto simp: word_less_nat_alt)
  ultimately show ?thesis
    using assms(1) by (simp add: fetchInstruction_def Let_def flip: remaining_def)
qed

lemma fetched_shape:
  assumes "unat pc < length program" "length program < 2 ^ 64" "fetchInstruction pc program = Inr (Inr inst)"
  shows "0 < unat (inst_Size inst)" "unat pc + unat (inst_Size inst) \<le> length program"
    "inst_Opcode inst = program ! unat pc" "inst_Size inst = instSize (program ! unat pc)"
    "inst_Opcode inst \<notin> set undecoded"
proof -
  let ?s = "unat (instSize (program ! unat pc))"
  from assms(3) have le: "unat pc + ?s \<le> length program"
    and d: "DecodeInstruction (slice (unat pc) (unat pc + ?s) program) = Inr inst"
    unfolding fetchInstruction_cases [OF assms(1,2)] by (auto split: if_splits)
  note s = decoded_shape [OF d]
  have len: "length (slice (unat pc) (unat pc + ?s) program) = ?s" using le by (simp add: slice_def)
  then have pos: "0 < ?s" using s(4) by (metis length_greater_0_conv)
  then have hd: "slice (unat pc) (unat pc + ?s) program ! 0 = program ! unat pc"
    using assms(1) by (simp add: slice_def)
  show "inst_Opcode inst = program ! unat pc" "inst_Size inst = instSize (program ! unat pc)"
    using s(2,3) hd by simp_all
  then show "0 < unat (inst_Size inst)" "unat pc + unat (inst_Size inst) \<le> length program"
    using pos le by simp_all
  show "inst_Opcode inst \<notin> set undecoded" using s(2,5) by simp
qed

text \<open>At the position where an encoding begins, the fetch reads exactly its bytes.\<close>

lemma fetch_at:
  assumes "length (pre @ assemble i @ post) < 2 ^ 64"
  shows "fetchInstruction (of_nat (length pre)) (pre @ assemble i @ post) = Inr (Inr (denote i))"
proof -
  let ?p = "pre @ assemble i @ post"
  have u: "unat (of_nat (length pre) :: u64) = length pre"
    using assms by (simp add: unsigned_of_nat take_bit_nat_eq_self_iff)
  have l: "0 < length (assemble i)" by (cases i) simp_all
  then have "?p ! length pre = assemble i ! 0" by (simp add: nth_append)
  then have s: "unat (instSize (?p ! length pre)) = length (assemble i)"
    by (simp add: instSize_assemble length_assemble)
  have "fetchInstruction (of_nat (length pre)) ?p =
      Inr (DecodeInstruction (slice (length pre) (length pre + length (assemble i)) ?p))"
    using fetchInstruction_cases [of "of_nat (length pre)" ?p] assms l s u by simp
  then show ?thesis by (simp add: slice_def DecodeInstruction_assemble)
qed

lemma padded_length: "length pad = padding i \<Longrightarrow> length (padded i pad) = length (assemble i)"
  by (cases i) (simp_all add: padded_def Bytes_length)

lemma DecodeInstruction_padded:
  assumes "length pad = padding i"
  shows "DecodeInstruction (padded i pad) = Inr (denote i)"
proof (cases "padding i = 0")
  case True
  then show ?thesis using assms DecodeInstruction_assemble [of i] by (simp add: padded_def)
next
  case False
  then show ?thesis
    using assms by (cases i)
      (simp_all add: padded_def DecodeInstruction_def opcode_defs decodeMAlloc3D_def decodeMov3D_def slice_def
        nth_append get_be_put_be)
qed

section \<open>Properties\<close>

text \<open>
  C32.  The decoders invert the instruction formats: for every instruction, decoding the bytes of
  its format yields exactly that instruction, with the length as its size, whatever the padding
  bytes are.  The lengths are exact: with a byte too many every format but the two of a single
  byte is refused, in particular the copy with the padding byte that its comment documents.
\<close>

theorem decode_inverts_formats:
  "(length pad = padding i \<longrightarrow> DecodeInstruction (padded i pad) = Inr (denote i)
      \<and> unat (inst_Size (denote i)) = length (padded i pad))
   \<and> (case i of Nop \<Rightarrow> DecodeInstruction (assemble i @ x # xs) = Inr (denote i)
      | Halt \<Rightarrow> DecodeInstruction (assemble i @ x # xs) = Inr (denote i)
      | _ \<Rightarrow> \<exists>name. DecodeInstruction (assemble i @ x # xs) = Inl (RequiresBytes name (length (assemble i))))"
proof (intro conjI impI)
  assume "length pad = padding i"
  then show "DecodeInstruction (padded i pad) = Inr (denote i)" "unat (inst_Size (denote i)) = length (padded i pad)"
    using DecodeInstruction_padded padded_length length_assemble by simp_all
next
  show "case i of Nop \<Rightarrow> DecodeInstruction (assemble i @ x # xs) = Inr (denote i)
      | Halt \<Rightarrow> DecodeInstruction (assemble i @ x # xs) = Inr (denote i)
      | _ \<Rightarrow> \<exists>name. DecodeInstruction (assemble i @ x # xs) = Inl (RequiresBytes name (length (assemble i)))"
    by (cases i) (simp_all add: DecodeInstruction_def opcode_defs decoder_defs Bytes_length)
qed

theorem decode_inverts_formats_witness:
  "DecodeInstruction [0x30, 1, 2, 9, 9, 9, 9, 9] = Inr (denote (Mov 1 2))
   \<and> (\<exists>name. DecodeInstruction (assemble (Copy 2 0 0 3 0 8) @ [0]) = Inl (RequiresBytes name 20))"
proof -
  have "padded (Mov 1 2) [9, 9, 9, 9, 9] = [0x30, 1, 2, 9, 9, 9, 9, 9]" by (simp add: padded_def)
  then have "DecodeInstruction [0x30, 1, 2, 9, 9, 9, 9, 9] = Inr (denote (Mov 1 2))"
    using decode_inverts_formats [of "[9, 9, 9, 9, 9]" "Mov 1 2" 0 "[]"] by simp
  moreover have "\<exists>name. DecodeInstruction (assemble (Copy 2 0 0 3 0 8) @ [0]) = Inl (RequiresBytes name 20)"
    using decode_inverts_formats [of "[]" "Copy 2 0 0 3 0 8" 0 "[]"] by simp
  ultimately show ?thesis by blast
qed

text \<open>
  C34.  A fetch within the program never panics; what it returns has a size of at least one byte
  and ends within the program, so the program counter makes progress and stays in bounds.  Of
  the declared opcodes, the query and compaction opcodes, for which the executor has cases, and
  the batch, gas and control flow opcodes are never fetched.
\<close>

theorem fetch_progress:
  assumes "unat pc < length program" "length program < 2 ^ 64"
  shows "\<exists>r. fetchInstruction pc program = Inr r \<and> (\<forall>inst. r = Inr inst \<longrightarrow>
      0 < unat (inst_Size inst) \<and> unat pc + unat (inst_Size inst) \<le> length program
      \<and> inst_Opcode inst = program ! unat pc
      \<and> inst_Opcode inst \<notin> set undecoded)"
proof -
  obtain r where r: "fetchInstruction pc program = Inr r"
    using fetchInstruction_cases [OF assms] by (auto split: if_splits)
  then show ?thesis using fetched_shape [OF assms] by auto
qed

theorem fetch_progress_witness:
  "\<exists>r. fetchInstruction 0 [0x20] = Inr r \<and> (\<forall>inst. r \<noteq> Inr inst)"
proof -
  have "\<exists>r. fetchInstruction 0 [0x20] = Inr r \<and> (\<forall>inst. r = Inr inst \<longrightarrow>
      inst_Opcode inst = 0x20 \<and> inst_Opcode inst \<notin> set undecoded)"
    using fetch_progress [of 0 "[0x20]"] by auto
  then show ?thesis by (auto simp: undecoded_def opcode_defs)
qed

end
