(* ===== verification/Spatial.thy ===== *)
theory Spatial
  imports Address
begin

text \<open>
  \<^verbatim>\<open>internal/vm/spatial.go\<close>: the cache of recently used data.  The elements of Go's linked list
  have an identity, which the address map points to, and a removed element keeps its value; here
  an element is a number, the list is the list of the numbers that are linked, front first, and
  a heap gives each element its data.
\<close>

section \<open>The cache\<close>

record SpatialCache =
  sc_cache :: "(Address3D, nat) gomap"
  sc_ll :: "nat list"
  sc_heap :: "(nat, bytes) gomap"
  sc_next :: nat
  sc_capacity :: nat
  sc_prefetchWindow :: u32

definition NewSpatialCache :: SpatialCache where
  "NewSpatialCache = \<lparr>sc_cache = [], sc_ll = [], sc_heap = [], sc_next = 0, sc_capacity = 1000,
     sc_prefetchWindow = 64\<rparr>"

text \<open>\<^verbatim>\<open>MoveToFront\<close> does nothing to an element that is no longer in the list.\<close>

definition move_front :: "nat \<Rightarrow> nat list \<Rightarrow> nat list" where
  "move_front e ll = (if e \<in> set ll then e # remove1 e ll else ll)"

definition Cache_Get :: "SpatialCache \<Rightarrow> Address3D \<Rightarrow> SpatialCache \<times> bytes option" where
  "Cache_Get c addr =
     (case map_of (sc_cache c) addr of
        None \<Rightarrow> (c, None)
      | Some e \<Rightarrow> (c\<lparr>sc_ll := move_front e (sc_ll c)\<rparr>, map_of (sc_heap c) e))"

definition Cache_Put :: "SpatialCache \<Rightarrow> Address3D \<Rightarrow> bytes \<Rightarrow> SpatialCache" where
  "Cache_Put c addr data =
     (case map_of (sc_cache c) addr of
        Some e \<Rightarrow> c\<lparr>sc_ll := move_front e (sc_ll c), sc_heap := AList.update e data (sc_heap c)\<rparr>
      | None \<Rightarrow>
          (let e = sc_next c; ll = e # sc_ll c
           in c\<lparr>sc_next := Suc e, sc_heap := AList.update e data (sc_heap c),
                sc_cache := AList.update addr e (sc_cache c),
                sc_ll := (if length ll > sc_capacity c then butlast ll else ll)\<rparr>))"

definition Cache_Invalidate :: "SpatialCache \<Rightarrow> Address3D \<Rightarrow> SpatialCache" where
  "Cache_Invalidate c addr =
     (case map_of (sc_cache c) addr of
        None \<Rightarrow> c
      | Some e \<Rightarrow> c\<lparr>sc_ll := remove1 e (sc_ll c), sc_cache := AList.delete addr (sc_cache c)\<rparr>)"

section \<open>Prefetching\<close>

text \<open>
  The goroutine that a miss starts.  It collects addresses into batches of 64 and offers each
  full batch to a queue of ten, which nothing in the program reads; while the queue is full the
  batch keeps growing.  The loops compare with \<^verbatim>\<open><=\<close> on fixed-width counters, so they need not
  end: \<open>None\<close> stands for that.
\<close>

type_synonym prefetch = "Address3D list list \<times> Address3D list"

definition add_addr :: "prefetch \<Rightarrow> Address3D \<Rightarrow> prefetch" where
  "add_addr st addr =
     (let queue = fst st; addrs = snd st @ [addr]
      in if length addrs \<ge> 64 \<and> length queue < 10 then (queue @ [addrs], []) else (queue, addrs))"

partial_function (option) prefetch_z :: "u16 \<Rightarrow> u64 \<Rightarrow> u32 \<Rightarrow> u16 \<Rightarrow> prefetch \<Rightarrow> prefetch option" where
  [code]: "prefetch_z maxZ x y z st =
     (if z \<le> maxZ then prefetch_z maxZ x y (z + 1) (add_addr st \<lparr>addr_X = x, addr_Y = y, addr_Z = z\<rparr>)
      else Some st)"

partial_function (option) prefetch_y ::
  "u32 \<Rightarrow> u16 \<Rightarrow> u16 \<Rightarrow> u64 \<Rightarrow> u32 \<Rightarrow> prefetch \<Rightarrow> prefetch option" where
  [code]: "prefetch_y maxY minZ maxZ x y st =
     (if y \<le> maxY then Option.bind (prefetch_z maxZ x y minZ st) (prefetch_y maxY minZ maxZ x (y + 1))
      else Some st)"

partial_function (option) prefetch_x ::
  "u64 \<Rightarrow> u32 \<Rightarrow> u32 \<Rightarrow> u16 \<Rightarrow> u16 \<Rightarrow> u64 \<Rightarrow> prefetch \<Rightarrow> prefetch option" where
  [code]: "prefetch_x maxX minY maxY minZ maxZ x st =
     (if x \<le> maxX then Option.bind (prefetch_y maxY minZ maxZ x minY st)
        (prefetch_x maxX minY maxY minZ maxZ (x + 1))
      else Some st)"

definition prefetchSpatial :: "u32 \<Rightarrow> Address3D \<Rightarrow> prefetch \<Rightarrow> prefetch option" where
  "prefetchSpatial window center st =
     (let minX = addr_X center - ucast window; maxX = addr_X center + ucast window;
          minY = addr_Y center - window; maxY = addr_Y center + window;
          minZ = of_int (max 0 (uint (addr_Z center) - uint window)) :: u16;
          maxZ = of_int (min 65535 (uint (addr_Z center) + uint window)) :: u16
      in prefetch_x maxX minY maxY minZ maxZ minX st)"

section \<open>The interface of a cache\<close>

datatype ('a, 'd) cache_op = CGet 'a | CPut 'a 'd | CDrop 'a

fun cache_run :: "('c \<Rightarrow> 'a \<Rightarrow> 'c \<times> 'd option) \<Rightarrow> ('c \<Rightarrow> 'a \<Rightarrow> 'd \<Rightarrow> 'c) \<Rightarrow> ('c \<Rightarrow> 'a \<Rightarrow> 'c) \<Rightarrow>
    'c \<Rightarrow> ('a, 'd) cache_op list \<Rightarrow> 'c" where
  "cache_run get put drp c [] = c"
| "cache_run get put drp c (CGet a # ops) = cache_run get put drp (fst (get c a)) ops"
| "cache_run get put drp c (CPut a d # ops) = cache_run get put drp (put c a d) ops"
| "cache_run get put drp c (CDrop a # ops) = cache_run get put drp (drp c a) ops"

fun map_run :: "('a \<rightharpoonup> 'd) \<Rightarrow> ('a, 'd) cache_op list \<Rightarrow> ('a \<rightharpoonup> 'd)" where
  "map_run m [] = m"
| "map_run m (CGet a # ops) = map_run m ops"
| "map_run m (CPut a d # ops) = map_run (m(a \<mapsto> d)) ops"
| "map_run m (CDrop a # ops) = map_run (m(a := None)) ops"

locale data_cache =
  fixes inv :: "'c \<Rightarrow> bool" and view :: "'c \<Rightarrow> 'a \<rightharpoonup> 'd"
    and get :: "'c \<Rightarrow> 'a \<Rightarrow> 'c \<times> 'd option" and put :: "'c \<Rightarrow> 'a \<Rightarrow> 'd \<Rightarrow> 'c"
    and drp :: "'c \<Rightarrow> 'a \<Rightarrow> 'c"
  assumes get_law: "inv c \<Longrightarrow> snd (get c a) = view c a \<and> inv (fst (get c a)) \<and> view (fst (get c a)) = view c"
    and put_law: "inv c \<Longrightarrow> inv (put c a d) \<and> view (put c a d) = (view c)(a \<mapsto> d)"
    and drp_law: "inv c \<Longrightarrow> inv (drp c a) \<and> view (drp c a) = (view c)(a := None)"
begin

lemma run_refines: "inv c \<Longrightarrow> inv (cache_run get put drp c ops) \<and> view (cache_run get put drp c ops) = map_run (view c) ops"
proof (induction ops arbitrary: c)
  case (Cons op ops)
  show ?case
  proof (cases op)
    case (CGet a)
    then show ?thesis using Cons.IH [of "fst (get c a)"] get_law [OF Cons.prems, of a] by simp
  next
    case (CPut a d)
    then show ?thesis using Cons.IH [of "put c a d"] put_law [OF Cons.prems, of a d] by (simp del: fun_upd_apply)
  next
    case (CDrop a)
    then show ?thesis using Cons.IH [of "drp c a"] drp_law [OF Cons.prems, of a] by (simp del: fun_upd_apply)
  qed
qed simp

end

text \<open>
  The invariant: the map is a bijection onto elements that have data; the linked elements are
  distinct, at most as many as the capacity.
\<close>

definition cache_inv :: "SpatialCache \<Rightarrow> bool" where
  "cache_inv c \<longleftrightarrow> distinct (map fst (sc_cache c)) \<and> distinct (map snd (sc_cache c))
     \<and> (\<forall>e \<in> snd ` set (sc_cache c). e < sc_next c \<and> map_of (sc_heap c) e \<noteq> None)
     \<and> distinct (sc_ll c) \<and> (\<forall>e \<in> set (sc_ll c). e < sc_next c) \<and> length (sc_ll c) \<le> sc_capacity c"

definition cache_view :: "SpatialCache \<Rightarrow> Address3D \<rightharpoonup> bytes" where
  "cache_view c addr = Option.bind (map_of (sc_cache c) addr) (map_of (sc_heap c))"

lemma NewSpatialCache_inv: "cache_inv NewSpatialCache" "cache_view NewSpatialCache = Map.empty"
  by (simp_all add: cache_inv_def cache_view_def NewSpatialCache_def fun_eq_iff)

lemma mset_move_front: "mset (move_front e ll) = mset ll"
  by (simp add: move_front_def)

lemma move_front_props [simp]:
  "set (move_front e ll) = set ll" "length (move_front e ll) = length ll"
  "distinct (move_front e ll) \<longleftrightarrow> distinct ll"
  using mset_move_front [of e ll]
  by (metis set_mset_mset, metis size_mset, metis mset_eq_imp_distinct_iff)

lemma cache_elem_inj:
  assumes "cache_inv c" "map_of (sc_cache c) a = Some e" "map_of (sc_cache c) b = Some e"
  shows "a = b"
proof -
  have "(a, e) \<in> set (sc_cache c)" "(b, e) \<in> set (sc_cache c)" using assms(2,3) by (simp_all add: map_of_SomeD)
  moreover have "inj_on snd (set (sc_cache c))" using assms(1) by (simp add: cache_inv_def distinct_map)
  ultimately show ?thesis by (metis inj_onD prod.inject snd_conv)
qed

lemma cache_entry:
  assumes "cache_inv c" "map_of (sc_cache c) a = Some e"
  shows "e < sc_next c" "map_of (sc_heap c) e \<noteq> None"
proof -
  have "e \<in> snd ` set (sc_cache c)" using map_of_SomeD [OF assms(2)] by force
  then show "e < sc_next c" "map_of (sc_heap c) e \<noteq> None"
    using assms(1) unfolding cache_inv_def by blast+
qed

lemma Cache_Get_law:
  assumes "cache_inv c"
  shows "snd (Cache_Get c a) = cache_view c a \<and> cache_inv (fst (Cache_Get c a))
    \<and> cache_view (fst (Cache_Get c a)) = cache_view c"
proof (cases "map_of (sc_cache c) a")
  case None
  then show ?thesis using assms by (simp add: Cache_Get_def cache_view_def)
next
  case (Some e)
  then show ?thesis
    using assms by (simp add: Cache_Get_def cache_view_def cache_inv_def fun_eq_iff)
qed

lemma Cache_Put_law:
  assumes inv: "cache_inv c"
  shows "cache_inv (Cache_Put c a d) \<and> cache_view (Cache_Put c a d) = (cache_view c)(a \<mapsto> d)"
proof (cases "map_of (sc_cache c) a")
  case (Some e)
  have "cache_view (Cache_Put c a d) b = ((cache_view c)(a \<mapsto> d)) b" for b
    using Some cache_elem_inj [OF inv Some, of b]
    by (cases "map_of (sc_cache c) b") (auto simp: Cache_Put_def cache_view_def update_conv')
  moreover have "cache_inv (Cache_Put c a d)"
    using inv Some by (simp add: Cache_Put_def cache_inv_def update_conv')
  ultimately show ?thesis by blast
next
  case None
  define e where "e = sc_next c"
  have fresh: "e \<notin> snd ` set (sc_cache c)" "e \<notin> set (sc_ll c)"
    using inv by (auto simp: cache_inv_def e_def)
  have put: "Cache_Put c a d = c\<lparr>sc_next := Suc e, sc_heap := AList.update e d (sc_heap c),
      sc_cache := sc_cache c @ [(a, e)],
      sc_ll := (if length (e # sc_ll c) > sc_capacity c then butlast (e # sc_ll c) else e # sc_ll c)\<rparr>"
    using None by (simp add: Cache_Put_def Let_def e_def AList_update_fresh)
  have "a \<notin> fst ` set (sc_cache c)" using None by (simp add: map_of_eq_None_iff)
  then have "cache_inv (Cache_Put c a d)"
    using inv fresh unfolding put
    by (auto simp: cache_inv_def update_conv' e_def distinct_butlast less_Suc_eq dest: in_set_butlastD)
  moreover have "cache_view (Cache_Put c a d) b = ((cache_view c)(a \<mapsto> d)) b" for b
    using None cache_entry(1) [OF inv, of b]
    by (cases "map_of (sc_cache c) b") (auto simp: put cache_view_def update_conv' map_add_def e_def)
  ultimately show ?thesis by blast
qed

lemma Cache_Invalidate_law:
  assumes inv: "cache_inv c"
  shows "cache_inv (Cache_Invalidate c a) \<and> cache_view (Cache_Invalidate c a) = (cache_view c)(a := None)"
proof (cases "map_of (sc_cache c) a")
  case None
  then show ?thesis using inv by (auto simp: Cache_Invalidate_def cache_view_def fun_eq_iff)
next
  case (Some e)
  have sub: "set (AList.delete a (sc_cache c)) \<subseteq> set (sc_cache c)" by (auto simp: AList.delete_eq)
  have "distinct (map snd (AList.delete a (sc_cache c)))"
    using inv by (simp add: cache_inv_def AList.delete_eq distinct_map_filter)
  then have "cache_inv (Cache_Invalidate c a)"
    using inv Some sub
    by (auto simp: Cache_Invalidate_def cache_inv_def distinct_delete length_remove1 dest: notin_set_remove1)
  moreover have "cache_view (Cache_Invalidate c a) b = ((cache_view c)(a := None)) b" for b
    using Some by (simp add: Cache_Invalidate_def cache_view_def delete_conv')
  ultimately show ?thesis by blast
qed

interpretation spatial: data_cache cache_inv cache_view Cache_Get Cache_Put Cache_Invalidate
  by unfold_locales (use Cache_Get_law Cache_Put_law Cache_Invalidate_law in blast)+


section \<open>How the prefetch loops end\<close>

definition z_addrs :: "u64 \<Rightarrow> u32 \<Rightarrow> nat \<Rightarrow> nat \<Rightarrow> Address3D list" where
  "z_addrs x y lo hi = map (\<lambda>z. \<lparr>addr_X = x, addr_Y = y, addr_Z = of_nat z\<rparr>) [lo..<Suc hi]"

definition y_addrs :: "u64 \<Rightarrow> nat \<Rightarrow> nat \<Rightarrow> nat \<Rightarrow> nat \<Rightarrow> Address3D list" where
  "y_addrs x ylo yhi zlo zhi = concat (map (\<lambda>y. z_addrs x (of_nat y) zlo zhi) [ylo..<Suc yhi])"

definition box_addrs :: "nat \<Rightarrow> nat \<Rightarrow> nat \<Rightarrow> nat \<Rightarrow> nat \<Rightarrow> nat \<Rightarrow> Address3D list" where
  "box_addrs xlo xhi ylo yhi zlo zhi =
     concat (map (\<lambda>x. y_addrs (of_nat x) ylo yhi zlo zhi) [xlo..<Suc xhi])"

text \<open>A counter below the largest bound has a successor, so the loop over it runs through its range.\<close>

lemma unat_succ_below:
  assumes "w \<le> (m :: 'a::len word)" "m < - 1"
  shows "unat (w + 1) = Suc (unat w)"
proof -
  have "w + 1 \<noteq> 0"
  proof
    assume "w + 1 = 0"
    then have "w = - 1" by (metis add.inverse_unique add.commute)
    with assms show False by simp
  qed
  then show ?thesis using unatSuc [of w] by (simp add: add.commute)
qed

lemma prefetch_z_total:
  assumes "maxZ < - 1"
  shows "prefetch_z maxZ x y z st = Some (foldl add_addr st (z_addrs x y (unat z) (unat maxZ)))"
proof (induction "Suc (unat maxZ) - unat z" arbitrary: z st)
  case 0
  then have "\<not> z \<le> maxZ" by (simp add: word_le_nat_alt)
  then show ?case using 0 by (subst prefetch_z.simps) (simp add: z_addrs_def)
next
  case (Suc n)
  then have le: "z \<le> maxZ" by (simp add: word_le_nat_alt)
  note nx = unat_succ_below [OF le assms]
  have "z_addrs x y (unat z) (unat maxZ) = \<lparr>addr_X = x, addr_Y = y, addr_Z = z\<rparr> # z_addrs x y (unat (z + 1)) (unat maxZ)"
    using le unfolding z_addrs_def nx by (subst upt_conv_Cons) (simp_all add: word_le_nat_alt)
  then show ?case using le Suc(1) [of "z + 1"] Suc(2) nx by (subst prefetch_z.simps) simp
qed

lemma prefetch_y_total:
  assumes "maxY < - 1" "maxZ < - 1"
  shows "prefetch_y maxY minZ maxZ x y st =
    Some (foldl add_addr st (y_addrs x (unat y) (unat maxY) (unat minZ) (unat maxZ)))"
proof (induction "Suc (unat maxY) - unat y" arbitrary: y st)
  case 0
  then have "\<not> y \<le> maxY" by (simp add: word_le_nat_alt)
  then show ?case using 0 by (subst prefetch_y.simps) (simp add: y_addrs_def)
next
  case (Suc n)
  then have le: "y \<le> maxY" by (simp add: word_le_nat_alt)
  note nx = unat_succ_below [OF le assms(1)]
  have "y_addrs x (unat y) (unat maxY) (unat minZ) (unat maxZ) =
      z_addrs x y (unat minZ) (unat maxZ) @ y_addrs x (unat (y + 1)) (unat maxY) (unat minZ) (unat maxZ)"
    using le unfolding y_addrs_def nx by (subst upt_conv_Cons) (simp_all add: word_le_nat_alt)
  then show ?case using le Suc(1) [of "y + 1"] Suc(2) nx
    by (subst prefetch_y.simps) (simp add: prefetch_z_total [OF assms(2)])
qed

lemma prefetch_x_total:
  assumes "maxX < - 1" "maxY < - 1" "maxZ < - 1"
  shows "prefetch_x maxX minY maxY minZ maxZ x st =
    Some (foldl add_addr st (box_addrs (unat x) (unat maxX) (unat minY) (unat maxY) (unat minZ) (unat maxZ)))"
proof (induction "Suc (unat maxX) - unat x" arbitrary: x st)
  case 0
  then have "\<not> x \<le> maxX" by (simp add: word_le_nat_alt)
  then show ?case using 0 by (subst prefetch_x.simps) (simp add: box_addrs_def)
next
  case (Suc n)
  then have le: "x \<le> maxX" by (simp add: word_le_nat_alt)
  note nx = unat_succ_below [OF le assms(1)]
  have "box_addrs (unat x) (unat maxX) (unat minY) (unat maxY) (unat minZ) (unat maxZ) =
      y_addrs x (unat minY) (unat maxY) (unat minZ) (unat maxZ)
      @ box_addrs (unat (x + 1)) (unat maxX) (unat minY) (unat maxY) (unat minZ) (unat maxZ)"
    using le unfolding box_addrs_def nx by (subst upt_conv_Cons) (simp_all add: word_le_nat_alt)
  then show ?case using le Suc(1) [of "x + 1"] Suc(2) nx
    by (subst prefetch_x.simps) (simp add: prefetch_y_total [OF assms(2,3)])
qed

text \<open>With the largest bound the condition of the loop never fails.\<close>

lemma prefetch_z_diverges: "prefetch_z (- 1) x y z st = None"
proof (rule ccontr)
  assume "prefetch_z (- 1) x y z st \<noteq> None"
  then obtain r where "prefetch_z (- 1) x y z st = Some r" by blast
  moreover have "- 1 \<noteq> maxZ"
    if "\<And>m x y z st r. f m x y z st = Some r \<Longrightarrow> m \<noteq> (- 1 :: u16)"
      "(if z \<le> maxZ then f maxZ x y (z + 1) (add_addr st \<lparr>addr_X = x, addr_Y = y, addr_Z = z\<rparr>) else Some st) = Some r"
    for f :: "u16 \<Rightarrow> u64 \<Rightarrow> u32 \<Rightarrow> u16 \<Rightarrow> prefetch \<Rightarrow> prefetch option" and maxZ x y z st r
  proof (cases "z \<le> maxZ")
    case True
    with that(2) have "f maxZ x y (z + 1) (add_addr st \<lparr>addr_X = x, addr_Y = y, addr_Z = z\<rparr>) = Some r" by simp
    from that(1) [OF this] show ?thesis by blast
  next
    case False
    then show ?thesis by auto
  qed
  ultimately show False
    using prefetch_z.raw_induct [of "\<lambda>m _ _ _ _ _. m \<noteq> - 1" "((((- 1, x), y), z), st)" r] by simp blast
qed

lemma prefetch_y_diverges: "prefetch_y (- 1) minZ maxZ x y st = None"
proof (rule ccontr)
  assume "prefetch_y (- 1) minZ maxZ x y st \<noteq> None"
  then obtain r where "prefetch_y (- 1) minZ maxZ x y st = Some r" by blast
  moreover have "- 1 \<noteq> maxY"
    if "\<And>m a b x y st r. f m a b x y st = Some r \<Longrightarrow> m \<noteq> (- 1 :: u32)"
      "(if y \<le> maxY then Option.bind (prefetch_z b x y a st) (f maxY a b x (y + 1)) else Some st) = Some r"
    for f :: "u32 \<Rightarrow> u16 \<Rightarrow> u16 \<Rightarrow> u64 \<Rightarrow> u32 \<Rightarrow> prefetch \<Rightarrow> prefetch option" and maxY a b x y st r
  proof (cases "y \<le> maxY")
    case True
    with that(2) obtain st' where "f maxY a b x (y + 1) st' = Some r" by (auto simp: bind_eq_Some_conv)
    from that(1) [OF this] show ?thesis by blast
  qed auto
  ultimately show False
    using prefetch_y.raw_induct [of "\<lambda>m _ _ _ _ _ _. m \<noteq> - 1" "(((((- 1, minZ), maxZ), x), y), st)" r] by simp blast
qed

lemma prefetch_x_forever: "prefetch_x (- 1) minY maxY minZ maxZ x st = None"
proof (rule ccontr)
  assume "prefetch_x (- 1) minY maxY minZ maxZ x st \<noteq> None"
  then obtain r where "prefetch_x (- 1) minY maxY minZ maxZ x st = Some r" by blast
  moreover have "- 1 \<noteq> maxX"
    if "\<And>m a b c d x st r. f m a b c d x st = Some r \<Longrightarrow> m \<noteq> (- 1 :: u64)"
      "(if x \<le> maxX then Option.bind (prefetch_y b c d x a st) (f maxX a b c d (x + 1)) else Some st) = Some r"
    for f :: "u64 \<Rightarrow> u32 \<Rightarrow> u32 \<Rightarrow> u16 \<Rightarrow> u16 \<Rightarrow> u64 \<Rightarrow> prefetch \<Rightarrow> prefetch option" and maxX a b c d x st r
  proof (cases "x \<le> maxX")
    case True
    with that(2) obtain st' where "f maxX a b c d (x + 1) st' = Some r" by (auto simp: bind_eq_Some_conv)
    from that(1) [OF this] show ?thesis by blast
  qed auto
  ultimately show False
    using prefetch_x.raw_induct [of "\<lambda>m _ _ _ _ _ _ _. m \<noteq> - 1" "((((((- 1, minY), maxY), minZ), maxZ), x), st)" r] by simp blast
qed

text \<open>An empty range of the inner loop leaves everything as it is.\<close>

lemma prefetch_x_idle:
  assumes "maxX < - 1" "\<not> minY \<le> maxY"
  shows "prefetch_x maxX minY maxY minZ maxZ x st = Some st"
proof (induction "Suc (unat maxX) - unat x" arbitrary: x)
  case 0
  then have "\<not> x \<le> maxX" by (simp add: word_le_nat_alt)
  then show ?case by (subst prefetch_x.simps) simp
next
  case (Suc n)
  then have le: "x \<le> maxX" by (simp add: word_le_nat_alt)
  have "prefetch_y maxY minZ maxZ x minY st = Some st" using assms(2) by (subst prefetch_y.simps) simp
  then show ?case
    using le Suc(1) [of "x + 1"] Suc(2) unat_succ_below [OF le assms(1)] by (subst prefetch_x.simps) simp
qed

lemma prefetch_x_diverges:
  assumes "x \<le> maxX" "minY \<le> maxY" "maxY = - 1 \<or> maxZ = - 1"
  shows "prefetch_x maxX minY maxY minZ maxZ x st = None"
proof -
  have "prefetch_y maxY minZ maxZ x minY st = None"
    using assms(2,3) prefetch_y_diverges [of minZ maxZ x minY st]
    by (cases "maxY = - 1") (simp, subst prefetch_y.simps, simp add: prefetch_z_diverges)
  then show ?thesis using assms(1) by (subst prefetch_x.simps) simp
qed

lemma add_addr_collects:
  "concat (fst (foldl add_addr st as)) @ snd (foldl add_addr st as) = concat (fst st) @ snd st @ as"
  by (induction as arbitrary: st) (simp_all add: add_addr_def Let_def)

text \<open>The window around a number: in range, cut off by the largest number, or wrapped around.\<close>

lemma window_bounds:
  assumes "64 \<le> unat (w :: 'a::len word)" "unat w + 64 < 2 ^ LENGTH('a)"
  shows "unat (w - 64) = unat w - 64" "unat (w + 64) = unat w + 64" "w - 64 \<le> w + 64"
    "w + 64 = - 1 \<longleftrightarrow> unat w + 64 = 2 ^ LENGTH('a) - 1" "w + 64 < - 1 \<longleftrightarrow> unat w + 64 < 2 ^ LENGTH('a) - 1"
proof -
  have n: "unat (64 :: 'a word) = 64" using assms by (simp add: unsigned_numeral take_bit_nat_eq_self_iff)
  have "(64 :: 'a word) \<le> w" using assms(1) n by (simp add: word_le_nat_alt)
  then show s: "unat (w - 64) = unat w - 64" using n by (simp add: unat_sub)
  show a: "unat (w + 64) = unat w + 64" using assms(2) n by (subst unat_add_lem [THEN iffD1]) auto
  show "w - 64 \<le> w + 64" using s a by (simp add: word_le_nat_alt)
  have m: "unat (- 1 :: 'a word) = 2 ^ LENGTH('a) - 1" by (simp add: unsigned_minus_1_eq_mask mask_eq_exp_minus_1)
  show "w + 64 = - 1 \<longleftrightarrow> unat w + 64 = 2 ^ LENGTH('a) - 1" using a m by (simp add: word_unat_eq_iff)
  show "w + 64 < - 1 \<longleftrightarrow> unat w + 64 < 2 ^ LENGTH('a) - 1" using a m by (simp add: word_less_nat_alt)
qed

lemma window_wraps:
  assumes "unat (w :: 'a::len word) < 64 \<or> 2 ^ LENGTH('a) \<le> unat w + 64" "128 < (2 :: nat) ^ LENGTH('a)"
  shows "\<not> w - 64 \<le> w + 64"
proof -
  have n: "unat (64 :: 'a word) = 64" using assms(2) by (simp add: unsigned_numeral take_bit_nat_eq_self_iff)
  have lt: "unat w < 2 ^ LENGTH('a)" by (rule unsigned_less)
  show ?thesis
  proof (cases "unat w < 64")
    case True
    then have "unat (w - 64) = 2 ^ LENGTH('a) + unat w - 64" using n by (simp add: unat_sub_if' word_le_nat_alt)
    moreover have "unat (w + 64) = unat w + 64" using True assms(2) n by (subst unat_add_lem [THEN iffD1]) auto
    ultimately show ?thesis using assms(2) True unfolding word_le_nat_alt by linarith
  next
    case False
    then have "unat (w - 64) = unat w - 64" using n by (simp add: unat_sub word_le_nat_alt)
    moreover have "unat (w + 64) = unat w + 64 - 2 ^ LENGTH('a)" using False assms(1) n by (simp add: unat_plus_if')
    ultimately show ?thesis using assms lt False unfolding word_le_nat_alt by linarith
  qed
qed

lemma cache_run_capacity:
  "sc_capacity c = k \<Longrightarrow> sc_capacity (cache_run Cache_Get Cache_Put Cache_Invalidate c ops) = k"
proof (induction ops arbitrary: c)
  case (Cons op ops)
  then show ?case
    by (cases op) (auto simp: Cache_Get_def Cache_Put_def Cache_Invalidate_def Let_def split: option.splits)
qed simp

lemma z_window:
  fixes z :: u16
  defines "maxZ \<equiv> of_int (min 65535 (uint z + 64)) :: u16" and "minZ \<equiv> of_int (max 0 (uint z - 64)) :: u16"
  shows "unat minZ = unat z - 64" "unat z + 64 < 65535 \<Longrightarrow> unat maxZ = unat z + 64"
    "unat z + 64 < 65535 \<Longrightarrow> maxZ < - 1" "\<not> unat z + 64 < 65535 \<Longrightarrow> maxZ = - 1"
proof -
  have lt: "unat z < 65536" using unsigned_less [of z] by simp
  have u: "uint z = int (unat z)" by simp
  have "max 0 (uint z - 64) = int (unat z - 64)" unfolding u by linarith
  then have "minZ = of_nat (unat z - 64)" unfolding minZ_def by (simp only: of_int_of_nat_eq)
  then show "unat minZ = unat z - 64" using lt by (simp add: unsigned_of_nat take_bit_nat_eq_self_iff less_imp_diff_less)
  {
    assume *: "unat z + 64 < 65535"
    then have "min 65535 (uint z + 64) = int (unat z + 64)" unfolding u by linarith
    then have "maxZ = of_nat (unat z + 64)" unfolding maxZ_def by (simp only: of_int_of_nat_eq)
    then show "unat maxZ = unat z + 64"
      using * by (simp only: unsigned_of_nat) (simp add: take_bit_nat_eq_self_iff)
    then show "maxZ < - 1" using * by (simp add: word_less_nat_alt unsigned_minus_1_eq_mask mask_eq_exp_minus_1)
  }
  assume *: "\<not> unat z + 64 < 65535"
  then have "min 65535 (uint z + 64) = 65535" unfolding u by linarith
  then show "maxZ = - 1" unfolding maxZ_def by simp
qed

section \<open>Properties\<close>

text \<open>
  C28.  The cache is a map that forgets nothing.  After any sequence of reads, writes and
  invalidations, a read returns exactly what a plain map would hold; the linked list stays
  within its capacity of 1000, but the address map has an entry for every address that was
  written and not invalidated since, however many there are: the eviction unlinks the oldest
  element and leaves it reachable.
\<close>

theorem spatial_cache_is_a_map:
  "let c = cache_run Cache_Get Cache_Put Cache_Invalidate NewSpatialCache ops
   in snd (Cache_Get c a) = map_run Map.empty ops a \<and> length (sc_ll c) \<le> 1000
      \<and> length (sc_cache c) = card (dom (map_run Map.empty ops))"
proof -
  define c where "c = cache_run Cache_Get Cache_Put Cache_Invalidate NewSpatialCache ops"
  have inv: "cache_inv c" and view: "cache_view c = map_run Map.empty ops"
    using spatial.run_refines [OF NewSpatialCache_inv(1), of ops] NewSpatialCache_inv(2)
    by (simp_all add: c_def)
  have "cache_view c b \<noteq> None \<longleftrightarrow> map_of (sc_cache c) b \<noteq> None" for b
    using cache_entry(2) [OF inv, of b] by (cases "map_of (sc_cache c) b") (simp_all add: cache_view_def)
  then have "dom (cache_view c) = dom (map_of (sc_cache c))" unfolding dom_def by presburger
  also have "card \<dots> = length (sc_cache c)"
    using inv distinct_card [of "map fst (sc_cache c)"] by (simp add: cache_inv_def dom_map_of_conv_image_fst)
  finally have "length (sc_cache c) = card (dom (map_run Map.empty ops))" by (simp add: view)
  moreover have "sc_capacity c = 1000"
    unfolding c_def by (rule cache_run_capacity [of _ 1000]) (simp add: NewSpatialCache_def)
  ultimately show ?thesis
    using inv Cache_Get_law [OF inv, of a] view by (simp add: Let_def cache_inv_def flip: c_def)
qed

text \<open>
  C40.  What the prefetch goroutine does, for every missed address.  If the window of 64 wraps
  around in X, it prefetches nothing; else, if it ends exactly at the largest X, the counter of
  the outer loop wraps and the goroutine never ends; else, if it wraps around in Y, it prefetches
  nothing, which is the case for the blocks of the allocator, since they have Y = 0; else, if it
  ends at the largest Y or the offset is within 64 of the largest one, an inner counter wraps, the
  goroutine never ends and the batch grows without bound; else it returns, and the addresses in
  its queue and its last batch are exactly the box of radius 64 around the missed address, in
  order.
\<close>

theorem prefetch_outcomes:
  fixes center :: Address3D
  defines "X \<equiv> unat (addr_X center)" and "Y \<equiv> unat (addr_Y center)" and "Z \<equiv> unat (addr_Z center)"
  shows "if X < 64 \<or> 2 ^ 64 \<le> X + 64 then prefetchSpatial 64 center st = Some st
    else if X + 64 = 2 ^ 64 - 1 then prefetchSpatial 64 center st = None
    else if Y < 64 \<or> 2 ^ 32 \<le> Y + 64 then prefetchSpatial 64 center st = Some st
    else if Y + 64 = 2 ^ 32 - 1 \<or> 65535 \<le> Z + 64 then prefetchSpatial 64 center st = None
    else (\<exists>queue batch. prefetchSpatial 64 center st = Some (queue, batch)
       \<and> concat queue @ batch = concat (fst st) @ snd st @ box_addrs (X - 64) (X + 64) (Y - 64) (Y + 64) (Z - 64) (Z + 64))"
proof -
  define maxZ :: u16 where "maxZ = of_int (min 65535 (uint (addr_Z center) + 64))"
  define minZ :: u16 where "minZ = of_int (max 0 (uint (addr_Z center) - 64))"
  have p: "prefetchSpatial 64 center st = prefetch_x (addr_X center + 64) (addr_Y center - 64)
      (addr_Y center + 64) minZ maxZ (addr_X center - 64) st"
    by (simp add: prefetchSpatial_def Let_def maxZ_def minZ_def)
  note z = z_window [of "addr_Z center", folded Z_def maxZ_def minZ_def]
  show ?thesis
  proof (cases "X < 64 \<or> 2 ^ 64 \<le> X + 64")
    case True
    then have "\<not> addr_X center - 64 \<le> addr_X center + 64" using window_wraps [of "addr_X center"] by (simp add: X_def)
    then show ?thesis using True unfolding p by (subst prefetch_x.simps) simp
  next
    case xin: False
    then have x: "unat (addr_X center - 64) = X - 64" "unat (addr_X center + 64) = X + 64"
      "addr_X center - 64 \<le> addr_X center + 64" "addr_X center + 64 = - 1 \<longleftrightarrow> X + 64 = 2 ^ 64 - 1"
      "addr_X center + 64 < - 1 \<longleftrightarrow> X + 64 < 2 ^ 64 - 1"
      using window_bounds [where w = "addr_X center"] by (simp_all add: X_def)
    show ?thesis
    proof (cases "X + 64 = 2 ^ 64 - 1")
      case True
      then have e: "addr_X center + 64 = - 1" using x(4) by blast
      have "prefetchSpatial 64 center st = None" unfolding p e by (rule prefetch_x_forever)
      then show ?thesis using xin True by simp
    next
      case False
      then have xlt: "addr_X center + 64 < - 1" "X + 64 \<noteq> 2 ^ 64 - 1" using x(5) xin by linarith+
      show ?thesis
      proof (cases "Y < 64 \<or> 2 ^ 32 \<le> Y + 64")
        case True
        then have "\<not> addr_Y center - 64 \<le> addr_Y center + 64" using window_wraps [of "addr_Y center"] by (simp add: Y_def)
        then show ?thesis using True xin xlt prefetch_x_idle [OF xlt(1)] unfolding p by simp
      next
        case yin: False
        then have y: "unat (addr_Y center - 64) = Y - 64" "unat (addr_Y center + 64) = Y + 64"
          "addr_Y center - 64 \<le> addr_Y center + 64" "addr_Y center + 64 = - 1 \<longleftrightarrow> Y + 64 = 2 ^ 32 - 1"
          "addr_Y center + 64 < - 1 \<longleftrightarrow> Y + 64 < 2 ^ 32 - 1"
          using window_bounds [where w = "addr_Y center"] by (simp_all add: Y_def)
        show ?thesis
        proof (cases "Y + 64 = 2 ^ 32 - 1 \<or> 65535 \<le> Z + 64")
          case True
          then have "addr_Y center + 64 = - 1 \<or> maxZ = - 1" using y(4) z(4) by linarith
          then show ?thesis using True xin xlt yin prefetch_x_diverges [OF x(3) y(3)] unfolding p by simp
        next
          case zin: False
          then have ylt: "addr_Y center + 64 < - 1" and zlt: "Z + 64 < 65535" using y(5) yin by linarith+
          let ?st = "foldl add_addr st (box_addrs (X - 64) (X + 64) (Y - 64) (Y + 64) (Z - 64) (Z + 64))"
          have "prefetchSpatial 64 center st = Some ?st"
            using prefetch_x_total [OF xlt(1) ylt z(3) [OF zlt]] x(1,2) y(1,2) z(1) z(2) [OF zlt] by (simp add: p)
          then have "prefetchSpatial 64 center st = Some (fst ?st, snd ?st)" by simp
          then show ?thesis using xin xlt yin zin add_addr_collects [of st] by (auto simp del: prod.collapse)
        qed
      qed
    qed
  qed
qed

end
