(* ===== verification/SHA256.thy ===== *)
theory SHA256
  imports Prelude3D
begin

text \<open>
  SHA-256 (FIPS 180-4), which the program uses through \<^verbatim>\<open>crypto/sha256\<close> of Go's standard library,
  as a function from bytes to bytes.
\<close>

section \<open>The hash function\<close>

definition rotr32 :: "nat \<Rightarrow> u32 \<Rightarrow> u32" where
  "rotr32 n w = drop_bit n w OR push_bit (32 - n) w"

text \<open>The round constants and the initial hash value of the standard, in decimal.\<close>

definition K256 :: "u32 list" where
  "K256 = [
    1116352408, 1899447441, 3049323471, 3921009573, 961987163, 1508970993, 2453635748, 2870763221,
    3624381080, 310598401, 607225278, 1426881987, 1925078388, 2162078206, 2614888103, 3248222580,
    3835390401, 4022224774, 264347078, 604807628, 770255983, 1249150122, 1555081692, 1996064986,
    2554220882, 2821834349, 2952996808, 3210313671, 3336571891, 3584528711, 113926993, 338241895,
    666307205, 773529912, 1294757372, 1396182291, 1695183700, 1986661051, 2177026350, 2456956037,
    2730485921, 2820302411, 3259730800, 3345764771, 3516065817, 3600352804, 4094571909, 275423344,
    430227734, 506948616, 659060556, 883997877, 958139571, 1322822218, 1537002063, 1747873779,
    1955562222, 2024104815, 2227730452, 2361852424, 2428436474, 2756734187, 3204031479, 3329325298]"

definition H256 :: "u32 list" where
  "H256 = [
    1779033703, 3144134277, 1013904242, 2773480762, 1359893119, 2600822924, 528734635, 1541459225]"

text \<open>The message schedule, the round function and the compression of one 64-byte block.\<close>

definition schedule_word :: "u32 list \<Rightarrow> u32" where
  "schedule_word w =
     (let t = length w; a = w ! (t - 15); b = w ! (t - 2);
          s0 = (rotr32 7 a XOR rotr32 18 a) XOR drop_bit 3 a;
          s1 = (rotr32 17 b XOR rotr32 19 b) XOR drop_bit 10 b
      in w ! (t - 16) + s0 + w ! (t - 7) + s1)"

fun schedule :: "nat \<Rightarrow> u32 list \<Rightarrow> u32 list" where
  "schedule 0 w = w"
| "schedule (Suc n) w = schedule n (w @ [schedule_word w])"

fun sha_round :: "u32 list \<Rightarrow> u32 \<times> u32 \<Rightarrow> u32 list" where
  "sha_round [a, b, c, d, e, f, g, h] (k, w) =
     (let S1 = (rotr32 6 e XOR rotr32 11 e) XOR rotr32 25 e; ch = (e AND f) XOR (NOT e AND g);
          t1 = h + S1 + ch + k + w;
          S0 = (rotr32 2 a XOR rotr32 13 a) XOR rotr32 22 a;
          maj = ((a AND b) XOR (a AND c)) XOR (b AND c)
      in [t1 + (S0 + maj), a, b, c, d + t1, e, f, g])"
| "sha_round s _ = s"

fun words_of :: "bytes \<Rightarrow> u32 list" where
  "words_of (a # b # c # d # bs) = get_be [a, b, c, d] # words_of bs"
| "words_of _ = []"

definition compress :: "u32 list \<Rightarrow> bytes \<Rightarrow> u32 list" where
  "compress H block = map2 (+) H (foldl sha_round H (zip K256 (schedule 48 (words_of block))))"

text \<open>Padding to whole blocks: a one bit, zeros, and the length of the message in bits.\<close>

definition sha_pad :: "bytes \<Rightarrow> bytes" where
  "sha_pad msg =
     (let n = length msg
      in msg @ [0x80] @ replicate ((119 - n mod 64) mod 64) 0 @ put_be 8 (of_nat (8 * n) :: u64))"

function chunks :: "nat \<Rightarrow> 'a list \<Rightarrow> 'a list list" where
  "chunks n xs = (if n = 0 \<or> xs = [] then [] else take n xs # chunks n (drop n xs))"
  by auto
termination by (relation "measure (length \<circ> snd)") auto
declare chunks.simps [simp del]

definition Sum256 :: "bytes \<Rightarrow> bytes" where
  "Sum256 msg = concat (map (put_be 4) (foldl compress H256 (chunks 64 (sha_pad msg))))"
section \<open>Digests\<close>

lemma length_sha_round [simp]: "length s = 8 \<Longrightarrow> length (sha_round s kw) = 8"
  by (cases "(s, kw)" rule: sha_round.cases) (auto simp: Let_def)

lemma length_sha_rounds: "length s = 8 \<Longrightarrow> length (foldl sha_round s kws) = 8"
  by (induction kws arbitrary: s) simp_all

lemma length_compress [simp]: "length H = 8 \<Longrightarrow> length (compress H block) = 8"
  by (simp add: compress_def length_sha_rounds)

lemma length_compress_all: "length H = 8 \<Longrightarrow> length (foldl compress H blocks) = 8"
  by (induction blocks arbitrary: H) simp_all

lemma length_concat_const: "(\<And>x. length (f x) = k) \<Longrightarrow> length (concat (map f xs)) = k * length xs"
  by (induction xs) simp_all

text \<open>A digest has 32 bytes.\<close>

lemma length_Sum256 [simp]: "length (Sum256 msg) = 32"
  using length_compress_all [of H256 "chunks 64 (sha_pad msg)"]
  by (simp add: Sum256_def length_concat_const [of _ 4] H256_def)

text \<open>The padded message consists of whole blocks.\<close>

lemma length_sha_pad: "64 dvd length (sha_pad msg)"
proof -
  define r where "r = length msg mod 64"
  have r: "r < 64" by (simp add: r_def)
  have "(r + 9 + (119 - r) mod 64) mod 64 = 0"
  proof (cases "r \<le> 55")
    case True
    then have "(119 - r) mod 64 = 55 - r" by (simp add: le_mod_geq)
    then show ?thesis using True by simp
  next
    case False
    then have "(119 - r) mod 64 = 119 - r" by simp
    then show ?thesis using False r by simp
  qed
  then have "(length msg + 9 + (119 - length msg mod 64) mod 64) mod 64 = 0"
    unfolding r_def by (metis add.assoc mod_add_left_eq)
  moreover have "length (sha_pad msg) = length msg + 9 + (119 - length msg mod 64) mod 64"
    by (simp add: sha_pad_def Let_def)
  ultimately show ?thesis by (simp only: dvd_eq_mod_eq_0)
qed

text \<open>The test vector of the standard: the digest of the three bytes \<^verbatim>\<open>abc\<close>.\<close>

lemma Sum256_abc: "Sum256 [0x61, 0x62, 0x63] =
    [0xba, 0x78, 0x16, 0xbf, 0x8f, 0x01, 0xcf, 0xea, 0x41, 0x41, 0x40, 0xde, 0x5d, 0xae, 0x22, 0x23,
     0xb0, 0x03, 0x61, 0xa3, 0x96, 0x17, 0x7a, 0x9c, 0xb4, 0x10, 0xff, 0x61, 0xf2, 0x00, 0x15, 0xad]"
  by code_simp

end
