(* ===== verification/Merkle.thy ===== *)
theory Merkle
  imports SHA256 Address
begin

text \<open>
  \<^verbatim>\<open>internal/merkle/tree.go\<close>: the tree keeps a hash for every address that was written, and a
  root that is folded over these hashes in the order in which the run time walks the map.  The
  mutex makes each method one atomic step.
\<close>

section \<open>Hashers\<close>

record TreeHasher =
  th_Hash :: "bytes \<Rightarrow> bytes"
  th_CombineHashes :: "bytes \<Rightarrow> bytes \<Rightarrow> bytes"

definition SHA256_Hash :: "bytes \<Rightarrow> bytes" where
  "SHA256_Hash data = Sum256 data"

definition SHA256_CombineHashes :: "bytes \<Rightarrow> bytes \<Rightarrow> bytes" where
  "SHA256_CombineHashes left right = SHA256_Hash (left @ right)"

definition SHA256Hasher :: TreeHasher where
  "SHA256Hasher = \<lparr>th_Hash = SHA256_Hash, th_CombineHashes = SHA256_CombineHashes\<rparr>"

section \<open>The tree\<close>

record Tree3D =
  tree_root :: bytes
  tree_nodeCache :: "(Address3D, bytes) gomap"
  tree_hasher :: TreeHasher
  tree_updates :: u64

definition NewTree3D :: Tree3D where
  "NewTree3D = \<lparr>tree_root = replicate 32 0, tree_nodeCache = [], tree_hasher = SHA256Hasher,
     tree_updates = 0\<rparr>"

definition NewTree3DCustom :: "TreeHasher \<Rightarrow> Tree3D" where
  "NewTree3DCustom hasher = \<lparr>tree_root = replicate 32 0, tree_nodeCache = [], tree_hasher = hasher,
     tree_updates = 0\<rparr>"

definition recomputeRoot :: "order \<Rightarrow> Tree3D \<Rightarrow> Tree3D" where
  "recomputeRoot ord t =
     (if length (tree_nodeCache t) = 0 then t\<lparr>tree_root := replicate 32 0\<rparr>
      else t\<lparr>tree_root := foldl (\<lambda>r (_, hash). th_CombineHashes (tree_hasher t) r hash) (replicate 32 0)
                (range_over ord (tree_nodeCache t))\<rparr>)"

text \<open>\<^verbatim>\<open>Update\<close> and \<^verbatim>\<open>Clear\<close> return an error that is always nil, so here they return the tree.\<close>

definition Tree_Update :: "order \<Rightarrow> Tree3D \<Rightarrow> Address3D \<Rightarrow> bytes \<Rightarrow> Tree3D" where
  "Tree_Update ord t addr data =
     (let nodeHash = th_Hash (tree_hasher t) data;
          t' = recomputeRoot ord (t\<lparr>tree_nodeCache := AList.update addr nodeHash (tree_nodeCache t)\<rparr>)
      in t'\<lparr>tree_updates := tree_updates t' + 1\<rparr>)"

definition GetRoot :: "Tree3D \<Rightarrow> bytes" where
  "GetRoot t = tree_root t"

definition GenerateProof :: "Tree3D \<Rightarrow> Address3D \<Rightarrow> bytes list" where
  "GenerateProof t addr =
     (case map_of (tree_nodeCache t) addr of Some hash \<Rightarrow> [hash] | None \<Rightarrow> [])"

definition VerifyProof :: "Tree3D \<Rightarrow> Address3D \<Rightarrow> bytes list \<Rightarrow> bytes \<Rightarrow> bool" where
  "VerifyProof t addr proof data =
     (if length proof = 0 then False
      else let expectedHash = th_Hash (tree_hasher t) data; actualHash = proof ! 0
        in if length expectedHash \<noteq> length actualHash then False
           else list_all (\<lambda>i. expectedHash ! i = actualHash ! i) [0..<length expectedHash])"

datatype StatValue = StatUint64 u64 | StatInt int | StatBytes bytes

definition GetStatistics :: "Tree3D \<Rightarrow> (string, StatValue) gomap" where
  "GetStatistics t =
     [(''updates'', StatUint64 (tree_updates t)),
      (''cached_nodes'', StatInt (int (length (tree_nodeCache t)))),
      (''root_hash'', StatBytes (tree_root t))]"

definition Clear :: "Tree3D \<Rightarrow> Tree3D" where
  "Clear t = t\<lparr>tree_nodeCache := [], tree_root := replicate 32 0, tree_updates := 0\<rparr>"

section \<open>What a sequence of updates leaves behind\<close>

type_synonym tree_write = "order \<times> Address3D \<times> bytes"

definition apply_writes :: "Tree3D \<Rightarrow> tree_write list \<Rightarrow> Tree3D" where
  "apply_writes t ws = foldl (\<lambda>t (ord, addr, data). Tree_Update ord t addr data) t ws"

lemma apply_writes_snoc:
  "apply_writes t (ws @ [(ord, addr, data)]) = Tree_Update ord (apply_writes t ws) addr data"
  by (simp add: apply_writes_def)

lemma Tree_Update_simps [simp]:
  "tree_hasher (Tree_Update ord t addr data) = tree_hasher t"
  "tree_nodeCache (Tree_Update ord t addr data) =
     AList.update addr (th_Hash (tree_hasher t) data) (tree_nodeCache t)"
  "tree_updates (Tree_Update ord t addr data) = tree_updates t + 1"
  by (simp_all add: Tree_Update_def recomputeRoot_def Let_def)

lemma apply_writes_hasher [simp]: "tree_hasher (apply_writes t ws) = tree_hasher t"
proof (induction ws rule: rev_induct)
  case Nil
  then show ?case by (simp add: apply_writes_def)
next
  case (snoc w ws)
  then show ?case by (cases w) (simp add: apply_writes_snoc)
qed

text \<open>The last data written to each address.\<close>

definition last_write :: "tree_write list \<Rightarrow> Address3D \<rightharpoonup> bytes" where
  "last_write ws = map_of (rev (map snd ws))"

lemma apply_writes_cache:
  "map_of (tree_nodeCache (apply_writes t ws)) a =
     (case last_write ws a of Some d \<Rightarrow> Some (th_Hash (tree_hasher t) d) | None \<Rightarrow> map_of (tree_nodeCache t) a)"
proof (induction ws rule: rev_induct)
  case Nil
  then show ?case by (simp add: apply_writes_def last_write_def)
next
  case (snoc w ws)
  obtain ord addr data where w: "w = (ord, addr, data)" by (cases w)
  show ?case
    using snoc.IH by (simp add: w apply_writes_snoc update_conv' last_write_def)
qed

lemma list_all_nth_eq:
  "length xs = length ys \<Longrightarrow> list_all (\<lambda>i. xs ! i = ys ! i) [0..<length xs] \<longleftrightarrow> xs = ys"
  unfolding list_all_iff using nth_equalityI [of xs ys] by auto

lemma VerifyProof_iff:
  "VerifyProof t addr path data \<longleftrightarrow> (\<exists>rest. path = th_Hash (tree_hasher t) data # rest)"
  using list_all_nth_eq [of "th_Hash (tree_hasher t) data" "path ! 0"]
  by (cases path) (auto simp: VerifyProof_def Let_def)

section \<open>The interface of a hasher\<close>

text \<open>
  What the tree needs of its hasher to keep a root of fixed width.  Any order in which the map
  is walked will do.
\<close>

locale fixed_width =
  fixes hasher :: TreeHasher
  assumes hash_width: "length (th_Hash hasher data) = 32"
    and combine_width: "length (th_CombineHashes hasher l r) = 32"
begin

lemma fold_width: "length r = 32 \<Longrightarrow> length (foldl (\<lambda>r (_, hash). th_CombineHashes hasher r hash) r es) = 32"
  by (induction es arbitrary: r) (auto simp: combine_width)

lemma root_width: "length (GetRoot (apply_writes (NewTree3DCustom hasher) ws)) = 32"
proof (induction ws rule: rev_induct)
  case Nil
  then show ?case by (simp add: apply_writes_def GetRoot_def NewTree3DCustom_def)
next
  case (snoc w ws)
  obtain ord addr data where w: "w = (ord, addr, data)" by (cases w)
  have "tree_hasher (apply_writes (NewTree3DCustom hasher) ws) = hasher"
    by (simp add: NewTree3DCustom_def)
  then show ?case
    by (simp add: w apply_writes_snoc GetRoot_def Tree_Update_def recomputeRoot_def Let_def fold_width)
qed

lemma proof_width: "proof_item \<in> set (GenerateProof (apply_writes (NewTree3DCustom hasher) ws) a) \<Longrightarrow> length proof_item = 32"
  using apply_writes_cache [of "NewTree3DCustom hasher" ws a]
  by (auto simp: GenerateProof_def NewTree3DCustom_def hash_width split: option.splits)

end

interpretation sha: fixed_width SHA256Hasher
  by unfold_locales (simp_all add: SHA256Hasher_def SHA256_Hash_def SHA256_CombineHashes_def)

lemma NewTree3D_custom: "NewTree3D = NewTree3DCustom SHA256Hasher"
  by (simp add: NewTree3D_def NewTree3DCustom_def)

section \<open>What a root binds\<close>

text \<open>The hashes in the order in which the root was computed, and the pairs that were combined on the way.\<close>

definition walked :: "order \<Rightarrow> Tree3D \<Rightarrow> bytes list" where
  "walked ord t = map snd (range_over ord (tree_nodeCache t))"

fun combined :: "(bytes \<Rightarrow> bytes \<Rightarrow> bytes) \<Rightarrow> bytes \<Rightarrow> bytes list \<Rightarrow> (bytes \<times> bytes) list" where
  "combined f z [] = []"
| "combined f z (x # xs) = (z, x) # combined f (f z x) xs"

definition collide :: "(bytes \<Rightarrow> bytes \<Rightarrow> bytes) \<Rightarrow> (bytes \<times> bytes) list \<Rightarrow> (bytes \<times> bytes) list \<Rightarrow> bool" where
  "collide f ps qs \<longleftrightarrow> (\<exists>p \<in> set ps. \<exists>q \<in> set qs. p \<noteq> q \<and> f (fst p) (snd p) = f (fst q) (snd q))"

lemma combined_snoc: "combined f z (xs @ [x]) = combined f z xs @ [(foldl f z xs, x)]"
  by (induction xs arbitrary: z) simp_all

lemma collide_append: "collide f ps qs \<Longrightarrow> collide f (ps @ ps') (qs @ qs')"
  unfolding collide_def set_append by blast

text \<open>A chain of combinations determines its inputs, or two of its own combinations collide.\<close>

lemma chain_binds:
  "length xs = length ys \<Longrightarrow> foldl f z xs = foldl f z ys \<Longrightarrow> xs = ys \<or> collide f (combined f z xs) (combined f z ys)"
proof (induction xs arbitrary: ys rule: rev_induct)
  case (snoc x xs)
  then obtain y ys' where ys: "ys = ys' @ [y]" "length xs = length ys'" by (cases ys rule: rev_cases) auto
  show ?case
  proof (cases "(foldl f z xs, x) = (foldl f z ys', y)")
    case True
    then show ?thesis using snoc.IH [OF ys(2)] collide_append by (auto simp: ys combined_snoc)
  next
    case False
    then show ?thesis using snoc.prems(2) by (fastforce simp: ys combined_snoc collide_def)
  qed
qed simp

lemma root_chain:
  assumes "valid_order ord"
  shows "GetRoot (Tree_Update ord t a d) =
    foldl (th_CombineHashes (tree_hasher t)) (replicate 32 0) (walked ord (Tree_Update ord t a d))"
proof -
  have "foldl (\<lambda>r (_, hash). f r hash) z es = foldl f z (map snd es)" for f :: "bytes \<Rightarrow> bytes \<Rightarrow> bytes" and z and es :: "(Address3D \<times> bytes) list"
    by (induction es arbitrary: z) auto
  moreover have "AList.update a v m \<noteq> []" for v and m :: "(Address3D, bytes) gomap" by (cases m) auto
  ultimately show ?thesis
    by (simp add: GetRoot_def Tree_Update_def recomputeRoot_def Let_def walked_def)
qed

section \<open>Properties\<close>

text \<open>
  C29.  Update, prove, verify.  After any sequence of updates of a new tree, whatever order the
  run time walks the map in, the proof generated for an address verifies against exactly the
  data whose hash is that of the last data written there; for an address that was never written
  the proof is empty and nothing verifies against it.
\<close>

theorem merkle_prove_verify:
  "VerifyProof (apply_writes (NewTree3DCustom h) ws) addr (GenerateProof (apply_writes (NewTree3DCustom h) ws) addr) data
     \<longleftrightarrow> (\<exists>d. last_write ws addr = Some d \<and> th_Hash h d = th_Hash h data)"
  using apply_writes_cache [of "NewTree3DCustom h" ws addr]
  by (auto simp: VerifyProof_iff GenerateProof_def NewTree3DCustom_def split: option.splits)

text \<open>
  Roots and proofs have the width of a digest: in a tree with the default hasher, after any
  updates, the root and every element of a proof have 32 bytes.
\<close>

theorem merkle_digest_width:
  "length (GetRoot (apply_writes NewTree3D ws)) = 32
     \<and> list_all (\<lambda>item. length item = 32) (GenerateProof (apply_writes NewTree3D ws) addr)"
  using sha.root_width [of ws] sha.proof_width [of _ ws addr] by (simp add: NewTree3D_custom list_all_iff)

text \<open>
  A proof says nothing about the tree or the address.  Verification depends only on the
  hasher: the same proof and data verify for every address in every tree with that hasher, even
  an empty one, and the hash of any data at all is accepted as a proof of it.  The root is not
  looked at.
\<close>

theorem merkle_proof_unbound:
  "VerifyProof t addr [th_Hash (tree_hasher t) data] data
   \<and> VerifyProof (t\<lparr>tree_root := r, tree_nodeCache := m\<rparr>) addr' path data = VerifyProof t addr path data"
  by (simp add: VerifyProof_iff)

text \<open>
  C30.  A root binds the hashes in the order in which the run time walked the map, and nothing
  less.  Take two trees with the same hasher and as many entries, each after any updates.  If
  their roots agree, then the same hashes were met in the same order when the roots were
  computed, or two of the combinations made for these roots are a collision of the hasher.  So
  one and the same contents, walked in two orders that meet different hashes, have different
  roots: the root is not a function of the contents.
\<close>

theorem merkle_root_order:
  fixes h :: TreeHasher
  defines "root_pairs \<equiv> combined (th_CombineHashes h) (replicate 32 0)"
    and "tree \<equiv> \<lambda>ws ord a d. apply_writes (NewTree3DCustom h) (ws @ [(ord, a, d)])"
  assumes "valid_order ord" "valid_order ord'"
    and "length (tree_nodeCache (tree ws ord a d)) = length (tree_nodeCache (tree ws' ord' a' d'))"
    and "\<not> collide (th_CombineHashes h) (root_pairs (walked ord (tree ws ord a d))) (root_pairs (walked ord' (tree ws' ord' a' d')))"
  shows "GetRoot (tree ws ord a d) = GetRoot (tree ws' ord' a' d')
    \<longleftrightarrow> walked ord (tree ws ord a d) = walked ord' (tree ws' ord' a' d')"
proof -
  have h: "tree_hasher (apply_writes (NewTree3DCustom h) ws) = h" for ws by (simp add: NewTree3DCustom_def)
  have r: "GetRoot (tree ws ord a d) = foldl (th_CombineHashes h) (replicate 32 0) (walked ord (tree ws ord a d))"
      "GetRoot (tree ws' ord' a' d') = foldl (th_CombineHashes h) (replicate 32 0) (walked ord' (tree ws' ord' a' d'))"
    unfolding tree_def apply_writes_snoc using root_chain [OF assms(3)] root_chain [OF assms(4)] h by simp_all
  have "length (walked ord (tree ws ord a d)) = length (walked ord' (tree ws' ord' a' d'))"
    using assms(3-5) by (simp add: walked_def)
  from chain_binds [OF this, of "th_CombineHashes h" "replicate 32 0"] show ?thesis
    using assms(6) unfolding r root_pairs_def by auto
qed

text \<open>The same two updates, with the map walked forwards and backwards by the second one.\<close>

theorem merkle_root_order_witness:
  "let tree = \<lambda>ord. apply_writes (NewTree3DCustom \<lparr>th_Hash = (\<lambda>d. d), th_CombineHashes = (@)\<rparr>)
         [(\<lambda>n. [0..<n], NewAddress 1 0 0, [1]), (ord, NewAddress 2 0 0, [2])]
   in tree_nodeCache (tree (\<lambda>n. [0..<n])) = tree_nodeCache (tree (\<lambda>n. rev [0..<n]))
     \<and> GetRoot (tree (\<lambda>n. [0..<n])) \<noteq> GetRoot (tree (\<lambda>n. rev [0..<n]))"
proof -
  let ?h = "\<lparr>th_Hash = (\<lambda>d. d), th_CombineHashes = (@)\<rparr> :: TreeHasher"
  let ?t = "\<lambda>ord. apply_writes (NewTree3DCustom ?h) ([(\<lambda>n. [0..<n], NewAddress 1 0 0, [1])] @ [(ord, NewAddress 2 0 0, [2])])"
  have v: "valid_order (\<lambda>n. rev [0..<n])" by (simp add: valid_order_def)
  have c: "tree_nodeCache (?t ord) = [(NewAddress 1 0 0, [1]), (NewAddress 2 0 0, [2])]" for ord
    unfolding apply_writes_snoc by (simp add: apply_writes_def NewTree3DCustom_def NewAddress_def)
  have w: "walked (\<lambda>n. [0..<n]) (?t ord) = [[1], [2]]" "walked (\<lambda>n. rev [0..<n]) (?t ord) = [[2], [1]]" for ord
    unfolding walked_def c by (simp_all add: range_over_def)
  have "\<not> collide (@) (combined (@) (replicate 32 0) [[1], [2]]) (combined (@) (replicate 32 0) [[2], [1]])"
    by (simp add: collide_def)
  then have "GetRoot (?t (\<lambda>n. [0..<n])) \<noteq> GetRoot (?t (\<lambda>n. rev [0..<n]))"
    using merkle_root_order [OF valid_order_upt v, of ?h "[(\<lambda>n. [0..<n], NewAddress 1 0 0, [1])]" "NewAddress 2 0 0" "[2]"
        "[(\<lambda>n. [0..<n], NewAddress 1 0 0, [1])]" "NewAddress 2 0 0" "[2]"]
    unfolding c w by simp
  then show ?thesis unfolding Let_def using c by simp
qed

end
