(* ===== verification/VM.thy ===== *)
theory VM
  imports BlockMemory Gas Instructions Spatial Merkle
begin

text \<open>
  \<^verbatim>\<open>internal/vm/vm.go\<close> and \<^verbatim>\<open>internal/vm/executor.go\<close>: the virtual machine, its instruction handlers,
  the execution loop and the entry points of its clients.  Every exported method holds the
  machine's mutex for its whole body, so a call is one atomic step.

  What the run time decides is an argument: the order in which maps are walked and the clock.
  A result is an option, for calls that may not return, of a panic or a value.  The prefetch
  goroutine that a cache miss starts touches only its own queue and is modelled with the cache.
\<close>

section \<open>State\<close>

type_synonym LogLevel = u8

definition LogLevelSilent :: LogLevel where "LogLevelSilent = 0"
definition LogLevelError :: LogLevel where "LogLevelError = 1"
definition LogLevelWarn :: LogLevel where "LogLevelWarn = 2"
definition LogLevelInfo :: LogLevel where "LogLevelInfo = 3"
definition LogLevelDebug :: LogLevel where "LogLevelDebug = 4"

record VMConfig =
  vc_MemorySize :: u64
  vc_GasLimit :: u64
  vc_EnableProof :: bool
  vc_EnableCompaction :: bool
  vc_MaxInstructions :: u64
  vc_LogLevel :: LogLevel

record VMStats =
  vs_InstructionsExecuted :: u64
  vs_TotalGasUsed :: u64
  vs_Allocations :: u64
  vs_MemoryUsage :: u64
  vs_YPromotions :: u64
  vs_StartTime :: u64
  vs_RunTime :: u64

record VM3D =
  vm_allocator :: Allocator3D
  vm_gasAccount :: GasAccountant3D
  vm_merkleTree :: "Tree3D option"
  vm_registers :: Registers
  vm_memory :: MemoryManager
  vm_cache :: SpatialCache
  vm_pc :: u64
  vm_halted :: bool
  vm_stats :: VMStats
  vm_latency :: "u64 list"
  vm_config :: VMConfig
  vm_paused :: bool

text \<open>The choices of the run time for one step.\<close>

record Runtime =
  rt_regions :: order
  rt_allocations :: order
  rt_nodes :: order
  rt_queued :: bool
  rt_now :: u64
  rt_latency :: u64

type_synonym 'a run = "'a go option"

definition run_bind :: "'a run \<Rightarrow> ('a \<Rightarrow> 'b run) \<Rightarrow> 'b run" where
  "run_bind r f = (case r of None \<Rightarrow> None | Some (Inl p) \<Rightarrow> Some (Inl p) | Some (Inr x) \<Rightarrow> f x)"

lemma run_bind_simps [simp]:
  "run_bind None f = None" "run_bind (Some (Inl p)) f = Some (Inl p)" "run_bind (Some (Inr x)) f = f x"
  by (simp_all add: run_bind_def)

definition vm_ok :: "VM3D \<Rightarrow> (VM3D \<times> error option) run" where
  "vm_ok vm = Some (Inr (vm, None))"

definition vm_fail :: "VM3D \<Rightarrow> error \<Rightarrow> (VM3D \<times> error option) run" where
  "vm_fail vm e = Some (Inr (vm, Some e))"

definition VM_allocConfig :: Config where
  "VM_allocConfig = \<lparr>cfg_PlaneSize = PlaneSize, cfg_MaxYPlanes = 1024, cfg_MaxYPromotions = 8,
     cfg_WorkerCount = 4, cfg_EnableConcurrent = False, cfg_EnablePooling = False\<rparr>"

definition NewVM3D :: "VMConfig \<Rightarrow> u64 \<Rightarrow> VM3D" where
  "NewVM3D config now =
     \<lparr>vm_allocator = NewAllocator3D VM_allocConfig, vm_gasAccount = NewAccountant (vc_GasLimit config),
      vm_merkleTree = (if vc_EnableProof config then Some NewTree3D else None),
      vm_registers = NewRegisters, vm_memory = NewMemoryManager, vm_cache = NewSpatialCache,
      vm_pc = 0, vm_halted = False,
      vm_stats = \<lparr>vs_InstructionsExecuted = 0, vs_TotalGasUsed = 0, vs_Allocations = 0, vs_MemoryUsage = 0,
        vs_YPromotions = 0, vs_StartTime = now, vs_RunTime = 0\<rparr>,
      vm_latency = [], vm_config = config, vm_paused = False\<rparr>"

definition VM_Shutdown :: "VM3D \<Rightarrow> VM3D go" where
  "VM_Shutdown vm = go_bind (Allocator_Shutdown (vm_allocator vm)) (\<lambda>a. Inr (vm\<lparr>vm_allocator := a\<rparr>))"

definition IsAllocatorConcurrent :: "VM3D \<Rightarrow> bool" where
  "IsAllocatorConcurrent vm = IsConcurrent (vm_allocator vm)"

section \<open>Instruction handlers\<close>

text \<open>The type assertions on an operand, and the early return when one fails.\<close>

definition as_address :: "Operand \<Rightarrow> Address3D option" where
  "as_address opd = (case op_Value opd of VAddress a \<Rightarrow> Some a | _ \<Rightarrow> None)"

definition as_uint32 :: "Operand \<Rightarrow> u32 option" where
  "as_uint32 opd = (case op_Value opd of VUint32 n \<Rightarrow> Some n | _ \<Rightarrow> None)"

definition as_register :: "Operand \<Rightarrow> Register option" where
  "as_register opd = (case op_Value opd of VRegister r \<Rightarrow> Some r | _ \<Rightarrow> None)"

definition as_regionType :: "Operand \<Rightarrow> RegionType option" where
  "as_regionType opd = (case op_Value opd of VRegionType t \<Rightarrow> Some t | _ \<Rightarrow> None)"

definition as_flags :: "Operand \<Rightarrow> AllocationFlags option" where
  "as_flags opd = (case op_Value opd of VFlags f \<Rightarrow> Some f | _ \<Rightarrow> None)"

definition as_byte :: "Operand \<Rightarrow> u8 option" where
  "as_byte opd = (case op_Value opd of VByte b \<Rightarrow> Some b | _ \<Rightarrow> None)"

definition vm_need :: "VM3D \<Rightarrow> 'a option \<Rightarrow> string \<Rightarrow> ('a \<Rightarrow> (VM3D \<times> error option) run) \<Rightarrow> (VM3D \<times> error option) run" where
  "vm_need vm v what k = (case v of None \<Rightarrow> vm_fail vm (InvalidOperand what) | Some x \<Rightarrow> k x)"

lemma vm_need_simps [simp]: "vm_need vm (Some x) what k = k x" "vm_need vm None what k = vm_fail vm (InvalidOperand what)"
  by (simp_all add: vm_need_def)

text \<open>Each memory handler is its operand checks followed by its effect on the checked operands.\<close>

definition mload :: "Runtime \<Rightarrow> VM3D \<Rightarrow> Address3D \<Rightarrow> u32 \<Rightarrow> Register \<Rightarrow> (VM3D \<times> error option) run" where
  "mload rt vm addr sz reg =
     (let (cache, hit) = Cache_Get (vm_cache vm) addr; vm1 = vm\<lparr>vm_cache := cache\<rparr>;
          miss = (case MM_Load3D (rt_allocations rt) (vm_allocator vm) (vm_memory vm) addr sz (rt_now rt) of
              Inl p \<Rightarrow> Some (Inl p)
            | Inr (mm, Inl e) \<Rightarrow> vm_fail (vm1\<lparr>vm_memory := mm\<rparr>) (Wrapped ''MLOAD3D failed'' e)
            | Inr (mm, Inr data) \<Rightarrow>
                vm_ok (vm1\<lparr>vm_cache := Cache_Put cache addr data, vm_registers := Reg_Set (vm_registers vm) reg data,
                  vm_memory := MM_UpdateAccess mm addr (rt_now rt)\<rparr>))
      in case hit of
           None \<Rightarrow> miss
         | Some data \<Rightarrow>
             if of_nat (length data) \<ge> sz
             then vm_ok (vm1\<lparr>vm_registers := Reg_Set (vm_registers vm) reg (take (unat sz) data)\<rparr>)
             else miss)"

definition executeMLoad3D :: "Runtime \<Rightarrow> VM3D \<Rightarrow> Instruction3D \<Rightarrow> (VM3D \<times> error option) run" where
  "executeMLoad3D rt vm inst =
     (if length (inst_Operands inst) \<noteq> 3 then vm_fail vm (RequiresOperands ''MLOAD3D'' 3)
      else vm_need vm (as_address (inst_Operands inst ! 0)) ''address'' (\<lambda>addr.
        vm_need vm (as_uint32 (inst_Operands inst ! 1)) ''size'' (\<lambda>sz.
        vm_need vm (as_register (inst_Operands inst ! 2)) ''register'' (\<lambda>reg. mload rt vm addr sz reg))))"

definition mstore :: "Runtime \<Rightarrow> VM3D \<Rightarrow> Address3D \<Rightarrow> Register \<Rightarrow> u32 \<Rightarrow> (VM3D \<times> error option) run" where
  "mstore rt vm addr reg sz =
     (let data = Reg_Get (vm_registers vm) reg
      in if of_nat (length data) < sz then vm_fail vm RegisterDataTooSmall
         else (case MM_Store3D (rt_allocations rt) (vm_allocator vm) (vm_memory vm) addr (take (unat sz) data) (rt_now rt) of
             Inl p \<Rightarrow> Some (Inl p)
           | Inr (a, mm, Some e) \<Rightarrow>
               vm_fail (vm\<lparr>vm_allocator := a, vm_memory := mm\<rparr>) (Wrapped ''MSTORE3D failed'' e)
           | Inr (a, mm, None) \<Rightarrow>
               vm_ok (vm\<lparr>vm_allocator := a, vm_cache := Cache_Put (vm_cache vm) addr (take (unat sz) data),
                    vm_merkleTree := map_option (\<lambda>t. Tree_Update (rt_nodes rt) t addr (take (unat sz) data))
                      (vm_merkleTree vm),
                    vm_memory := MM_UpdateAccess mm addr (rt_now rt)\<rparr>)))"

definition executeMStore3D :: "Runtime \<Rightarrow> VM3D \<Rightarrow> Instruction3D \<Rightarrow> (VM3D \<times> error option) run" where
  "executeMStore3D rt vm inst =
     (if length (inst_Operands inst) \<noteq> 3 then vm_fail vm (RequiresOperands ''MSTORE3D'' 3)
      else vm_need vm (as_address (inst_Operands inst ! 0)) ''address'' (\<lambda>addr.
        vm_need vm (as_register (inst_Operands inst ! 1)) ''register'' (\<lambda>reg.
        vm_need vm (as_uint32 (inst_Operands inst ! 2)) ''size'' (\<lambda>sz. mstore rt vm addr reg sz))))"

definition malloc3d ::
  "Runtime \<Rightarrow> VM3D \<Rightarrow> u32 \<Rightarrow> RegionType \<Rightarrow> AllocationFlags \<Rightarrow> (VM3D \<times> error option) run" where
  "malloc3d rt vm sz regionType flags =
     run_bind (Allocate (rt_queued rt) (rt_regions rt) (vm_allocator vm) sz regionType flags (rt_now rt))
       (\<lambda>(a, alloc, err). case err of
           Some e \<Rightarrow> vm_fail (vm\<lparr>vm_allocator := a\<rparr>) (Wrapped ''MALLOC3D failed'' e)
         | None \<Rightarrow> (case alloc of
               None \<Rightarrow> Some (Inl NilDereference)
             | Some al \<Rightarrow>
                 let stats = vm_stats vm
                 in vm_ok (vm\<lparr>vm_allocator := a,
                      vm_registers := SetAddress (vm_registers vm) R0 (alloc_Address al),
                      vm_memory := trackAllocation (vm_memory vm) al (rt_now rt),
                      vm_stats := stats\<lparr>vs_Allocations := vs_Allocations stats + 1,
                        vs_YPromotions := vs_YPromotions stats + (if IsYPromoted al then 1 else 0)\<rparr>\<rparr>)))"

definition executeMAlloc3D :: "Runtime \<Rightarrow> VM3D \<Rightarrow> Instruction3D \<Rightarrow> (VM3D \<times> error option) run" where
  "executeMAlloc3D rt vm inst =
     (if length (inst_Operands inst) \<noteq> 3 then vm_fail vm (RequiresOperands ''MALLOC3D'' 3)
      else vm_need vm (as_uint32 (inst_Operands inst ! 0)) ''size'' (\<lambda>sz.
        vm_need vm (as_regionType (inst_Operands inst ! 1)) ''region type'' (\<lambda>regionType.
          malloc3d rt vm sz regionType
            (case as_flags (inst_Operands inst ! 2) of Some f \<Rightarrow> f | None \<Rightarrow> 0))))"

definition mfree :: "Runtime \<Rightarrow> VM3D \<Rightarrow> Address3D \<Rightarrow> (VM3D \<times> error option) run" where
  "mfree rt vm addr =
     (case getAllocation (rt_allocations rt) (vm_memory vm) addr of
        None \<Rightarrow> vm_fail vm AllocationNotFound
      | Some alloc \<Rightarrow>
          (let (a, err) = Allocator_Free (vm_allocator vm) alloc
           in case err of
                Some e \<Rightarrow> vm_fail (vm\<lparr>vm_allocator := a\<rparr>) (Wrapped ''MFREE3D failed'' e)
              | None \<Rightarrow> vm_ok (vm\<lparr>vm_allocator := a,
                  vm_memory := untrackAllocation (vm_memory vm) addr (rt_now rt),
                  vm_cache := Cache_Invalidate (vm_cache vm) addr\<rparr>)))"

definition executeMFree3D :: "Runtime \<Rightarrow> VM3D \<Rightarrow> Instruction3D \<Rightarrow> (VM3D \<times> error option) run" where
  "executeMFree3D rt vm inst =
     (if length (inst_Operands inst) \<noteq> 1 then vm_fail vm (RequiresOperands ''MFREE3D'' 1)
      else vm_need vm (as_address (inst_Operands inst ! 0)) ''address'' (\<lambda>addr. mfree rt vm addr))"

definition mcopy :: "Runtime \<Rightarrow> VM3D \<Rightarrow> Address3D \<Rightarrow> Address3D \<Rightarrow> u32 \<Rightarrow> (VM3D \<times> error option) run" where
  "mcopy rt vm srcAddr dstAddr sz =
     (case MM_Load3D (rt_allocations rt) (vm_allocator vm) (vm_memory vm) srcAddr sz (rt_now rt) of
        Inl p \<Rightarrow> Some (Inl p)
      | Inr (mm, Inl e) \<Rightarrow> vm_fail (vm\<lparr>vm_memory := mm\<rparr>) (Wrapped ''MCOPY3D failed to load source'' e)
      | Inr (mm, Inr data) \<Rightarrow>
          (case MM_Store3D (rt_allocations rt) (vm_allocator vm) mm dstAddr data (rt_now rt) of
             Inl p \<Rightarrow> Some (Inl p)
           | Inr (a, mm', Some e) \<Rightarrow>
               vm_fail (vm\<lparr>vm_allocator := a, vm_memory := mm'\<rparr>) (Wrapped ''MCOPY3D failed to store destination'' e)
           | Inr (a, mm', None) \<Rightarrow>
               vm_ok (vm\<lparr>vm_allocator := a, vm_memory := mm',
                    vm_cache := Cache_Put (Cache_Put (vm_cache vm) srcAddr data) dstAddr data\<rparr>)))"

definition executeMCopy3D :: "Runtime \<Rightarrow> VM3D \<Rightarrow> Instruction3D \<Rightarrow> (VM3D \<times> error option) run" where
  "executeMCopy3D rt vm inst =
     (if length (inst_Operands inst) \<noteq> 3 then vm_fail vm (RequiresOperands ''MCOPY3D'' 3)
      else vm_need vm (as_address (inst_Operands inst ! 0)) ''source address'' (\<lambda>srcAddr.
        vm_need vm (as_address (inst_Operands inst ! 1)) ''destination address'' (\<lambda>dstAddr.
        vm_need vm (as_uint32 (inst_Operands inst ! 2)) ''size'' (\<lambda>sz. mcopy rt vm srcAddr dstAddr sz))))"

text \<open>
  \<^verbatim>\<open>allocInfoToBytes\<close> fills a buffer of 32 bytes.  \<^verbatim>\<open>float64ToBytes\<close> needs the bit pattern of a
  floating point number, which is a parameter, as the fragmentation is an exact rational here.
\<close>

definition allocInfoToBytes :: "Allocation \<Rightarrow> bytes" where
  "allocInfoToBytes alloc =
     put_be 8 (alloc_ID alloc) @ put_be 4 (alloc_Size alloc) @ [alloc_Flags alloc, if IsYPromoted alloc then 1 else 0]
       @ replicate 18 0"

definition float64ToBytes :: "(rat \<Rightarrow> u64) \<Rightarrow> rat \<Rightarrow> bytes" where
  "float64ToBytes float64bits f = put_be 8 (float64bits f)"

definition QueryFreeMemory :: u8 where "QueryFreeMemory = 0"
definition QueryFragmentation :: u8 where "QueryFragmentation = 1"
definition QueryAllocationInfo :: u8 where "QueryAllocationInfo = 2"
definition QueryGasRemaining :: u8 where "QueryGasRemaining = 3"
definition QueryMemoryUsage :: u8 where "QueryMemoryUsage = 4"

definition executeMQuery3D ::
  "(rat \<Rightarrow> u64) \<Rightarrow> Runtime \<Rightarrow> VM3D \<Rightarrow> Instruction3D \<Rightarrow> (VM3D \<times> error option) run" where
  "executeMQuery3D float64bits rt vm inst =
     (if length (inst_Operands inst) \<noteq> 3 then vm_fail vm (RequiresOperands ''MQUERY3D'' 3)
      else vm_need vm (as_byte (inst_Operands inst ! 0)) ''query type'' (\<lambda>queryType.
        vm_need vm (as_address (inst_Operands inst ! 1)) ''address'' (\<lambda>addr.
        vm_need vm (as_register (inst_Operands inst ! 2)) ''register'' (\<lambda>reg.
          let answer = (\<lambda>res. vm_ok (vm\<lparr>vm_registers := Reg_Set (vm_registers vm) reg res\<rparr>))
          in if queryType = QueryFreeMemory then
               run_bind (Some (GetFreeMemory (vm_allocator vm) (vm_memory vm) (addr_X addr)))
                 (\<lambda>free. answer (uint64ToBytes free))
             else if queryType = QueryFragmentation then
               run_bind (Some (GetFragmentation (vm_allocator vm) (addr_X addr)))
                 (\<lambda>frag. answer (float64ToBytes float64bits frag))
             else if queryType = QueryAllocationInfo then
               (case getAllocation (rt_allocations rt) (vm_memory vm) addr of
                  Some alloc \<Rightarrow> answer (allocInfoToBytes alloc)
                | None \<Rightarrow> answer (replicate 32 0))
             else vm_fail vm (UnknownQueryType queryType)))))"

definition executeNOP :: "VM3D \<Rightarrow> (VM3D \<times> error option) run" where
  "executeNOP vm = vm_ok vm"

definition executeAdd3D :: "VM3D \<Rightarrow> Instruction3D \<Rightarrow> (VM3D \<times> error option) run" where
  "executeAdd3D vm inst =
     (if length (inst_Operands inst) \<noteq> 3 then vm_fail vm (RequiresOperands ''ADD3D'' 3)
      else vm_need vm (as_register (inst_Operands inst ! 0)) ''destination register'' (\<lambda>destReg.
        vm_need vm (as_register (inst_Operands inst ! 1)) ''source register 1'' (\<lambda>srcReg1.
        vm_need vm (as_register (inst_Operands inst ! 2)) ''source register 2'' (\<lambda>srcReg2.
          let val1 = GetUint64 (vm_registers vm) srcReg1; val2 = GetUint64 (vm_registers vm) srcReg2
          in vm_ok (vm\<lparr>vm_registers := SetUint64 (vm_registers vm) destReg (val1 + val2)\<rparr>)))))"

definition executeSub3D :: "VM3D \<Rightarrow> Instruction3D \<Rightarrow> (VM3D \<times> error option) run" where
  "executeSub3D vm inst =
     (if length (inst_Operands inst) \<noteq> 3 then vm_fail vm (RequiresOperands ''SUB3D'' 3)
      else vm_need vm (as_register (inst_Operands inst ! 0)) ''destination register'' (\<lambda>destReg.
        vm_need vm (as_register (inst_Operands inst ! 1)) ''source register 1'' (\<lambda>srcReg1.
        vm_need vm (as_register (inst_Operands inst ! 2)) ''source register 2'' (\<lambda>srcReg2.
          let val1 = GetUint64 (vm_registers vm) srcReg1; val2 = GetUint64 (vm_registers vm) srcReg2
          in vm_ok (vm\<lparr>vm_registers := SetUint64 (vm_registers vm) destReg (val1 - val2)\<rparr>)))))"

definition executeMov3D :: "VM3D \<Rightarrow> Instruction3D \<Rightarrow> (VM3D \<times> error option) run" where
  "executeMov3D vm inst =
     (if length (inst_Operands inst) \<noteq> 2 then vm_fail vm (RequiresOperands ''MOV3D'' 2)
      else vm_need vm (as_register (inst_Operands inst ! 0)) ''destination register'' (\<lambda>destReg.
        vm_need vm (as_register (inst_Operands inst ! 1)) ''source register'' (\<lambda>srcReg.
          vm_ok (vm\<lparr>vm_registers := Reg_Set (vm_registers vm) destReg (Reg_Get (vm_registers vm) srcReg)\<rparr>))))"

definition executeMSize3D :: "Runtime \<Rightarrow> VM3D \<Rightarrow> Instruction3D \<Rightarrow> (VM3D \<times> error option) run" where
  "executeMSize3D rt vm inst =
     (if length (inst_Operands inst) \<noteq> 2 then vm_fail vm (RequiresOperands ''MSIZE3D'' 2)
      else vm_need vm (as_address (inst_Operands inst ! 0)) ''address'' (\<lambda>addr.
        vm_need vm (as_register (inst_Operands inst ! 1)) ''destination register'' (\<lambda>destReg.
          case getAllocation (rt_allocations rt) (vm_memory vm) addr of
            None \<Rightarrow> vm_ok (vm\<lparr>vm_registers := SetUint64 (vm_registers vm) destReg 0\<rparr>)
          | Some alloc \<Rightarrow> vm_ok (vm\<lparr>vm_registers := SetUint64 (vm_registers vm) destReg (ucast (alloc_Size alloc))\<rparr>))))"

definition executeHalt3D :: "VM3D \<Rightarrow> (VM3D \<times> error option) run" where
  "executeHalt3D vm = vm_ok (vm\<lparr>vm_halted := True\<rparr>)"

definition executeMCompact3D :: "Runtime \<Rightarrow> (Plane \<Rightarrow> order) \<Rightarrow> VM3D \<Rightarrow> (VM3D \<times> error option) run" where
  "executeMCompact3D rt pord vm =
     (let config = DefaultCompactionConfig;
          allocsToMove = AnalyzeCompaction (rt_regions rt) pord (vm_allocator vm) config
      in if length allocsToMove = 0 then vm_ok vm
         else let compactedSize = foldl (\<lambda>s _. s + 100) (0 :: u64) allocsToMove;
                  gasRefund = of_int \<lfloor>of_nat (unat compactedSize) * GasRefundPercentage config\<rfloor> :: u64;
                  stats = vm_stats vm;
                  stats' = (if vs_MemoryUsage stats > compactedSize
                    then stats\<lparr>vs_MemoryUsage := vs_MemoryUsage stats + NOT (compactedSize - 1)\<rparr> else stats)
           in if gasRefund > 0 then
                run_bind (Some (Refund (vm_gasAccount vm) gasRefund))
                  (\<lambda>g. vm_ok (vm\<lparr>vm_gasAccount := g, vm_stats := stats'\<rparr>))
              else vm_ok (vm\<lparr>vm_stats := stats'\<rparr>))"

section \<open>Execution\<close>

definition baseCost :: "Opcode \<Rightarrow> u64" where
  "baseCost opcode =
     (if opcode = OP_MLOAD3D then 10 else if opcode = OP_MSTORE3D then 15 else if opcode = OP_MALLOC3D then 20
      else if opcode = OP_MFREE3D then 5 else if opcode = OP_MCOPY3D then 25 else if opcode = OP_MQUERY3D then 8
      else if opcode = OP_MCOMPACT3D then 30 else if opcode = OP_NOP then 1 else if opcode = OP_ADD3D then 3
      else if opcode = OP_SUB3D then 3 else if opcode = OP_MOV3D then 2 else if opcode = OP_MSIZE3D then 5
      else if opcode = OP_HALT3D then 1 else 0)"

definition operandCost :: "Operand \<Rightarrow> u64" where
  "operandCost opd =
     (if op_Type opd = OT_SIZE then (case as_uint32 opd of Some sz \<Rightarrow> ucast sz * 2 | None \<Rightarrow> 0) else 0)"

definition calculateGasCost :: "Instruction3D \<Rightarrow> u64" where
  "calculateGasCost inst = foldl (\<lambda>cost opd. cost + operandCost opd) (baseCost (inst_Opcode inst)) (inst_Operands inst)"

text \<open>The switch over the opcode, and the whole of an instruction with its payment.\<close>

definition dispatch ::
  "(rat \<Rightarrow> u64) \<Rightarrow> (Plane \<Rightarrow> order) \<Rightarrow> Runtime \<Rightarrow> VM3D \<Rightarrow> Instruction3D \<Rightarrow> (VM3D \<times> error option) run" where
  "dispatch float64bits pord rt vm inst =
     (let opcode = inst_Opcode inst
      in if opcode = OP_MLOAD3D then executeMLoad3D rt vm inst
         else if opcode = OP_MSTORE3D then executeMStore3D rt vm inst
         else if opcode = OP_MALLOC3D then executeMAlloc3D rt vm inst
         else if opcode = OP_MFREE3D then executeMFree3D rt vm inst
         else if opcode = OP_MCOPY3D then executeMCopy3D rt vm inst
         else if opcode = OP_MQUERY3D then executeMQuery3D float64bits rt vm inst
         else if opcode = OP_MCOMPACT3D then executeMCompact3D rt pord vm
         else if opcode = OP_NOP then executeNOP vm
         else if opcode = OP_ADD3D then executeAdd3D vm inst
         else if opcode = OP_SUB3D then executeSub3D vm inst
         else if opcode = OP_MOV3D then executeMov3D vm inst
         else if opcode = OP_MSIZE3D then executeMSize3D rt vm inst
         else if opcode = OP_HALT3D then executeHalt3D vm
         else vm_fail vm (UnsupportedOpcode opcode))"

definition executeInstruction ::
  "(rat \<Rightarrow> u64) \<Rightarrow> (Plane \<Rightarrow> order) \<Rightarrow> Runtime \<Rightarrow> VM3D \<Rightarrow> Instruction3D \<Rightarrow> (VM3D \<times> error option) run" where
  "executeInstruction float64bits pord rt vm inst =
     run_bind (Some (Consume (vm_gasAccount vm) (calculateGasCost inst))) (\<lambda>(g, err).
       case err of
         Some e \<Rightarrow> vm_fail (vm\<lparr>vm_gasAccount := g\<rparr>) e
       | None \<Rightarrow> dispatch float64bits pord rt (vm\<lparr>vm_gasAccount := g\<rparr>) inst)"

section \<open>The execution loop\<close>

lemma run_bind_cong [fundef_cong]:
  "r = r' \<Longrightarrow> (\<And>x. r' = Some (Inr x) \<Longrightarrow> f x = g x) \<Longrightarrow> run_bind r f = run_bind r' g"
  by (simp add: run_bind_def split: option.split sum.split)

text \<open>What holds of the state when a call returns normally; and that it does.\<close>

definition run_post :: "'a run \<Rightarrow> ('a \<Rightarrow> bool) \<Rightarrow> bool" where
  "run_post r P \<longleftrightarrow> (\<forall>x. r = Some (Inr x) \<longrightarrow> P x)"

definition returns :: "'a run \<Rightarrow> ('a \<Rightarrow> bool) \<Rightarrow> bool" where
  "returns r P \<longleftrightarrow> (\<exists>x. r = Some (Inr x) \<and> P x)"

named_theorems run_simps "how the two judgements pass through a handler"

lemma run_post_simps [run_simps]:
  "run_post (vm_ok vm) P \<longleftrightarrow> P (vm, None)"
  "run_post (vm_fail vm e) P \<longleftrightarrow> P (vm, Some e)"
  "run_post (vm_need vm v w k) P \<longleftrightarrow> (case v of None \<Rightarrow> P (vm, Some (InvalidOperand w)) | Some x \<Rightarrow> run_post (k x) P)"
  "run_post (run_bind r f) P \<longleftrightarrow> run_post r (\<lambda>x. run_post (f x) P)"
  "run_post (Some (Inl p)) P" "run_post None P" "run_post (Some (Inr x)) P = P x"
  by (auto simp: run_post_def vm_ok_def vm_fail_def vm_need_def run_bind_def split: option.splits sum.splits)

lemma returns_simps [run_simps]:
  "returns (vm_ok vm) P \<longleftrightarrow> P (vm, None)"
  "returns (vm_fail vm e) P \<longleftrightarrow> P (vm, Some e)"
  "returns (vm_need vm v w k) P \<longleftrightarrow> (case v of None \<Rightarrow> P (vm, Some (InvalidOperand w)) | Some x \<Rightarrow> returns (k x) P)"
  "returns (run_bind r f) P \<longleftrightarrow> returns r (\<lambda>x. returns (f x) P)"
  "\<not> returns (Some (Inl p)) P" "\<not> returns None P" "returns (Some (Inr x)) P = P x"
  by (auto simp: returns_def vm_ok_def vm_fail_def vm_need_def run_bind_def split: option.splits sum.splits)

lemma returns_value [simp]: "returns (Some (Inr x)) P = P x"
  by (simp add: returns_def)

lemma returns_bind [simp]: "returns (run_bind r f) P \<longleftrightarrow> returns r (\<lambda>x. returns (f x) P)"
  by (auto simp: returns_def run_bind_def split: option.splits sum.splits)

lemma run_if [run_simps]:
  "run_post (if b then r else s) P = (if b then run_post r P else run_post s P)"
  "returns (if b then r else s) P = (if b then returns r P else returns s P)"
  by simp_all

text \<open>No handler touches the program counter, the configuration or the instruction count.\<close>

definition vm_frame :: "VM3D \<Rightarrow> VM3D \<Rightarrow> bool" where
  "vm_frame vm vm' \<longleftrightarrow> vm_pc vm' = vm_pc vm \<and> vm_config vm' = vm_config vm \<and> vm_paused vm' = vm_paused vm
     \<and> vs_InstructionsExecuted (vm_stats vm') = vs_InstructionsExecuted (vm_stats vm)
     \<and> vm_latency vm' = vm_latency vm"

lemma handler_frames:
  "run_post (executeMLoad3D rt vm inst) (\<lambda>(vm', e). vm_frame vm vm')"
  "run_post (executeMStore3D rt vm inst) (\<lambda>(vm', e). vm_frame vm vm')"
  "run_post (executeMAlloc3D rt vm inst) (\<lambda>(vm', e). vm_frame vm vm')"
  "run_post (executeMFree3D rt vm inst) (\<lambda>(vm', e). vm_frame vm vm')"
  "run_post (executeMCopy3D rt vm inst) (\<lambda>(vm', e). vm_frame vm vm')"
  "run_post (executeMQuery3D fb rt vm inst) (\<lambda>(vm', e). vm_frame vm vm')"
  "run_post (executeMCompact3D rt pord vm) (\<lambda>(vm', e). vm_frame vm vm')"
  "run_post (executeNOP vm) (\<lambda>(vm', e). vm_frame vm vm')"
  "run_post (executeAdd3D vm inst) (\<lambda>(vm', e). vm_frame vm vm')"
  "run_post (executeSub3D vm inst) (\<lambda>(vm', e). vm_frame vm vm')"
  "run_post (executeMov3D vm inst) (\<lambda>(vm', e). vm_frame vm vm')"
  "run_post (executeMSize3D rt vm inst) (\<lambda>(vm', e). vm_frame vm vm')"
  "run_post (executeHalt3D vm) (\<lambda>(vm', e). vm_frame vm vm')"
  subgoal by (auto simp: executeMLoad3D_def mload_def run_simps vm_frame_def Let_def split: option.split prod.split sum.split)
  subgoal by (auto simp: executeMStore3D_def mstore_def run_simps vm_frame_def Let_def split: option.split prod.split sum.split)
  subgoal by (auto simp: executeMAlloc3D_def malloc3d_def run_simps vm_frame_def Let_def run_post_def [of "Allocate _ _ _ _ _ _ _"] split: option.split prod.split sum.split)
  subgoal by (auto simp: executeMFree3D_def mfree_def run_simps vm_frame_def Let_def split: option.split prod.split sum.split)
  subgoal by (auto simp: executeMCopy3D_def mcopy_def run_simps vm_frame_def Let_def split: option.split prod.split sum.split)
  subgoal by (auto simp: executeMQuery3D_def run_simps vm_frame_def Let_def run_post_def [of "Some _"] split: option.split prod.split sum.split)
  subgoal by (auto simp: executeMCompact3D_def run_simps vm_frame_def Let_def run_post_def [of "Some _"] split: option.split prod.split sum.split)
  subgoal by (simp add: executeNOP_def run_simps vm_frame_def)
  subgoal by (auto simp: executeAdd3D_def run_simps vm_frame_def Let_def split: option.split)
  subgoal by (auto simp: executeSub3D_def run_simps vm_frame_def Let_def split: option.split)
  subgoal by (auto simp: executeMov3D_def run_simps vm_frame_def Let_def split: option.split)
  subgoal by (auto simp: executeMSize3D_def run_simps vm_frame_def Let_def split: option.split)
  subgoal by (simp add: executeHalt3D_def run_simps vm_frame_def)
  done


lemma dispatch_frame: "run_post (dispatch fb pord rt vm inst) (\<lambda>(vm', e). vm_frame vm vm')"
proof -
  have "vm_frame vm vm" by (simp add: vm_frame_def)
  then show ?thesis
    unfolding dispatch_def Let_def by (simp only: run_if handler_frames run_post_simps(2) if_cancel prod.case)
qed

lemma executeInstruction_frame:
  "run_post (executeInstruction fb pord rt vm inst) (\<lambda>(vm', e). vm_frame vm vm')"
proof (cases "Consume (vm_gasAccount vm) (calculateGasCost inst)")
  case (Inr r)
  have "vm_frame (vm\<lparr>vm_gasAccount := g\<rparr>) = vm_frame vm" "vm_frame vm (vm\<lparr>vm_gasAccount := g\<rparr>)" for g
    by (simp_all add: vm_frame_def fun_eq_iff)
  then show ?thesis
    using dispatch_frame [of fb pord rt "vm\<lparr>vm_gasAccount := fst r\<rparr>" inst]
    by (cases r) (simp add: executeInstruction_def Inr run_simps split: option.split)
qed (simp add: executeInstruction_def run_simps)

lemma instSize_pos: "0 < unat (instSize opc)"
  by (simp add: instSize_def)

lemma fetch_advances:
  assumes "fetchInstruction pc program = Inr (Inr inst)" "pc < of_nat (length program)"
  shows "unat (pc + ucast (inst_Size inst)) = unat pc + unat (inst_Size inst)"
    "0 < unat (inst_Size inst)"
    "unat pc + unat (inst_Size inst) \<le> unat (of_nat (length program) :: u64)"
proof -
  define remaining where "remaining = (of_nat (length program) - pc :: u64)"
  define sz where "sz = instSize (program ! unat pc)"
  have f: "\<not> remaining < 1" "\<not> unat pc \<ge> length program" "\<not> ucast sz > remaining"
    "DecodeInstruction (slice (unat pc) (unat pc + unat sz) program) = Inr inst"
    using assms(1) unfolding fetchInstruction_def Let_def remaining_def [symmetric] sz_def [symmetric]
    by (auto split: if_splits)
  have "0 < unat sz" unfolding sz_def by (rule instSize_pos)
  then have "slice (unat pc) (unat pc + unat sz) program ! 0 = program ! unat pc"
    using f(2) by (simp add: slice_def)
  then have i: "inst_Size inst = sz" using decoded_shape(3) [OF f(4)] by (simp add: sz_def)
  show "0 < unat (inst_Size inst)" using \<open>0 < unat sz\<close> by (simp add: i)
  have r: "unat remaining = unat (of_nat (length program) :: u64) - unat pc"
    using assms(2) by (simp add: remaining_def unat_sub less_imp_le)
  have "unat sz \<le> unat remaining" using f(3) by (simp add: not_less word_le_nat_alt)
  then show le: "unat pc + unat (inst_Size inst) \<le> unat (of_nat (length program) :: u64)"
    using r assms(2) by (simp add: i word_less_nat_alt)
  have "unat (of_nat (length program) :: u64) < 2 ^ LENGTH(64)" by (rule unsigned_less)
  then have "unat pc + unat (ucast (inst_Size inst) :: u64) < 2 ^ LENGTH(64)" using le by (simp only: unat_ucast_widen)
  then have "unat (pc + ucast (inst_Size inst)) = unat pc + unat (ucast (inst_Size inst) :: u64)"
    by (rule unat_add_lem [THEN iffD1])
  then show "unat (pc + ucast (inst_Size inst)) = unat pc + unat (inst_Size inst)" by simp
qed

text \<open>
  One round of the loop, after the instruction has been executed: the counters, and the checks
  that may end the run.
\<close>

definition after_instruction :: "Runtime \<Rightarrow> VM3D \<Rightarrow> VM3D" where
  "after_instruction rt vm =
     vm\<lparr>vm_stats := (vm_stats vm)\<lparr>vs_InstructionsExecuted := vs_InstructionsExecuted (vm_stats vm) + 1\<rparr>,
        vm_latency := vm_latency vm @ [rt_latency rt]\<rparr>"

text \<open>A round makes progress in the program.\<close>

lemma round_advances:
  assumes "vm_pc vm < of_nat (length program)" "fetchInstruction (vm_pc vm) program = Inr (Inr inst)"
    and "executeInstruction fb pord rt vm inst = Some (Inr r)"
  defines "vm1 \<equiv> after_instruction rt (fst r)"
  shows "unat (of_nat (length program) :: u64) - unat (vm_pc vm1 + ucast (inst_Size inst))
    < unat (of_nat (length program) :: u64) - unat (vm_pc vm)"
proof -
  have "vm_pc vm1 = vm_pc vm"
    using executeInstruction_frame [of fb pord rt vm inst] assms(3)
    by (auto simp: vm1_def run_post_def vm_frame_def after_instruction_def)
  then show ?thesis using assms(1,2) fetch_advances [of "vm_pc vm" program inst] by (auto simp: word_less_nat_alt)
qed

text \<open>
  The loop.  The run time's choices for the \<open>k\<close>-th round are \<open>env k\<close>.  A paused machine sleeps and
  tries again, and nothing can resume it while the mutex is held: that call does not return.
\<close>

function exec_loop ::
  "(rat \<Rightarrow> u64) \<Rightarrow> (Plane \<Rightarrow> order) \<Rightarrow> (nat \<Rightarrow> Runtime) \<Rightarrow> bytes \<Rightarrow> nat \<Rightarrow> VM3D \<Rightarrow> (VM3D \<times> error option) run" where
  "exec_loop float64bits pord env program k vm =
     (if vm_pc vm < of_nat (length program) \<and> \<not> vm_halted vm then
        if vm_paused vm then None
        else (case fetchInstruction (vm_pc vm) program of
           Inl p \<Rightarrow> Some (Inl p)
         | Inr (Inl e) \<Rightarrow> vm_fail vm (FetchError (vm_pc vm) e)
         | Inr (Inr inst) \<Rightarrow>
             run_bind (executeInstruction float64bits pord (env k) vm inst) (\<lambda>r.
               let vm1 = after_instruction (env k) (fst r)
               in case snd r of
                    Some e \<Rightarrow> vm_fail vm1 (ExecutionError (vm_pc vm1) e)
                  | None \<Rightarrow>
                      if Remaining (vm_gasAccount vm1) = 0 then vm_fail vm1 GasExhausted
                      else if vs_InstructionsExecuted (vm_stats vm1) \<ge> vc_MaxInstructions (vm_config vm1)
                      then vm_fail vm1 InstructionLimitExceeded
                      else exec_loop float64bits pord env program (Suc k)
                             (vm1\<lparr>vm_pc := vm_pc vm1 + ucast (inst_Size inst)\<rparr>)))
      else vm_ok (vm\<lparr>vm_stats := (vm_stats vm)\<lparr>vs_RunTime := rt_now (env k) - vs_StartTime (vm_stats vm)\<rparr>\<rparr>))"
  by auto
termination
proof (relation "measure (\<lambda>(_, _, _, program, _, vm). unat (of_nat (length program) :: u64) - unat (vm_pc vm))", goal_cases)
  case (2 fb pord env program k vm b inst x vm1)
  then show ?case using round_advances [of vm program inst fb pord "env k" x] by simp
qed simp

declare exec_loop.simps [simp del]

definition Execute ::
  "(rat \<Rightarrow> u64) \<Rightarrow> (Plane \<Rightarrow> order) \<Rightarrow> (nat \<Rightarrow> Runtime) \<Rightarrow> VM3D \<Rightarrow> bytes \<Rightarrow> (VM3D \<times> error option) run" where
  "Execute float64bits pord env vm program =
     exec_loop float64bits pord env program 0
       (vm\<lparr>vm_pc := 0, vm_halted := False, vm_stats := (vm_stats vm)\<lparr>vs_StartTime := rt_now (env 0)\<rparr>\<rparr>)"

section \<open>The methods of a client\<close>

definition VM_Load3D :: "Runtime \<Rightarrow> VM3D \<Rightarrow> Address3D \<Rightarrow> u32 \<Rightarrow> (VM3D \<times> (error + bytes)) go" where
  "VM_Load3D rt vm addr sz =
     go_bind (MM_Load3D (rt_allocations rt) (vm_allocator vm) (vm_memory vm) addr sz (rt_now rt))
       (\<lambda>(mm, res). Inr (vm\<lparr>vm_memory := mm\<rparr>, res))"

text \<open>What \<^verbatim>\<open>Store3D\<close> does once the bytes are in memory.\<close>

definition after_store :: "Runtime \<Rightarrow> VM3D \<Rightarrow> Address3D \<Rightarrow> bytes \<Rightarrow> (VM3D \<times> error option) run" where
  "after_store rt vm addr data =
     run_bind (Some (Consume (vm_gasAccount vm) (of_nat (15 * length data)))) (\<lambda>(g, err).
       Some (Inr (vm\<lparr>vm_cache := Cache_Put (vm_cache vm) addr data,
         vm_merkleTree := map_option (\<lambda>t. Tree_Update (rt_nodes rt) t addr data) (vm_merkleTree vm),
         vm_memory := MM_UpdateAccess (vm_memory vm) addr (rt_now rt), vm_gasAccount := g\<rparr>, err)))"

definition VM_Store3D :: "Runtime \<Rightarrow> VM3D \<Rightarrow> Address3D \<Rightarrow> bytes \<Rightarrow> (VM3D \<times> error option) run" where
  "VM_Store3D rt vm addr data =
     (case MM_Store3D (rt_allocations rt) (vm_allocator vm) (vm_memory vm) addr data (rt_now rt) of
        Inl p \<Rightarrow> Some (Inl p)
      | Inr (a, mm, None) \<Rightarrow> after_store rt (vm\<lparr>vm_allocator := a, vm_memory := mm\<rparr>) addr data
      | Inr (a, mm, Some e) \<Rightarrow>
          if e = AddressNotAllocated addr then
            run_bind (Allocate (rt_queued rt) (rt_regions rt) a (of_nat (length data)) RegionTypeHeap 0 (rt_now rt))
              (\<lambda>(a1, alloc, aerr). case aerr of
                  Some e1 \<Rightarrow> vm_fail (vm\<lparr>vm_allocator := a1, vm_memory := mm\<rparr>) e1
                | None \<Rightarrow> (case alloc of
                      None \<Rightarrow> Some (Inl NilDereference)
                    | Some al \<Rightarrow>
                        let mm1 = trackAllocation mm al (rt_now rt); addr1 = alloc_Address al
                        in (case MM_Store3D (rt_allocations rt) a1 mm1 addr1 data (rt_now rt) of
                              Inl p \<Rightarrow> Some (Inl p)
                            | Inr (a2, mm2, Some serr) \<Rightarrow> vm_fail (vm\<lparr>vm_allocator := a2, vm_memory := mm2\<rparr>) serr
                            | Inr (a2, mm2, None) \<Rightarrow>
                                after_store rt (vm\<lparr>vm_allocator := a2, vm_memory := mm2\<rparr>) addr1 data)))
          else vm_fail (vm\<lparr>vm_allocator := a, vm_memory := mm\<rparr>) e)"

definition AllocateMemory :: "Runtime \<Rightarrow> VM3D \<Rightarrow> u32 \<Rightarrow> RegionType \<Rightarrow> (VM3D \<times> (error + Address3D)) run" where
  "AllocateMemory rt vm sz regionType =
     run_bind (Allocate (rt_queued rt) (rt_regions rt) (vm_allocator vm) sz regionType 0 (rt_now rt))
       (\<lambda>(a, alloc, err). case err of
           Some e \<Rightarrow> Some (Inr (vm\<lparr>vm_allocator := a\<rparr>, Inl e))
         | None \<Rightarrow> (case alloc of
               None \<Rightarrow> Some (Inl NilDereference)
             | Some al \<Rightarrow> Some (Inr (vm\<lparr>vm_allocator := a,
                 vm_memory := trackAllocation (vm_memory vm) al (rt_now rt)\<rparr>, Inr (alloc_Address al)))))"

definition VM_GetMerkleProof :: "VM3D \<Rightarrow> Address3D \<Rightarrow> error + bytes list" where
  "VM_GetMerkleProof vm addr =
     (case vm_merkleTree vm of None \<Rightarrow> Inl MerkleNotEnabled | Some t \<Rightarrow> Inr (GenerateProof t addr))"

definition VerifyMemoryState :: "VM3D \<Rightarrow> Address3D \<Rightarrow> bytes \<Rightarrow> bytes list \<Rightarrow> error + bool" where
  "VerifyMemoryState vm addr data path =
     (case vm_merkleTree vm of None \<Rightarrow> Inl MerkleNotEnabled | Some t \<Rightarrow> Inr (VerifyProof t addr path data))"

definition VM_GetMerkleRoot :: "VM3D \<Rightarrow> bytes" where
  "VM_GetMerkleRoot vm = (case vm_merkleTree vm of None \<Rightarrow> [] | Some t \<Rightarrow> GetRoot t)"

definition GetStats :: "VM3D \<Rightarrow> VMStats" where
  "GetStats vm = vm_stats vm"

definition GetGasRemaining :: "VM3D \<Rightarrow> int" where
  "GetGasRemaining vm = Remaining (vm_gasAccount vm)"

definition GetGasUsed :: "VM3D \<Rightarrow> u64" where
  "GetGasUsed vm = Used (vm_gasAccount vm)"

definition GetMemoryManager :: "VM3D \<Rightarrow> MemoryManager" where
  "GetMemoryManager vm = vm_memory vm"

definition GetRegisters :: "VM3D \<Rightarrow> Registers" where
  "GetRegisters vm = vm_registers vm"

definition NewMerkleTree :: Tree3D where
  "NewMerkleTree = NewTree3D"

definition VM_GetCompactionReport :: "Runtime \<Rightarrow> VM3D \<Rightarrow> (u64, CompactionReport) gomap" where
  "VM_GetCompactionReport rt vm = GetCompactionReport (rt_regions rt) (vm_allocator vm)"

definition VM_AnalyzeCompaction :: "Runtime \<Rightarrow> (Plane \<Rightarrow> order) \<Rightarrow> VM3D \<Rightarrow> CompactionConfig \<Rightarrow> u64 list" where
  "VM_AnalyzeCompaction rt pord vm config = AnalyzeCompaction (rt_regions rt) pord (vm_allocator vm) config"

definition ExecuteCompactInstruction ::
  "Runtime \<Rightarrow> (Plane \<Rightarrow> order) \<Rightarrow> VM3D \<Rightarrow> Instruction3D \<Rightarrow> (VM3D \<times> error option) run" where
  "ExecuteCompactInstruction rt pord vm inst = executeMCompact3D rt pord vm"


end
