(* ===== verification/VMSafety.thy ===== *)
theory VMSafety
  imports VM
begin

text \<open>
  The invariant of the virtual machine: its memory, cache, gas account and registers agree with
  each other, and every instruction keeps them so.
\<close>

section \<open>The invariant\<close>

text \<open>Whatever the cache holds for an address is what memory holds at the start of its block.\<close>

definition coherent :: "(Address3D \<rightharpoonup> bytes) \<Rightarrow> (Address3D \<rightharpoonup> bytes) \<Rightarrow> bool" where
  "coherent cached memory \<longleftrightarrow> (\<forall>addr d. cached addr = Some d \<longrightarrow>
     (\<exists>v. memory addr = Some v \<and> length d \<le> length v \<and> take (length d) v = d))"

abbreviation vm_view :: "VM3D \<Rightarrow> Address3D \<rightharpoonup> bytes" where
  "vm_view vm \<equiv> mem_view (vm_allocator vm) (vm_memory vm)"

definition machine_inv :: "u16 \<Rightarrow> nat \<Rightarrow> Allocator3D \<Rightarrow> MemoryManager \<Rightarrow> SpatialCache \<Rightarrow> bool" where
  "machine_inv ps k a mm c \<longleftrightarrow> mem_inv a mm \<and> al_ok k a \<and> single a \<and> \<not> cfg_EnableConcurrent (al_config a)
     \<and> cfg_PlaneSize (al_config a) = ps \<and> cache_inv c \<and> coherent (cache_view c) (mem_view a mm)"

definition vm_inv :: "nat \<Rightarrow> u16 \<Rightarrow> nat \<Rightarrow> VM3D \<Rightarrow> bool" where
  "vm_inv limit ps k vm \<longleftrightarrow> machine_inv ps k (vm_allocator vm) (vm_memory vm) (vm_cache vm)
     \<and> gas_inv limit (vm_gasAccount vm) \<and> regs_inv (vm_registers vm)"

definition rt_ok :: "Runtime \<Rightarrow> bool" where
  "rt_ok rt \<longleftrightarrow> valid_order (rt_regions rt) \<and> valid_order (rt_allocations rt)"

lemma NewVM3D_inv: "k < 2 ^ 64 - 1 \<Longrightarrow> vm_inv (unat (vc_GasLimit c)) 65535 k (NewVM3D c now)"
  by (simp add: vm_inv_def machine_inv_def NewVM3D_def NewMemoryManager_law NewAllocator3D_inv NewAllocator3D_single
      NewAccountant_inv NewSpatialCache_inv NewAllocator3D_ok VM_allocConfig_def PlaneSize_def coherent_def)
    (simp add: NewAllocator3D_def)

section \<open>The parts of a step\<close>

lemma machine_inv_less: "machine_inv ps (Suc k) a mm c \<Longrightarrow> machine_inv ps k a mm c"
  by (auto simp: machine_inv_def al_ok_def)

lemma machine_inv_cong:
  assumes "machine_inv ps k a mm c" "mm_allocations mm' = mm_allocations mm"
  shows "machine_inv ps k a mm' c"
  using assms mem_view_cong [OF assms(2), of a] by (simp add: machine_inv_def)

lemma machine_get:
  assumes "machine_inv ps k a mm c" "Cache_Get c addr = (c', hit)"
  shows "machine_inv ps k a mm c'" "cache_view c' = cache_view c" "hit = cache_view c addr"
  using assms Cache_Get_law [of c addr] by (simp_all add: machine_inv_def)

lemma machine_put:
  assumes "machine_inv ps k a mm c" "mem_view a mm addr = Some v" "length d \<le> length v" "take (length d) v = d"
  shows "machine_inv ps k a mm (Cache_Put c addr d)"
  using assms Cache_Put_law [of c addr d] by (auto simp: machine_inv_def coherent_def)

lemma machine_access:
  assumes "machine_inv ps k a mm c"
  shows "machine_inv ps k a (MM_UpdateAccess mm addr now) c"
  using assms UpdateAccess_law [of a mm addr now] by (simp add: machine_inv_def)

lemma machine_load:
  assumes inv: "machine_inv ps k a mm c" and ord: "valid_order ord"
  obtains mm' res where "MM_Load3D ord a mm addr sz now = Inr (mm', res)" "machine_inv ps k a mm' c"
    "mem_view a mm' = mem_view a mm"
    "case res of Inr d \<Rightarrow> \<exists>v. mem_view a mm addr = Some v \<and> unat sz \<le> length v \<and> d = take (unat sz) v
       | Inl _ \<Rightarrow> \<forall>v. mem_view a mm addr = Some v \<longrightarrow> length v < unat sz"
proof -
  have "mem_inv a mm" using inv by (simp add: machine_inv_def)
  from Load3D_law [OF this ord, of addr sz now] obtain mm' res where
    r: "MM_Load3D ord a mm addr sz now = Inr (mm', res)" "mm_allocations mm' = mm_allocations mm"
    and c: "case mem_view a mm addr of None \<Rightarrow> res = Inl (AddressNotAllocated addr)
       | Some v \<Rightarrow> if unat sz \<le> length v then res = Inr (take (unat sz) v)
                   else res \<in> {Inl (OutOfBounds ''read''), Inl (OutOfBounds ''plane read'')}" by blast
  show thesis
    by (rule that [OF r(1) machine_inv_cong [OF inv r(2)] mem_view_cong(1) [OF r(2)]])
      (use c in \<open>auto split: option.splits sum.splits if_splits\<close>)
qed

lemma machine_store:
  assumes inv: "machine_inv ps k a mm c" and ord: "valid_order ord" and len: "length d < 2 ^ 32"
  obtains (stored) a' mm' v where "MM_Store3D ord a mm addr d now = Inr (a', mm', None)"
      "mem_view a mm addr = Some v" "length d \<le> length v"
      "mem_view a' mm' = (mem_view a mm)(addr \<mapsto> d @ drop (length d) v)"
      "machine_inv ps k a' mm' (Cache_Put c addr d)"
  | (refused) e where "MM_Store3D ord a mm addr d now = Inr (a, mm, Some e)"
      "\<forall>v. mem_view a mm addr = Some v \<longrightarrow> length v < length d"
      "mem_view a mm addr = None \<longleftrightarrow> e = AddressNotAllocated addr"
proof -
  have m: "mem_inv a mm" using inv by (simp add: machine_inv_def)
  from Store3D_law [OF m ord len, of addr now] obtain a' mm' res where
    r: "MM_Store3D ord a mm addr d now = Inr (a', mm', res)" "mem_inv a' mm'" "same_shape a a'"
    "al_config a' = al_config a" "al_nextRegionID a' = al_nextRegionID a"
    and c: "case mem_view a mm addr of
         None \<Rightarrow> res = Some (AddressNotAllocated addr) \<and> a' = a \<and> mm' = mm
       | Some v \<Rightarrow> if length d \<le> length v
                   then res = None \<and> mem_view a' mm' = (mem_view a mm)(addr \<mapsto> d @ drop (length d) v)
                   else res \<in> {Some (OutOfBounds ''write''), Some (OutOfBounds ''plane write'')} \<and> a' = a \<and> mm' = mm"
    by blast
  show thesis
  proof (cases "\<exists>v. mem_view a mm addr = Some v \<and> length d \<le> length v")
    case True
    then obtain v where v: "mem_view a mm addr = Some v" "length d \<le> length v" by blast
    then have s: "res = None" "mem_view a' mm' = (mem_view a mm)(addr \<mapsto> d @ drop (length d) v)" using c by simp_all
    have "single a'" using same_shape_single [OF r(3)] inv by (simp add: machine_inv_def)
    moreover have "al_ok k a'" using r inv by (auto simp: machine_inv_def al_ok_def mem_inv_def)
    moreover have "coherent (cache_view (Cache_Put c addr d)) (mem_view a' mm')"
      using Cache_Put_law [of c addr d] inv v unfolding s(2) by (auto simp: machine_inv_def coherent_def)
    ultimately have "machine_inv ps k a' mm' (Cache_Put c addr d)"
      using r inv Cache_Put_law [of c addr d] by (simp add: machine_inv_def)
    then show thesis using stored r(1) v s by blast
  next
    case False
    then have "a' = a" "mm' = mm" "res \<noteq> None" "mem_view a mm addr = None \<longleftrightarrow> res = Some (AddressNotAllocated addr)"
      using c by (auto split: option.splits)
    then show thesis using refused r(1) False by fastforce
  qed
qed

lemma machine_mem:
  "machine_inv ps k a mm c \<longleftrightarrow> mem_ok ps k a mm \<and> \<not> cfg_EnableConcurrent (al_config a)
     \<and> cache_inv c \<and> coherent (cache_view c) (mem_view a mm)"
  by (auto simp: machine_inv_def mem_ok_def)

lemma machine_allocate:
  assumes inv: "machine_inv ps (Suc k) a mm c" and ord: "valid_order ord" and sz: "sz \<noteq> 0"
  obtains (some) a' al v where "Allocate queued ord a sz rt flags now = Some (Inr (a', Some al, None))"
      "machine_inv ps k a' (trackAllocation mm al now') c" "\<not> IsYPromoted al" "alloc_Size al = sz"
      "mem_view a mm (alloc_Address al) = None" "length v = unat sz" "unat sz \<le> unat ps"
      "mem_view a' (trackAllocation mm al now') = (mem_view a mm)(alloc_Address al \<mapsto> v)"
  | (none) a' where "Allocate queued ord a sz rt flags now = Some (Inr (a', None, Some (InsufficientMemory sz)))"
      "machine_inv ps k a' mm c" "mem_view a' mm = mem_view a mm" "unat ps < unat sz"
proof -
  have i: "mem_ok ps (Suc k) a mm" "\<not> cfg_EnableConcurrent (al_config a)" "cache_inv c"
    "coherent (cache_view c) (mem_view a mm)" using inv by (simp_all add: machine_mem)
  have A: "Allocate queued ord a sz rt flags now = Some (go_bind (allocateSync ord a sz rt flags now)
      (\<lambda>(a', r). Inr (a', case r of Inl e \<Rightarrow> (None, Some e) | Inr alloc \<Rightarrow> (Some alloc, None))))"
    using i(2) by (simp add: Allocate_def)
  from i(1) ord sz show thesis
  proof (rule mem_allocate [where rt = rt and flags = flags and now = now and now' = now'], goal_cases)
    case (1 a' al v)
    have "coherent (cache_view c) (mem_view a' (trackAllocation mm al now'))"
      using i(4) 1(6) unfolding 1(9) coherent_def by fastforce
    then have "machine_inv ps k a' (trackAllocation mm al now') c" using 1 i by (simp add: machine_mem)
    then show ?thesis using some 1 A by simp
  next
    case (2 a')
    then have "machine_inv ps k a' mm c" using i by (simp add: machine_mem)
    then show ?thesis using none 2 A by simp
  qed
qed

lemma machine_free:
  assumes inv: "machine_inv ps k a mm c" and small: "unat ps \<le> 32768"
    and al: "map_of (mm_allocations mm) addr = Some al"
  obtains a' where "Allocator_Free a al = (a', None)"
    "machine_inv ps k a' (untrackAllocation mm addr now) (Cache_Invalidate c addr)"
    "mem_view a' (untrackAllocation mm addr now) = (mem_view a mm)(addr := None)"
proof -
  have i: "mem_ok ps k a mm" "\<not> cfg_EnableConcurrent (al_config a)" "cache_inv c"
    "coherent (cache_view c) (mem_view a mm)" using inv by (simp_all add: machine_mem)
  from i(1) small al obtain a' where f: "freeSync a al = (a', None)" "al_config a' = al_config a"
    "mem_ok ps k a' (untrackAllocation mm addr now)"
    "mem_view a' (untrackAllocation mm addr now) = (mem_view a mm)(addr := None)" by (rule mem_free)
  have "coherent (cache_view (Cache_Invalidate c addr)) (mem_view a' (untrackAllocation mm addr now))"
    using Cache_Invalidate_law [of c addr] i(3,4) unfolding f(4) by (auto simp: coherent_def)
  then have "machine_inv ps k a' (untrackAllocation mm addr now) (Cache_Invalidate c addr)"
    using f i Cache_Invalidate_law [of c addr] by (simp add: machine_mem)
  then show thesis using that f i(2) by (simp add: Allocator_Free_def)
qed

section \<open>Handlers\<close>

abbreviation keeps_inv :: "nat \<Rightarrow> u16 \<Rightarrow> nat \<Rightarrow> (VM3D \<times> error option) run \<Rightarrow> bool" where
  "keeps_inv limit ps k r \<equiv> returns r (\<lambda>(vm', e). vm_inv limit ps k vm')"

lemma vm_inv_parts:
  assumes "vm_inv limit ps k vm"
  shows "machine_inv ps k (vm_allocator vm) (vm_memory vm) (vm_cache vm)"
    "gas_inv limit (vm_gasAccount vm)" "regs_inv (vm_registers vm)"
  using assms by (simp_all add: vm_inv_def)

lemma vm_inv_less: "vm_inv limit ps (Suc k) vm \<Longrightarrow> vm_inv limit ps k vm"
  by (simp add: vm_inv_def machine_inv_less)

lemma SetUint64_inv [simp]: "regs_inv (SetUint64 r reg v) = regs_inv r"
  by (simp add: SetUint64_eq)

lemma SetAddress_inv [simp]: "regs_inv (SetAddress r reg v) = regs_inv r"
  by (simp add: SetAddress_def)

lemma register_handlers_inv:
  assumes "vm_inv limit ps k vm"
  shows "keeps_inv limit ps k (executeAdd3D vm inst)" "keeps_inv limit ps k (executeSub3D vm inst)"
    "keeps_inv limit ps k (executeMov3D vm inst)" "keeps_inv limit ps k (executeMSize3D rt vm inst)"
    "keeps_inv limit ps k (executeNOP vm)" "keeps_inv limit ps k (executeHalt3D vm)"
  using assms
  by (simp_all add: executeAdd3D_def executeSub3D_def executeMov3D_def executeMSize3D_def executeNOP_def
      executeHalt3D_def run_simps Let_def vm_inv_def split: option.split)

lemma mload_inv:
  assumes inv: "vm_inv limit ps k vm" and rt: "rt_ok rt"
  shows "keeps_inv limit ps k (mload rt vm addr sz reg)"
proof -
  note p = vm_inv_parts [OF inv]
  have ord: "valid_order (rt_allocations rt)" using rt by (simp add: rt_ok_def)
  obtain c hit where g: "Cache_Get (vm_cache vm) addr = (c, hit)" by fastforce
  have m: "machine_inv ps k (vm_allocator vm) (vm_memory vm) c" by (rule machine_get(1) [OF p(1) g])
  obtain mm res where r: "MM_Load3D (rt_allocations rt) (vm_allocator vm) (vm_memory vm) addr sz (rt_now rt) = Inr (mm, res)"
      "machine_inv ps k (vm_allocator vm) mm c" "mem_view (vm_allocator vm) mm = vm_view vm"
      "case res of Inr d \<Rightarrow> \<exists>v. vm_view vm addr = Some v \<and> unat sz \<le> length v \<and> d = take (unat sz) v
         | Inl _ \<Rightarrow> \<forall>v. vm_view vm addr = Some v \<longrightarrow> length v < unat sz"
    by (rule machine_load [OF m ord])
  have put: "machine_inv ps k (vm_allocator vm) mm (Cache_Put c addr d)" if "res = Inr d" for d
  proof -
    from that r(4) obtain v where v: "vm_view vm addr = Some v" "unat sz \<le> length v" "d = take (unat sz) v" by auto
    then have "length d = unat sz" by simp
    then show ?thesis by (intro machine_put [OF r(2), of addr v]) (use v r(3) in simp_all)
  qed
  show ?thesis
    using p m r(2) put machine_access
    by (auto simp: mload_def g r(1) run_simps Let_def vm_inv_def split: option.split sum.split)
qed

lemma mstore_inv:
  assumes inv: "vm_inv limit ps k vm" and rt: "rt_ok rt"
  shows "keeps_inv limit ps k (mstore rt vm addr reg sz)"
proof -
  note p = vm_inv_parts [OF inv]
  have ord: "valid_order (rt_allocations rt)" using rt by (simp add: rt_ok_def)
  let ?d = "take (unat sz) (Reg_Get (vm_registers vm) reg)"
  have "unat sz < 2 ^ 32" using unsigned_less [of sz] by simp
  then have len: "length ?d < 2 ^ 32" by simp
  show ?thesis
  proof (rule machine_store [OF p(1) ord len, of addr "rt_now rt"])
    fix a mm v
    assume "MM_Store3D (rt_allocations rt) (vm_allocator vm) (vm_memory vm) addr ?d (rt_now rt) = Inr (a, mm, None)"
      "machine_inv ps k a mm (Cache_Put (vm_cache vm) addr ?d)"
    then show ?thesis using p inv by (simp add: mstore_def run_simps Let_def vm_inv_def machine_access)
  next
    fix e
    assume "MM_Store3D (rt_allocations rt) (vm_allocator vm) (vm_memory vm) addr ?d (rt_now rt)
      = Inr (vm_allocator vm, vm_memory vm, Some e)"
    then show ?thesis using inv by (simp add: mstore_def run_simps Let_def)
  qed
qed

lemma malloc3d_inv:
  assumes inv: "vm_inv limit ps (Suc k) vm" and rt: "rt_ok rt" and sz: "sz \<noteq> 0"
  shows "keeps_inv limit ps k (malloc3d rt vm sz regionType flags)"
proof -
  note p = vm_inv_parts [OF inv]
  have ord: "valid_order (rt_regions rt)" using rt by (simp add: rt_ok_def)
  show ?thesis
    by (rule machine_allocate [OF p(1) ord sz, of "rt_queued rt" regionType flags "rt_now rt" "rt_now rt"])
      (use p in \<open>simp_all add: malloc3d_def run_simps Let_def vm_inv_def\<close>)
qed

lemma mfree_inv:
  assumes inv: "vm_inv limit ps k vm" and rt: "rt_ok rt" and small: "unat ps \<le> 32768"
  shows "keeps_inv limit ps k (mfree rt vm addr)"
proof -
  note p = vm_inv_parts [OF inv]
  have "mem_inv (vm_allocator vm) (vm_memory vm)" using p(1) by (simp add: machine_inv_def)
  note l = lookup_exact(2) [OF this, of "rt_allocations rt" addr]
  show ?thesis
  proof (cases "map_of (mm_allocations (vm_memory vm)) addr")
    case None
    then show ?thesis using inv l rt by (simp add: mfree_def run_simps rt_ok_def)
  next
    case (Some al)
    show ?thesis
      by (rule machine_free [OF p(1) small Some, of "rt_now rt"])
        (use l rt Some p in \<open>simp add: mfree_def run_simps rt_ok_def vm_inv_def\<close>)
  qed
qed

lemma mcopy_inv:
  assumes inv: "vm_inv limit ps k vm" and rt: "rt_ok rt"
  shows "keeps_inv limit ps k (mcopy rt vm src dst sz)"
proof -
  note p = vm_inv_parts [OF inv]
  have ord: "valid_order (rt_allocations rt)" using rt by (simp add: rt_ok_def)
  obtain mm res where r: "MM_Load3D (rt_allocations rt) (vm_allocator vm) (vm_memory vm) src sz (rt_now rt) = Inr (mm, res)"
      "machine_inv ps k (vm_allocator vm) mm (vm_cache vm)" "mem_view (vm_allocator vm) mm = vm_view vm"
      "case res of Inr d \<Rightarrow> \<exists>v. vm_view vm src = Some v \<and> unat sz \<le> length v \<and> d = take (unat sz) v
         | Inl _ \<Rightarrow> \<forall>v. vm_view vm src = Some v \<longrightarrow> length v < unat sz"
    by (rule machine_load [OF p(1) ord])
  show ?thesis
  proof (cases res)
    case (Inl e)
    then show ?thesis using r(1,2) p by (simp add: mcopy_def run_simps vm_inv_def)
  next
    case (Inr d)
    with r(4) obtain v where v: "vm_view vm src = Some v" "unat sz \<le> length v" "d = take (unat sz) v" by auto
    then have ld: "length d = unat sz" by simp
    have "machine_inv ps k (vm_allocator vm) mm (Cache_Put (vm_cache vm) src d)"
      by (rule machine_put [OF r(2), of src v]) (use v r(3) ld in simp_all)
    moreover have "length d < 2 ^ 32" using unsigned_less [of sz] by (simp add: ld)
    ultimately show ?thesis
    proof (rule machine_store [OF _ ord, of _ _ _ _ _ _ dst "rt_now rt"])
      fix a' mm' w
      assume "MM_Store3D (rt_allocations rt) (vm_allocator vm) mm dst d (rt_now rt) = Inr (a', mm', None)"
        "machine_inv ps k a' mm' (Cache_Put (Cache_Put (vm_cache vm) src d) dst d)"
      then show ?thesis using r(1) Inr p by (simp add: mcopy_def run_simps vm_inv_def)
    next
      fix e
      assume "MM_Store3D (rt_allocations rt) (vm_allocator vm) mm dst d (rt_now rt) = Inr (vm_allocator vm, mm, Some e)"
      then show ?thesis using r(1,2) Inr p by (simp add: mcopy_def run_simps vm_inv_def)
    qed
  qed
qed

section \<open>Instructions\<close>

text \<open>
  The instructions that keep the invariant: a request for memory asks for at least one byte, and
  memory is freed only where planes are at most half of the 16-bit range, which excludes the free
  instruction on the machine of \<^verbatim>\<open>NewVM3D\<close>, whose planes have 65535 bytes.  The two opcodes that are
  excluded as well have no case in the decoder, so that no program contains them.
\<close>

definition allowed :: "u16 \<Rightarrow> Instruction3D \<Rightarrow> bool" where
  "allowed ps inst \<longleftrightarrow> inst_Opcode inst \<noteq> OP_MQUERY3D \<and> inst_Opcode inst \<noteq> OP_MCOMPACT3D
     \<and> (inst_Opcode inst = OP_MFREE3D \<longrightarrow> unat ps \<le> 32768)
     \<and> (inst_Opcode inst = OP_MALLOC3D \<longrightarrow> as_uint32 (inst_Operands inst ! 0) \<noteq> Some 0)"

lemma returns_mono: "returns r P \<Longrightarrow> (\<And>x. P x \<Longrightarrow> Q x) \<Longrightarrow> returns r Q"
  by (auto simp: returns_def)

lemma dispatch_inv:
  assumes inv: "vm_inv limit ps (Suc k) vm" and rt: "rt_ok rt" and inst: "allowed ps inst"
  shows "keeps_inv limit ps k (dispatch fb pord rt vm inst)"
proof -
  note inv' = vm_inv_less [OF inv]
  have "keeps_inv limit ps k (executeMLoad3D rt vm inst)" "keeps_inv limit ps k (executeMStore3D rt vm inst)"
    "keeps_inv limit ps k (executeMCopy3D rt vm inst)"
    using inv' mload_inv [OF inv' rt] mstore_inv [OF inv' rt] mcopy_inv [OF inv' rt]
    by (simp_all add: executeMLoad3D_def executeMStore3D_def executeMCopy3D_def run_simps split: option.split)
  moreover have "keeps_inv limit ps k (executeMAlloc3D rt vm inst)" if "inst_Opcode inst = OP_MALLOC3D"
    using inv' malloc3d_inv [OF inv rt] inst that
    by (auto simp: executeMAlloc3D_def run_simps allowed_def split: option.split)
  moreover have "keeps_inv limit ps k (executeMFree3D rt vm inst)" if "inst_Opcode inst = OP_MFREE3D"
    using inv' mfree_inv [OF inv' rt] inst that
    by (auto simp: executeMFree3D_def run_simps allowed_def split: option.split)
  ultimately show ?thesis
    using inst register_handlers_inv [OF inv'] inv'
    by (simp add: dispatch_def Let_def run_simps allowed_def)
qed

lemma executeInstruction_inv:
  assumes inv: "vm_inv limit ps (Suc k) vm" and rt: "rt_ok rt" and inst: "allowed ps inst"
  shows "keeps_inv limit ps k (executeInstruction fb pord rt vm inst)"
proof -
  note p = vm_inv_parts [OF inv]
  obtain g e where c: "Consume (vm_gasAccount vm) (calculateGasCost inst) = Inr (g, e)" "gas_inv limit g"
    using Consume_cases [OF p(2), of "calculateGasCost inst"] by (auto split: if_splits)
  have i: "vm_inv limit ps (Suc k) (vm\<lparr>vm_gasAccount := g\<rparr>)" using p c(2) by (simp add: vm_inv_def)
  show ?thesis
    using dispatch_inv [OF i rt inst, of fb pord] vm_inv_less [OF i]
    by (simp add: executeInstruction_def c(1) run_simps split: option.split)
qed


section \<open>Gas and halting\<close>

text \<open>Only the halt instruction halts, and no fetched instruction changes the gas account after its payment.\<close>

definition vm_quiet :: "VM3D \<Rightarrow> VM3D \<Rightarrow> bool" where
  "vm_quiet vm vm' \<longleftrightarrow> vm_halted vm' = vm_halted vm \<and> vm_gasAccount vm' = vm_gasAccount vm"

lemma handler_quiet:
  "run_post (executeMLoad3D rt vm inst) (\<lambda>(vm', e). vm_quiet vm vm')"
  "run_post (executeMStore3D rt vm inst) (\<lambda>(vm', e). vm_quiet vm vm')"
  "run_post (executeMAlloc3D rt vm inst) (\<lambda>(vm', e). vm_quiet vm vm')"
  "run_post (executeMFree3D rt vm inst) (\<lambda>(vm', e). vm_quiet vm vm')"
  "run_post (executeMCopy3D rt vm inst) (\<lambda>(vm', e). vm_quiet vm vm')"
  "run_post (executeMQuery3D fb rt vm inst) (\<lambda>(vm', e). vm_quiet vm vm')"
  "run_post (executeNOP vm) (\<lambda>(vm', e). vm_quiet vm vm')"
  "run_post (executeAdd3D vm inst) (\<lambda>(vm', e). vm_quiet vm vm')"
  "run_post (executeSub3D vm inst) (\<lambda>(vm', e). vm_quiet vm vm')"
  "run_post (executeMov3D vm inst) (\<lambda>(vm', e). vm_quiet vm vm')"
  "run_post (executeMSize3D rt vm inst) (\<lambda>(vm', e). vm_quiet vm vm')"
  subgoal by (auto simp: executeMLoad3D_def mload_def run_simps vm_quiet_def Let_def split: option.split prod.split sum.split)
  subgoal by (auto simp: executeMStore3D_def mstore_def run_simps vm_quiet_def Let_def split: option.split prod.split sum.split)
  subgoal by (auto simp: executeMAlloc3D_def malloc3d_def run_simps vm_quiet_def Let_def run_post_def [of "Allocate _ _ _ _ _ _ _"] split: option.split prod.split sum.split)
  subgoal by (auto simp: executeMFree3D_def mfree_def run_simps vm_quiet_def Let_def split: option.split prod.split sum.split)
  subgoal by (auto simp: executeMCopy3D_def mcopy_def run_simps vm_quiet_def Let_def split: option.split prod.split sum.split)
  subgoal by (auto simp: executeMQuery3D_def run_simps vm_quiet_def Let_def run_post_def [of "Some _"] split: option.split prod.split sum.split)
  subgoal by (simp add: executeNOP_def run_simps vm_quiet_def)
  subgoal by (auto simp: executeAdd3D_def run_simps vm_quiet_def Let_def split: option.split)
  subgoal by (auto simp: executeSub3D_def run_simps vm_quiet_def Let_def split: option.split)
  subgoal by (auto simp: executeMov3D_def run_simps vm_quiet_def Let_def split: option.split)
  subgoal by (auto simp: executeMSize3D_def run_simps vm_quiet_def Let_def split: option.split)
  done

lemma dispatch_quiet:
  assumes "inst_Opcode inst \<noteq> OP_MCOMPACT3D" "inst_Opcode inst \<noteq> OP_HALT3D"
  shows "run_post (dispatch fb pord rt vm inst) (\<lambda>(vm', e). vm_quiet vm vm')"
proof -
  have "vm_quiet vm vm" by (simp add: vm_quiet_def)
  then show ?thesis
    using assms unfolding dispatch_def Let_def
    by (simp only: run_if handler_quiet run_post_simps(2) if_cancel prod.case if_False)
qed

lemma returns_conj: "returns r P \<Longrightarrow> run_post r Q \<Longrightarrow> returns r (\<lambda>x. P x \<and> Q x)"
  by (auto simp: returns_def run_post_def)

text \<open>What one instruction does to the account, the flag and the counters.\<close>

definition step_effect :: "nat \<Rightarrow> u16 \<Rightarrow> nat \<Rightarrow> VM3D \<Rightarrow> Instruction3D \<Rightarrow> VM3D \<times> error option \<Rightarrow> bool" where
  "step_effect limit ps k vm inst r \<longleftrightarrow> (case r of (vm', e) \<Rightarrow>
     vm_inv limit ps k vm' \<and> vm_frame vm vm'
     \<and> (if unat (calculateGasCost inst) \<le> gas_left (vm_gasAccount vm)
        then unat (GetGasUsed vm') = unat (GetGasUsed vm) + unat (calculateGasCost inst)
        else e = Some InsufficientGas \<and> GetGasUsed vm' = GetGasUsed vm)
     \<and> (e = None \<longrightarrow> vm_halted vm' = (vm_halted vm \<or> inst_Opcode inst = OP_HALT3D)))"

definition paid_effect :: "nat \<Rightarrow> VM3D \<Rightarrow> Instruction3D \<Rightarrow> VM3D \<times> error option \<Rightarrow> bool" where
  "paid_effect limit vm inst r \<longleftrightarrow> (case r of (vm', e) \<Rightarrow>
     gas_inv limit (vm_gasAccount vm')
     \<and> (if unat (calculateGasCost inst) \<le> gas_left (vm_gasAccount vm)
        then unat (GetGasUsed vm') = unat (GetGasUsed vm) + unat (calculateGasCost inst)
        else e = Some InsufficientGas \<and> GetGasUsed vm' = GetGasUsed vm)
     \<and> (e = None \<longrightarrow> vm_halted vm' = (vm_halted vm \<or> inst_Opcode inst = OP_HALT3D)))"

text \<open>This needs only a balanced account: memory may be in any state.\<close>

lemma executeInstruction_paid:
  assumes gas: "gas_inv limit (vm_gasAccount vm)" and inst: "inst_Opcode inst \<noteq> OP_MCOMPACT3D"
  shows "run_post (executeInstruction fb pord rt vm inst) (paid_effect limit vm inst)"
proof (cases "unat (calculateGasCost inst) \<le> gas_left (vm_gasAccount vm)")
  case False
  with Consume_cases [OF gas, of "calculateGasCost inst"] obtain g where
    "Consume (vm_gasAccount vm) (calculateGasCost inst) = Inr (g, Some InsufficientGas)" "Used g = Used (vm_gasAccount vm)"
    "gas_inv limit g"
    by auto
  then show ?thesis using False by (simp add: executeInstruction_def run_simps GetGasUsed_def paid_effect_def)
next
  case True
  with Consume_cases [OF gas, of "calculateGasCost inst"] obtain g where
    g: "Consume (vm_gasAccount vm) (calculateGasCost inst) = Inr (g, None)"
      "unat (Used g) = unat (Used (vm_gasAccount vm)) + unat (calculateGasCost inst)" "gas_inv limit g"
    by auto
  let ?vm = "vm\<lparr>vm_gasAccount := g\<rparr>"
  have e: "executeInstruction fb pord rt vm inst = dispatch fb pord rt ?vm inst"
    by (simp add: executeInstruction_def g(1))
  show ?thesis
  proof (cases "inst_Opcode inst = OP_HALT3D")
    case T: True
    have "dispatch fb pord rt ?vm inst = executeHalt3D ?vm" by (simp add: dispatch_def T opcode_defs)
    then show ?thesis using True T g(2,3) by (simp add: e executeHalt3D_def run_simps GetGasUsed_def paid_effect_def)
  next
    case F: False
    have "run_post (dispatch fb pord rt ?vm inst) (\<lambda>(vm', e). vm_quiet ?vm vm')"
      by (rule dispatch_quiet [OF inst F])
    then show ?thesis
      unfolding e using True F g(2,3) by (auto simp: run_post_def vm_quiet_def GetGasUsed_def paid_effect_def)
  qed
qed

lemma executeInstruction_effect:
  assumes inv: "vm_inv limit ps (Suc k) vm" and rt: "rt_ok rt" and inst: "allowed ps inst"
  shows "returns (executeInstruction fb pord rt vm inst) (step_effect limit ps k vm inst)"
proof -
  have base: "returns (executeInstruction fb pord rt vm inst) (\<lambda>x. (case x of (vm', e) \<Rightarrow> vm_inv limit ps k vm')
      \<and> (case x of (vm', e) \<Rightarrow> vm_frame vm vm'))"
    by (rule returns_conj [OF executeInstruction_inv [OF inv rt inst] executeInstruction_frame])
  have "run_post (executeInstruction fb pord rt vm inst) (paid_effect limit vm inst)"
    by (rule executeInstruction_paid [OF vm_inv_parts(2) [OF inv]]) (use inst in \<open>simp add: allowed_def\<close>)
  from returns_conj [OF base this] show ?thesis
    by (rule returns_mono) (auto simp: step_effect_def paid_effect_def)
qed

section \<open>Programs\<close>

text \<open>The instructions that a program consists of, from a position on: there are no jumps.\<close>

function sweep :: "bytes \<Rightarrow> u64 \<Rightarrow> Instruction3D list" where
  "sweep program pc =
     (if pc < of_nat (length program) then
        (case fetchInstruction pc program of
           Inr (Inr inst) \<Rightarrow> inst # sweep program (pc + ucast (inst_Size inst))
         | _ \<Rightarrow> [])
      else [])"
  by auto
termination
proof (relation "measure (\<lambda>(program, pc). unat (of_nat (length program) :: u64) - unat pc)", goal_cases)
  case (2 program pc b inst)
  then show ?case using fetch_advances [of pc program inst] by (auto simp: word_less_nat_alt)
qed simp

declare sweep.simps [simp del]

text \<open>The instructions up to the first halt.\<close>

fun upto_halt :: "Instruction3D list \<Rightarrow> Instruction3D list" where
  "upto_halt [] = []"
| "upto_halt (i # is) = i # (if inst_Opcode i = OP_HALT3D then [] else upto_halt is)"

definition total_cost :: "Instruction3D list \<Rightarrow> nat" where
  "total_cost is = sum_list (map (\<lambda>i. unat (calculateGasCost i)) is)"

lemma total_cost_simps [simp]:
  "total_cost [] = 0" "total_cost (i # is) = unat (calculateGasCost i) + total_cost is"
  by (simp_all add: total_cost_def)

lemma sweep_Cons:
  assumes "sweep program pc = inst # is"
  shows "pc < of_nat (length program)" "fetchInstruction pc program = Inr (Inr inst)"
    "is = sweep program (pc + ucast (inst_Size inst))"
  using assms by (subst (asm) sweep.simps, auto split: if_splits sum.splits)+

lemma sweep_Nil:
  assumes "sweep program pc = []" "pc < of_nat (length program)" "length program < 2 ^ 64"
  shows "\<exists>e. fetchInstruction pc program = Inr (Inl e)"
proof -
  have "unat (of_nat (length program) :: u64) = length program"
    using assms(3) by (simp add: unsigned_of_nat take_bit_nat_eq_self_iff)
  then have "unat pc < length program" using assms(2) by (simp only: word_less_nat_alt)
  then have "\<exists>r. fetchInstruction pc program = Inr r" using fetchInstruction_cases [OF _ assms(3)] by (auto split: if_splits)
  then show ?thesis using assms(1,2) by (subst (asm) sweep.simps) (auto split: sum.splits)
qed

lemma vm_inv_after: "vm_inv limit ps k (after_instruction rt vm) = vm_inv limit ps k vm"
  "vm_inv limit ps k (vm\<lparr>vm_pc := pc\<rparr>) = vm_inv limit ps k vm"
  "vm_inv limit ps k (vm\<lparr>vm_stats := st\<rparr>) = vm_inv limit ps k vm"
  by (simp_all add: vm_inv_def after_instruction_def)

lemma vm_inv_mono: "vm_inv limit ps k vm \<Longrightarrow> j \<le> k \<Longrightarrow> vm_inv limit ps j vm"
  by (auto simp: vm_inv_def machine_inv_def al_ok_def)

lemma exec_loop_halted:
  "vm_halted vm \<Longrightarrow> exec_loop fb pord env program k vm =
     vm_ok (vm\<lparr>vm_stats := (vm_stats vm)\<lparr>vs_RunTime := rt_now (env k) - vs_StartTime (vm_stats vm)\<rparr>\<rparr>)"
  by (subst exec_loop.simps) simp

text \<open>One round of the loop, from the outcome of its instruction.\<close>

lemma exec_loop_round:
  assumes "sweep program (vm_pc vm) = inst # is" "\<not> vm_halted vm" "\<not> vm_paused vm"
    and "executeInstruction fb pord (env k) vm inst = Some (Inr (vm', e))"
  defines "vm1 \<equiv> after_instruction (env k) vm'"
  shows "exec_loop fb pord env program k vm =
      (case e of Some err \<Rightarrow> vm_fail vm1 (ExecutionError (vm_pc vm1) err)
       | None \<Rightarrow> if Remaining (vm_gasAccount vm1) = 0 then vm_fail vm1 GasExhausted
           else if vs_InstructionsExecuted (vm_stats vm1) \<ge> vc_MaxInstructions (vm_config vm1)
           then vm_fail vm1 InstructionLimitExceeded
           else exec_loop fb pord env program (Suc k) (vm1\<lparr>vm_pc := vm_pc vm1 + ucast (inst_Size inst)\<rparr>))"
  using sweep_Cons [OF assms(1)] assms(2-4) by (subst exec_loop.simps, cases e) (simp_all add: Let_def vm1_def)

lemma after_frame:
  assumes "vm_frame vm vm'"
  shows "vm_pc (after_instruction rt vm') = vm_pc vm" "vm_paused (after_instruction rt vm') = vm_paused vm"
    "vm_config (after_instruction rt vm') = vm_config vm"
    "vs_InstructionsExecuted (vm_stats (after_instruction rt vm')) = vs_InstructionsExecuted (vm_stats vm) + 1"
  using assms by (simp_all add: after_instruction_def vm_frame_def)

lemma after_same [simp]:
  "vm_halted (after_instruction rt vm) = vm_halted vm" "vm_gasAccount (after_instruction rt vm) = vm_gasAccount vm"
  "GetGasUsed (after_instruction rt vm) = GetGasUsed vm"
  by (simp_all add: after_instruction_def GetGasUsed_def)

lemma exec_loop_safe_Nil:
  assumes len: "length program < 2 ^ 64" and nil: "sweep program (vm_pc vm) = []" and vm: "vm_inv limit ps j vm" "\<not> vm_paused vm" "\<not> vm_halted vm"
  shows "keeps_inv limit ps j (exec_loop fb pord env program k vm)"
proof (cases "vm_pc vm < of_nat (length program)")
  case False
  then show ?thesis using vm by (subst exec_loop.simps) (simp add: run_simps vm_inv_after)
next
  case True
  from sweep_Nil [OF nil True len] obtain e where "fetchInstruction (vm_pc vm) program = Inr (Inl e)" by blast
  then show ?thesis using vm True by (subst exec_loop.simps) (simp add: run_simps)
qed

lemma exec_loop_safe:
  assumes len: "length program < 2 ^ 64" and env: "\<And>i. rt_ok (env i)"
  shows "sweep program (vm_pc vm) = is \<Longrightarrow> vm_inv limit ps (length is + j) vm \<Longrightarrow> \<not> vm_paused vm \<Longrightarrow>
    \<forall>i \<in> set is. allowed ps i \<Longrightarrow> \<not> vm_halted vm \<Longrightarrow>
    keeps_inv limit ps j (exec_loop fb pord env program k vm)"
proof (induction "is" arbitrary: vm k)
  case Nil
  then show ?case by (intro exec_loop_safe_Nil [OF len]) simp_all
next
  case (Cons inst "is")
  note c = sweep_Cons [OF Cons.prems(1)]
  have inv: "vm_inv limit ps (Suc (length is + j)) vm" using Cons.prems(2) by simp
  have al: "allowed ps inst" using Cons.prems(4) by simp
  from executeInstruction_inv [OF inv env al, of fb pord k] obtain vm' e where
    r: "executeInstruction fb pord (env k) vm inst = Some (Inr (vm', e))" and s: "vm_inv limit ps (length is + j) vm'"
    unfolding returns_def by auto
  define vm1 where "vm1 = after_instruction (env k) vm'"
  have i1: "vm_inv limit ps (length is + j) vm1" using s by (simp add: vm1_def vm_inv_after)
  have f: "vm_frame vm vm'" using executeInstruction_frame [of fb pord "env k" vm inst] r by (simp add: run_post_def)
  note pc = after_frame [OF f, of "env k", folded vm1_def]
  note step = exec_loop_round [where env = env and k = k, OF Cons.prems(1,5,3) r, folded vm1_def]
  let ?vm2 = "vm1\<lparr>vm_pc := vm_pc vm1 + ucast (inst_Size inst)\<rparr>"
  have stop: "vm_inv limit ps j vm1" by (rule vm_inv_mono [OF i1]) simp
  have go: "keeps_inv limit ps j (exec_loop fb pord env program (Suc k) ?vm2)"
  proof (cases "vm_halted vm1")
    case True
    then show ?thesis using stop by (simp add: exec_loop_halted run_simps vm_inv_after)
  next
    case False
    show ?thesis
      by (rule Cons.IH) (use c(3) i1 pc Cons.prems(3,4) False in \<open>simp_all add: vm_inv_after\<close>)
  qed
  show ?case
    using stop go by (cases e) (simp_all add: step run_simps)
qed


end
