(* ===== verification/VMCorrect.thy ===== *)
theory VMCorrect
  imports VMSafety
begin

text \<open>
  The properties of the virtual machine: execution is total and safe, gas is accounted for
  exactly, the cache is transparent, and what is stored is loaded.
\<close>

section \<open>Whole programs\<close>

lemma of_nat_less_u64: "m < n \<Longrightarrow> n < 2 ^ 64 \<Longrightarrow> (of_nat m :: u64) < of_nat n"
  by (simp add: word_less_nat_alt unsigned_of_nat take_bit_nat_eq_self)

lemma sweep_assembled_from:
  assumes "length (pre @ concat (map assemble is)) < 2 ^ 64"
  shows "sweep (pre @ concat (map assemble is)) (of_nat (length pre)) = map denote is"
  using assms
proof (induction "is" arbitrary: pre)
  case Nil
  then show ?case by (subst sweep.simps) simp
next
  case (Cons i "is")
  let ?p = "pre @ concat (map assemble (i # is))"
  have l: "0 < length (assemble i)" by (cases i) simp_all
  have f: "fetchInstruction (of_nat (length pre)) ?p = Inr (Inr (denote i))"
    using fetch_at [of pre i "concat (map assemble is)"] Cons.prems by simp
  have "length pre < length ?p" using l by simp
  then have lt: "(of_nat (length pre) :: u64) < of_nat (length ?p)"
    by (rule of_nat_less_u64) (use Cons.prems in simp)
  have "(of_nat (length pre) + ucast (inst_Size (denote i)) :: u64) = of_nat (length (pre @ assemble i))"
    using length_assemble [of i] by simp
  then have "sweep ?p (of_nat (length pre)) = denote i # sweep ?p (of_nat (length (pre @ assemble i)))"
    using f lt by (subst sweep.simps) simp
  also have "sweep ?p (of_nat (length (pre @ assemble i))) = map denote is"
    using Cons.IH [of "pre @ assemble i"] Cons.prems by simp
  finally show ?case by simp
qed

lemma Execute_returns:
  assumes "vm_inv limit ps (length (sweep program 0) + j) vm" "\<not> vm_paused vm" "length program < 2 ^ 64"
    and "\<And>i. rt_ok (env i)" "\<forall>i \<in> set (sweep program 0). allowed ps i"
  shows "keeps_inv limit ps j (Execute fb pord env vm program)"
  unfolding Execute_def by (rule exec_loop_safe [OF assms(3,4)]) (use assms in \<open>simp_all add: vm_inv_def\<close>)

section \<open>Payments\<close>

text \<open>Every decoded instruction is one of the instructions that the formats describe.\<close>

lemma decoded_is_denoted:
  assumes "DecodeInstruction data = Inr inst"
  obtains i where "inst = denote i"
proof -
  have "decodeMLoad3D data = Inr inst \<or> decodeMStore3D data = Inr inst \<or> decodeMAlloc3D data = Inr inst
      \<or> decodeMFree3D data = Inr inst \<or> decodeMCopy3D data = Inr inst \<or> decodeMSize3D data = Inr inst
      \<or> decodeMov3D data = Inr inst \<or> decodeAdd3D data = Inr inst \<or> decodeSub3D data = Inr inst
      \<or> inst = denote Nop \<or> inst = denote Halt"
    using assms by (auto simp: DecodeInstruction_def Let_def split: if_splits)
  moreover have "decodeMLoad3D data = Inr inst \<Longrightarrow> \<exists>a n r. inst = denote (Load a n r)"
    "decodeMStore3D data = Inr inst \<Longrightarrow> \<exists>a r n. inst = denote (Store a r n)"
    "decodeMAlloc3D data = Inr inst \<Longrightarrow> \<exists>n t f r. inst = denote (Alloc n t f r)"
    "decodeMFree3D data = Inr inst \<Longrightarrow> \<exists>a. inst = denote (Free a)"
    "decodeMSize3D data = Inr inst \<Longrightarrow> \<exists>a r. inst = denote (SizeOf a r)"
    "decodeMov3D data = Inr inst \<Longrightarrow> \<exists>d s. inst = denote (Mov d s)"
    "decodeAdd3D data = Inr inst \<Longrightarrow> \<exists>d s t. inst = denote (Add d s t)"
    "decodeSub3D data = Inr inst \<Longrightarrow> \<exists>d s t. inst = denote (Sub d s t)"
    by (auto simp: decodeMLoad3D_def decodeMStore3D_def decodeMAlloc3D_def decodeMFree3D_def decodeMSize3D_def
        decodeMov3D_def decodeAdd3D_def decodeSub3D_def split: if_splits)
  moreover have "decodeMCopy3D data = Inr inst \<Longrightarrow> \<exists>sx sy sz dx dy n. inst = denote (Copy sx sy sz dx dy n)"
    by (fastforce simp: decodeMCopy3D_def NewAddress_def Let_def split: if_splits)
  ultimately have "\<exists>i. inst = denote i" by blast
  then show thesis using that by blast
qed

lemma fetched_not_compact: "fetchInstruction pc program = Inr (Inr inst) \<Longrightarrow> inst_Opcode inst \<noteq> OP_MCOMPACT3D"
proof -
  assume "fetchInstruction pc program = Inr (Inr inst)"
  then obtain data where "DecodeInstruction data = Inr inst"
    by (auto simp: fetchInstruction_def Let_def split: if_splits)
  then obtain i where "inst = denote i" by (rule decoded_is_denoted)
  then show ?thesis by (cases i) (simp_all add: instruction_def opcode_defs)
qed

text \<open>What a run over the instructions \<open>is\<close> has charged when it returns.\<close>

definition run_charged :: "nat \<Rightarrow> Instruction3D list \<Rightarrow> VM3D \<Rightarrow> VM3D \<times> error option \<Rightarrow> bool" where
  "run_charged limit is vm r \<longleftrightarrow> (case r of (vm', e) \<Rightarrow>
     gas_inv limit (vm_gasAccount vm')
     \<and> (\<exists>m \<le> length is. unat (GetGasUsed vm') = unat (GetGasUsed vm) + total_cost (take m is)
          \<and> (e = None \<longrightarrow> take m is = upto_halt is
               \<and> vs_InstructionsExecuted (vm_stats vm') = vs_InstructionsExecuted (vm_stats vm) + of_nat m)))"

lemma run_charged_Cons:
  assumes "run_charged limit is vm1 r" "unat (GetGasUsed vm1) = unat (GetGasUsed vm) + unat (calculateGasCost inst)"
    "vs_InstructionsExecuted (vm_stats vm1) = vs_InstructionsExecuted (vm_stats vm) + 1" "inst_Opcode inst \<noteq> OP_HALT3D"
  shows "run_charged limit (inst # is) vm r"
proof -
  obtain vm' e where r: "r = (vm', e)" by (cases r)
  from assms(1) obtain m where m: "gas_inv limit (vm_gasAccount vm')" "m \<le> length is"
    "unat (GetGasUsed vm') = unat (GetGasUsed vm1) + total_cost (take m is)"
    "e = None \<longrightarrow> take m is = upto_halt is
       \<and> vs_InstructionsExecuted (vm_stats vm') = vs_InstructionsExecuted (vm_stats vm1) + of_nat m"
    unfolding run_charged_def r by auto
  then show ?thesis
    using assms(2-4) unfolding run_charged_def r prod.case by (intro conjI exI [of _ "Suc m"]) auto
qed

lemma exec_loop_charged:
  "sweep program (vm_pc vm) = is \<Longrightarrow> gas_inv limit (vm_gasAccount vm) \<Longrightarrow> \<not> vm_halted vm \<Longrightarrow>
    run_post (exec_loop fb pord env program k vm) (run_charged limit is vm)"
proof (induction "is" arbitrary: vm k)
  case Nil
  show ?case
  proof (cases "vm_pc vm < of_nat (length program)")
    case False
    then show ?thesis using Nil by (subst exec_loop.simps) (simp add: run_simps run_charged_def GetGasUsed_def)
  next
    case True
    then have "\<nexists>inst. fetchInstruction (vm_pc vm) program = Inr (Inr inst)"
      using Nil(1) by (subst (asm) sweep.simps) (auto split: sum.splits)
    then show ?thesis
      using Nil True by (subst exec_loop.simps) (auto simp: run_simps run_charged_def split: sum.split)
  qed
next
  case (Cons inst "is")
  note c = sweep_Cons [OF Cons.prems(1)]
  show ?case
  proof (cases "\<exists>x. executeInstruction fb pord (env k) vm inst = Some (Inr x) \<and> \<not> vm_paused vm")
    case False
    then have "run_post (executeInstruction fb pord (env k) vm inst) P \<or> vm_paused vm" for P
      by (auto simp: run_post_def)
    then show ?thesis
      using c(1,2) Cons.prems(3) by (subst exec_loop.simps) (auto simp: run_simps)
  next
    case True
    then obtain vm' e where r: "executeInstruction fb pord (env k) vm inst = Some (Inr (vm', e))" "\<not> vm_paused vm" by auto
    have s: "paid_effect limit vm inst (vm', e)"
      using executeInstruction_paid [OF Cons.prems(2) fetched_not_compact [OF c(2)], of fb pord "env k"] r(1)
      by (simp add: run_post_def)
    have f: "vm_frame vm vm'" using executeInstruction_frame [of fb pord "env k" vm inst] r(1) by (simp add: run_post_def)
    define vm1 where "vm1 = after_instruction (env k) vm'"
    note pc = after_frame [OF f, of "env k", folded vm1_def]
    note step = exec_loop_round [where env = env and k = k, OF Cons.prems(1,3) r(2,1), folded vm1_def]
    let ?vm2 = "vm1\<lparr>vm_pc := vm_pc vm1 + ucast (inst_Size inst)\<rparr>"
    define paid where "paid \<longleftrightarrow> unat (calculateGasCost inst) \<le> gas_left (vm_gasAccount vm)"
    have u: "unat (GetGasUsed vm1) = unat (GetGasUsed vm) + (if paid then unat (calculateGasCost inst) else 0)"
      and np: "\<not> paid \<longrightarrow> e = Some InsufficientGas" and g: "gas_inv limit (vm_gasAccount vm1)"
      and h: "e = None \<longrightarrow> vm_halted vm1 = (inst_Opcode inst = OP_HALT3D)"
      using s Cons.prems(3) unfolding vm1_def paid_def by (auto simp: paid_effect_def split: if_splits)
    have stop: "run_charged limit (inst # is) vm (vm1, Some err)" for err
      using u g unfolding run_charged_def by (auto intro: exI [of _ "Suc 0"] exI [of _ 0])
    have go: "run_post (exec_loop fb pord env program (Suc k) ?vm2) (run_charged limit (inst # is) vm)" if e: "e = None"
    proof (cases "inst_Opcode inst = OP_HALT3D")
      case True
      then have "vm_halted ?vm2" using h e by simp
      then show ?thesis
        using True u np e g pc(4)
        by (simp add: exec_loop_halted run_simps run_charged_def GetGasUsed_def) (auto intro: exI [of _ "Suc 0"])
    next
      case False
      have "run_post (exec_loop fb pord env program (Suc k) ?vm2) (run_charged limit is ?vm2)"
        by (rule Cons.IH) (use c(3) g pc h e False in simp_all)
      then show ?thesis
        using run_charged_Cons [of limit "is" ?vm2 _ vm inst] u np e pc(4) False
        by (auto simp: run_post_def GetGasUsed_def)
    qed
    show ?thesis using stop go by (cases e) (simp_all add: step run_simps)
  qed
qed

lemma Execute_charged:
  assumes "gas_inv limit (vm_gasAccount vm)"
  shows "run_post (Execute fb pord env vm program) (run_charged limit (sweep program 0) vm)"
proof -
  let ?vm = "vm\<lparr>vm_pc := 0, vm_halted := False, vm_stats := (vm_stats vm)\<lparr>vs_StartTime := rt_now (env 0)\<rparr>\<rparr>"
  have "run_post (exec_loop fb pord env program 0 ?vm) (run_charged limit (sweep program 0) ?vm)"
    by (rule exec_loop_charged) (use assms in simp_all)
  then show ?thesis by (simp add: Execute_def run_post_def run_charged_def GetGasUsed_def)
qed

section \<open>Loads\<close>

lemma view_length:
  assumes "mem_inv a mm" "mem_view a mm addr = Some v"
  shows "length v \<le> 65535"
proof -
  obtain al where al: "map_of (mm_allocations mm) addr = Some al"
    using assms(2) by (auto simp: mem_view_def bind_eq_Some_conv)
  show ?thesis by (rule mem_view_Some [OF assms(1) al]) (use assms(2) in simp)
qed

lemma mload_outcome:
  assumes inv: "vm_inv limit ps k vm" and rt: "rt_ok rt"
  shows "\<exists>vm' e. mload rt vm addr sz reg = Some (Inr (vm', e)) \<and> vm_view vm' = vm_view vm \<and>
    (case vm_view vm addr of
       Some v \<Rightarrow> if unat sz \<le> length v
                 then e = None \<and> vm_registers vm' = Reg_Set (vm_registers vm) reg (take (unat sz) v)
                 else e \<noteq> None \<and> vm_registers vm' = vm_registers vm
     | None \<Rightarrow> e \<noteq> None \<and> vm_registers vm' = vm_registers vm)"
proof -
  note p = vm_inv_parts [OF inv]
  have ord: "valid_order (rt_allocations rt)" using rt by (simp add: rt_ok_def)
  have mi: "mem_inv (vm_allocator vm) (vm_memory vm)" using p(1) by (simp add: machine_inv_def)
  obtain c hit where g: "Cache_Get (vm_cache vm) addr = (c, hit)" by fastforce
  note m = machine_get [OF p(1) g]
  obtain mm res where r: "MM_Load3D (rt_allocations rt) (vm_allocator vm) (vm_memory vm) addr sz (rt_now rt) = Inr (mm, res)"
      "machine_inv ps k (vm_allocator vm) mm c" "mem_view (vm_allocator vm) mm = vm_view vm"
      "case res of Inr d \<Rightarrow> \<exists>v. vm_view vm addr = Some v \<and> unat sz \<le> length v \<and> d = take (unat sz) v
         | Inl _ \<Rightarrow> \<forall>v. vm_view vm addr = Some v \<longrightarrow> length v < unat sz"
    by (rule machine_load [OF m(1) ord])
  have "mem_inv (vm_allocator vm) mm" using r(2) by (simp add: machine_inv_def)
  note acc = UpdateAccess_law(2) [OF this, of addr "rt_now rt"]
  show ?thesis
  proof (cases "\<exists>data. hit = Some data \<and> of_nat (length data) \<ge> sz")
    case True
    then obtain d where d: "hit = Some d" "of_nat (length d) \<ge> sz" by blast
    have "cache_view (vm_cache vm) addr = Some d" using m(3) d(1) by simp
    then obtain v where v: "vm_view vm addr = Some v" "length d \<le> length v" "take (length d) v = d"
      using p(1) unfolding machine_inv_def coherent_def by blast
    have "length d \<le> 65535" using view_length [OF mi v(1)] v(2) by simp
    then have "unat (of_nat (length d) :: u32) = length d" by (simp add: unsigned_of_nat take_bit_nat_eq_self)
    then have le: "unat sz \<le> length d" using d(2) by (simp add: word_le_nat_alt)
    then have "take (unat sz) d = take (unat sz) v" using v(3) by (metis min.absorb1 take_take)
    then show ?thesis using g d v le by (simp add: mload_def vm_ok_def)
  next
    case False
    have eq: "mload rt vm addr sz reg = (case res of
        Inl e \<Rightarrow> vm_fail (vm\<lparr>vm_cache := c, vm_memory := mm\<rparr>) (Wrapped ''MLOAD3D failed'' e)
      | Inr data \<Rightarrow> vm_ok (vm\<lparr>vm_cache := Cache_Put c addr data,
           vm_registers := Reg_Set (vm_registers vm) reg data, vm_memory := MM_UpdateAccess mm addr (rt_now rt)\<rparr>))"
      using False by (cases hit) (auto simp: mload_def g r(1) Let_def split: sum.split)
    show ?thesis
    proof (cases res)
      case (Inl e)
      then show ?thesis using r(3,4) by (auto simp: eq vm_fail_def split: option.split)
    next
      case (Inr d)
      then show ?thesis using r(3,4) acc by (auto simp: eq vm_ok_def)
    qed
  qed
qed

section \<open>Stores, allocation and release\<close>

lemma mstore_outcome:
  fixes reg :: Register
  assumes inv: "vm_inv limit ps k vm" and rt: "rt_ok rt"
  defines "data \<equiv> Reg_Get (vm_registers vm) reg"
  assumes len: "length data < 2 ^ 32"
  shows "\<exists>vm' e. mstore rt vm addr reg sz = Some (Inr (vm', e)) \<and> vm_registers vm' = vm_registers vm \<and>
    (case vm_view vm addr of
       Some v \<Rightarrow> if unat sz \<le> length data \<and> unat sz \<le> length v
                 then e = None \<and> vm_view vm' = (vm_view vm)(addr \<mapsto> take (unat sz) data @ drop (unat sz) v)
                 else e \<noteq> None \<and> vm_view vm' = vm_view vm
     | None \<Rightarrow> e \<noteq> None \<and> vm_view vm' = vm_view vm)"
proof -
  note p = vm_inv_parts [OF inv]
  have ord: "valid_order (rt_allocations rt)" using rt by (simp add: rt_ok_def)
  have small: "of_nat (length data) < sz \<longleftrightarrow> length data < unat sz"
    using len by (simp add: word_less_nat_alt unsigned_of_nat take_bit_nat_eq_self)
  show ?thesis
  proof (cases "length data < unat sz")
    case True
    then have "mstore rt vm addr reg sz = Some (Inr (vm, Some RegisterDataTooSmall))"
      using small by (simp add: mstore_def data_def vm_fail_def Let_def)
    then show ?thesis using True by (auto split: option.split)
  next
    case False
    let ?d = "take (unat sz) data"
    have ld: "length ?d = unat sz" using False by simp
    have "length ?d < 2 ^ 32" using len by simp
    then show ?thesis
    proof (rule machine_store [OF p(1) ord, of _ addr "rt_now rt"])
      fix a mm v
      assume s: "MM_Store3D (rt_allocations rt) (vm_allocator vm) (vm_memory vm) addr ?d (rt_now rt) = Inr (a, mm, None)"
        "vm_view vm addr = Some v" "length ?d \<le> length v"
        "mem_view a mm = (vm_view vm)(addr \<mapsto> ?d @ drop (length ?d) v)"
        "machine_inv ps k a mm (Cache_Put (vm_cache vm) addr ?d)"
      have "mem_inv a mm" using s(5) by (simp add: machine_inv_def)
      note acc = UpdateAccess_law(2) [OF this, of addr "rt_now rt"]
      have st: "mstore rt vm addr reg sz = vm_ok (vm\<lparr>vm_allocator := a, vm_cache := Cache_Put (vm_cache vm) addr ?d,
          vm_merkleTree := map_option (\<lambda>t. Tree_Update (rt_nodes rt) t addr ?d) (vm_merkleTree vm),
          vm_memory := MM_UpdateAccess mm addr (rt_now rt)\<rparr>)"
        using s(1) False small by (simp add: mstore_def Let_def flip: data_def)
      show ?thesis using False s(2,3) acc ld unfolding st vm_ok_def s(4) by (simp del: fun_upd_apply)
    next
      fix e
      assume s: "MM_Store3D (rt_allocations rt) (vm_allocator vm) (vm_memory vm) addr ?d (rt_now rt)
          = Inr (vm_allocator vm, vm_memory vm, Some e)"
        "\<forall>v. vm_view vm addr = Some v \<longrightarrow> length v < length ?d"
      have "mstore rt vm addr reg sz = vm_fail (vm\<lparr>vm_allocator := vm_allocator vm, vm_memory := vm_memory vm\<rparr>)
          (Wrapped ''MSTORE3D failed'' e)"
        using s(1) False small by (simp add: mstore_def Let_def flip: data_def)
      then show ?thesis using s(2) ld by (auto simp: vm_fail_def split: option.split)
    qed
  qed
qed

lemma malloc3d_outcome:
  assumes inv: "vm_inv limit ps (Suc k) vm" and rt: "rt_ok rt" and sz: "sz \<noteq> 0"
  shows "\<exists>vm' e. malloc3d rt vm sz t flags = Some (Inr (vm', e)) \<and>
    (if unat sz \<le> unat ps
     then e = None \<and> (\<exists>addr v. vm_view vm addr = None \<and> length v = unat sz
            \<and> vm_view vm' = (vm_view vm)(addr \<mapsto> v) \<and> GetAddress (vm_registers vm') R0 = Inr addr)
     else e = Some (Wrapped ''MALLOC3D failed'' (InsufficientMemory sz)) \<and> vm_view vm' = vm_view vm)"
proof -
  note p = vm_inv_parts [OF inv]
  have ord: "valid_order (rt_regions rt)" using rt by (simp add: rt_ok_def)
  show ?thesis
  proof (rule machine_allocate [OF p(1) ord sz, of "rt_queued rt" t flags "rt_now rt" "rt_now rt"])
    fix a al v
    assume r: "Allocate (rt_queued rt) (rt_regions rt) (vm_allocator vm) sz t flags (rt_now rt) = Some (Inr (a, Some al, None))"
      "vm_view vm (alloc_Address al) = None" "length v = unat sz" "unat sz \<le> unat ps"
      "mem_view a (trackAllocation (vm_memory vm) al (rt_now rt)) = (vm_view vm)(alloc_Address al \<mapsto> v)"
    have "GetAddress (SetAddress (vm_registers vm) R0 (alloc_Address al)) R0 = Inr (alloc_Address al)"
      using p(3) by (simp add: GetAddress_def SetAddress_def Reg_Get_Set R0_def R15_def Bytes_length FromBytes_Bytes)
    then show ?thesis using r by (auto simp: malloc3d_def vm_ok_def Let_def)
  next
    fix a
    assume r: "Allocate (rt_queued rt) (rt_regions rt) (vm_allocator vm) sz t flags (rt_now rt) = Some (Inr (a, None, Some (InsufficientMemory sz)))"
      "mem_view a (vm_memory vm) = vm_view vm" "unat ps < unat sz"
    then show ?thesis by (simp add: malloc3d_def vm_fail_def)
  qed
qed

lemma mfree_outcome:
  assumes inv: "vm_inv limit ps k vm" and rt: "rt_ok rt" and small: "unat ps \<le> 32768"
  shows "\<exists>vm' e. mfree rt vm addr = Some (Inr (vm', e)) \<and> vm_view vm' = (vm_view vm)(addr := None)
    \<and> (e = None \<longleftrightarrow> vm_view vm addr \<noteq> None)"
proof -
  note p = vm_inv_parts [OF inv]
  have mi: "mem_inv (vm_allocator vm) (vm_memory vm)" using p(1) by (simp add: machine_inv_def)
  have l: "getAllocation (rt_allocations rt) (vm_memory vm) addr = map_of (mm_allocations (vm_memory vm)) addr"
    by (rule lookup_exact(2) [OF mi]) (use rt in \<open>simp add: rt_ok_def\<close>)
  show ?thesis
  proof (cases "map_of (mm_allocations (vm_memory vm)) addr")
    case None
    then have "vm_view vm addr = None" by (simp add: mem_view_def)
    then show ?thesis using None l by (simp add: mfree_def vm_fail_def fun_upd_idem)
  next
    case (Some al)
    have v: "vm_view vm addr \<noteq> None" by (rule mem_view_Some [OF mi Some]) simp
    show ?thesis
      by (rule machine_free [OF p(1) small Some, of "rt_now rt"])
        (use l Some v in \<open>simp add: mfree_def vm_ok_def del: fun_upd_apply\<close>)
  qed
qed


section \<open>Handlers on decoded instructions\<close>

lemma denoted_handlers:
  "executeMLoad3D rt vm (denote (Load addr sz reg)) = mload rt vm addr sz reg"
  "executeMStore3D rt vm (denote (Store addr reg sz)) = mstore rt vm addr reg sz"
  "executeMAlloc3D rt vm (denote (Alloc sz t flags reg)) = malloc3d rt vm sz t flags"
  "executeMFree3D rt vm (denote (Free addr)) = mfree rt vm addr"
  by (simp_all add: executeMLoad3D_def executeMStore3D_def executeMAlloc3D_def executeMFree3D_def instruction_def
      operand_def as_address_def as_uint32_def as_register_def as_regionType_def as_flags_def)

lemma mload_unallocated:
  assumes "cache_inv (vm_cache vm)" "cache_view (vm_cache vm) addr = None"
    and "getAllocationLocked (rt_allocations rt) (vm_memory vm) addr = None"
  shows "\<exists>vm'. mload rt vm addr sz reg = Some (Inr (vm', Some (Wrapped ''MLOAD3D failed'' (AddressNotAllocated addr))))
    \<and> vm_registers vm' = vm_registers vm"
proof -
  obtain c where "Cache_Get (vm_cache vm) addr = (c, None)"
    using Cache_Get_law [OF assms(1), of addr] assms(2) by (cases "Cache_Get (vm_cache vm) addr") auto
  then show ?thesis using assms(3) by (simp add: mload_def MM_Load3D_def vm_fail_def)
qed

definition demo_rt :: Runtime where
  "demo_rt = \<lparr>rt_regions = (\<lambda>n. [0..<n]), rt_allocations = (\<lambda>n. [0..<n]), rt_nodes = (\<lambda>n. [0..<n]),
     rt_queued = False, rt_now = 0, rt_latency = 0\<rparr>"

definition demo_vm :: VM3D where
  "demo_vm = NewVM3D \<lparr>vc_MemorySize = 0, vc_GasLimit = 10000, vc_EnableProof = False, vc_EnableCompaction = False,
     vc_MaxInstructions = 100, vc_LogLevel = 0\<rparr> 0"

definition demo_bits :: "rat \<Rightarrow> u64" where "demo_bits f = 0"

definition demo_order :: "Plane \<Rightarrow> order" where "demo_order p n = [0..<n]"

lemma demo_rt_ok: "rt_ok demo_rt"
  by (simp add: rt_ok_def demo_rt_def)

lemma demo_vm_inv: "k < 2 ^ 64 - 1 \<Longrightarrow> vm_inv 10000 65535 k demo_vm"
  using NewVM3D_inv [of k "\<lparr>vc_MemorySize = 0, vc_GasLimit = 10000, vc_EnableProof = False, vc_EnableCompaction = False,
     vc_MaxInstructions = 100, vc_LogLevel = 0\<rparr>" 0] by (simp add: demo_vm_def)

section \<open>Properties\<close>

text \<open>
  C3.  Execution is total and safe.  From a consistent machine, a program of any bytes whose
  instructions ask for at least one byte of memory, and free memory only when planes have at most
  32768 bytes, is executed to an end: the loop terminates and nothing panics,
  whatever order the run time walks its maps in; and the machine is consistent again, with every
  live block in its plane, the blocks disjoint, the cache in agreement with memory, the region
  counters exact and the gas account balanced.
  The conditions are \<open>allowed\<close>: they exclude the free instruction on the machine of \<^verbatim>\<open>NewVM3D\<close>, whose
  planes have 65535 bytes, and there the claim would be false.
\<close>

theorem Execute_safe:
  assumes "vm_inv limit ps (length (sweep program 0) + j) vm" "\<not> vm_paused vm" "length program < 2 ^ 64"
    and "\<forall>i. rt_ok (env i)" "\<forall>i \<in> set (sweep program 0). allowed ps i"
  shows "\<exists>vm' e. Execute fb pord env vm program = Some (Inr (vm', e)) \<and> vm_inv limit ps j vm'"
  using Execute_returns [OF assms(1-3) _ assms(5), of env fb pord] assms(4)
  unfolding returns_def by auto

theorem Execute_safe_witness:
  "\<exists>vm' e. Execute demo_bits demo_order (\<lambda>i. demo_rt) demo_vm (concat (map assemble [Alloc 8 4 0 0, Add 2 0 1, Halt])) = Some (Inr (vm', e))
     \<and> vm_inv 10000 65535 7 vm'"
proof -
  let ?p = "concat (map assemble [Alloc 8 4 0 0, Add 2 0 1, Halt])"
  have s: "sweep ?p 0 = map denote [Alloc 8 4 0 0, Add 2 0 1, Halt]"
    using sweep_assembled_from [of "[]" "[Alloc 8 4 0 0, Add 2 0 1, Halt]"] by simp
  have "\<forall>i \<in> set (sweep ?p 0). allowed 65535 i"
    unfolding s by (simp add: allowed_def instruction_def opcode_defs operand_def as_uint32_def)
  moreover have "vm_inv 10000 65535 (length (sweep ?p 0) + 7) demo_vm" unfolding s by (rule demo_vm_inv) simp
  ultimately show ?thesis
    by (intro Execute_safe) (use demo_rt_ok in \<open>simp_all add: demo_vm_def NewVM3D_def\<close>)
qed

text \<open>
  C4.  Gas is accounted for exactly, for every program and from every state of memory, whatever the
  machine's plane size: whenever a call of \<^verbatim>\<open>Execute\<close> returns, with or without an error, the gas used
  has grown by the costs of the instructions that were paid for, a prefix of the program, and
  never exceeds the limit; when it returns without an error, these are exactly the instructions
  up to and including the first halt, and the instruction counter has grown by their number.  The
  costs are those that \<^verbatim>\<open>calculateGasCost\<close> charges; for an allocation that is twice the documented
  price per byte.  That execution does return, for the programs that keep the invariant, is the
  property before this one.
\<close>

theorem Execute_gas_exact:
  assumes "gas_inv limit (vm_gasAccount vm)" "Execute fb pord env vm program = Some (Inr (vm', e))"
  shows "\<exists>m \<le> length (sweep program 0).
      unat (GetGasUsed vm') = unat (GetGasUsed vm) + total_cost (take m (sweep program 0))
    \<and> unat (GetGasUsed vm') \<le> limit
    \<and> (e = None \<longrightarrow> take m (sweep program 0) = upto_halt (sweep program 0)
         \<and> vs_InstructionsExecuted (GetStats vm') = vs_InstructionsExecuted (GetStats vm) + of_nat m)"
proof -
  have r: "run_charged limit (sweep program 0) vm (vm', e)"
    using Execute_charged [OF assms(1), of fb pord env program] assms(2) by (simp add: run_post_def)
  then have "unat (GetGasUsed vm') \<le> limit"
    using gas_balance [of limit "vm_gasAccount vm'"] by (simp add: run_charged_def GetGasUsed_def)
  then show ?thesis using r by (auto simp: run_charged_def GetStats_def)
qed

theorem Execute_gas_exact_witness:
  "\<exists>vm' e. Execute demo_bits demo_order (\<lambda>i. demo_rt) demo_vm (concat (map assemble [Add 2 0 1, Halt, Nop])) = Some (Inr (vm', e))
     \<and> (e = None \<longrightarrow> unat (GetGasUsed vm') = total_cost [denote (Add 2 0 1), denote Halt])"
proof -
  let ?is = "[Add 2 0 1, Halt, Nop]"
  let ?p = "concat (map assemble ?is)"
  have s: "sweep ?p 0 = map denote ?is" using sweep_assembled_from [of "[]" ?is] by simp
  have a: "\<forall>i \<in> set (sweep ?p 0). allowed 65535 i"
    unfolding s by (simp add: allowed_def instruction_def opcode_defs)
  have i: "vm_inv 10000 65535 (length (sweep ?p 0) + 0) demo_vm" unfolding s by (rule demo_vm_inv) simp
  have n: "\<not> vm_paused demo_vm" "length ?p < 2 ^ 64" by (simp_all add: demo_vm_def NewVM3D_def)
  have g: "GetGasUsed demo_vm = 0" by (simp add: demo_vm_def NewVM3D_def GetGasUsed_def Used_def NewAccountant_def numBuckets_def Let_def)
  have u: "upto_halt (map denote ?is) = [denote (Add 2 0 1), denote Halt]" by (simp add: instruction_def opcode_defs)
  from Execute_returns [OF i n _ a, of "\<lambda>i. demo_rt" demo_bits demo_order] demo_rt_ok obtain vm' e where
    x: "Execute demo_bits demo_order (\<lambda>i. demo_rt) demo_vm ?p = Some (Inr (vm', e))"
    unfolding returns_def by auto
  from Execute_gas_exact [OF vm_inv_parts(2) [OF i] x] have
    "e = None \<longrightarrow> unat (GetGasUsed vm') = total_cost [denote (Add 2 0 1), denote Halt]"
    unfolding s u g by (auto simp del: denote.simps list.map total_cost_simps)
  with x show ?thesis by blast
qed

text \<open>
  A linear program is decoded whole: for every list of instructions, the instructions that
  execution finds in the concatenation of their encodings are exactly these, in order.
\<close>

theorem sweep_assembled:
  assumes "length (concat (map assemble is)) < 2 ^ 64"
  shows "sweep (concat (map assemble is)) 0 = map denote is"
  using sweep_assembled_from [of "[]" "is"] assms by simp

theorem sweep_assembled_witness:
  "sweep (concat (map assemble [Nop, Mov 1 2, Halt])) 0 = [denote Nop, denote (Mov 1 2), denote Halt]"
  using sweep_assembled [of "[Nop, Mov 1 2, Halt]"] by simp

text \<open>
  The cache is transparent.  A load puts into its register exactly the bytes that memory
  holds at the address, whether they come from the cache or not, whenever the address is that of
  a live block and the size fits; otherwise it fails, and no register changes.  Memory stays the
  same in every case.
\<close>

theorem load_reads_memory:
  assumes "vm_inv limit ps k vm" "rt_ok rt"
  shows "\<exists>vm' e. executeMLoad3D rt vm (denote (Load addr sz reg)) = Some (Inr (vm', e)) \<and> vm_view vm' = vm_view vm \<and>
    (case vm_view vm addr of
       Some v \<Rightarrow> if unat sz \<le> length v
                 then e = None \<and> vm_registers vm' = Reg_Set (vm_registers vm) reg (take (unat sz) v)
                 else e \<noteq> None \<and> vm_registers vm' = vm_registers vm
     | None \<Rightarrow> e \<noteq> None \<and> vm_registers vm' = vm_registers vm)"
  unfolding denoted_handlers by (rule mload_outcome [OF assms])

theorem load_reads_memory_witness:
  "\<exists>vm' e. executeMLoad3D demo_rt demo_vm (denote (Load (NewAddress 2 0 0) 4 1)) = Some (Inr (vm', Some e))"
proof -
  have "vm_view demo_vm (NewAddress 2 0 0) = None" by (simp add: demo_vm_def NewVM3D_def NewMemoryManager_law)
  then show ?thesis
    using load_reads_memory [OF demo_vm_inv [of 0] demo_rt_ok, of "NewAddress 2 0 0" 4 1] by auto
qed

text \<open>
  C16.  What is stored is loaded.  After a successful store of a register, a load of at most as
  many bytes from the same address succeeds and delivers the first bytes of what the register
  held, and every other block of memory is as it was before the store.
\<close>

theorem store_then_load:
  assumes "vm_inv limit ps k vm" "rt_ok rt" "rt_ok rt'" "length (Reg_Get (vm_registers vm) reg) < 2 ^ 32"
    and "executeMStore3D rt vm (denote (Store addr reg sz)) = Some (Inr (vm1, None))"
    and "unat n \<le> unat sz" "reg' \<le> R15"
  shows "\<exists>vm2. executeMLoad3D rt' vm1 (denote (Load addr n reg')) = Some (Inr (vm2, None))
    \<and> Reg_Get (vm_registers vm2) reg' = take (unat n) (Reg_Get (vm_registers vm) reg)
    \<and> (\<forall>b. b \<noteq> addr \<longrightarrow> vm_view vm2 b = vm_view vm b)"
proof -
  let ?d = "Reg_Get (vm_registers vm) reg"
  have st: "mstore rt vm addr reg sz = Some (Inr (vm1, None))" using assms(5) by (simp only: denoted_handlers)
  obtain v where v: "vm_view vm addr = Some v" "unat sz \<le> length ?d" "unat sz \<le> length v"
    and w: "vm_view vm1 = (vm_view vm)(addr \<mapsto> take (unat sz) ?d @ drop (unat sz) v)"
    and g: "vm_registers vm1 = vm_registers vm"
    using mstore_outcome [OF assms(1,2,4), of addr sz] st by (auto split: option.splits if_splits)
  have i: "vm_inv limit ps k vm1" using mstore_inv [OF assms(1,2), of addr reg sz] by (simp add: st run_simps)
  have "vm_view vm1 addr = Some (take (unat sz) ?d @ drop (unat sz) v)" by (simp add: w)
  moreover have "unat n \<le> length (take (unat sz) ?d @ drop (unat sz) v)" using v(2,3) assms(6) by simp
  ultimately obtain vm2 where l: "mload rt' vm1 addr n reg' = Some (Inr (vm2, None))" "vm_view vm2 = vm_view vm1"
    "vm_registers vm2 = Reg_Set (vm_registers vm1) reg' (take (unat n) (take (unat sz) ?d @ drop (unat sz) v))"
    using mload_outcome [OF i assms(3), of addr n reg'] by auto
  have "regs_inv (vm_registers vm1)" using i by (simp add: vm_inv_def)
  then have "Reg_Get (vm_registers vm2) reg' = take (unat n) ?d"
    using assms(6,7) v(2) by (simp add: l(3) Reg_Get_Set min_absorb1)
  then show ?thesis unfolding denoted_handlers using l(1,2) w by auto
qed

text \<open>
  A machine with small planes, and the same with one live block of eight bytes and a number in
  register 1.
\<close>

definition small_vm :: VM3D where
  "small_vm = demo_vm\<lparr>vm_allocator := NewAllocator3D demo_config\<rparr>"

lemma small_vm_inv: "k < 2 ^ 64 - 1 \<Longrightarrow> vm_inv 10000 100 k small_vm"
  using demo_vm_inv [of k] NewAllocator3D_ok [of demo_config k]
  by (auto simp: vm_inv_def machine_inv_def small_vm_def demo_vm_def NewVM3D_def NewMemoryManager_law
      NewAllocator3D_inv NewAllocator3D_single NewSpatialCache_inv coherent_def demo_config_def)
    (simp_all add: NewAllocator3D_def)

lemma demo_block:
  obtains vm addr v where "vm_inv 10000 100 0 vm" "vm_view vm addr = Some v" "length v = 8"
    "Reg_Get (vm_registers vm) 1 = uint64ToBytes 77"
proof -
  have i: "vm_inv 10000 100 (Suc 0) small_vm" by (intro small_vm_inv) simp
  have "unat (8 :: u32) \<le> unat (100 :: u16)" by simp
  with malloc3d_outcome [OF i demo_rt_ok, of 8 4 0] obtain vm addr v where
    m: "malloc3d demo_rt small_vm 8 4 0 = Some (Inr (vm, None))" "length v = 8" "vm_view vm = (vm_view small_vm)(addr \<mapsto> v)"
    by auto
  let ?vm = "vm\<lparr>vm_registers := SetUint64 (vm_registers vm) 1 77\<rparr>"
  have "vm_inv 10000 100 0 vm" using malloc3d_inv [OF i demo_rt_ok, of 8 4 0] by (simp add: m(1) run_simps)
  then have i': "vm_inv 10000 100 0 ?vm" by (simp add: vm_inv_def)
  have v: "vm_view ?vm addr = Some v" by (simp add: m(3))
  have "regs_inv (vm_registers vm)" using i' by (simp add: vm_inv_def)
  then have "Reg_Get (vm_registers ?vm) 1 = uint64ToBytes 77" by (simp add: SetUint64_eq Reg_Get_Set R15_def)
  then show thesis using that [OF i' v m(2)] by simp
qed

theorem store_then_load_witness:
  "\<exists>vm addr vm1 vm2. executeMStore3D demo_rt vm (denote (Store addr 1 8)) = Some (Inr (vm1, None))
     \<and> executeMLoad3D demo_rt vm1 (denote (Load addr 8 2)) = Some (Inr (vm2, None))
     \<and> Reg_Get (vm_registers vm2) 2 = uint64ToBytes 77"
proof -
  obtain vm addr v where d: "vm_inv 10000 100 0 vm" "vm_view vm addr = Some v" "length v = 8"
    "Reg_Get (vm_registers vm) 1 = uint64ToBytes 77" by (rule demo_block)
  have l: "length (Reg_Get (vm_registers vm) 1) < 2 ^ 32" "length (uint64ToBytes 77) = 8"
    by (simp_all add: d(4) uint64ToBytes_def)
  obtain vm1 where s: "executeMStore3D demo_rt vm (denote (Store addr 1 8)) = Some (Inr (vm1, None))"
    unfolding denoted_handlers using mstore_outcome [OF d(1) demo_rt_ok l(1), of addr 8] d l(2) by auto
  from store_then_load [OF d(1) demo_rt_ok demo_rt_ok l(1) s, of 8 2] obtain vm2 where
    "executeMLoad3D demo_rt vm1 (denote (Load addr 8 2)) = Some (Inr (vm2, None))"
    "Reg_Get (vm_registers vm2) 2 = take (unat (8 :: u32)) (Reg_Get (vm_registers vm) 1)"
    by (auto simp: R15_def)
  then show ?thesis using s d(4) l(2) by auto
qed

text \<open>
  A request for memory.  A request of at least one byte succeeds exactly when it fits a
  plane; it then leaves in register 0 the address of a new block of the requested size, which no
  live block had, and all other blocks are as before.  A larger request reports insufficient
  memory and changes no block.
\<close>

theorem malloc_new_block:
  assumes "vm_inv limit ps (Suc k) vm" "rt_ok rt" "sz \<noteq> 0"
  shows "\<exists>vm' e. executeMAlloc3D rt vm (denote (Alloc sz t flags reg)) = Some (Inr (vm', e)) \<and> vm_inv limit ps k vm' \<and>
    (if unat sz \<le> unat ps
     then e = None \<and> (\<exists>addr v. vm_view vm addr = None \<and> length v = unat sz
            \<and> vm_view vm' = (vm_view vm)(addr \<mapsto> v) \<and> GetAddress (vm_registers vm') R0 = Inr addr)
     else e = Some (Wrapped ''MALLOC3D failed'' (InsufficientMemory sz)) \<and> vm_view vm' = vm_view vm)"
proof -
  from malloc3d_outcome [OF assms, of t flags] obtain vm' e where
    r: "malloc3d rt vm sz t flags = Some (Inr (vm', e))"
    "if unat sz \<le> unat ps
     then e = None \<and> (\<exists>addr v. vm_view vm addr = None \<and> length v = unat sz
            \<and> vm_view vm' = (vm_view vm)(addr \<mapsto> v) \<and> GetAddress (vm_registers vm') R0 = Inr addr)
     else e = Some (Wrapped ''MALLOC3D failed'' (InsufficientMemory sz)) \<and> vm_view vm' = vm_view vm" by blast
  have "vm_inv limit ps k vm'" using malloc3d_inv [OF assms, of t flags] by (simp add: r(1) run_simps)
  with r show ?thesis unfolding denoted_handlers by blast
qed

theorem malloc_new_block_witness:
  "(\<exists>vm'. executeMAlloc3D demo_rt demo_vm (denote (Alloc 100 4 0 0)) = Some (Inr (vm', None)))
   \<and> (\<exists>vm'. executeMAlloc3D demo_rt demo_vm (denote (Alloc 70000 4 0 0))
        = Some (Inr (vm', Some (Wrapped ''MALLOC3D failed'' (InsufficientMemory 70000)))))"
  using malloc_new_block [OF demo_vm_inv [of "Suc 0"] demo_rt_ok, of 100 4 0 0]
    malloc_new_block [OF demo_vm_inv [of "Suc 0"] demo_rt_ok, of 70000 4 0 0] by auto

text \<open>
  Use after free is refused.  Once a free has succeeded, a load from that address fails as
  not allocated, even though the bytes may still be in the plane, and the cache does not serve
  its old copy.  This holds for planes of every size.
\<close>

theorem use_after_free_refused:
  assumes "vm_inv limit ps k vm" "rt_ok rt" "rt_ok rt'"
    and "executeMFree3D rt vm (denote (Free addr)) = Some (Inr (vm1, None))"
  shows "\<exists>vm2. executeMLoad3D rt' vm1 (denote (Load addr sz reg))
      = Some (Inr (vm2, Some (Wrapped ''MLOAD3D failed'' (AddressNotAllocated addr))))
    \<and> vm_registers vm2 = vm_registers vm"
proof -
  note p = vm_inv_parts [OF assms(1)]
  have mi: "mem_inv (vm_allocator vm) (vm_memory vm)" and ci: "cache_inv (vm_cache vm)" using p(1) by (simp_all add: machine_inv_def)
  have l: "getAllocation (rt_allocations rt) (vm_memory vm) addr = map_of (mm_allocations (vm_memory vm)) addr"
    by (rule lookup_exact(2) [OF mi]) (use assms(2) in \<open>simp add: rt_ok_def\<close>)
  from assms(4) obtain a al where "map_of (mm_allocations (vm_memory vm)) addr = Some al"
    and vm1: "vm1 = vm\<lparr>vm_allocator := a, vm_memory := untrackAllocation (vm_memory vm) addr (rt_now rt),
       vm_cache := Cache_Invalidate (vm_cache vm) addr\<rparr>"
    unfolding denoted_handlers mfree_def l by (auto simp: vm_ok_def vm_fail_def split: option.splits prod.splits)
  then have m: "mm_allocations (vm_memory vm1) = AList.delete addr (mm_allocations (vm_memory vm))"
    by (simp add: untrack_allocations)
  then have sub: "set (mm_allocations (vm_memory vm1)) \<subseteq> set (mm_allocations (vm_memory vm))" by (auto simp: AList.delete_eq)
  have "valid_order (rt_allocations rt')" using assms(3) by (simp add: rt_ok_def)
  then have "find (\<lambda>(_, alloc). IsYPromoted alloc \<and> list_ex (frag_covers addr) (alloc_Fragments alloc))
      (range_over (rt_allocations rt') (mm_allocations (vm_memory vm1))) = None"
    using mi sub unfolding find_None_iff mem_inv_def by (auto simp: held_def)
  then have "getAllocationLocked (rt_allocations rt') (vm_memory vm1) addr = None"
    by (simp add: getAllocationLocked_def m delete_conv')
  moreover have "cache_inv (vm_cache vm1)" "cache_view (vm_cache vm1) addr = None"
    using Cache_Invalidate_law [OF ci, of addr] by (simp_all add: vm1)
  ultimately show ?thesis unfolding denoted_handlers using mload_unallocated [of vm1 addr rt' sz reg] by (simp add: vm1)
qed

theorem use_after_free_refused_witness:
  "\<exists>vm addr vm1 vm2. executeMFree3D demo_rt vm (denote (Free addr)) = Some (Inr (vm1, None))
     \<and> executeMLoad3D demo_rt vm1 (denote (Load addr 8 2))
        = Some (Inr (vm2, Some (Wrapped ''MLOAD3D failed'' (AddressNotAllocated addr))))"
proof -
  obtain vm addr v where d: "vm_inv 10000 100 0 vm" "vm_view vm addr = Some v" "length v = 8"
    "Reg_Get (vm_registers vm) 1 = uint64ToBytes 77" by (rule demo_block)
  obtain vm1 where f: "executeMFree3D demo_rt vm (denote (Free addr)) = Some (Inr (vm1, None))"
    unfolding denoted_handlers using mfree_outcome [OF d(1) demo_rt_ok, of addr] d(2) by auto
  show ?thesis using f use_after_free_refused [OF d(1) demo_rt_ok demo_rt_ok f, of 8 2] by blast
qed


section \<open>Typed operands\<close>

text \<open>The errors of an instruction whose operands do not have the shape that its handler expects.\<close>

definition malformed :: "error \<Rightarrow> bool" where
  "malformed e \<longleftrightarrow> (\<exists>op n. e = RequiresOperands op n) \<or> (\<exists>w. e = InvalidOperand w) \<or> (\<exists>opc. e = UnsupportedOpcode opc)"

definition well_formed :: "(VM3D \<times> error option) run \<Rightarrow> bool" where
  "well_formed r \<longleftrightarrow> run_post r (\<lambda>(vm', e). pred_option (\<lambda>err. \<not> malformed err) e)"

lemma well_formed_bodies:
  "well_formed (mload rt vm a n r)" "well_formed (mstore rt vm a r n)" "well_formed (malloc3d rt vm n t flags)"
  "well_formed (mfree rt vm a)" "well_formed (mcopy rt vm a b n)"
  unfolding well_formed_def
  subgoal by (auto simp: mload_def run_simps malformed_def Let_def split: option.split prod.split sum.split)
  subgoal by (auto simp: mstore_def run_simps malformed_def Let_def split: option.split prod.split sum.split)
  subgoal by (auto simp: malloc3d_def run_simps malformed_def Let_def run_post_def [of "Allocate _ _ _ _ _ _ _"] split: option.split prod.split sum.split)
  subgoal by (auto simp: mfree_def run_simps malformed_def Let_def split: option.split prod.split sum.split)
  subgoal by (auto simp: mcopy_def run_simps malformed_def Let_def split: option.split prod.split sum.split)
  done

lemma dispatch_denoted: "well_formed (dispatch fb pord rt vm (denote i))"
  using well_formed_bodies
  by (cases i)
    (simp_all add: dispatch_def instruction_def operand_def opcode_defs as_address_def as_uint32_def as_register_def
      as_regionType_def as_flags_def executeMLoad3D_def executeMStore3D_def executeMAlloc3D_def executeMFree3D_def
      executeMCopy3D_def executeMSize3D_def executeMov3D_def executeAdd3D_def executeSub3D_def executeNOP_def
      executeHalt3D_def vm_need_def well_formed_def [of "vm_ok _"] run_simps split: option.split)

text \<open>
  C33.  Decoding types the operands.  An instruction that the decoder accepts has a handler, and
  the number and the kinds of its operands are those that the handler asserts: no decoded
  instruction is ever refused for missing or mistyped operands or an unsupported opcode.
\<close>

theorem decoded_operands_typed:
  assumes "DecodeInstruction data = Inr inst"
  shows "run_post (dispatch fb pord rt vm inst) (\<lambda>(vm', e). pred_option (\<lambda>err. \<not> malformed err) e)"
proof -
  obtain i where "inst = denote i" by (rule decoded_is_denoted [OF assms])
  then show ?thesis using dispatch_denoted [of fb pord rt vm i] by (simp add: well_formed_def)
qed

theorem decoded_operands_typed_witness:
  "run_post (dispatch demo_bits demo_order demo_rt demo_vm (denote (Free (NewAddress 1 2 3))))
     (\<lambda>(vm', e). pred_option (\<lambda>err. \<not> malformed err) e)"
  by (rule decoded_operands_typed [OF DecodeInstruction_assemble])

text \<open>
  Two of the declared query types have no answer: the machine refuses them like any unknown type.
\<close>

lemma query_unanswered:
  assumes "inst_Operands inst = [opd1, opd2, opd3]" "op_Value opd1 = VByte q" "op_Value opd2 = VAddress addr"
    "op_Value opd3 = VRegister reg" "q = QueryGasRemaining \<or> q = QueryMemoryUsage"
  shows "executeMQuery3D fb rt vm inst = vm_fail vm (UnknownQueryType q)"
  using assms
  by (auto simp: executeMQuery3D_def as_byte_def as_address_def as_register_def vm_need_def Let_def
      QueryFreeMemory_def QueryFragmentation_def QueryAllocationInfo_def QueryGasRemaining_def QueryMemoryUsage_def)

end
