(* ===== verification/AllocatorEdges.thy ===== *)
theory AllocatorEdges
  imports AllocatorHeap
begin

text \<open>
  The boundary behaviour of \<^verbatim>\<open>allocator.go\<close>: the concurrent entry points, release errors, the
  release of promoted allocations, requests for no bytes, the flags of the fast path,
  \<^verbatim>\<open>AllocateInRegion\<close> and the compaction analysis.
\<close>

section \<open>Entry points\<close>

lemma doAllocate_result:
  "allocateSync ord a sz rt flags now = Inr (a', r) \<Longrightarrow> doAllocate ord a sz rt flags now = Inr (a', q) \<Longrightarrow>
     (res_Allocation q, res_Error q) = (case r of Inl e \<Rightarrow> (None, Some e) | Inr al \<Rightarrow> (Some al, None))"
  by (auto simp: doAllocate_def split: sum.splits)

text \<open>
  Shutting down: a second call panics, and so does every later request to a concurrent allocator;
  a synchronous one goes on as before.
\<close>

lemma shutdown_outcome:
  assumes "\<not> al_workersClosed a" "\<not> al_freeWorkersClosed a"
  shows "\<exists>a'. Allocator_Shutdown a = Inr a' \<and> Allocator_Shutdown a' = Inl ClosedChannel
    \<and> al_regions a' = al_regions a
    \<and> (cfg_EnableConcurrent (al_config a) \<longrightarrow> Allocate queued ord a' sz rt flags now = Some (Inl ClosedChannel))"
  using assms by (simp add: Allocator_Shutdown_def Allocate_def allocateConcurrent_def)

text \<open>Requests leave the channels of the workers alone.\<close>

definition channels :: "Allocator3D \<Rightarrow> bool \<times> bool" where
  "channels a = (al_workersClosed a, al_freeWorkersClosed a)"

lemma channels_simps [simp]:
  "channels (promoteRegionLRU a x) = channels a" "channels (a\<lparr>al_regions := rs\<rparr>) = channels a"
  "channels (a\<lparr>al_nextAllocID := n\<rparr>) = channels a" "channels (a\<lparr>al_nextRegionID := n\<rparr>) = channels a"
  "channels (a\<lparr>al_stats := st\<rparr>) = channels a"
  by (simp_all add: channels_def promoteRegionLRU_def Let_def split: option.split)

lemma fast_regions_channels: "fast_regions a sz rt now xs = Inr (Some (a', al)) \<Longrightarrow> channels a' = channels a"
  by (induction xs) (auto simp: Let_def go_bind_def split: option.splits if_splits sum.splits)

lemma tryYPromotion_channels: "tryYPromotion ord a sz rt flags now = Inr (a', r) \<Longrightarrow> channels a' = channels a"
  by (auto simp: tryYPromotion_def commit_promotion_def Let_def go_bind_def split: option.splits if_splits sum.splits)

lemma allocateNewRegion_channels: "allocateNewRegion a sz rt flags now = Inr (a', r) \<Longrightarrow> channels a' = channels a"
  by (auto simp: allocateNewRegion_def Let_def go_bind_def split: option.splits if_splits sum.splits)

lemma allocateSync_channels: "allocateSync ord a sz rt flags now = Inr (a', r) \<Longrightarrow> channels a' = channels a"
  using fast_regions_channels tryYPromotion_channels allocateNewRegion_channels
  by (fastforce simp: allocateSync_def tryFastAllocation_def go_bind_def split: sum.splits option.splits)

section \<open>Release\<close>

text \<open>
  Release of a block that is not promoted: it fails, and changes nothing, exactly when the
  region is unknown, the plane is unknown, or no allocation starts at the address, with the
  error that says which; otherwise it succeeds and counts the release.
\<close>

theorem freeSync_errors:
  assumes "\<not> IsYPromoted al"
  shows "case plane_at a (addr_X (alloc_Address al)) (addr_Y (alloc_Address al)) of
      None \<Rightarrow> freeSync a al = (a, Some (if GetRegion a (addr_X (alloc_Address al)) = None
          then RegionNotFound (addr_X (alloc_Address al))
          else PlaneNotFound (addr_Y (alloc_Address al))))
    | Some p \<Rightarrow>
        (if map_of (plane_Allocations p) (addr_Z (alloc_Address al)) = None
         then freeSync a al = (a, Some (FreeFailed (alloc_Address al)))
         else snd (freeSync a al) = None
           \<and> st_Frees (al_stats (fst (freeSync a al))) = st_Frees (al_stats a) + 1)"
proof (cases "GetRegion a (addr_X (alloc_Address al))")
  case None
  then show ?thesis by (simp add: plane_at_def freeSync_def)
next
  case (Some r)
  show ?thesis
  proof (cases "GetPlane r (addr_Y (alloc_Address al))")
    case None
    then show ?thesis using Some assms by (simp add: plane_at_def freeSync_def GetPlane_def)
  next
    case p: (Some p)
    then show ?thesis
      using Some assms
      by (cases "map_of (plane_Allocations p) (addr_Z (alloc_Address al))")
        (simp_all add: plane_at_def freeSync_def GetPlane_def Plane_Free_def count_free_def)
  qed
qed

theorem freeSync_errors_witness:
  "freeSync (NewAllocator3D demo_config) (NewAllocation 1 (NewAddress 9 0 0) 8 4 0) =
     (NewAllocator3D demo_config, Some (RegionNotFound 9))"
proof -
  have "GetRegion (NewAllocator3D demo_config) 9 = None" by (simp add: GetRegion_def NewAllocator3D_def)
  then show ?thesis
    using freeSync_errors [of "NewAllocation 1 (NewAddress 9 0 0) 8 4 0" "NewAllocator3D demo_config"]
    by (simp add: plane_at_def NewAddress_def)
qed

text \<open>The release of the fragments of a promoted allocation, plane by plane.\<close>

lemma upd_first_find:
  "find P (upd_first Q f xs) = find P xs"
  if "\<And>x. Q x \<Longrightarrow> \<not> P x \<and> \<not> P (f x)" for xs
  using that by (induction xs) auto

lemma set_upd_first: "x \<in> set (upd_first Q f xs) \<Longrightarrow> x \<in> set xs \<or> (\<exists>y \<in> set xs. Q y \<and> x = f y)"
  by (induction xs) (auto split: if_splits)

lemma upd_first_same: "(\<And>x. x \<in> set xs \<Longrightarrow> Q x \<Longrightarrow> f x = x) \<Longrightarrow> upd_first Q f xs = xs"
  by (induction xs) auto

lemma freeSync_planes_none:
  assumes "\<forall>f \<in> set fs. \<forall>p \<in> set ps. plane_ID p = frag_PlaneID f \<longrightarrow>
      map_of (plane_Allocations p) (frag_StartZ f) = None"
  shows "freeSync_planes fs ps = ps"
  using assms
proof (induction fs)
  case (Cons f fs)
  have "upd_first (\<lambda>p. plane_ID p = frag_PlaneID f) (\<lambda>p. fst (Plane_Free p (frag_StartZ f))) ps = ps"
    using Cons.prems by (intro upd_first_same) (simp add: Plane_Free_unknown)
  then show ?case using Cons by simp
qed simp

text \<open>
  The defect in the release of a Y-promoted allocation.  Only the first fragment has an
  entry in its plane, so only that plane changes: every plane that holds another fragment is left
  exactly as it was, its bytes still marked used although nothing records them any more; yet
  the region's free counter grows by the whole size of the allocation.
\<close>

theorem promoted_release_leaks:
  assumes "GetRegion a x = Some r" "IsYPromoted al" "alloc_Fragments al = f # fs"
    and "addr_X (alloc_Address al) = x" "distinct (map plane_ID (reg_Planes r))"
    and "\<forall>g \<in> set fs. frag_PlaneID g \<noteq> frag_PlaneID f
       \<and> (\<forall>p \<in> set (reg_Planes r). plane_ID p = frag_PlaneID g \<longrightarrow>
            map_of (plane_Allocations p) (frag_StartZ g) = None)"
  shows "\<exists>a' r'. freeSync a al = (a', None) \<and> GetRegion a' x = Some r'
    \<and> reg_FreeBytes r' = reg_FreeBytes r + ucast (alloc_Size al)
    \<and> (\<forall>y. y \<noteq> frag_PlaneID f \<longrightarrow> GetPlane r' y = GetPlane r y)"
proof -
  define ps where "ps = upd_first (\<lambda>p. plane_ID p = frag_PlaneID f)
      (\<lambda>p. fst (Plane_Free p (frag_StartZ f))) (reg_Planes r)"
  have mem: "p \<in> set (reg_Planes r) \<or> plane_ID p = frag_PlaneID f" if "p \<in> set ps" for p
    using set_upd_first [OF that [unfolded ps_def]] by (auto simp: Plane_Free_frame)
  have "freeSync_planes fs ps = ps"
    by (rule freeSync_planes_none) (use assms(6) mem in fastforce)
  then have fp: "freeSync_planes (alloc_Fragments al) (reg_Planes r) = ps"
    by (simp add: assms(3) ps_def)
  have "GetPlane (credit_region r ps sz) y = GetPlane r y" if "y \<noteq> frag_PlaneID f" for y sz
    unfolding GetPlane_def credit_region_def ps_def
    using that by (simp add: upd_first_find Plane_Free_frame)
  moreover have "freeSync a al = (count_free a x (credit_region r ps (alloc_Size al)), None)"
    using assms(1,2,4) fp by (simp add: freeSync_def)
  moreover have "GetRegion (count_free a x (credit_region r ps (alloc_Size al))) x =
      Some (credit_region r ps (alloc_Size al))"
    by (simp add: GetRegion_def count_free_def update_conv')
  ultimately show ?thesis by (auto simp: credit_region_def)
qed
text \<open>The two-plane allocator after a promotion of three bytes, and the allocation it made.\<close>

definition promoted_state :: Allocator3D where
  "promoted_state = fst (projr (tryYPromotion (\<lambda>n. [0..<n]) two_planes 3 RegionTypeHeap 0 0))"

definition promoted_alloc :: Allocation where
  "promoted_alloc = the (snd (projr (tryYPromotion (\<lambda>n. [0..<n]) two_planes 3 RegionTypeHeap 0 0)))"

theorem promoted_release_leaks_witness:
  "\<exists>a' r'. freeSync promoted_state promoted_alloc = (a', None) \<and> GetRegion a' 1 = Some r'
    \<and> reg_FreeBytes r' = 4
    \<and> map_option Plane_FreeBytes (GetPlane r' 1) = Some 1"
proof -
  define r where "r = the (GetRegion promoted_state 1)"
  define f fs where "f = hd (alloc_Fragments promoted_alloc)" and "fs = tl (alloc_Fragments promoted_alloc)"
  have "GetRegion promoted_state 1 \<noteq> None" by code_simp
  then have 1: "GetRegion promoted_state 1 = Some r" by (auto simp: r_def)
  have 2: "IsYPromoted promoted_alloc" "addr_X (alloc_Address promoted_alloc) = 1" by code_simp+
  have "alloc_Fragments promoted_alloc \<noteq> []" by code_simp
  then have 3: "alloc_Fragments promoted_alloc = f # fs" by (simp add: f_def fs_def)
  have 4: "distinct (map plane_ID (reg_Planes (the (GetRegion promoted_state 1))))" by code_simp
  have 5: "\<forall>g \<in> set (tl (alloc_Fragments promoted_alloc)).
      frag_PlaneID g \<noteq> frag_PlaneID (hd (alloc_Fragments promoted_alloc))
       \<and> (\<forall>p \<in> set (reg_Planes (the (GetRegion promoted_state 1))). plane_ID p = frag_PlaneID g \<longrightarrow>
            map_of (plane_Allocations p) (frag_StartZ g) = None)"
    by code_simp
  have "reg_FreeBytes (the (GetRegion promoted_state 1)) + ucast (alloc_Size promoted_alloc) = 4"
    "frag_PlaneID (hd (alloc_Fragments promoted_alloc)) = 0"
    "map_option Plane_FreeBytes (GetPlane (the (GetRegion promoted_state 1)) 1) = Some 1"
    by code_simp+
  note 6 = this [folded r_def f_def]
  from promoted_release_leaks [OF 1 2(1) 3 2(2) 4 [folded r_def] 5 [folded r_def f_def fs_def]]
  obtain a' r' where e: "freeSync promoted_state promoted_alloc = (a', None)" "GetRegion a' 1 = Some r'"
    and "reg_FreeBytes r' = reg_FreeBytes r + ucast (alloc_Size promoted_alloc)"
    and g: "\<forall>y. y \<noteq> frag_PlaneID f \<longrightarrow> GetPlane r' y = GetPlane r y" by blast
  then have "reg_FreeBytes r' = 4" using 6(1) by simp
  moreover have "GetPlane r' 1 = GetPlane r 1" using g 6(2) by simp
  then have "map_option Plane_FreeBytes (GetPlane r' 1) = Some 1" using 6(3) by simp
  ultimately show ?thesis using e by blast
qed

section \<open>Requests for no bytes\<close>

lemma best_step_mono: "snd best \<le> snd (best_step sz rt n best e)"
  by (auto simp: best_step_def Let_def)

lemma best_foldl_mono: "snd best \<le> snd (foldl (best_step sz rt n) best es)"
proof (induction es arbitrary: best)
  case (Cons e es)
  have "snd best \<le> snd (best_step sz rt n best e)" by (rule best_step_mono)
  also have "\<dots> \<le> snd (foldl (best_step sz rt n) (best_step sz rt n best e) es)" by (rule Cons)
  finally show ?case by simp
qed simp

lemma best_step_Some: "snd best = 0 \<or> fst best \<noteq> None \<Longrightarrow>
   snd (best_step sz rt n best e) = 0 \<or> fst (best_step sz rt n best e) \<noteq> None"
  by (auto simp: best_step_def Let_def)

lemma best_foldl_Some: "snd best = 0 \<or> fst best \<noteq> None \<Longrightarrow>
   snd (foldl (best_step sz rt n) best es) = 0 \<or> fst (foldl (best_step sz rt n) best es) \<noteq> None"
proof (induction es arbitrary: best)
  case (Cons e es)
  show ?case using Cons.IH [OF best_step_Some [OF Cons.prems]] by simp
qed simp

text \<open>A region that meets the conditions of the scan makes the scan succeed.\<close>

lemma best_found:
  assumes "(x, r) \<in> set es" "reg_Type r = rt" "ucast sz \<le> planes_free (reg_Planes r)"
    "n \<le> of_nat (planes_with_free (reg_Planes r))" "0 < planes_free (reg_Planes r)"
  shows "fst (foldl (best_step sz rt n) (None, 0) es) \<noteq> None"
proof -
  from assms(1) obtain pre post where es: "es = pre @ (x, r) # post" by (meson split_list)
  let ?b = "foldl (best_step sz rt n) (None, 0) pre"
  have "planes_free (reg_Planes r) \<le> snd (best_step sz rt n ?b (x, r))"
    using assms(2-4) by (auto simp: best_step_def Let_def)
  also have "\<dots> \<le> snd (foldl (best_step sz rt n) (None, 0) es)"
    unfolding es by (simp add: best_foldl_mono)
  finally have "snd (foldl (best_step sz rt n) (None, 0) es) \<noteq> 0"
    using assms(5) by (auto simp: word_gt_0)
  moreover have "snd (foldl (best_step sz rt n) (None, 0) es) = 0
      \<or> fst (foldl (best_step sz rt n) (None, 0) es) \<noteq> None"
    by (rule best_foldl_Some) simp
  ultimately show ?thesis by blast
qed

lemma alloc_in_planes_zero: "alloc_in_planes mk 0 ps = Inr None"
proof (induction ps)
  case (Cons p ps)
  have "Plane_Allocate p 0 = Inr (p, None)"
    by (simp add: Plane_Allocate_def FindContiguous_def)
  then show ?case using Cons by simp
qed simp

lemma fast_regions_zero: "fast_regions a 0 rt now xs = Inr None"
  by (induction xs) (auto simp: alloc_in_planes_zero Let_def split: option.splits)

text \<open>
  The defect of requests for no bytes.  When some region of the type has a free byte,
  \<^verbatim>\<open>allocateSync\<close> with size 0 does not fail: the fast path finds nothing, but Y-promotion needs
  no plane, carves no fragment and succeeds.  The caller gets an allocation without fragments at
  the address (0, 0, 0), which is in no region, and the free counter of the region that was
  chosen drops by \<open>2 ^ 32\<close>, because the 32-bit \<^verbatim>\<open>size-1\<close> wraps.
\<close>

theorem zero_size_request:
  assumes "valid_order ord" "cfg_PlaneSize (al_config a) \<noteq> 0" "distinct (map fst (al_regions a))"
    and "(x, r) \<in> set (al_regions a)" "reg_Type r = rt" "0 < planes_free (reg_Planes r)"
  shows "\<exists>a' al x' r'. allocateSync ord a 0 rt flags now = Inr (a', Inr al)
    \<and> alloc_Address al = \<lparr>addr_X = 0, addr_Y = 0, addr_Z = 0\<rparr> \<and> alloc_Fragments al = []
    \<and> GetRegion a x' = Some r'
    \<and> map_option reg_FreeBytes (GetRegion a' x') = Some (reg_FreeBytes r' - 2 ^ 32)"
proof -
  define planeSize where "planeSize = (ucast (cfg_PlaneSize (al_config a)) :: u32)"
  have ps: "planeSize \<noteq> 0"
    using assms(2) unfolding planeSize_def by (metis unat_0 unat_ucast_widen(1) unsigned_word_eqI)
  then have "unat (planeSize - 1) < unat planeSize" by (simp add: unat_minus_one unat_gt_0)
  then have n: "(0 + planeSize - 1) div planeSize = 0"
    by (simp add: word_arith_nat_div)
  from best_found [OF _ assms(5), of x "range_over ord (al_regions a)" 0 0] assms
  obtain x' r' where b: "fst (foldl (best_step 0 rt 0) (None, 0) (range_over ord (al_regions a))) = Some (x', r')"
    by auto
  from best_region [OF b] have "(x', r') \<in> set (al_regions a)" using assms(1) by simp
  then have r': "GetRegion a x' = Some r'" using assms(3) by (simp add: GetRegion_def)
  have c: "carve (reg_Planes r') 0 [] = Inr (reg_Planes r', 0, [])" by (cases "reg_Planes r'") simp_all
  have fast: "tryFastAllocation a 0 rt now = Inr None" by (simp add: tryFastAllocation_def fast_regions_zero)
  show ?thesis
    using fast ps n b c r'
    by (auto simp: allocateSync_def tryYPromotion_def commit_promotion_def Let_def planeSize_def [symmetric] GetRegion_def
        update_conv' charge_region_def)
qed

lemma planes_free_two: "0 < planes_free (reg_Planes (snd (hd (al_regions two_planes))))"
  by code_simp

theorem zero_size_request_witness:
  "\<exists>a' al. allocateSync (\<lambda>n. [0..<n]) two_planes 0 RegionTypeHeap 0 0 = Inr (a', Inr al)
    \<and> alloc_Address al = \<lparr>addr_X = 0, addr_Y = 0, addr_Z = 0\<rparr>"
proof -
  have m: "(1, snd (hd (al_regions two_planes))) \<in> set (al_regions two_planes)"
    "reg_Type (snd (hd (al_regions two_planes))) = RegionTypeHeap" "distinct (map fst (al_regions two_planes))"
    by (simp_all add: two_planes_def AddPlane_def NewRegion_def)
  have "cfg_PlaneSize (al_config two_planes) \<noteq> 0" by (simp add: two_planes_inv)
  from zero_size_request [OF valid_order_upt this m(3,1,2) planes_free_two] show ?thesis by blast
qed

section \<open>Flags and the fast path\<close>

text \<open>
  The flags of a request are lost on the fast path: an allocation served from a recently
  used region always has no flags, whatever the caller asked for, while Y-promotion and a new
  region keep them.
\<close>

theorem fast_path_drops_flags:
  assumes "al_inv a" "0 < sz" "tryFastAllocation a sz rt now = Inr (Some (a', al))"
  shows "allocateSync ord a sz rt flags now = Inr (a', Inr al) \<and> alloc_Flags al = 0"
  using fast_regions_cases [OF assms(1,2), of rt now "al_regionLRU a"] assms(3)
  by (auto simp: allocateSync_def tryFastAllocation_def)

text \<open>An allocator that has served one request, so that its region is in the LRU list.\<close>

definition warm :: Allocator3D where
  "warm = fst (projr (allocateSync (\<lambda>n. [0..<n]) (NewAllocator3D (demo_config\<lparr>cfg_PlaneSize := 2\<rparr>)) 1
     RegionTypeHeap FlagPinned 0))"

lemma warm_inv: "al_inv warm"
proof -
  let ?a = "NewAllocator3D (demo_config\<lparr>cfg_PlaneSize := 2\<rparr>)"
  have "0 < (1 :: u32)" "cfg_PlaneSize (al_config ?a) \<noteq> 0" "unat (al_nextRegionID ?a) + 1 < 2 ^ 64"
    by (simp_all add: NewAllocator3D_def)
  from allocateSync_cases [OF NewAllocator3D_inv(1) this(1) valid_order_upt this(2,3), of RegionTypeHeap FlagPinned 0]
  show ?thesis by (auto simp: warm_def allocated_def untouched_def)
qed

theorem fast_path_drops_flags_witness:
  "\<exists>a' al. allocateSync (\<lambda>n. [0..<n]) warm 1 RegionTypeHeap FlagPinned 0 = Inr (a', Inr al)
     \<and> alloc_Flags al = 0"
proof -
  have "projr (tryFastAllocation warm 1 RegionTypeHeap 0) \<noteq> None" by code_simp
  moreover have "0 < (1 :: u32)" by simp
  ultimately obtain a' al where f: "tryFastAllocation warm 1 RegionTypeHeap 0 = Inr (Some (a', al))"
    using fast_regions_cases [OF warm_inv, of 1 RegionTypeHeap 0 "al_regionLRU warm"]
    by (auto simp: tryFastAllocation_def)
  from fast_path_drops_flags [OF warm_inv _ f] show ?thesis by auto
qed

section \<open>Allocating in a given region\<close>

text \<open>
  \<^verbatim>\<open>AllocateInRegion\<close> cannot be used as its comment asks.  With the region's write lock
  held, it returns only if an existing plane has room; otherwise it calls \<^verbatim>\<open>AddPlane\<close>, which waits
  for the same lock, and never returns.
\<close>

theorem AllocateInRegion_deadlock:
  assumes "al_inv a" "GetRegion a x = Some r" "0 < sz"
  shows "AllocateInRegion True a sz x flags now = None \<longleftrightarrow>
    (\<forall>p \<in> set (reg_Planes r). sz \<le> ucast (Plane_FreeBytes p) \<longrightarrow>
       first_fit (plane_FreeMap p) (unat sz) = None)"
proof -
  note ok = al_invD(4) [OF assms(1,2)]
  define mk where "mk = (\<lambda>y z. (NewAllocation (al_nextAllocID a + 1)
       \<lparr>addr_X = reg_ID r, addr_Y = y, addr_Z = z\<rparr> sz (reg_Type r) now)\<lparr>alloc_Flags := flags\<rparr>)"
  have d: "AllocateInRegion True a sz x flags now = (case alloc_in_planes mk sz (reg_Planes r) of
                Inl e \<Rightarrow> Some (Inl e)
              | Inr (Some (planes, alloc)) \<Rightarrow>
                  Some (Inr (alloc_in_region_ok a x r planes sz alloc, Inr alloc))
              | Inr None \<Rightarrow> None)"
    using assms(2) by (simp add: AllocateInRegion_def mk_def Let_def)
  show ?thesis
  proof (rule alloc_in_planes_cases [OF ok assms(3), of mk])
    fix pre p post p' z
    assume s: "reg_Planes r = pre @ p # post" "unat sz < 65536" "takes p (ucast sz) z p'"
      "alloc_in_planes mk sz (reg_Planes r) =
         Inr (Some (pre @ Plane_record p' z (mk (plane_ID p) z) # post, mk (plane_ID p) z))"
    have pinv: "plane_inv p" "plane_safe p" using ok s(1) by (auto simp: planes_ok_def)
    have u: "unat (ucast sz :: u16) = unat sz" by (rule unat_ucast_narrow [OF s(2)])
    note t = s(3) [unfolded takes_def]
    have "sz \<le> ucast (Plane_FreeBytes p)" using t u by (simp add: word_le_nat_alt)
    moreover have "first_fit (plane_FreeMap p) (unat sz) \<noteq> None"
      using Plane_Allocate_first_fit [OF plane_invD(1) [OF pinv(1)] pinv(2), of "ucast sz"] t u by (auto split: option.splits)
    moreover have "p \<in> set (reg_Planes r)" using s(1) by simp
    ultimately show ?thesis using d s(4) by auto
  qed (use d in simp)
qed

theorem AllocateInRegion_deadlock_witness: "AllocateInRegion True warm 2 2 0 0 = None"
proof -
  have "GetRegion warm 2 \<noteq> None" by code_simp
  then obtain r where r: "GetRegion warm 2 = Some r" by auto
  have "\<forall>p \<in> set (reg_Planes (the (GetRegion warm 2))). \<not> 2 \<le> (ucast (Plane_FreeBytes p) :: u32)" by code_simp
  then have "\<forall>p \<in> set (reg_Planes r). 2 \<le> (ucast (Plane_FreeBytes p) :: u32) \<longrightarrow>
       first_fit (plane_FreeMap p) (unat (2 :: u32)) = None" using r by simp
  then show ?thesis using AllocateInRegion_deadlock [OF warm_inv r, of 2] by simp
qed

section \<open>Compaction analysis\<close>

definition movable :: "Allocation \<Rightarrow> bool" where
  "movable al \<longleftrightarrow> (alloc_Flags al AND FlagPinned) = 0 \<and> \<not> IsYPromoted al"

definition ids_of :: "Plane list \<Rightarrow> u64 set" where
  "ids_of ps = {alloc_ID al | al p z. p \<in> set ps \<and> (z, al) \<in> set (plane_Allocations p) \<and> movable al}"

text \<open>
  What a scan that starts below the limit yields, whether it runs to the end or stops early:
  only the given identifiers are added, and the limit is met but not exceeded.
\<close>

definition scan_ok :: "int \<Rightarrow> u64 list \<Rightarrow> u64 set \<Rightarrow> u64 list + u64 list \<Rightarrow> bool" where
  "scan_ok limit moved ids res \<longleftrightarrow> (case res of
       Inl l \<Rightarrow> set l \<subseteq> set moved \<union> ids \<and> int (length l) = limit
     | Inr l \<Rightarrow> set l \<subseteq> set moved \<union> ids \<and> int (length l) < limit)"

lemma scan_ok_mono:
  "scan_ok limit moved ids r \<Longrightarrow> ids \<subseteq> ids' \<Longrightarrow> set moved \<subseteq> set moved' \<union> ids' \<Longrightarrow> scan_ok limit moved' ids' r"
  by (cases r) (simp_all add: scan_ok_def, blast+)

definition entry_ids :: "(u16 \<times> Allocation) list \<Rightarrow> u64 set" where
  "entry_ids es = alloc_ID ` {al \<in> snd ` set es. movable al}"

lemma entry_ids_Cons: "entry_ids (e # es) = (if movable (snd e) then {alloc_ID (snd e)} else {}) \<union> entry_ids es"
  unfolding entry_ids_def by auto

lemma analyze_allocs_ok:
  assumes "int (length moved) < limit"
  shows "scan_ok limit moved (entry_ids es) (analyze_allocs limit es moved)"
  using assms
proof (induction es arbitrary: moved)
  case (Cons e es)
  obtain z alloc where e: "e = (z, alloc)" by fastforce
  note ids = entry_ids_Cons [of e es]
  consider (fixed) "\<not> movable alloc" | (last) "movable alloc" "int (length moved) + 1 \<ge> limit"
    | (more) "movable alloc" "int (length moved) + 1 < limit" by linarith
  then show ?case
  proof cases
    case fixed
    then have "analyze_allocs limit (e # es) moved = analyze_allocs limit es moved"
      by (auto simp: e movable_def)
    moreover have "entry_ids (e # es) = entry_ids es" using fixed by (simp add: ids) (simp add: e)
    ultimately show ?thesis using Cons.IH [OF Cons.prems] by simp
  next
    case last
    then have "analyze_allocs limit (e # es) moved = Inl (moved @ [alloc_ID alloc])"
      by (simp add: e movable_def Let_def)
    moreover have "alloc_ID alloc \<in> entry_ids (e # es)" using last by (simp add: ids) (simp add: e)
    ultimately show ?thesis using last Cons.prems by (auto simp: scan_ok_def)
  next
    case more
    then have "analyze_allocs limit (e # es) moved = analyze_allocs limit es (moved @ [alloc_ID alloc])"
      by (simp add: e movable_def Let_def)
    moreover have "scan_ok limit (moved @ [alloc_ID alloc]) (entry_ids es)
        (analyze_allocs limit es (moved @ [alloc_ID alloc]))"
      using more by (intro Cons.IH) simp
    then have "scan_ok limit moved (entry_ids (e # es)) (analyze_allocs limit es (moved @ [alloc_ID alloc]))"
      by (rule scan_ok_mono) (use more e in \<open>auto simp: entry_ids_Cons\<close>)
    ultimately show ?thesis by simp
  qed
qed (simp add: scan_ok_def)

lemma analyze_planes_ok:
  assumes "int (length moved) < limit" "\<And>p. valid_order (pord p)"
  shows "scan_ok limit moved (ids_of ps) (analyze_planes pord limit ps moved)"
  using assms(1)
proof (induction ps arbitrary: moved)
  case (Cons p ps)
  let ?r = "analyze_allocs limit (range_over (pord p) (plane_Allocations p)) moved"
  have sub: "entry_ids (range_over (pord p) (plane_Allocations p)) \<subseteq> ids_of (p # ps)"
    "ids_of ps \<subseteq> ids_of (p # ps)"
    using assms(2) by (fastforce simp: ids_of_def entry_ids_def)+
  note r = analyze_allocs_ok [OF Cons.prems, of "range_over (pord p) (plane_Allocations p)"]
  show ?case
  proof (cases ?r)
    case (Inl l)
    then show ?thesis using scan_ok_mono [OF r sub(1), of moved] by simp
  next
    case (Inr l)
    then have l: "int (length l) < limit" "set l \<subseteq> set moved \<union> ids_of (p # ps)"
      using r sub(1) by (auto simp: scan_ok_def)
    show ?thesis using scan_ok_mono [OF Cons.IH [OF l(1)] sub(2) l(2)] Inr by simp
  qed
qed (simp add: scan_ok_def)

lemma analyze_regions_ok:
  assumes "int (length moved) < MaxAllocationsToMove config" "\<And>p. valid_order (pord p)"
    and "\<And>e. e \<in> set es \<Longrightarrow> rep_RecommendCompact (Region_GetCompactionReport (snd e)) \<Longrightarrow>
      ids_of (reg_Planes (snd e)) \<subseteq> ids"
  shows "set (analyze_regions pord config es moved) \<subseteq> set moved \<union> ids
    \<and> int (length (analyze_regions pord config es moved)) \<le> MaxAllocationsToMove config"
  using assms(1,3)
proof (induction es arbitrary: moved)
  case (Cons e es)
  obtain x region where e: "e = (x, region)" by fastforce
  let ?rep = "Region_GetCompactionReport region"
  let ?r = "analyze_planes pord (MaxAllocationsToMove config) (reg_Planes region) moved"
  show ?case
  proof (cases "\<not> rep_RecommendCompact ?rep \<or> rep_Fragmentation ?rep < FragmentationThreshold config")
    case True
    then show ?thesis using Cons e by (simp add: Let_def)
  next
    case False
    then have ids: "ids_of (reg_Planes region) \<subseteq> ids" using Cons.prems(2) [of e] e by simp
    have ok: "scan_ok (MaxAllocationsToMove config) moved (ids_of (reg_Planes region)) ?r"
      by (rule analyze_planes_ok [OF Cons.prems(1) assms(2)])
    show ?thesis
    proof (cases ?r)
      case (Inl l)
      then show ?thesis using ok ids False e by (auto simp: scan_ok_def Let_def)
    next
      case (Inr l)
      then have l: "set l \<subseteq> set moved \<union> ids" "int (length l) < MaxAllocationsToMove config"
        using ok ids by (auto simp: scan_ok_def)
      have "set (analyze_regions pord config es l) \<subseteq> set l \<union> ids
          \<and> int (length (analyze_regions pord config es l)) \<le> MaxAllocationsToMove config"
        using Cons.IH [OF l(2)] Cons.prems(2) by simp
      then show ?thesis using l False e Inr by (auto simp: Let_def)
    qed
  qed
qed simp

text \<open>
  The compaction analysis proposes only what may be moved: whatever order the maps are
  visited in, every identifier it returns is that of an allocation that is recorded in a plane
  of a region whose report recommends compaction, is not pinned and is not promoted; and it
  returns at most the configured number of them.
\<close>

theorem AnalyzeCompaction_sound:
  assumes "0 < MaxAllocationsToMove config" "valid_order ord" "\<And>p. valid_order (pord p)"
  shows "int (length (AnalyzeCompaction ord pord a config)) \<le> MaxAllocationsToMove config
    \<and> (i \<in> set (AnalyzeCompaction ord pord a config) \<longrightarrow>
        (\<exists>x r p z al. (x, r) \<in> set (al_regions a) \<and> rep_RecommendCompact (Region_GetCompactionReport r)
           \<and> p \<in> set (reg_Planes r) \<and> (z, al) \<in> set (plane_Allocations p) \<and> alloc_ID al = i
           \<and> (alloc_Flags al AND FlagPinned) = 0 \<and> \<not> IsYPromoted al))"
proof -
  define ids where "ids = (\<Union>e \<in> {e \<in> set (al_regions a).
      rep_RecommendCompact (Region_GetCompactionReport (snd e))}. ids_of (reg_Planes (snd e)))"
  have "set (AnalyzeCompaction ord pord a config) \<subseteq> set [] \<union> ids
    \<and> int (length (AnalyzeCompaction ord pord a config)) \<le> MaxAllocationsToMove config"
    unfolding AnalyzeCompaction_def
    by (rule analyze_regions_ok) (use assms in \<open>auto simp: ids_def\<close>)
  then show ?thesis by (fastforce simp: ids_def ids_of_def movable_def)
qed

theorem AnalyzeCompaction_sound_witness:
  "int (length (AnalyzeCompaction (\<lambda>n. [0..<n]) (\<lambda>_ n. rev [0..<n]) warm DefaultCompactionConfig)) \<le> 10"
  using AnalyzeCompaction_sound [of DefaultCompactionConfig "\<lambda>n. [0..<n]" "\<lambda>_ n. rev [0..<n]" warm]
  by (simp add: DefaultCompactionConfig_def)

end
