(* ===== verification/MainProgram.thy ===== *)
theory MainProgram
  imports VMCorrect AllocatorEdges
begin

text \<open>
  The methods of a client of the virtual machine, and \<^verbatim>\<open>cmd/vm3d/main.go\<close>, which uses them: it
  allocates a block, stores and loads it back, runs a small program and checks the registers.
\<close>

section \<open>The client methods\<close>

lemma after_store_outcome:
  assumes inv: "machine_inv ps k (vm_allocator vm) (vm_memory vm) (Cache_Put (vm_cache vm) addr data)"
    and gas: "gas_inv limit (vm_gasAccount vm)" "15 * length data \<le> gas_left (vm_gasAccount vm)"
    and regs: "regs_inv (vm_registers vm)" and len: "length data < 2 ^ 32"
  shows "\<exists>vm'. after_store rt vm addr data = Some (Inr (vm', None)) \<and> vm_inv limit ps k vm' \<and> vm_view vm' = vm_view vm
    \<and> unat (GetGasUsed vm') = unat (GetGasUsed vm) + 15 * length data \<and> vm_frame vm vm' \<and> vm_stats vm' = vm_stats vm"
proof -
  have "unat (of_nat (15 * length data) :: u64) = 15 * length data"
    using len by (simp add: unsigned_of_nat take_bit_nat_eq_self del: of_nat_mult of_nat_numeral)
  with Consume_cases [OF gas(1), of "of_nat (15 * length data)"] gas(2) obtain g where
    g: "Consume (vm_gasAccount vm) (of_nat (15 * length data)) = Inr (g, None)" "gas_inv limit g"
      "unat (Used g) = unat (Used (vm_gasAccount vm)) + 15 * length data" by auto
  have "mem_inv (vm_allocator vm) (vm_memory vm)" using inv by (simp add: machine_inv_def)
  note acc = UpdateAccess_law(2) [OF this, of addr "rt_now rt"]
  show ?thesis
    unfolding after_store_def g(1) using machine_access [OF inv, of addr "rt_now rt"] g(2,3) regs acc
    by (simp add: vm_inv_def GetGasUsed_def vm_frame_def)
qed

lemma VM_Store3D_tracked:
  assumes inv: "vm_inv limit ps k vm" and rt: "rt_ok rt" and v: "vm_view vm addr = Some v" "length data \<le> length v"
    and gas: "15 * length data \<le> gas_left (vm_gasAccount vm)"
  shows "\<exists>vm'. VM_Store3D rt vm addr data = Some (Inr (vm', None)) \<and> vm_inv limit ps k vm'
    \<and> vm_view vm' = (vm_view vm)(addr \<mapsto> data @ drop (length data) v)
    \<and> unat (GetGasUsed vm') = unat (GetGasUsed vm) + 15 * length data \<and> vm_frame vm vm' \<and> vm_stats vm' = vm_stats vm"
proof -
  note p = vm_inv_parts [OF inv]
  have ord: "valid_order (rt_allocations rt)" using rt by (simp add: rt_ok_def)
  have "mem_inv (vm_allocator vm) (vm_memory vm)" using p(1) by (simp add: machine_inv_def)
  then have len: "length data < 2 ^ 32" using view_length [OF _ v(1)] v(2) by simp
  show ?thesis
  proof (rule machine_store [OF p(1) ord len, of addr "rt_now rt"])
    fix a mm w
    assume s: "MM_Store3D (rt_allocations rt) (vm_allocator vm) (vm_memory vm) addr data (rt_now rt) = Inr (a, mm, None)"
      "vm_view vm addr = Some w" "mem_view a mm = (vm_view vm)(addr \<mapsto> data @ drop (length data) w)"
      "machine_inv ps k a mm (Cache_Put (vm_cache vm) addr data)"
    let ?vm = "vm\<lparr>vm_allocator := a, vm_memory := mm\<rparr>"
    from after_store_outcome [of ps k ?vm addr data limit rt] s(4) p gas len obtain vm' where
      "after_store rt ?vm addr data = Some (Inr (vm', None))" "vm_inv limit ps k vm'" "vm_view vm' = mem_view a mm"
      "unat (GetGasUsed vm') = unat (GetGasUsed vm) + 15 * length data" "vm_frame vm vm'" "vm_stats vm' = vm_stats vm"
      by (auto simp: GetGasUsed_def vm_frame_def)
    then show ?thesis using s(1,2,3) v by (simp add: VM_Store3D_def)
  next
    fix e assume "\<forall>w. vm_view vm addr = Some w \<longrightarrow> length w < length data"
    then show ?thesis using v by simp
  qed
qed

lemma VM_Load3D_outcome:
  assumes inv: "vm_inv limit ps k vm" and rt: "rt_ok rt"
  shows "\<exists>vm' res. VM_Load3D rt vm addr sz = Inr (vm', res) \<and> vm_inv limit ps k vm' \<and> vm_view vm' = vm_view vm
    \<and> (case vm_view vm addr of
         Some v \<Rightarrow> if unat sz \<le> length v then res = Inr (take (unat sz) v) else (\<exists>e. res = Inl e)
       | None \<Rightarrow> (\<exists>e. res = Inl e))
    \<and> vm' = vm\<lparr>vm_memory := vm_memory vm'\<rparr>"
proof -
  note p = vm_inv_parts [OF inv]
  have ord: "valid_order (rt_allocations rt)" using rt by (simp add: rt_ok_def)
  obtain mm res where r: "MM_Load3D (rt_allocations rt) (vm_allocator vm) (vm_memory vm) addr sz (rt_now rt) = Inr (mm, res)"
      "machine_inv ps k (vm_allocator vm) mm (vm_cache vm)" "mem_view (vm_allocator vm) mm = vm_view vm"
      "case res of Inr d \<Rightarrow> \<exists>v. vm_view vm addr = Some v \<and> unat sz \<le> length v \<and> d = take (unat sz) v
         | Inl _ \<Rightarrow> \<forall>v. vm_view vm addr = Some v \<longrightarrow> length v < unat sz"
    by (rule machine_load [OF p(1) ord])
  then show ?thesis
    using p by (cases res) (auto simp: VM_Load3D_def vm_inv_def split: option.splits)
qed

lemma AllocateMemory_outcome:
  assumes inv: "vm_inv limit ps (Suc k) vm" and rt: "rt_ok rt" and sz: "sz \<noteq> 0"
  shows "\<exists>vm' res. AllocateMemory rt vm sz t = Some (Inr (vm', res)) \<and> vm_inv limit ps k vm' \<and>
    (if unat sz \<le> unat ps
     then \<exists>addr v. res = Inr addr \<and> vm_view vm addr = None \<and> length v = unat sz \<and> vm_view vm' = (vm_view vm)(addr \<mapsto> v)
     else res = Inl (InsufficientMemory sz) \<and> vm_view vm' = vm_view vm)
    \<and> vm' = vm\<lparr>vm_allocator := vm_allocator vm', vm_memory := vm_memory vm'\<rparr>"
proof -
  note p = vm_inv_parts [OF inv]
  have ord: "valid_order (rt_regions rt)" using rt by (simp add: rt_ok_def)
  show ?thesis
    by (rule machine_allocate [OF p(1) ord sz, of "rt_queued rt" t 0 "rt_now rt" "rt_now rt"])
      (use p in \<open>auto simp: AllocateMemory_def vm_inv_def\<close>)
qed


section \<open>Programs over the registers\<close>

text \<open>
  The register programs: what the instructions that touch neither memory nor the allocator mean
  for the register file.
\<close>

fun register_op :: "asm \<Rightarrow> bool" where
  "register_op Nop = True"
| "register_op Halt = True"
| "register_op (Mov d s) = True"
| "register_op (Add d s1 s2) = True"
| "register_op (Sub d s1 s2) = True"
| "register_op _ = False"

fun register_step :: "asm \<Rightarrow> Registers \<Rightarrow> Registers" where
  "register_step (Mov d s) r = Reg_Set r d (Reg_Get r s)"
| "register_step (Add d s1 s2) r = SetUint64 r d (GetUint64 r s1 + GetUint64 r s2)"
| "register_step (Sub d s1 s2) r = SetUint64 r d (GetUint64 r s1 - GetUint64 r s2)"
| "register_step _ r = r"

fun register_run :: "asm list \<Rightarrow> Registers \<Rightarrow> Registers" where
  "register_run [] r = r"
| "register_run (i # is) r = (if i = Halt then r else register_run is (register_step i r))"

lemma dispatch_register_op:
  assumes "register_op i"
  shows "dispatch fb pord rt vm (denote i)
    = vm_ok (vm\<lparr>vm_registers := register_step i (vm_registers vm), vm_halted := (vm_halted vm \<or> i = Halt)\<rparr>)"
  using assms
  by (cases i) (simp_all add: dispatch_def instruction_def operand_def opcode_defs executeNOP_def executeHalt3D_def
      executeMov3D_def executeAdd3D_def executeSub3D_def as_register_def vm_need_def vm_ok_def)

lemma register_op_cost:
  assumes "register_op i"
  shows "0 < unat (calculateGasCost (denote i))" "inst_Opcode (denote i) = OP_HALT3D \<longleftrightarrow> i = Halt"
  using assms
  by (cases i; simp add: calculateGasCost_def baseCost_def operandCost_def instruction_def operand_def opcode_defs)+


lemma exec_loop_step:
  assumes "fetchInstruction (vm_pc vm) program = Inr (Inr inst)" "vm_pc vm < of_nat (length program)"
    and "\<not> vm_halted vm" "\<not> vm_paused vm"
    and "executeInstruction fb pord (env k) vm inst = Some (Inr (vm', None))"
    and "Remaining (vm_gasAccount vm') \<noteq> 0" "vs_InstructionsExecuted (vm_stats vm') + 1 < vc_MaxInstructions (vm_config vm')"
  shows "exec_loop fb pord env program k vm = exec_loop fb pord env program (Suc k)
    ((after_instruction (env k) vm')\<lparr>vm_pc := vm_pc vm' + ucast (inst_Size inst)\<rparr>)"
proof -
  have "\<not> vc_MaxInstructions (vm_config vm') \<le> vs_InstructionsExecuted (vm_stats vm') + 1" using assms(7) by simp
  then show ?thesis
    using assms(1-6) by (subst exec_loop.simps) (simp add: Let_def after_instruction_def)
qed

text \<open>Nothing but the registers, the account and the bookkeeping of the loop differs.\<close>

definition registers_only :: "VM3D \<Rightarrow> VM3D \<Rightarrow> bool" where
  "registers_only vm vm' \<longleftrightarrow> vm_allocator vm' = vm_allocator vm \<and> vm_memory vm' = vm_memory vm \<and> vm_cache vm' = vm_cache vm
     \<and> vm_merkleTree vm' = vm_merkleTree vm \<and> vm_config vm' = vm_config vm \<and> vm_paused vm' = vm_paused vm
     \<and> vs_MemoryUsage (vm_stats vm') = vs_MemoryUsage (vm_stats vm)"

lemma registers_only_trans: "registers_only vm vm1 \<Longrightarrow> registers_only vm1 vm2 \<Longrightarrow> registers_only vm vm2"
  by (simp add: registers_only_def)

definition register_result :: "nat \<Rightarrow> asm list \<Rightarrow> VM3D \<Rightarrow> VM3D \<Rightarrow> bool" where
  "register_result limit is vm vm' \<longleftrightarrow> gas_inv limit (vm_gasAccount vm') \<and> vm_registers vm' = register_run is (vm_registers vm) \<and> registers_only vm vm'
     \<and> unat (GetGasUsed vm') = unat (GetGasUsed vm) + total_cost (upto_halt (map denote is))
     \<and> unat (vs_InstructionsExecuted (vm_stats vm'))
         = unat (vs_InstructionsExecuted (vm_stats vm)) + length (upto_halt (map denote is))"

definition affordable :: "nat \<Rightarrow> asm list \<Rightarrow> VM3D \<Rightarrow> bool" where
  "affordable limit is vm \<longleftrightarrow> gas_inv limit (vm_gasAccount vm) \<and> limit < 2 ^ 63
     \<and> (\<forall>i \<in> set is. register_op i)
     \<and> total_cost (upto_halt (map denote is)) < gas_left (vm_gasAccount vm)
     \<and> unat (vs_InstructionsExecuted (vm_stats vm)) + length (upto_halt (map denote is))
         < unat (vc_MaxInstructions (vm_config vm))"

lemma register_step_exec:
  assumes "affordable limit (i # is) vm"
  shows "\<exists>g. executeInstruction fb pord rt vm (denote i)
      = Some (Inr (vm\<lparr>vm_gasAccount := g, vm_registers := register_step i (vm_registers vm),
          vm_halted := (vm_halted vm \<or> i = Halt)\<rparr>, None))
    \<and> gas_inv limit g \<and> unat (Used g) = unat (GetGasUsed vm) + unat (calculateGasCost (denote i))
    \<and> gas_left g = gas_left (vm_gasAccount vm) - unat (calculateGasCost (denote i))
    \<and> Remaining g \<noteq> 0"
proof -
  let ?c = "calculateGasCost (denote i)"
  have a: "gas_inv limit (vm_gasAccount vm)" "limit < 2 ^ 63" "register_op i" "unat ?c < gas_left (vm_gasAccount vm)"
    using assms by (auto simp: affordable_def split: if_splits)
  with Consume_cases [OF a(1), of ?c] obtain g where
    g: "Consume (vm_gasAccount vm) ?c = Inr (g, None)" "gas_inv limit g" "unat (Used g) = unat (Used (vm_gasAccount vm)) + unat ?c"
    by auto
  have l: "gas_left g = gas_left (vm_gasAccount vm) - unat ?c"
    using gas_balance [OF a(1)] gas_balance [OF g(2)] g(3) by simp
  moreover have "gas_left g < 2 ^ 63" using gas_balance [OF g(2)] a(2) by simp
  moreover have "0 < gas_left g" using l a(4) by linarith
  ultimately have "Remaining g \<noteq> 0" unfolding Remaining_reading [OF g(2)] by (simp only: if_True of_nat_eq_0_iff)
  then show ?thesis
    using g l by (auto simp: executeInstruction_def dispatch_register_op [OF a(3)] vm_ok_def GetGasUsed_def)
qed

lemma instruction_counted:
  assumes "affordable limit (i # is) vm"
  shows "unat (vs_InstructionsExecuted (vm_stats vm) + 1) = unat (vs_InstructionsExecuted (vm_stats vm)) + 1"
proof -
  have "unat (vs_InstructionsExecuted (vm_stats vm)) + 1 < 2 ^ LENGTH(64)"
    using assms unsigned_less [of "vc_MaxInstructions (vm_config vm)", where ?'a = nat] by (auto simp: affordable_def split: if_splits)
  then show ?thesis by (intro unat_add_lem [THEN iffD1, THEN trans]) simp_all
qed

lemma register_round:
  assumes len: "length (pre @ concat (map assemble (i # is))) < 2 ^ 64" and aff: "affordable limit (i # is) vm"
    and vm: "vm_pc vm = of_nat (length pre)" "\<not> vm_halted vm" "\<not> vm_paused vm"
    and x: "executeInstruction fb pord (env k) vm (denote i) = Some (Inr (vm', None))"
    and vm': "Remaining (vm_gasAccount vm') \<noteq> 0" "vm_stats vm' = vm_stats vm" "vm_config vm' = vm_config vm"
  shows "exec_loop fb pord env (pre @ concat (map assemble (i # is))) k vm = exec_loop fb pord env (pre @ concat (map assemble (i # is)))
    (Suc k) ((after_instruction (env k) vm')\<lparr>vm_pc := vm_pc vm' + ucast (inst_Size (denote i))\<rparr>)"
proof (rule exec_loop_step [where env = env and k = k, OF _ _ vm(2,3) x vm'(1)])
  show "fetchInstruction (vm_pc vm) (pre @ concat (map assemble (i # is))) = Inr (Inr (denote i))"
    using fetch_at [of pre i "concat (map assemble is)"] len vm(1) by simp
  have "0 < length (assemble i)" by (cases i) simp_all
  then show "vm_pc vm < of_nat (length (pre @ concat (map assemble (i # is))))"
    unfolding vm(1) by (intro of_nat_less_u64) (use len in simp_all)
  show "vs_InstructionsExecuted (vm_stats vm') + 1 < vc_MaxInstructions (vm_config vm')"
    using aff instruction_counted [OF aff] vm'(2,3) by (auto simp: word_less_nat_alt affordable_def split: if_splits)
qed

lemma exec_loop_register_program:
  assumes "length (pre @ concat (map assemble is)) < 2 ^ 64"
    and "affordable limit is vm" "vm_pc vm = of_nat (length pre)" "\<not> vm_halted vm" "\<not> vm_paused vm"
  shows "\<exists>vm'. exec_loop fb pord env (pre @ concat (map assemble is)) k vm = Some (Inr (vm', None))
    \<and> register_result limit is vm vm'"
  using assms
proof (induction "is" arbitrary: pre k vm)
  case Nil
  then show ?case
    by (subst exec_loop.simps) (simp add: vm_ok_def affordable_def register_result_def registers_only_def GetGasUsed_def)
next
  case (Cons i "is")
  let ?p = "pre @ concat (map assemble (i # is))"
  from register_step_exec [OF Cons.prems(2), of fb pord "env k"] obtain g where
    x: "executeInstruction fb pord (env k) vm (denote i)
      = Some (Inr (vm\<lparr>vm_gasAccount := g, vm_registers := register_step i (vm_registers vm),
          vm_halted := (vm_halted vm \<or> i = Halt)\<rparr>, None))" (is "_ = Some (Inr (?vm', None))")
    and g: "gas_inv limit g" "unat (Used g) = unat (GetGasUsed vm) + unat (calculateGasCost (denote i))"
      "gas_left g = gas_left (vm_gasAccount vm) - unat (calculateGasCost (denote i))" "Remaining g \<noteq> 0"
    by blast
  let ?vm1 = "(after_instruction (env k) ?vm')\<lparr>vm_pc := vm_pc ?vm' + ucast (inst_Size (denote i))\<rparr>"
  have r: "register_op i" using Cons.prems(2) by (simp add: affordable_def)
  note h = register_op_cost(2) [OF r]
  have c: "unat (vs_InstructionsExecuted (vm_stats vm)) + length (upto_halt (map denote (i # is)))
      < unat (vc_MaxInstructions (vm_config vm))" using Cons.prems(2) by (simp add: affordable_def)
  note n = instruction_counted [OF Cons.prems(2)]
  have "exec_loop fb pord env ?p k vm = exec_loop fb pord env ?p (Suc k) ?vm1"
    by (rule register_round [where env = env and k = k, OF Cons.prems(1,2,3,4,5) x]) (use g(4) in simp_all)
  moreover have "\<exists>vm'. exec_loop fb pord env ?p (Suc k) ?vm1 = Some (Inr (vm', None)) \<and> register_result limit (i # is) vm vm'"
  proof (cases "i = Halt")
    case True
    then show ?thesis
      using g(1,2) h n by (simp add: exec_loop_halted vm_ok_def register_result_def registers_only_def GetGasUsed_def
          after_instruction_def)
  next
    case False
    have pc: "vm_pc ?vm1 = of_nat (length (pre @ assemble i))"
      using Cons.prems(3) length_assemble [of i] by simp
    have "affordable limit is ?vm1"
      using Cons.prems(2) g(1,3) c n False h by (simp add: affordable_def after_instruction_def) linarith
    with Cons.IH [of "pre @ assemble i" ?vm1 "Suc k"] Cons.prems(1,4,5) pc False obtain vm' where
      v: "exec_loop fb pord env ?p (Suc k) ?vm1 = Some (Inr (vm', None))" "register_result limit is ?vm1 vm'"
      by (auto simp: after_instruction_def)
    have "register_result limit (i # is) vm vm'"
      using v(2) g(2) n False h by (simp add: register_result_def registers_only_def GetGasUsed_def after_instruction_def)
    with v(1) show ?thesis by blast
  qed
  ultimately show ?case by simp
qed


lemma Execute_register_program:
  assumes "affordable limit is vm" "\<not> vm_paused vm" "length (concat (map assemble is)) < 2 ^ 64"
  shows "\<exists>vm'. Execute fb pord env vm (concat (map assemble is)) = Some (Inr (vm', None)) \<and> register_result limit is vm vm'"
proof -
  let ?vm = "vm\<lparr>vm_pc := 0, vm_halted := False, vm_stats := (vm_stats vm)\<lparr>vs_StartTime := rt_now (env 0)\<rparr>\<rparr>"
  have "affordable limit is ?vm" using assms(1) by (simp add: affordable_def)
  with exec_loop_register_program [of "[]" "is" limit ?vm fb pord env 0] assms(2,3) obtain vm' where
    "exec_loop fb pord env (concat (map assemble is)) 0 ?vm = Some (Inr (vm', None))" "register_result limit is ?vm vm'"
    by auto
  then show ?thesis
    by (auto simp: Execute_def register_result_def registers_only_def GetGasUsed_def)
qed

section \<open>The command\<close>

text \<open>
  The program of \<^verbatim>\<open>main\<close>.  The profiler, the log and the final sleep are left out; what it prints is
  the report.  An early return on an error is \<open>None\<close>.  Every return
  runs the deferred \<^verbatim>\<open>Shutdown\<close>.
\<close>

definition buildComplexComputationProgram :: bytes where
  "buildComplexComputationProgram = [0x31, R2, R0, R1, 0x32, R3, R2, R1, 0xFF]"

definition main_config :: VMConfig where
  "main_config = \<lparr>vc_MemorySize = 1024 * 1024, vc_GasLimit = 500000, vc_EnableProof = True, vc_EnableCompaction = True,
     vc_MaxInstructions = 5000, vc_LogLevel = LogLevelSilent\<rparr>"

definition initialData :: bytes where
  "initialData = map of_char ''Configuration data for processing''"

record MainReport =
  mr_dataMatches :: bool
  mr_r2Result :: u64
  mr_r3Result :: u64
  mr_instructions :: u64
  mr_gasUsed :: u64
  mr_memoryUsage :: u64
  mr_gasAtStart :: int
  mr_gasAtEnd :: int

definition main_report :: "VM3D \<Rightarrow> bytes \<Rightarrow> int \<Rightarrow> MainReport" where
  "main_report vm retrievedData gasAtStart =
     (let stats = GetStats vm
      in \<lparr>mr_dataMatches = (initialData = retrievedData), mr_r2Result = GetUint64 (GetRegisters vm) R2,
          mr_r3Result = GetUint64 (GetRegisters vm) R3, mr_instructions = vs_InstructionsExecuted stats,
          mr_gasUsed = GetGasUsed vm, mr_memoryUsage = vs_MemoryUsage stats,
          mr_gasAtStart = gasAtStart, mr_gasAtEnd = GetGasRemaining vm\<rparr>)"

definition deferred_shutdown :: "VM3D \<Rightarrow> MainReport option \<Rightarrow> MainReport option run" where
  "deferred_shutdown vm report = run_bind (Some (VM_Shutdown vm)) (\<lambda>_. Some (Inr report))"

definition main_program ::
  "(rat \<Rightarrow> u64) \<Rightarrow> (Plane \<Rightarrow> order) \<Rightarrow> (nat \<Rightarrow> Runtime) \<Rightarrow> Runtime \<Rightarrow> Runtime \<Rightarrow> Runtime \<Rightarrow> u64 \<Rightarrow> MainReport option run" where
  "main_program fb pord env rt1 rt2 rt3 now =
     (let vm = NewVM3D main_config now; gasAtStart = GetGasRemaining vm
      in run_bind (AllocateMemory rt1 vm 1024 RegionTypeHeap) (\<lambda>(vm1, res). case res of
           Inl e \<Rightarrow> deferred_shutdown vm1 None
         | Inr resultAddr \<Rightarrow> run_bind (VM_Store3D rt2 vm1 resultAddr initialData) (\<lambda>(vm2, err). case err of
             Some e \<Rightarrow> deferred_shutdown vm2 None
           | None \<Rightarrow> run_bind (Some (VM_Load3D rt3 vm2 resultAddr (of_nat (length initialData)))) (\<lambda>(vm3, res). case res of
               Inl e \<Rightarrow> deferred_shutdown vm3 None
             | Inr retrievedData \<Rightarrow>
                 let program = buildComplexComputationProgram;
                     vm4 = vm3\<lparr>vm_registers := SetUint64 (GetRegisters vm3) R0 100\<rparr>;
                     vm5 = vm4\<lparr>vm_registers := SetUint64 (GetRegisters vm4) R1 50\<rparr>
                 in run_bind (Execute fb pord env vm5 program) (\<lambda>(vm6, err). case err of
                      Some e \<Rightarrow> deferred_shutdown vm6 None
                    | None \<Rightarrow> deferred_shutdown vm6 (Some (main_report vm6 retrievedData gasAtStart)))))))"

text \<open>The calls of the first half leave the channels of the allocator open, so that the shutdown closes them.\<close>

lemma MM_Store3D_channels: "MM_Store3D ord a mm addr d now = Inr (a', mm', e) \<Longrightarrow> channels a' = channels a"
  by (auto simp: MM_Store3D_def Let_def write_plane_def split: option.splits if_splits)

lemma Allocate_channels:
  assumes "\<not> cfg_EnableConcurrent (al_config a)" "Allocate queued ord a sz t flags now = Some (Inr (a', alloc, e))"
  shows "channels a' = channels a"
proof -
  obtain r where "allocateSync ord a sz t flags now = Inr (a', r)"
    using assms by (cases "allocateSync ord a sz t flags now") (auto simp: Allocate_def)
  then show ?thesis by (rule allocateSync_channels)
qed

lemma client_channels:
  assumes "vm_inv limit ps k vm"
  shows "AllocateMemory rt vm sz t = Some (Inr (vm', res)) \<Longrightarrow> channels (vm_allocator vm') = channels (vm_allocator vm)"
    "VM_Load3D rt vm addr sz = Inr (vm', res') \<Longrightarrow> channels (vm_allocator vm') = channels (vm_allocator vm)"
    "vm_view vm addr = Some v \<Longrightarrow> rt_ok rt \<Longrightarrow> length data < 2 ^ 32 \<Longrightarrow> VM_Store3D rt vm addr data = Some (Inr (vm', None))
       \<Longrightarrow> channels (vm_allocator vm') = channels (vm_allocator vm)"
proof -
  note p = vm_inv_parts [OF assms]
  have c: "\<not> cfg_EnableConcurrent (al_config (vm_allocator vm))" using p(1) by (simp add: machine_inv_def)
  show "channels (vm_allocator vm') = channels (vm_allocator vm)" if "AllocateMemory rt vm sz t = Some (Inr (vm', res))"
    using that Allocate_channels [OF c]
    by (auto simp: AllocateMemory_def run_bind_def split: option.splits sum.splits prod.splits)
  show "channels (vm_allocator vm') = channels (vm_allocator vm)" if "VM_Load3D rt vm addr sz = Inr (vm', res')"
    using that by (auto simp: VM_Load3D_def go_bind_def split: sum.splits)
  show "channels (vm_allocator vm') = channels (vm_allocator vm)"
    if "vm_view vm addr = Some v" "rt_ok rt" "length data < 2 ^ 32" "VM_Store3D rt vm addr data = Some (Inr (vm', None))"
  proof -
    have ord: "valid_order (rt_allocations rt)" using that(2) by (simp add: rt_ok_def)
    show ?thesis
    proof (rule machine_store [OF p(1) ord that(3), of addr "rt_now rt"])
      fix a mm assume s: "MM_Store3D (rt_allocations rt) (vm_allocator vm) (vm_memory vm) addr data (rt_now rt) = Inr (a, mm, None)"
      then have "vm_allocator vm' = a"
        using that(4) by (auto simp: VM_Store3D_def after_store_def run_bind_def split: sum.splits)
      with MM_Store3D_channels [OF s] show ?thesis by simp
    next
      fix e assume "MM_Store3D (rt_allocations rt) (vm_allocator vm) (vm_memory vm) addr data (rt_now rt)
          = Inr (vm_allocator vm, vm_memory vm, Some e)" "vm_view vm addr = None \<longleftrightarrow> e = AddressNotAllocated addr"
      then show ?thesis using that(1,4) by (simp add: VM_Store3D_def vm_fail_def)
    qed
  qed
qed

lemma deferred_shutdown_open: "channels (vm_allocator vm) = (False, False) \<Longrightarrow> deferred_shutdown vm report = Some (Inr report)"
  by (simp add: deferred_shutdown_def VM_Shutdown_def Allocator_Shutdown_def channels_def)

lemma program_assembled: "buildComplexComputationProgram = concat (map assemble [Add 2 0 1, Sub 3 2 1, Halt])"
  by (simp add: buildComplexComputationProgram_def R0_def R1_def R2_def R3_def)

lemma program_cost: "total_cost (upto_halt (map denote [Add 2 0 1, Sub 3 2 1, Halt])) = 7"
  "length (upto_halt (map denote [Add 2 0 1, Sub 3 2 1, Halt])) = 3"
  by (simp_all add: calculateGasCost_def baseCost_def operandCost_def instruction_def operand_def opcode_defs)

text \<open>The store and the load of the first half, on the new machine.\<close>

lemma main_prefix:
  fixes now :: u64
  assumes "rt_ok rt1" "rt_ok rt2" "rt_ok rt3"
  defines "vm \<equiv> NewVM3D main_config now"
  obtains vm1 addr vm2 vm3 where
    "AllocateMemory rt1 vm 1024 RegionTypeHeap = Some (Inr (vm1, Inr addr))"
    "VM_Store3D rt2 vm1 addr initialData = Some (Inr (vm2, None))"
    "VM_Load3D rt3 vm2 addr (of_nat (length initialData)) = Inr (vm3, Inr initialData)"
    "vm_inv 500000 65535 0 vm3" "unat (GetGasUsed vm3) = 495" "vm_stats vm3 = vm_stats vm"
    "vm_config vm3 = main_config" "\<not> vm_paused vm3"
    "channels (vm_allocator vm3) = (False, False)"
proof -
  have i: "vm_inv 500000 65535 (Suc 0) vm"
    using NewVM3D_inv [of "Suc 0" main_config now] by (simp add: vm_def main_config_def)
  have l: "length initialData = 33" by (simp add: initialData_def)
  from AllocateMemory_outcome [OF i assms(1), of 1024 RegionTypeHeap] obtain vm1 addr v where
    a: "AllocateMemory rt1 vm 1024 RegionTypeHeap = Some (Inr (vm1, Inr addr))" "vm_inv 500000 65535 0 vm1"
      "vm_view vm1 addr = Some v" "length v = 1024"
      "vm1 = vm\<lparr>vm_allocator := vm_allocator vm1, vm_memory := vm_memory vm1\<rparr>"
    by auto
  have g1: "vm_gasAccount vm1 = NewAccountant 500000" "vm_stats vm1 = vm_stats vm" "vm_config vm1 = main_config" "\<not> vm_paused vm1"
    by (subst a(5), simp add: vm_def NewVM3D_def main_config_def)+
  have "15 * length initialData \<le> gas_left (vm_gasAccount vm1)" by (simp add: g1 l NewAccountant_left)
  with VM_Store3D_tracked [OF a(2) assms(2) a(3), of initialData] obtain vm2 where
    s: "VM_Store3D rt2 vm1 addr initialData = Some (Inr (vm2, None))" "vm_inv 500000 65535 0 vm2"
      "vm_view vm2 = (vm_view vm1)(addr \<mapsto> initialData @ drop (length initialData) v)"
      "unat (GetGasUsed vm2) = unat (GetGasUsed vm1) + 15 * length initialData" "vm_frame vm1 vm2" "vm_stats vm2 = vm_stats vm1"
    using a(4) l by auto
  have u: "unat (of_nat (length initialData) :: u32) = length initialData" by (simp add: l)
  have v2: "vm_view vm2 addr = Some (initialData @ drop (length initialData) v)" by (simp add: s(3))
  from VM_Load3D_outcome [OF s(2) assms(3), of addr "of_nat (length initialData)", unfolded v2 u] obtain vm3 where
    d: "VM_Load3D rt3 vm2 addr (of_nat (length initialData)) = Inr (vm3, Inr initialData)" "vm_inv 500000 65535 0 vm3"
      "vm3 = vm2\<lparr>vm_memory := vm_memory vm3\<rparr>" by auto
  have g3: "GetGasUsed vm3 = GetGasUsed vm2" "vm_stats vm3 = vm_stats vm2" "vm_config vm3 = vm_config vm2" "vm_paused vm3 = vm_paused vm2"
    by (subst d(3), simp add: GetGasUsed_def)+
  have "channels (vm_allocator vm3) = channels (vm_allocator vm2)" by (rule client_channels(2) [OF s(2) d(1)])
  also have "\<dots> = channels (vm_allocator vm1)" by (rule client_channels(3) [OF a(2,3) assms(2) _ s(1)]) (simp add: l)
  also have "\<dots> = channels (vm_allocator vm)" by (rule client_channels(1) [OF i a(1)])
  also have "\<dots> = (False, False)" by (simp add: vm_def NewVM3D_def NewAllocator3D_def channels_def)
  finally have c: "channels (vm_allocator vm3) = (False, False)" .
  show thesis
    by (rule that [OF a(1) s(1) d(1,2)])
      (use s(4,5,6) l g1 g3 c in \<open>simp_all add: GetGasUsed_def NewAccountant_left vm_frame_def\<close>)
qed

text \<open>
  C35.  The command does what it announces, whatever order the run time walks its maps in: no step
  fails, the deferred shutdown included, the data it loads is the data it stored, register 2 holds 150 and register 3 holds 100,
  three instructions are executed and 502 units of gas are used; the memory usage it prints is
  0 although a block of 1024 bytes is live.  Of the gas, 495 units are for the store of 33 bytes at
  15 units each and 7 for the program; the allocation and the load are free in the code, although
  the documentation gives prices for them and a lower one for the store.
\<close>

theorem main_succeeds:
  assumes "rt_ok rt1" "rt_ok rt2" "rt_ok rt3"
  shows "main_program fb pord env rt1 rt2 rt3 now = Some (Inr (Some
    \<lparr>mr_dataMatches = True, mr_r2Result = 150, mr_r3Result = 100, mr_instructions = 3, mr_gasUsed = 502,
     mr_memoryUsage = 0, mr_gasAtStart = 500000, mr_gasAtEnd = 499498\<rparr>))"
proof -
  let ?is = "[Add 2 0 1, Sub 3 2 1, Halt]"
  obtain vm1 addr vm2 vm3 where p:
    "AllocateMemory rt1 (NewVM3D main_config now) 1024 RegionTypeHeap = Some (Inr (vm1, Inr addr))"
    "VM_Store3D rt2 vm1 addr initialData = Some (Inr (vm2, None))"
    "VM_Load3D rt3 vm2 addr (of_nat (length initialData)) = Inr (vm3, Inr initialData)"
    and i: "vm_inv 500000 65535 0 vm3" "unat (GetGasUsed vm3) = 495" "vm_stats vm3 = vm_stats (NewVM3D main_config now)"
    "vm_config vm3 = main_config" "\<not> vm_paused vm3" "channels (vm_allocator vm3) = (False, False)"
    by (rule main_prefix [OF assms])
  define vm5 where "vm5 = vm3\<lparr>vm_registers := SetUint64 (SetUint64 (vm_registers vm3) R0 100) R1 50\<rparr>"
  have r: "regs_inv (vm_registers vm3)" and g: "gas_inv 500000 (vm_gasAccount vm3)" using i(1) by (simp_all add: vm_inv_def)
  have "gas_left (vm_gasAccount vm3) = 499505" using gas_balance [OF g] i(2) by (simp add: GetGasUsed_def)
  then have "affordable 500000 ?is vm5"
    using g i(3,4) unfolding affordable_def program_cost by (simp add: vm5_def main_config_def NewVM3D_def)
  with Execute_register_program [of 500000 ?is vm5 fb pord env] i(5) obtain vm6 where
    x: "Execute fb pord env vm5 buildComplexComputationProgram = Some (Inr (vm6, None))" and y: "register_result 500000 ?is vm5 vm6"
    by (auto simp: program_assembled vm5_def)
  have u: "unat (GetGasUsed vm6) = 502" "unat (vs_InstructionsExecuted (vm_stats vm6)) = 3" "vs_MemoryUsage (vm_stats vm6) = 0"
    using y i(2,3) unfolding register_result_def program_cost
    by (simp_all add: vm5_def registers_only_def GetGasUsed_def NewVM3D_def)
  have regs: "GetUint64 (vm_registers vm6) R2 = 150" "GetUint64 (vm_registers vm6) R3 = 100"
    using y r by (simp_all add: register_result_def vm5_def GetUint64_eq SetUint64_eq Reg_Get_Set uint64_roundtrip
        R0_def R1_def R2_def R3_def R15_def)
  have "gas_inv 500000 (vm_gasAccount vm6)" using y by (simp add: register_result_def)
  then have "GetGasRemaining vm6 = 499498"
    using gas_balance [of 500000 "vm_gasAccount vm6"] Remaining_reading [of 500000 "vm_gasAccount vm6"] u(1)
    by (simp add: GetGasRemaining_def GetGasUsed_def)
  moreover have "GetGasRemaining (NewVM3D main_config now) = 500000"
    using Remaining_reading [OF NewAccountant_inv, of 500000]
    by (simp add: GetGasRemaining_def NewVM3D_def main_config_def NewAccountant_left)
  moreover have "GetGasUsed vm6 = 502" "vs_InstructionsExecuted (vm_stats vm6) = 3"
    using u(1,2) by (simp_all add: word_unat_eq_iff)
  moreover have "channels (vm_allocator vm6) = (False, False)"
    using y i(6) by (simp add: register_result_def registers_only_def vm5_def)
  ultimately show ?thesis
    using p x regs u(3)
    by (simp add: main_program_def deferred_shutdown_open main_report_def GetStats_def GetRegisters_def vm5_def Let_def)
qed


theorem main_succeeds_witness:
  "main_program demo_bits demo_order (\<lambda>_. demo_rt) demo_rt demo_rt demo_rt 0 = Some (Inr (Some
    \<lparr>mr_dataMatches = True, mr_r2Result = 150, mr_r3Result = 100, mr_instructions = 3, mr_gasUsed = 502,
     mr_memoryUsage = 0, mr_gasAtStart = 500000, mr_gasAtEnd = 499498\<rparr>))"
  by (rule main_succeeds [OF demo_rt_ok demo_rt_ok demo_rt_ok])

text \<open>
  C17.  Programs over the registers compute what they say.  A program of moves, additions,
  subtractions and halts that the machine can pay for, with gas and instructions to spare, runs
  to its end without an error; the registers are those of the abstract semantics, which stops
  at the first halt and adds and subtracts modulo 2 to the 64; the gas and the instructions are
  counted exactly; and memory, the cache, the tree and the allocator are untouched.
\<close>

theorem register_programs_compute:
  assumes "affordable limit is vm" "\<not> vm_paused vm" "length (concat (map assemble is)) < 2 ^ 64"
  shows "\<exists>vm'. Execute fb pord env vm (concat (map assemble is)) = Some (Inr (vm', None))
    \<and> vm_registers vm' = register_run is (vm_registers vm) \<and> registers_only vm vm'
    \<and> unat (GetGasUsed vm') = unat (GetGasUsed vm) + total_cost (upto_halt (map denote is))
    \<and> unat (vs_InstructionsExecuted (vm_stats vm'))
        = unat (vs_InstructionsExecuted (vm_stats vm)) + length (upto_halt (map denote is))"
  using Execute_register_program [OF assms, of fb pord env] by (auto simp: register_result_def)

theorem register_programs_compute_witness:
  "\<exists>vm'. Execute demo_bits demo_order (\<lambda>_. demo_rt) (demo_vm\<lparr>vm_registers := SetUint64 NewRegisters 1 9\<rparr>)
      (concat (map assemble [Sub 2 0 1, Mov 3 2, Halt, Add 3 3 3])) = Some (Inr (vm', None))
    \<and> GetUint64 (vm_registers vm') 3 = - 9"
proof -
  let ?is = "[Sub 2 0 1, Mov 3 2, Halt, Add 3 3 3]"
  let ?vm = "demo_vm\<lparr>vm_registers := SetUint64 NewRegisters 1 9\<rparr>"
  have c: "total_cost (upto_halt (map denote ?is)) = 6" "length (upto_halt (map denote ?is)) = 3"
    by (simp_all add: calculateGasCost_def baseCost_def operandCost_def instruction_def operand_def opcode_defs)
  have "affordable 10000 ?is ?vm"
    unfolding affordable_def c using NewAccountant_inv [of 10000]
    by (simp add: demo_vm_def NewVM3D_def NewAccountant_left)
  from register_programs_compute [OF this, of demo_bits demo_order "\<lambda>_. demo_rt"] show ?thesis
    by (auto simp: demo_vm_def NewVM3D_def GetUint64_eq SetUint64_eq Reg_Get_Set uint64_roundtrip R15_def)
      (simp add: Reg_Get_def NewRegisters_def R15_def bytesToUint64_def)
qed

text \<open>
  A store to an address that no live block has.  The bytes do not go there: the machine
  allocates a new block where the allocator likes, writes the data to it and reports success.
  When the block lies elsewhere, a load from the address that was named still fails, and the
  caller is not told where the data is.
\<close>


theorem store_elsewhere:
  assumes "vm_inv limit ps (Suc k) vm" "rt_ok rt" "vm_view vm addr = None"
    and "data \<noteq> []" "length data \<le> unat ps" "15 * length data \<le> gas_left (vm_gasAccount vm)"
  shows "\<exists>vm' addr'. VM_Store3D rt vm addr data = Some (Inr (vm', None)) \<and> vm_inv limit ps k vm'
    \<and> vm_view vm addr' = None \<and> vm_view vm' = (vm_view vm)(addr' \<mapsto> data)
    \<and> (addr' \<noteq> addr \<longrightarrow> (\<forall>rt' sz. rt_ok rt' \<longrightarrow> (\<exists>vm2 e. VM_Load3D rt' vm' addr sz = Inr (vm2, Inl e))))"
proof -
  note p = vm_inv_parts [OF assms(1)]
  let ?sz = "of_nat (length data) :: u32"
  have ord: "valid_order (rt_allocations rt)" "valid_order (rt_regions rt)" using assms(2) by (simp_all add: rt_ok_def)
  have "length data < 2 ^ 16"
    by (rule le_less_trans [OF assms(5)]) (use unsigned_less [of ps, where ?'a = nat] in simp)
  then have len: "length data < 2 ^ 32" and u: "unat ?sz = length data"
    by (simp_all add: unsigned_of_nat take_bit_nat_eq_self)
  then have z: "?sz \<noteq> 0" using assms(4) by (metis length_0_conv unat_0)
  have m: "MM_Store3D (rt_allocations rt) (vm_allocator vm) (vm_memory vm) addr data (rt_now rt)
      = Inr (vm_allocator vm, vm_memory vm, Some (AddressNotAllocated addr))"
    by (rule machine_store [OF p(1) ord(1) len, of addr "rt_now rt"]) (use assms(3) in simp_all)
  show ?thesis
  proof (rule machine_allocate [OF p(1) ord(2) z, of "rt_queued rt" RegionTypeHeap 0 "rt_now rt" "rt_now rt"])
    fix a al v
    assume a: "Allocate (rt_queued rt) (rt_regions rt) (vm_allocator vm) ?sz RegionTypeHeap 0 (rt_now rt) = Some (Inr (a, Some al, None))"
      "machine_inv ps k a (trackAllocation (vm_memory vm) al (rt_now rt)) (vm_cache vm)"
      "vm_view vm (alloc_Address al) = None" "length v = unat ?sz"
      "mem_view a (trackAllocation (vm_memory vm) al (rt_now rt)) = (vm_view vm)(alloc_Address al \<mapsto> v)"
    let ?vm = "vm\<lparr>vm_allocator := a, vm_memory := trackAllocation (vm_memory vm) al (rt_now rt)\<rparr>"
    have i: "vm_inv limit ps k ?vm" using a(2) p by (simp add: vm_inv_def)
    have "vm_view ?vm (alloc_Address al) = Some v" "length data \<le> length v" "15 * length data \<le> gas_left (vm_gasAccount ?vm)"
      using a(4,5) u assms(6) by simp_all
    from VM_Store3D_tracked [OF i assms(2) this] obtain vm' where
      v: "VM_Store3D rt ?vm (alloc_Address al) data = Some (Inr (vm', None))" "vm_inv limit ps k vm'"
        "vm_view vm' = (vm_view ?vm)(alloc_Address al \<mapsto> data @ drop (length data) v)" by blast
    have w: "vm_view vm' = (vm_view vm)(alloc_Address al \<mapsto> data)" using v(3) a(4,5) u by simp
    obtain a2 mm2 where st: "MM_Store3D (rt_allocations rt) a (trackAllocation (vm_memory vm) al (rt_now rt)) (alloc_Address al) data (rt_now rt)
        = Inr (a2, mm2, None)"
      by (rule machine_store [OF a(2) ord(1) len, of "alloc_Address al" "rt_now rt"]) (use a(4,5) u in auto)
    then have "VM_Store3D rt vm addr data = Some (Inr (vm', None))"
      using v(1) m a(1) by (simp add: VM_Store3D_def)
    moreover have "\<exists>vm2 e. VM_Load3D rt' vm' addr sz = Inr (vm2, Inl e)" if "alloc_Address al \<noteq> addr" "rt_ok rt'" for rt' sz
      using VM_Load3D_outcome [OF v(2) that(2), of addr sz] that(1) assms(3) by (auto simp: w)
    ultimately show ?thesis using v(2) w a(3) by blast
  next
    assume "unat ps < unat ?sz"
    then show ?thesis using assms(5) u by simp
  qed
qed

theorem store_elsewhere_witness:
  "\<exists>vm' addr'. VM_Store3D demo_rt demo_vm (NewAddress 7 7 7) [1, 2, 3] = Some (Inr (vm', None))
    \<and> vm_view vm' = [addr' \<mapsto> [1, 2, 3]]"
proof -
  have "vm_view demo_vm = Map.empty" by (simp add: demo_vm_def NewVM3D_def NewMemoryManager_law)
  moreover have "15 * length [1, 2, 3 :: u8] \<le> gas_left (vm_gasAccount demo_vm)"
    by (simp add: demo_vm_def NewVM3D_def NewAccountant_left)
  ultimately show ?thesis
    using store_elsewhere [OF demo_vm_inv [of "Suc 0"] demo_rt_ok, of "NewAddress 7 7 7" "[1, 2, 3]"] by auto
qed

end
