(* ===== verification/AbstractMachine.thy ===== *)
theory AbstractMachine
  imports MainProgram
begin

text \<open>
  What the virtual machine promises to a programmer, without regions, planes, bitmaps, caches,
  access logs and buckets: a map from addresses to blocks of bytes, sixteen registers, an amount
  of gas, an instruction counter and, when proofs are enabled, a digest per address.  The
  machine of \<^verbatim>\<open>vm.go\<close> refines it: every run of a program is a run of the abstract machine.
\<close>

section \<open>The abstract machine\<close>

record Machine =
  m_blocks :: "Address3D \<rightharpoonup> bytes"
  m_regs :: Registers
  m_gas :: nat
  m_count :: u64
  m_digests :: "(Address3D \<rightharpoonup> bytes) option"

text \<open>What a programmer can tell the errors apart by.\<close>

datatype fault = NotAllocated | OutOfRange | NoMemory | ShortRegister | NoGas | CountExceeded | BadFetch | OtherFault

fun fault_of :: "error \<Rightarrow> fault" where
  "fault_of (Wrapped w e) = fault_of e"
| "fault_of (ExecutionError pc e) = fault_of e"
| "fault_of (FetchError pc e) = BadFetch"
| "fault_of (AddressNotAllocated a) = NotAllocated"
| "fault_of AllocationNotFound = NotAllocated"
| "fault_of (OutOfBounds w) = OutOfRange"
| "fault_of (InsufficientMemory n) = NoMemory"
| "fault_of RegisterDataTooSmall = ShortRegister"
| "fault_of InsufficientGas = NoGas"
| "fault_of GasExhausted = NoGas"
| "fault_of InstructionLimitExceeded = CountExceeded"
| "fault_of _ = OtherFault"

text \<open>A store of \<open>data\<close> that makes \<open>w\<close> of the block, and of the digest that of the data.\<close>

definition written :: "Machine \<Rightarrow> Address3D \<Rightarrow> bytes \<Rightarrow> bytes \<Rightarrow> Machine" where
  "written s a data w = s\<lparr>m_blocks := (m_blocks s)(a \<mapsto> w),
     m_digests := map_option (\<lambda>h. h(a \<mapsto> SHA256_Hash data)) (m_digests s)\<rparr>"

text \<open>One instruction, without its payment.  \<open>ps\<close> is the size of a plane: no block is larger.\<close>

inductive machine_step :: "u16 \<Rightarrow> asm \<Rightarrow> Machine \<Rightarrow> Machine \<Rightarrow> fault option \<Rightarrow> bool" for ps where
  load: "m_blocks s a = Some v \<Longrightarrow> unat n \<le> length v \<Longrightarrow>
    machine_step ps (Load a n r) s (s\<lparr>m_regs := Reg_Set (m_regs s) r (take (unat n) v)\<rparr>) None"
| load_none: "m_blocks s a = None \<Longrightarrow> machine_step ps (Load a n r) s s (Some NotAllocated)"
| load_long: "m_blocks s a = Some v \<Longrightarrow> length v < unat n \<Longrightarrow> machine_step ps (Load a n r) s s (Some OutOfRange)"
| store: "m_blocks s a = Some v \<Longrightarrow> unat n \<le> length v \<Longrightarrow> unat n \<le> length (Reg_Get (m_regs s) r) \<Longrightarrow>
    d = take (unat n) (Reg_Get (m_regs s) r) \<Longrightarrow>
    machine_step ps (Store a r n) s (written s a d (d @ drop (unat n) v)) None"
| store_register: "length (Reg_Get (m_regs s) r) < unat n \<Longrightarrow> machine_step ps (Store a r n) s s (Some ShortRegister)"
| store_none: "unat n \<le> length (Reg_Get (m_regs s) r) \<Longrightarrow> m_blocks s a = None \<Longrightarrow>
    machine_step ps (Store a r n) s s (Some NotAllocated)"
| store_long: "unat n \<le> length (Reg_Get (m_regs s) r) \<Longrightarrow> m_blocks s a = Some v \<Longrightarrow> length v < unat n \<Longrightarrow>
    machine_step ps (Store a r n) s s (Some OutOfRange)"
| alloc: "unat n \<le> unat ps \<Longrightarrow> m_blocks s a = None \<Longrightarrow> length v = unat n \<Longrightarrow>
    machine_step ps (Alloc n t f r) s (s\<lparr>m_blocks := (m_blocks s)(a \<mapsto> v), m_regs := SetAddress (m_regs s) R0 a\<rparr>) None"
| alloc_large: "unat ps < unat n \<Longrightarrow> machine_step ps (Alloc n t f r) s s (Some NoMemory)"
| free: "m_blocks s a \<noteq> None \<Longrightarrow> machine_step ps (Free a) s (s\<lparr>m_blocks := (m_blocks s)(a := None)\<rparr>) None"
| free_none: "m_blocks s a = None \<Longrightarrow> machine_step ps (Free a) s s (Some NotAllocated)"
| copy: "m_blocks s (NewAddress sx (ucast sy) sz) = Some v \<Longrightarrow> unat n \<le> length v \<Longrightarrow>
    m_blocks s (NewAddress (ucast dx) (ucast dy) 0) = Some w \<Longrightarrow> unat n \<le> length w \<Longrightarrow>
    machine_step ps (Copy sx sy sz dx dy n) s (s\<lparr>m_blocks :=
      (m_blocks s)(NewAddress (ucast dx) (ucast dy) 0 \<mapsto> take (unat n) v @ drop (unat n) w)\<rparr>) None"
| copy_none: "m_blocks s (NewAddress sx (ucast sy) sz) = None \<Longrightarrow>
    machine_step ps (Copy sx sy sz dx dy n) s s (Some NotAllocated)"
| copy_long: "m_blocks s (NewAddress sx (ucast sy) sz) = Some v \<Longrightarrow> length v < unat n \<Longrightarrow>
    machine_step ps (Copy sx sy sz dx dy n) s s (Some OutOfRange)"
| copy_to_none: "m_blocks s (NewAddress sx (ucast sy) sz) = Some v \<Longrightarrow> unat n \<le> length v \<Longrightarrow>
    m_blocks s (NewAddress (ucast dx) (ucast dy) 0) = None \<Longrightarrow>
    machine_step ps (Copy sx sy sz dx dy n) s s (Some NotAllocated)"
| copy_to_long: "m_blocks s (NewAddress sx (ucast sy) sz) = Some v \<Longrightarrow> unat n \<le> length v \<Longrightarrow>
    m_blocks s (NewAddress (ucast dx) (ucast dy) 0) = Some w \<Longrightarrow> length w < unat n \<Longrightarrow>
    machine_step ps (Copy sx sy sz dx dy n) s s (Some OutOfRange)"
| size_of: "machine_step ps (SizeOf a r) s
    (s\<lparr>m_regs := SetUint64 (m_regs s) r (case m_blocks s a of None \<Rightarrow> 0 | Some v \<Rightarrow> of_nat (length v))\<rparr>) None"
| register: "register_op i \<Longrightarrow> machine_step ps i s (s\<lparr>m_regs := register_step i (m_regs s)\<rparr>) None"

inductive_simps machine_step_simps:
  "machine_step ps (Load a n r) s s' f" "machine_step ps (Store a r n) s s' f" "machine_step ps (Alloc n t fl r) s s' f"
  "machine_step ps (Free a) s s' f" "machine_step ps (Copy sx sy sz dx dy k) s s' f" "machine_step ps (SizeOf a r) s s' f"
  "machine_step ps Nop s s' f" "machine_step ps Halt s s' f" "machine_step ps (Mov d r) s s' f"
  "machine_step ps (Add d r1 r2) s s' f" "machine_step ps (Sub d r1 r2) s s' f"

text \<open>
  A program, as the list of its instructions and whether its last bytes are one.  An instruction is
  paid for first; after it the machine stops when the account reads zero, which it also does from
  \<open>2 ^ 63\<close> on, or when the counter reaches \<open>bound\<close>, even if the instruction was a halt.
\<close>

definition m_cost :: "asm \<Rightarrow> nat" where
  "m_cost i = unat (calculateGasCost (denote i))"

definition tick :: "Machine \<Rightarrow> Machine" where
  "tick s = s\<lparr>m_count := m_count s + 1\<rparr>"

definition empty_tank :: "Machine \<Rightarrow> bool" where
  "empty_tank s \<longleftrightarrow> m_gas s = 0 \<or> 2 ^ 63 \<le> m_gas s"

definition paid_step :: "u16 \<Rightarrow> asm \<Rightarrow> Machine \<Rightarrow> Machine \<Rightarrow> fault option \<Rightarrow> bool" where
  "paid_step ps i s s' f \<longleftrightarrow> (if m_cost i \<le> m_gas s then machine_step ps i (s\<lparr>m_gas := m_gas s - m_cost i\<rparr>) s' f
     else s' = s \<and> f = Some NoGas)"

inductive machine_run :: "u16 \<Rightarrow> u64 \<Rightarrow> bool \<Rightarrow> asm list \<Rightarrow> Machine \<Rightarrow> Machine \<Rightarrow> fault option \<Rightarrow> bool"
  for ps bound whole where
  finish: "whole \<Longrightarrow> machine_run ps bound whole [] s s None"
| fetch: "\<not> whole \<Longrightarrow> machine_run ps bound whole [] s s (Some BadFetch)"
| fault: "paid_step ps i s s1 (Some f) \<Longrightarrow> machine_run ps bound whole (i # is) s (tick s1) (Some f)"
| exhausted: "paid_step ps i s s1 None \<Longrightarrow> empty_tank s1 \<Longrightarrow>
    machine_run ps bound whole (i # is) s (tick s1) (Some NoGas)"
| limit: "paid_step ps i s s1 None \<Longrightarrow> \<not> empty_tank s1 \<Longrightarrow> bound \<le> m_count (tick s1) \<Longrightarrow>
    machine_run ps bound whole (i # is) s (tick s1) (Some CountExceeded)"
| halt: "paid_step ps Halt s s1 None \<Longrightarrow> \<not> empty_tank s1 \<Longrightarrow> m_count (tick s1) < bound \<Longrightarrow>
    machine_run ps bound whole (Halt # is) s (tick s1) None"
| onward: "i \<noteq> Halt \<Longrightarrow> paid_step ps i s s1 None \<Longrightarrow> \<not> empty_tank s1 \<Longrightarrow> m_count (tick s1) < bound \<Longrightarrow>
    machine_run ps bound whole is (tick s1) s' f \<Longrightarrow> machine_run ps bound whole (i # is) s s' f"

section \<open>The abstraction\<close>

definition abs_vm :: "VM3D \<Rightarrow> Machine" where
  "abs_vm vm = \<lparr>m_blocks = vm_view vm, m_regs = vm_registers vm, m_gas = gas_left (vm_gasAccount vm),
     m_count = vs_InstructionsExecuted (vm_stats vm),
     m_digests = map_option (\<lambda>t. map_of (tree_nodeCache t)) (vm_merkleTree vm)\<rparr>"

text \<open>
  What the simulation needs beside the invariant of the machine: the tree has its default hasher,
  and no register holds 4 gigabytes, so that its length is not truncated by a store.
\<close>

definition regs_small :: "Registers \<Rightarrow> bool" where
  "regs_small r \<longleftrightarrow> (\<forall>b \<in> set (General r). length b < 2 ^ 32)"

definition tree_default :: "Tree3D option \<Rightarrow> bool" where
  "tree_default t \<longleftrightarrow> pred_option (\<lambda>t. tree_hasher t = SHA256Hasher) t"

definition sim_inv :: "nat \<Rightarrow> u16 \<Rightarrow> nat \<Rightarrow> VM3D \<Rightarrow> bool" where
  "sim_inv limit ps k vm \<longleftrightarrow> vm_inv limit ps k vm \<and> regs_small (vm_registers vm) \<and> tree_default (vm_merkleTree vm)"

lemma NewVM3D_sim: "k < 2 ^ 64 - 1 \<Longrightarrow> sim_inv (unat (vc_GasLimit c)) 65535 k (NewVM3D c now)"
  using NewVM3D_inv [of k c now]
  by (simp add: sim_inv_def NewVM3D_def regs_small_def NewRegisters_def tree_default_def NewTree3D_def)

lemma Reg_Get_small: "regs_inv r \<Longrightarrow> regs_small r \<Longrightarrow> length (Reg_Get r reg) < 2 ^ 32"
  by (simp add: Reg_Get_def regs_small_def regs_inv_def R15_bound)

lemma Reg_Set_small: "regs_small r \<Longrightarrow> length v < 2 ^ 32 \<Longrightarrow> regs_small (Reg_Set r reg v)"
  using set_update_subset_insert [of "General r" "unat reg" v] by (auto simp: regs_small_def Reg_Set_def)

lemma SetUint64_small: "regs_small r \<Longrightarrow> regs_small (SetUint64 r reg v)"
  by (simp add: SetUint64_eq Reg_Set_small uint64ToBytes_def)

lemma SetAddress_small: "regs_small r \<Longrightarrow> regs_small (SetAddress r reg a)"
  by (simp add: SetAddress_def Reg_Set_small Bytes_length)

lemma register_step_small: "regs_inv r \<Longrightarrow> regs_small r \<Longrightarrow> regs_small (register_step i r)"
  by (cases i) (auto intro: SetUint64_small Reg_Set_small Reg_Get_small)

lemma sim_invD:
  assumes "sim_inv limit ps k vm"
  shows "vm_inv limit ps k vm" "regs_inv (vm_registers vm)" "regs_small (vm_registers vm)" "tree_default (vm_merkleTree vm)"
    "mem_inv (vm_allocator vm) (vm_memory vm)"
  using assms by (simp_all add: sim_inv_def vm_inv_def machine_inv_def)

section \<open>Every handler simulates its step\<close>

text \<open>The faults of memory accesses.\<close>

lemma load_fault:
  assumes "mem_inv a mm" "valid_order ord" "MM_Load3D ord a mm addr sz now = Inr (mm', Inl e)"
  shows "fault_of e = (if mem_view a mm addr = None then NotAllocated else OutOfRange)"
  using Load3D_law [OF assms(1,2), of addr sz now] assms(3) by (auto split: option.splits if_splits)

lemma store_fault:
  assumes "mem_inv a mm" "valid_order ord" "length d < 2 ^ 32" "MM_Store3D ord a mm addr d now = Inr (a', mm', Some e)"
  shows "fault_of e = (if mem_view a mm addr = None then NotAllocated else OutOfRange)"
  using Store3D_law [OF assms(1-3), of addr now] assms(4) by (auto split: option.splits if_splits)

text \<open>What no handler but the store touches, and what none touches.\<close>

definition vm_aside :: "VM3D \<Rightarrow> VM3D \<Rightarrow> bool" where
  "vm_aside vm vm' \<longleftrightarrow> vm_gasAccount vm' = vm_gasAccount vm \<and> vm_merkleTree vm' = vm_merkleTree vm
     \<and> vs_InstructionsExecuted (vm_stats vm') = vs_InstructionsExecuted (vm_stats vm)"

lemma abs_aside:
  assumes "vm_aside vm vm'"
  shows "abs_vm vm' = (abs_vm vm)\<lparr>m_blocks := vm_view vm', m_regs := vm_registers vm'\<rparr>"
  using assms by (simp add: vm_aside_def abs_vm_def)

lemma abs_vm_simps [simp]:
  "m_blocks (abs_vm vm) = vm_view vm" "m_regs (abs_vm vm) = vm_registers vm"
  "m_gas (abs_vm vm) = gas_left (vm_gasAccount vm)" "m_count (abs_vm vm) = vs_InstructionsExecuted (vm_stats vm)"
  by (simp_all add: abs_vm_def)

lemma abs_vm_self [simp]: "(abs_vm vm)\<lparr>m_blocks := vm_view vm, m_regs := r\<rparr> = (abs_vm vm)\<lparr>m_regs := r\<rparr>"
  "(abs_vm vm)\<lparr>m_blocks := b, m_regs := vm_registers vm\<rparr> = (abs_vm vm)\<lparr>m_blocks := b\<rparr>"
  "(abs_vm vm)\<lparr>m_blocks := vm_view vm\<rparr> = abs_vm vm" "(abs_vm vm)\<lparr>m_regs := vm_registers vm\<rparr> = abs_vm vm"
  by (simp_all add: abs_vm_def)

lemma body_aside:
  "run_post (mload rt vm a n r) (\<lambda>(vm', e). vm_aside vm vm')"
  "run_post (malloc3d rt vm n t f) (\<lambda>(vm', e). vm_aside vm vm')"
  "run_post (mfree rt vm a) (\<lambda>(vm', e). vm_aside vm vm')"
  "run_post (mcopy rt vm a b n) (\<lambda>(vm', e). vm_aside vm vm' \<and> vm_registers vm' = vm_registers vm)"
  subgoal by (auto simp: mload_def run_simps vm_aside_def Let_def split: option.split prod.split sum.split)
  subgoal by (auto simp: malloc3d_def run_simps vm_aside_def Let_def run_post_def [of "Allocate _ _ _ _ _ _ _"] split: option.split prod.split sum.split)
  subgoal by (auto simp: mfree_def run_simps vm_aside_def Let_def split: option.split prod.split sum.split)
  subgoal by (auto simp: mcopy_def run_simps vm_aside_def Let_def split: option.split prod.split sum.split)
  done

abbreviation simulates :: "nat \<Rightarrow> u16 \<Rightarrow> nat \<Rightarrow> asm \<Rightarrow> VM3D \<Rightarrow> (VM3D \<times> error option) run \<Rightarrow> bool" where
  "simulates limit ps k i vm r \<equiv> returns r (\<lambda>(vm', e). sim_inv limit ps k vm'
     \<and> machine_step ps i (abs_vm vm) (abs_vm vm') (map_option fault_of e))"

lemma mload_sim:
  assumes inv: "sim_inv limit ps k vm" and rt: "rt_ok rt"
  shows "simulates limit ps k (Load addr n reg) vm (mload rt vm addr n reg)"
proof -
  note p = sim_invD [OF inv]
  obtain vm' e where r: "mload rt vm addr n reg = Some (Inr (vm', e))" and v: "vm_view vm' = vm_view vm"
    and c: "case vm_view vm addr of
       Some v \<Rightarrow> if unat n \<le> length v
                 then e = None \<and> vm_registers vm' = Reg_Set (vm_registers vm) reg (take (unat n) v)
                 else e \<noteq> None \<and> vm_registers vm' = vm_registers vm
     | None \<Rightarrow> e \<noteq> None \<and> vm_registers vm' = vm_registers vm"
    using mload_outcome [OF p(1) rt, of addr n reg] by blast
  have "vm_inv limit ps k vm'" using mload_inv [OF p(1) rt, of addr n reg] by (simp add: r run_simps)
  moreover have a: "vm_aside vm vm'" using body_aside(1) [of rt vm addr n reg] by (simp add: r run_simps)
  moreover have "regs_small (vm_registers vm')"
    using c p(3) view_length [OF p(5)] by (force split: option.splits if_splits intro: Reg_Set_small)
  moreover have f: "fault_of err = (if vm_view vm addr = None then NotAllocated else OutOfRange)" if "e = Some err" for err
  proof -
    from r that obtain mm e' where m: "MM_Load3D (rt_allocations rt) (vm_allocator vm) (vm_memory vm) addr n (rt_now rt) = Inr (mm, Inl e')"
      "err = Wrapped ''MLOAD3D failed'' e'"
      by (auto simp: mload_def vm_ok_def vm_fail_def Let_def split: prod.splits option.splits sum.splits if_splits)
    then show ?thesis using load_fault [OF p(5) _ m(1)] rt by (simp add: rt_ok_def)
  qed
  ultimately show ?thesis
    using c f p(4) by (auto simp: r run_simps sim_inv_def abs_aside [OF a] v vm_aside_def machine_step_simps split: option.splits if_splits)
qed

lemma mstore_effect:
  assumes inv: "sim_inv limit ps k vm" and "mstore rt vm addr reg n = Some (Inr (vm', e))"
    and d: "d = take (unat n) (Reg_Get (vm_registers vm) reg)"
  shows "vm_gasAccount vm' = vm_gasAccount vm" "vm_stats vm' = vm_stats vm"
    "vm_merkleTree vm' = (if e = None then map_option (\<lambda>t. Tree_Update (rt_nodes rt) t addr d) (vm_merkleTree vm) else vm_merkleTree vm)"
  using assms(2) unfolding d
  by (auto simp: mstore_def vm_ok_def vm_fail_def Let_def split: if_splits sum.splits option.splits prod.splits)

lemma digest_update:
  "tree_default t \<Longrightarrow> map_option (\<lambda>t. map_of (tree_nodeCache t)) (map_option (\<lambda>t. Tree_Update ord t addr d) t)
     = map_option (\<lambda>h. h(addr \<mapsto> SHA256_Hash d)) (map_option (\<lambda>t. map_of (tree_nodeCache t)) t)"
  by (cases t) (simp_all add: tree_default_def update_conv' SHA256Hasher_def fun_eq_iff)

lemma tree_default_update: "tree_default t \<Longrightarrow> tree_default (map_option (\<lambda>t. Tree_Update ord t addr d) t)"
  by (cases t) (simp_all add: tree_default_def)

lemma mstore_fault:
  assumes inv: "sim_inv limit ps k vm" and rt: "rt_ok rt" and r: "mstore rt vm addr reg n = Some (Inr (vm', Some err))"
  shows "fault_of err = (if length (Reg_Get (vm_registers vm) reg) < unat n then ShortRegister
    else if vm_view vm addr = None then NotAllocated else OutOfRange)"
proof -
  note p = sim_invD [OF inv]
  let ?data = "Reg_Get (vm_registers vm) reg"
  have len: "length ?data < 2 ^ 32" by (rule Reg_Get_small [OF p(2,3)])
  then have small: "of_nat (length ?data) < n \<longleftrightarrow> length ?data < unat n"
    by (simp add: word_less_nat_alt unsigned_of_nat take_bit_nat_eq_self)
  show ?thesis
  proof (cases "length ?data < unat n")
    case True
    then show ?thesis using r small by (auto simp: mstore_def vm_fail_def Let_def)
  next
    case False
    with r small obtain a mm e' where
      m: "MM_Store3D (rt_allocations rt) (vm_allocator vm) (vm_memory vm) addr (take (unat n) ?data) (rt_now rt) = Inr (a, mm, Some e')"
      "err = Wrapped ''MSTORE3D failed'' e'"
      by (auto simp: mstore_def vm_ok_def vm_fail_def Let_def split: prod.splits option.splits sum.splits)
    then show ?thesis using store_fault [OF p(5) _ _ m(1)] rt len False by (simp add: rt_ok_def)
  qed
qed

lemma mstore_sim:
  assumes inv: "sim_inv limit ps k vm" and rt: "rt_ok rt"
  shows "simulates limit ps k (Store addr reg n) vm (mstore rt vm addr reg n)"
proof -
  note p = sim_invD [OF inv]
  let ?data = "Reg_Get (vm_registers vm) reg"
  have len: "length ?data < 2 ^ 32" by (rule Reg_Get_small [OF p(2,3)])
  obtain vm' e where r: "mstore rt vm addr reg n = Some (Inr (vm', e))" and g: "vm_registers vm' = vm_registers vm"
    and c: "case vm_view vm addr of
       Some v \<Rightarrow> if unat n \<le> length ?data \<and> unat n \<le> length v
                 then e = None \<and> vm_view vm' = (vm_view vm)(addr \<mapsto> take (unat n) ?data @ drop (unat n) v)
                 else e \<noteq> None \<and> vm_view vm' = vm_view vm
     | None \<Rightarrow> e \<noteq> None \<and> vm_view vm' = vm_view vm"
    using mstore_outcome [OF p(1) rt len, of addr n] by blast
  note f = mstore_effect [OF inv r refl]
  have i: "vm_inv limit ps k vm'" using mstore_inv [OF p(1) rt, of addr reg n] by (simp add: r run_simps)
  have s: "sim_inv limit ps k vm'" using i g p(3,4) tree_default_update by (simp add: sim_inv_def f(3))
  have "machine_step ps (Store addr reg n) (abs_vm vm) (abs_vm vm') None" if "e = None"
  proof -
    from c that obtain v where v: "vm_view vm addr = Some v" "unat n \<le> length v" "unat n \<le> length ?data"
      "vm_view vm' = (vm_view vm)(addr \<mapsto> take (unat n) ?data @ drop (unat n) v)" by (auto split: option.splits if_splits)
    have "abs_vm vm' = written (abs_vm vm) addr (take (unat n) ?data) (take (unat n) ?data @ drop (unat n) v)"
      using f g v(4) that digest_update [OF p(4), of "rt_nodes rt" addr "take (unat n) ?data"] by (simp add: abs_vm_def written_def)
    then show ?thesis using machine_step.store [of "abs_vm vm" addr v n reg _ ps] v by simp
  qed
  moreover have "machine_step ps (Store addr reg n) (abs_vm vm) (abs_vm vm') (Some (fault_of err))" if err: "e = Some err" for err
  proof -
    have "vm_view vm' = vm_view vm" using c err by (simp split: option.splits if_splits)
    then have a: "abs_vm vm' = abs_vm vm" using f g err by (simp add: abs_vm_def)
    consider "length ?data < unat n" | "unat n \<le> length ?data" "vm_view vm addr = None"
      | v where "unat n \<le> length ?data" "vm_view vm addr = Some v" "length v < unat n"
      using c err by (force split: option.splits if_splits)
    then show ?thesis using a mstore_fault [OF inv rt r [unfolded err]] by cases (auto simp: not_less intro: machine_step.intros)
  qed
  ultimately show ?thesis using s by (cases e) (simp_all add: r run_simps)
qed

lemma malloc3d_sim:
  assumes inv: "sim_inv limit ps (Suc k) vm" and rt: "rt_ok rt" and n: "n \<noteq> 0"
  shows "simulates limit ps k (Alloc n t f reg) vm (malloc3d rt vm n t f)"
proof -
  note p = sim_invD [OF inv]
  have ord: "valid_order (rt_regions rt)" using rt by (simp add: rt_ok_def)
  obtain vm' e where r: "malloc3d rt vm n t f = Some (Inr (vm', e))" and i: "vm_inv limit ps k vm'"
    using malloc3d_inv [OF p(1) rt n, of t f] by (auto simp: returns_def)
  have a: "vm_aside vm vm'" using body_aside(2) [of rt vm n t f] by (simp add: r run_simps)
  have "machine_step ps (Alloc n t f reg) (abs_vm vm) (abs_vm vm') (map_option fault_of e) \<and> regs_small (vm_registers vm')"
  proof (rule machine_allocate [OF vm_inv_parts(1) [OF p(1)] ord n, of "rt_queued rt" t f "rt_now rt" "rt_now rt"])
    fix al alc v
    assume x: "Allocate (rt_queued rt) (rt_regions rt) (vm_allocator vm) n t f (rt_now rt) = Some (Inr (al, Some alc, None))"
      "vm_view vm (alloc_Address alc) = None" "length v = unat n" "unat n \<le> unat ps"
      "mem_view al (trackAllocation (vm_memory vm) alc (rt_now rt)) = (vm_view vm)(alloc_Address alc \<mapsto> v)"
    then have "e = None" "vm_view vm' = (vm_view vm)(alloc_Address alc \<mapsto> v)"
      "vm_registers vm' = SetAddress (vm_registers vm) R0 (alloc_Address alc)"
      using r by (auto simp: malloc3d_def vm_ok_def Let_def)
    then show ?thesis
      using machine_step.alloc [of n ps "abs_vm vm" "alloc_Address alc" v t f reg] x p(3)
      by (simp add: abs_aside [OF a] SetAddress_small)
  next
    fix al
    assume x: "Allocate (rt_queued rt) (rt_regions rt) (vm_allocator vm) n t f (rt_now rt) = Some (Inr (al, None, Some (InsufficientMemory n)))"
      "mem_view al (vm_memory vm) = vm_view vm" "unat ps < unat n"
    then have "e = Some (Wrapped ''MALLOC3D failed'' (InsufficientMemory n))" "vm_view vm' = vm_view vm" "vm_registers vm' = vm_registers vm"
      using r by (auto simp: malloc3d_def vm_fail_def)
    then show ?thesis using x(3) p(3) by (simp add: abs_aside [OF a] machine_step.alloc_large)
  qed
  then show ?thesis using a p(4) i by (simp add: r run_simps sim_inv_def vm_aside_def)
qed

lemma mfree_sim:
  assumes inv: "sim_inv limit ps k vm" and rt: "rt_ok rt" and small: "unat ps \<le> 32768"
  shows "simulates limit ps k (Free addr) vm (mfree rt vm addr)"
proof -
  note p = sim_invD [OF inv]
  obtain vm' e where r: "mfree rt vm addr = Some (Inr (vm', e))" and v: "vm_view vm' = (vm_view vm)(addr := None)"
    and c: "e = None \<longleftrightarrow> vm_view vm addr \<noteq> None" using mfree_outcome [OF p(1) rt small, of addr] by blast
  have a: "vm_aside vm vm'" using body_aside(3) [of rt vm addr] by (simp add: r run_simps)
  have i: "vm_inv limit ps k vm'" using mfree_inv [OF p(1) rt small, of addr] by (simp add: r run_simps)
  have g: "vm_registers vm' = vm_registers vm"
    using r by (auto simp: mfree_def vm_ok_def vm_fail_def split: option.splits prod.splits)
  have "machine_step ps (Free addr) (abs_vm vm) (abs_vm vm') (map_option fault_of e)"
  proof (cases "vm_view vm addr")
    case None
    have "getAllocation (rt_allocations rt) (vm_memory vm) addr = None"
      using None mem_view_Some [OF p(5), of addr] rt lookup_exact(2) [OF p(5), of "rt_allocations rt" addr]
      by (cases "map_of (mm_allocations (vm_memory vm)) addr") (auto simp: rt_ok_def)
    then have "e = Some AllocationNotFound" using r by (simp add: mfree_def vm_fail_def)
    then show ?thesis using None v by (simp add: abs_aside [OF a] g fun_upd_idem machine_step.free_none)
  next
    case (Some w)
    then show ?thesis using c v machine_step.free [of "abs_vm vm" addr ps] by (simp add: abs_aside [OF a] g)
  qed
  then show ?thesis using i a g p(3,4) by (simp add: r run_simps sim_inv_def vm_aside_def)
qed

text \<open>A copy, between any two blocks or within one.\<close>

lemma mcopy_outcome:
  assumes inv: "sim_inv limit ps k vm" and rt: "rt_ok rt"
  shows "\<exists>vm' e. mcopy rt vm src dst n = Some (Inr (vm', e)) \<and>
    (case vm_view vm src of
       None \<Rightarrow> map_option fault_of e = Some NotAllocated \<and> vm_view vm' = vm_view vm
     | Some v \<Rightarrow> if length v < unat n then map_option fault_of e = Some OutOfRange \<and> vm_view vm' = vm_view vm
         else (case vm_view vm dst of
             None \<Rightarrow> map_option fault_of e = Some NotAllocated \<and> vm_view vm' = vm_view vm
           | Some w \<Rightarrow> if length w < unat n then map_option fault_of e = Some OutOfRange \<and> vm_view vm' = vm_view vm
               else e = None \<and> vm_view vm' = (vm_view vm)(dst \<mapsto> take (unat n) v @ drop (unat n) w)))"
proof -
  note p = sim_invD [OF inv]
  note m = vm_inv_parts(1) [OF p(1)]
  have ord: "valid_order (rt_allocations rt)" using rt by (simp add: rt_ok_def)
  obtain mm res where r: "MM_Load3D (rt_allocations rt) (vm_allocator vm) (vm_memory vm) src n (rt_now rt) = Inr (mm, res)"
      "machine_inv ps k (vm_allocator vm) mm (vm_cache vm)" "mem_view (vm_allocator vm) mm = vm_view vm"
      "case res of Inr d \<Rightarrow> \<exists>v. vm_view vm src = Some v \<and> unat n \<le> length v \<and> d = take (unat n) v
         | Inl _ \<Rightarrow> \<forall>v. vm_view vm src = Some v \<longrightarrow> length v < unat n"
    by (rule machine_load [OF m ord])
  show ?thesis
  proof (cases res)
    case (Inl e)
    then show ?thesis
      using r load_fault [OF p(5) ord, of src n "rt_now rt" mm e] by (auto simp: mcopy_def vm_fail_def split: option.split)
  next
    case (Inr d)
    with r(4) obtain v where v: "vm_view vm src = Some v" "unat n \<le> length v" "d = take (unat n) v" by auto
    have "unat n < 2 ^ 32" using unsigned_less [of n, where ?'a = nat] by simp
    then have ld: "length d = unat n" "length d < 2 ^ 32" using v by simp_all
    show ?thesis
    proof (rule machine_store [OF r(2) ord ld(2), of dst "rt_now rt"])
      fix a' mm' w
      assume "MM_Store3D (rt_allocations rt) (vm_allocator vm) mm dst d (rt_now rt) = Inr (a', mm', None)"
        "mem_view (vm_allocator vm) mm dst = Some w" "length d \<le> length w"
        "mem_view a' mm' = (mem_view (vm_allocator vm) mm)(dst \<mapsto> d @ drop (length d) w)"
      then show ?thesis using r(1,3) Inr v ld by (simp add: mcopy_def vm_ok_def del: fun_upd_apply)
    next
      fix e
      assume s: "MM_Store3D (rt_allocations rt) (vm_allocator vm) mm dst d (rt_now rt) = Inr (vm_allocator vm, mm, Some e)"
        "\<forall>w. mem_view (vm_allocator vm) mm dst = Some w \<longrightarrow> length w < length d"
      have "mem_inv (vm_allocator vm) mm" using r(2) by (simp add: machine_inv_def)
      from store_fault [OF this ord ld(2) s(1)] show ?thesis
        using r(1,3) Inr v ld s by (auto simp: mcopy_def vm_fail_def split: option.split)
    qed
  qed
qed

lemma mcopy_sim:
  assumes inv: "sim_inv limit ps k vm" and rt: "rt_ok rt"
  shows "simulates limit ps k (Copy sx sy sz dx dy n) vm
    (mcopy rt vm (NewAddress sx (ucast sy) sz) (NewAddress (ucast dx) (ucast dy) 0) (ucast n))"
proof -
  let ?src = "NewAddress sx (ucast sy) sz" and ?dst = "NewAddress (ucast dx) (ucast dy) 0"
  note p = sim_invD [OF inv]
  have n: "unat (ucast n :: u32) = unat n" by (simp add: unat_ucast_up)
  from mcopy_outcome [OF inv rt, of ?src ?dst "ucast n", unfolded n] obtain vm' e where
    r: "mcopy rt vm ?src ?dst (ucast n) = Some (Inr (vm', e))" and
    c: "case vm_view vm ?src of
       None \<Rightarrow> map_option fault_of e = Some NotAllocated \<and> vm_view vm' = vm_view vm
     | Some v \<Rightarrow> if length v < unat n then map_option fault_of e = Some OutOfRange \<and> vm_view vm' = vm_view vm
         else (case vm_view vm ?dst of
             None \<Rightarrow> map_option fault_of e = Some NotAllocated \<and> vm_view vm' = vm_view vm
           | Some w \<Rightarrow> if length w < unat n then map_option fault_of e = Some OutOfRange \<and> vm_view vm' = vm_view vm
               else e = None \<and> vm_view vm' = (vm_view vm)(?dst \<mapsto> take (unat n) v @ drop (unat n) w))"
    by blast
  have a: "vm_aside vm vm'" "vm_registers vm' = vm_registers vm"
    using body_aside(4) [of rt vm ?src ?dst "ucast n"] by (simp_all add: r run_simps)
  have i: "vm_inv limit ps k vm'" using mcopy_inv [OF p(1) rt, of ?src ?dst "ucast n"] by (simp add: r run_simps)
  have "machine_step ps (Copy sx sy sz dx dy n) (abs_vm vm) (abs_vm vm') (map_option fault_of e)"
    using c by (auto simp: abs_aside [OF a(1)] a(2) machine_step_simps not_less split: option.splits if_splits)
  then show ?thesis using i a p(3,4) by (simp add: r run_simps sim_inv_def vm_aside_def)
qed

lemma allowed_denote:
  "allowed ps (denote (Alloc n t f reg)) \<longleftrightarrow> n \<noteq> 0" "allowed ps (denote (Free addr)) \<longleftrightarrow> unat ps \<le> 32768"
  by (simp_all add: allowed_def instruction_def operand_def as_uint32_def opcode_defs)

lemma dispatch_denote:
  "dispatch fb pord rt vm (denote (Load addr n reg)) = mload rt vm addr n reg"
  "dispatch fb pord rt vm (denote (Store addr reg n)) = mstore rt vm addr reg n"
  "dispatch fb pord rt vm (denote (Alloc n t f reg)) = malloc3d rt vm n t f"
  "dispatch fb pord rt vm (denote (Free addr)) = mfree rt vm addr"
  "dispatch fb pord rt vm (denote (Copy sx sy sz dx dy m))
     = mcopy rt vm (NewAddress sx (ucast sy) sz) (NewAddress (ucast dx) (ucast dy) 0) (ucast m)"
  "dispatch fb pord rt vm (denote (SizeOf addr reg)) = vm_ok (vm\<lparr>vm_registers := SetUint64 (vm_registers vm) reg
     (case getAllocation (rt_allocations rt) (vm_memory vm) addr of None \<Rightarrow> 0 | Some al \<Rightarrow> ucast (alloc_Size al))\<rparr>)"
  by (simp_all add: dispatch_def instruction_def operand_def opcode_defs as_address_def as_uint32_def as_register_def
      as_regionType_def as_flags_def executeMLoad3D_def executeMStore3D_def executeMAlloc3D_def executeMFree3D_def
      executeMCopy3D_def executeMSize3D_def split: option.split)

lemma size_view:
  assumes "mem_inv a mm" "valid_order ord"
  shows "(case getAllocation ord mm addr of None \<Rightarrow> 0 | Some al \<Rightarrow> ucast (alloc_Size al))
    = (case mem_view a mm addr of None \<Rightarrow> 0 | Some v \<Rightarrow> (of_nat (length v) :: u64))"
proof (cases "map_of (mm_allocations mm) addr")
  case None
  then show ?thesis by (simp add: lookup_exact [OF assms] mem_view_def)
next
  case (Some al)
  show ?thesis
    by (rule mem_view_Some [OF assms(1) Some]) (simp add: lookup_exact [OF assms] Some)
qed

lemma register_sim:
  assumes inv: "sim_inv limit ps k vm" and "register_op i"
  shows "simulates limit ps k i vm (dispatch fb pord rt vm (denote i))"
proof -
  have "regs_inv (register_step i r) = regs_inv r" for r using assms(2) by (cases i) simp_all
  then have "sim_inv limit ps k (vm\<lparr>vm_registers := register_step i (vm_registers vm), vm_halted := h\<rparr>)" for h
    using inv sim_invD(2,3) [OF inv] register_step_small by (simp add: sim_inv_def vm_inv_def)
  moreover have "abs_vm (vm\<lparr>vm_registers := register_step i (vm_registers vm), vm_halted := h\<rparr>)
      = (abs_vm vm)\<lparr>m_regs := register_step i (vm_registers vm)\<rparr>" for h by (simp add: abs_vm_def)
  ultimately show ?thesis
    using machine_step.register [OF assms(2), of ps "abs_vm vm"] by (simp add: dispatch_register_op [OF assms(2)] run_simps)
qed

lemma sizeof_sim:
  assumes inv: "sim_inv limit ps k vm" and rt: "rt_ok rt"
  shows "simulates limit ps k (SizeOf addr reg) vm (dispatch fb pord rt vm (denote (SizeOf addr reg)))"
proof -
  let ?n = "case vm_view vm addr of None \<Rightarrow> 0 | Some v \<Rightarrow> (of_nat (length v) :: u64)"
  have "abs_vm (vm\<lparr>vm_registers := SetUint64 (vm_registers vm) reg ?n\<rparr>) = (abs_vm vm)\<lparr>m_regs := SetUint64 (vm_registers vm) reg ?n\<rparr>"
    by (simp add: abs_vm_def)
  moreover have "sim_inv limit ps k (vm\<lparr>vm_registers := SetUint64 (vm_registers vm) reg ?n\<rparr>)"
    using inv by (simp add: sim_inv_def vm_inv_def SetUint64_small)
  ultimately show ?thesis
    using machine_step.size_of [of ps addr reg "abs_vm vm"] size_view [OF sim_invD(5) [OF inv], of "rt_allocations rt" addr] rt
    unfolding dispatch_denote by (simp add: run_simps rt_ok_def)
qed

lemma sim_inv_less: "sim_inv limit ps (Suc k) vm \<Longrightarrow> sim_inv limit ps k vm"
  by (simp add: sim_inv_def vm_inv_less)

lemma dispatch_sim:
  assumes inv: "sim_inv limit ps (Suc k) vm" and rt: "rt_ok rt" and ok: "allowed ps (denote i)"
  shows "simulates limit ps k i vm (dispatch fb pord rt vm (denote i))"
proof -
  note inv' = sim_inv_less [OF inv]
  show ?thesis
  proof (cases i)
    case (Load addr n reg)
    show ?thesis unfolding Load dispatch_denote by (rule mload_sim [OF inv' rt])
  next
    case (Store addr reg n)
    show ?thesis unfolding Store dispatch_denote by (rule mstore_sim [OF inv' rt])
  next
    case (Alloc n t f reg)
    show ?thesis using malloc3d_sim [OF inv rt] ok unfolding Alloc dispatch_denote allowed_denote by blast
  next
    case (Free addr)
    show ?thesis using mfree_sim [OF inv' rt] ok unfolding Free dispatch_denote allowed_denote by blast
  next
    case (Copy sx sy sz dx dy n)
    show ?thesis unfolding Copy dispatch_denote by (rule mcopy_sim [OF inv' rt])
  next
    case (SizeOf addr reg)
    show ?thesis unfolding SizeOf by (rule sizeof_sim [OF inv' rt])
  qed (simp_all only: register_sim [OF inv'] register_op.simps)
qed

section \<open>Every run is an abstract run\<close>

lemma abs_pay:
  assumes "gas_inv limit (vm_gasAccount vm)" "gas_inv limit g" "unat (Used g) = unat (Used (vm_gasAccount vm)) + c"
  shows "abs_vm (vm\<lparr>vm_gasAccount := g\<rparr>) = (abs_vm vm)\<lparr>m_gas := m_gas (abs_vm vm) - c\<rparr>"
  using gas_balance [OF assms(1)] gas_balance [OF assms(2)] assms(3) by (simp add: abs_vm_def)

lemma executeInstruction_sim:
  assumes inv: "sim_inv limit ps (Suc k) vm" and rt: "rt_ok rt" and ok: "allowed ps (denote i)"
  shows "returns (executeInstruction fb pord rt vm (denote i)) (\<lambda>(vm', e). sim_inv limit ps k vm'
    \<and> paid_step ps i (abs_vm vm) (abs_vm vm') (map_option fault_of e))"
proof -
  have g: "gas_inv limit (vm_gasAccount vm)" by (rule vm_inv_parts(2) [OF sim_invD(1) [OF inv]])
  note c = Consume_cases [OF g, of "calculateGasCost (denote i)"]
  show ?thesis
  proof (cases "m_cost i \<le> gas_left (vm_gasAccount vm)")
    case True
    with c obtain h where h: "Consume (vm_gasAccount vm) (calculateGasCost (denote i)) = Inr (h, None)" "gas_inv limit h"
      "unat (Used h) = unat (Used (vm_gasAccount vm)) + m_cost i" by (auto simp: m_cost_def)
    have "sim_inv limit ps (Suc k) (vm\<lparr>vm_gasAccount := h\<rparr>)" using inv h(2) by (simp add: sim_inv_def vm_inv_def)
    from dispatch_sim [OF this rt ok, of fb pord] show ?thesis
      using True by (simp add: executeInstruction_def h(1) abs_pay [OF g h(2,3)] paid_step_def)
  next
    case False
    with c obtain h where h: "Consume (vm_gasAccount vm) (calculateGasCost (denote i)) = Inr (h, Some InsufficientGas)" "gas_inv limit h"
      "unat (Used h) = unat (Used (vm_gasAccount vm)) + 0" by (auto simp: m_cost_def)
    have "sim_inv limit ps k (vm\<lparr>vm_gasAccount := h\<rparr>)" using sim_inv_less [OF inv] h(2) by (simp add: sim_inv_def vm_inv_def)
    moreover have "abs_vm (vm\<lparr>vm_gasAccount := h\<rparr>) = abs_vm vm" using abs_pay [OF g h(2,3)] by simp
    ultimately show ?thesis using False by (simp add: executeInstruction_def h(1) paid_step_def run_simps)
  qed
qed

lemma abs_after:
  "sim_inv limit ps k (after_instruction rt vm) = sim_inv limit ps k vm"
  "sim_inv limit ps k (vm\<lparr>vm_pc := pc\<rparr>) = sim_inv limit ps k vm"
  "sim_inv limit ps k (vm\<lparr>vm_stats := st\<rparr>) = sim_inv limit ps k vm"
  "abs_vm (after_instruction rt vm) = tick (abs_vm vm)" "abs_vm (vm\<lparr>vm_pc := pc\<rparr>) = abs_vm vm"
  "abs_vm (vm\<lparr>vm_stats := (vm_stats vm)\<lparr>vs_RunTime := t\<rparr>\<rparr>) = abs_vm vm"
  "abs_vm (vm\<lparr>vm_pc := pc, vm_stats := (vm_stats vm)\<lparr>vs_RunTime := t\<rparr>\<rparr>) = abs_vm vm"
  by (simp_all add: sim_inv_def vm_inv_after abs_vm_def after_instruction_def tick_def vm_inv_def)

lemma sim_inv_mono: "sim_inv limit ps k vm \<Longrightarrow> j \<le> k \<Longrightarrow> sim_inv limit ps j vm"
  by (auto simp: sim_inv_def intro: vm_inv_mono)

lemma empty_tank_abs:
  assumes "sim_inv limit ps k vm"
  shows "Remaining (vm_gasAccount vm) = 0 \<longleftrightarrow> empty_tank (abs_vm vm)"
proof -
  have "gas_inv limit (vm_gasAccount vm)" by (rule vm_inv_parts(2) [OF sim_invD(1) [OF assms]])
  then show ?thesis by (simp add: Remaining_reading empty_tank_def)
qed

text \<open>Whether the instructions from a position on reach the end of the program.\<close>

definition decodes_whole :: "bytes \<Rightarrow> u64 \<Rightarrow> bool" where
  "decodes_whole program pc \<longleftrightarrow> unat pc + sum_list (map (\<lambda>i. unat (inst_Size i)) (sweep program pc)) = length program"

lemma decodes_whole_Cons:
  assumes "sweep program pc = inst # is" "length program < 2 ^ 64"
  shows "decodes_whole program (pc + ucast (inst_Size inst)) = decodes_whole program pc"
    "unat (pc + ucast (inst_Size inst)) \<le> length program"
proof -
  note c = sweep_Cons [OF assms(1)]
  note f = fetch_advances [OF c(2,1)]
  have "unat (of_nat (length program) :: u64) = length program"
    using assms(2) by (simp add: unsigned_of_nat take_bit_nat_eq_self_iff)
  then show "unat (pc + ucast (inst_Size inst)) \<le> length program" using f by simp
  show "decodes_whole program (pc + ucast (inst_Size inst)) = decodes_whole program pc"
    unfolding decodes_whole_def using f(1) c(3) by (simp add: assms(1) add.assoc)
qed

definition run_sim :: "nat \<Rightarrow> u16 \<Rightarrow> nat \<Rightarrow> bool \<Rightarrow> asm list \<Rightarrow> VM3D \<Rightarrow> VM3D \<times> error option \<Rightarrow> bool" where
  "run_sim limit ps j whole is vm r \<longleftrightarrow> (case r of (vm', e) \<Rightarrow> sim_inv limit ps j vm' \<and> vm_config vm' = vm_config vm
     \<and> vm_paused vm' = vm_paused vm
     \<and> machine_run ps (vc_MaxInstructions (vm_config vm)) whole is (abs_vm vm) (abs_vm vm') (map_option fault_of e))"

lemma exec_loop_sim_Nil:
  assumes "length program < 2 ^ 64" "sweep program (vm_pc vm) = []" "unat (vm_pc vm) \<le> length program"
    and "sim_inv limit ps j vm" "\<not> vm_paused vm" "\<not> vm_halted vm"
  shows "returns (exec_loop fb pord env program k vm) (run_sim limit ps j (decodes_whole program (vm_pc vm)) [] vm)"
proof -
  have u: "unat (of_nat (length program) :: u64) = length program"
    using assms(1) by (simp add: unsigned_of_nat take_bit_nat_eq_self_iff)
  show ?thesis
  proof (cases "vm_pc vm < of_nat (length program)")
    case False
    then have "decodes_whole program (vm_pc vm)" using assms(2,3) u by (simp add: decodes_whole_def word_less_nat_alt)
    then show ?thesis using False assms(4)
      by (subst exec_loop.simps) (simp add: run_simps run_sim_def abs_after machine_run.finish)
  next
    case True
    then have "\<not> decodes_whole program (vm_pc vm)" using assms(2) u by (simp add: decodes_whole_def word_less_nat_alt)
    moreover obtain e where "fetchInstruction (vm_pc vm) program = Inr (Inl e)" using sweep_Nil [OF assms(2) True assms(1)] by blast
    ultimately show ?thesis using True assms(4-6)
      by (subst exec_loop.simps) (simp add: run_simps run_sim_def machine_run.fetch)
  qed
qed

lemma halt_denote: "inst_Opcode (denote i) = OP_HALT3D \<longleftrightarrow> i = Halt"
  by (cases i) (simp_all add: instruction_def opcode_defs)

text \<open>One round: the instruction is a paid step, and the checks after it are those of the abstract run.\<close>

lemma round_sim:
  assumes inv: "sim_inv limit ps (Suc j) vm" and rt: "rt_ok (env k)" and al: "allowed ps (denote i)"
    and sw: "sweep program (vm_pc vm) = denote i # rest" and run: "\<not> vm_halted vm" "\<not> vm_paused vm"
  obtains e vm1 s1 where "sim_inv limit ps j vm1" "abs_vm vm1 = tick s1" "paid_step ps i (abs_vm vm) s1 (map_option fault_of e)"
    "vm_pc vm1 = vm_pc vm" "vm_paused vm1 = vm_paused vm" "vm_config vm1 = vm_config vm" "e = None \<longrightarrow> vm_halted vm1 = (i = Halt)"
    "exec_loop fb pord env program k vm =
      (case e of Some err \<Rightarrow> vm_fail vm1 (ExecutionError (vm_pc vm1) err)
       | None \<Rightarrow> if empty_tank s1 then vm_fail vm1 GasExhausted
           else if vc_MaxInstructions (vm_config vm) \<le> m_count (tick s1) then vm_fail vm1 InstructionLimitExceeded
           else exec_loop fb pord env program (Suc k) (vm1\<lparr>vm_pc := vm_pc vm1 + ucast (inst_Size (denote i))\<rparr>))"
proof -
  from executeInstruction_sim [OF inv rt al, of fb pord] obtain vm' e where
    r: "executeInstruction fb pord (env k) vm (denote i) = Some (Inr (vm', e))" and s: "sim_inv limit ps j vm'"
    and st: "paid_step ps i (abs_vm vm) (abs_vm vm') (map_option fault_of e)"
    unfolding returns_def by auto
  define vm1 where "vm1 = after_instruction (env k) vm'"
  have f: "vm_frame vm vm'" using executeInstruction_frame [of fb pord "env k" vm "denote i"] by (simp add: r run_simps)
  note pc = after_frame [OF f, of "env k", folded vm1_def]
  have h: "e = None \<longrightarrow> vm_halted vm1 = (i = Halt)"
    using executeInstruction_effect [OF sim_invD(1) [OF inv] rt al, of fb pord] r run(1)
    by (auto simp: returns_def step_effect_def halt_denote vm1_def)
  have i1: "sim_inv limit ps j vm1" and a1: "abs_vm vm1 = tick (abs_vm vm')" using s by (simp_all add: vm1_def abs_after)
  have "Remaining (vm_gasAccount vm1) = 0 \<longleftrightarrow> empty_tank (abs_vm vm')" using empty_tank_abs [OF s] by (simp add: vm1_def)
  moreover have "vs_InstructionsExecuted (vm_stats vm1) = m_count (tick (abs_vm vm'))" using a1 by (metis abs_vm_simps(4))
  ultimately show thesis
    using that [OF i1 a1 st pc(1-3) h] exec_loop_round [where env = env and k = k, OF sw run r, folded vm1_def] by (simp add: pc(3))
qed

lemma exec_loop_sim:
  assumes len: "length program < 2 ^ 64" and env: "\<And>i. rt_ok (env i)"
  shows "sweep program (vm_pc vm) = map denote is \<Longrightarrow> unat (vm_pc vm) \<le> length program \<Longrightarrow>
    sim_inv limit ps (length is + j) vm \<Longrightarrow> \<not> vm_paused vm \<Longrightarrow> \<not> vm_halted vm \<Longrightarrow>
    \<forall>i \<in> set is. allowed ps (denote i) \<Longrightarrow>
    returns (exec_loop fb pord env program k vm) (run_sim limit ps j (decodes_whole program (vm_pc vm)) is vm)"
proof (induction "is" arbitrary: vm k)
  case Nil
  then show ?case using exec_loop_sim_Nil [OF len] by simp
next
  case (Cons i "is")
  let ?run = "run_sim limit ps j (decodes_whole program (vm_pc vm)) (i # is) vm"
  have sw: "sweep program (vm_pc vm) = denote i # map denote is" using Cons.prems(1) by simp
  have "sim_inv limit ps (Suc (length is + j)) vm" "allowed ps (denote i)" using Cons.prems(3,6) by simp_all
  then show ?case
  proof (rule round_sim [OF _ env _ sw Cons.prems(5,4)])
    fix e vm1 s1
    assume i: "sim_inv limit ps (length is + j) vm1" and a: "abs_vm vm1 = tick s1"
      and st: "paid_step ps i (abs_vm vm) s1 (map_option fault_of e)"
      and pc: "vm_pc vm1 = vm_pc vm" "vm_paused vm1 = vm_paused vm" "vm_config vm1 = vm_config vm"
      and h: "e = None \<longrightarrow> vm_halted vm1 = (i = Halt)"
    let ?vm2 = "vm1\<lparr>vm_pc := vm_pc vm1 + ucast (inst_Size (denote i))\<rparr>" and ?bound = "vc_MaxInstructions (vm_config vm)"
    assume step: "exec_loop fb pord env program k vm =
      (case e of Some err \<Rightarrow> vm_fail vm1 (ExecutionError (vm_pc vm1) err)
       | None \<Rightarrow> if empty_tank s1 then vm_fail vm1 GasExhausted
           else if ?bound \<le> m_count (tick s1) then vm_fail vm1 InstructionLimitExceeded
           else exec_loop fb pord env program (Suc k) ?vm2)"
    have stop: "?run (vm1, Some err)"
      if "machine_run ps ?bound (decodes_whole program (vm_pc vm)) (i # is) (abs_vm vm) (tick s1) (Some (fault_of err))" for err
      using that sim_inv_mono [OF i, of j] pc a by (simp add: run_sim_def)
    have go: "returns (exec_loop fb pord env program (Suc k) ?vm2) ?run"
      if e: "e = None" "\<not> empty_tank s1" "m_count (tick s1) < ?bound"
    proof (cases "i = Halt")
      case True
      then show ?thesis using h st e sim_inv_mono [OF i, of j] a pc
        by (simp add: exec_loop_halted run_simps run_sim_def abs_after machine_run.halt)
    next
      case False
      have "returns (exec_loop fb pord env program (Suc k) ?vm2) (run_sim limit ps j (decodes_whole program (vm_pc ?vm2)) is ?vm2)"
        by (rule Cons.IH) (use sweep_Cons(3) [OF sw] i pc decodes_whole_Cons [OF sw len] Cons.prems(4,6) h e False in \<open>simp_all add: abs_after\<close>)
      then show ?thesis
        by (rule returns_mono)
          (use False st e pc decodes_whole_Cons(1) [OF sw len] in \<open>auto simp: run_sim_def abs_after a intro: machine_run.onward\<close>)
    qed
    show ?thesis
      using st go by (cases e) (simp_all add: step run_simps stop machine_run.fault machine_run.exhausted machine_run.limit not_le)
  qed
qed

lemma Execute_sim:
  assumes "sim_inv limit ps (length is + j) vm" "\<not> vm_paused vm" "length program < 2 ^ 64"
    and "\<And>i. rt_ok (env i)" "sweep program 0 = map denote is" "\<forall>i \<in> set is. allowed ps (denote i)"
  shows "returns (Execute fb pord env vm program) (run_sim limit ps j (decodes_whole program 0) is vm)"
proof -
  let ?vm = "vm\<lparr>vm_pc := 0, vm_halted := False, vm_stats := (vm_stats vm)\<lparr>vs_StartTime := rt_now (env 0)\<rparr>\<rparr>"
  have a: "abs_vm ?vm = abs_vm vm" by (simp add: abs_vm_def)
  have "returns (exec_loop fb pord env program 0 ?vm) (run_sim limit ps j (decodes_whole program (vm_pc ?vm)) is ?vm)"
    by (rule exec_loop_sim [OF assms(3,4)]) (use assms in \<open>simp_all add: sim_inv_def vm_inv_def\<close>)
  then show ?thesis
    unfolding Execute_def by (rule returns_mono) (simp add: run_sim_def a)
qed

text \<open>Every program is a list of instructions, whatever its bytes.\<close>

lemma sweep_denoted: "\<exists>is. sweep program pc = map denote is"
proof (induction program pc rule: sweep.induct)
  case (1 program pc)
  show ?case
  proof (cases "sweep program pc")
    case Nil
    then show ?thesis by (intro exI [of _ "[]"]) simp
  next
    case (Cons inst rest)
    note c = sweep_Cons [OF Cons]
    from c(2) obtain data where "DecodeInstruction data = Inr inst"
      by (auto simp: fetchInstruction_def Let_def split: if_splits)
    then obtain i where i: "inst = denote i" by (rule decoded_is_denoted)
    from 1 [OF c(1,2) refl] c(3) obtain "is" where "rest = map denote is" by auto
    then show ?thesis using Cons i by (intro exI [of _ "i # is"]) simp
  qed
qed

lemma machine_refinement:
  assumes "sim_inv limit ps (length (sweep program 0) + j) vm" "\<not> vm_paused vm" "length program < 2 ^ 64"
    and "\<forall>i. rt_ok (env i)" "\<forall>i \<in> set (sweep program 0). allowed ps i"
  obtains "is" vm' e where "sweep program 0 = map denote is" "Execute fb pord env vm program = Some (Inr (vm', e))"
    "sim_inv limit ps j vm'" "vm_config vm' = vm_config vm" "\<not> vm_paused vm'"
    "\<And>is. sweep program 0 = map denote is \<Longrightarrow> machine_run ps (vc_MaxInstructions (vm_config vm)) (decodes_whole program 0) is
       (abs_vm vm) (abs_vm vm') (map_option fault_of e)"
proof -
  have r: "returns (Execute fb pord env vm program) (run_sim limit ps j (decodes_whole program 0) is vm)"
    if "sweep program 0 = map denote is" for "is"
    by (rule Execute_sim) (use assms that in simp_all)
  obtain "is" where "is": "sweep program 0 = map denote is" using sweep_denoted by blast
  from r [OF "is"] obtain vm' e where x: "Execute fb pord env vm program = Some (Inr (vm', e))"
    "sim_inv limit ps j vm'" "vm_config vm' = vm_config vm" "vm_paused vm' = vm_paused vm"
    by (auto simp: returns_def run_sim_def)
  show thesis
    by (rule that [OF "is" x(1-3)]) (use x(1,4) r assms(2) in \<open>simp_all add: returns_def run_sim_def\<close>)
qed

section \<open>What the abstract machine shows\<close>

text \<open>The address whose block an instruction may change or remove.\<close>

fun target :: "asm \<Rightarrow> Address3D option" where
  "target (Store a r n) = Some a"
| "target (Free a) = Some a"
| "target (Copy sx sy sz dx dy n) = Some (NewAddress (ucast dx) (ucast dy) 0)"
| "target _ = None"

lemma machine_step_frame:
  "machine_step ps i s s' f \<Longrightarrow> m_blocks s a = Some v \<Longrightarrow> target i \<noteq> Some a \<Longrightarrow> m_blocks s' a = Some v"
  by (induction rule: machine_step.induct) (auto simp: written_def)

lemma machine_run_frame:
  "machine_run ps bound whole is s s' f \<Longrightarrow> m_blocks s a = Some v \<Longrightarrow> \<forall>i \<in> set is. target i \<noteq> Some a \<Longrightarrow> m_blocks s' a = Some v"
  by (induction rule: machine_run.induct) (auto simp: paid_step_def tick_def dest: machine_step_frame split: if_splits)

text \<open>Every digest is that of the first bytes of the live block at its address.\<close>

definition digests_true :: "Machine \<Rightarrow> bool" where
  "digests_true s \<longleftrightarrow> (\<forall>h a dg. m_digests s = Some h \<longrightarrow> h a = Some dg \<longrightarrow>
     (\<exists>v n. m_blocks s a = Some v \<and> n \<le> length v \<and> dg = SHA256_Hash (take n v)))"

fun overwrites_unseen :: "asm \<Rightarrow> bool" where
  "overwrites_unseen (Free a) = True"
| "overwrites_unseen (Copy sx sy sz dx dy n) = True"
| "overwrites_unseen _ = False"

lemma digests_frame:
  assumes "digests_true s" "m_digests s' = m_digests s" "\<And>a v. m_blocks s a = Some v \<Longrightarrow> m_blocks s' a = Some v"
  shows "digests_true s'"
  using assms unfolding digests_true_def by metis

lemma digests_simps [simp]:
  "digests_true (s\<lparr>m_gas := g\<rparr>) = digests_true s" "digests_true (tick s) = digests_true s"
  by (simp_all add: digests_true_def tick_def)

lemma digests_written:
  assumes "digests_true s" "length d \<le> length w" "take (length d) w = d"
  shows "digests_true (written s a d w)"
  unfolding digests_true_def
proof (intro allI impI)
  fix h b dg
  assume "m_digests (written s a d w) = Some h" "h b = Some dg"
  then obtain g where g: "m_digests s = Some g" "(g(a \<mapsto> SHA256_Hash d)) b = Some dg" by (auto simp: written_def)
  show "\<exists>v n. m_blocks (written s a d w) b = Some v \<and> n \<le> length v \<and> dg = SHA256_Hash (take n v)"
  proof (cases "b = a")
    case True
    then show ?thesis using g(2) assms(2,3) by (intro exI [of _ w] exI [of _ "length d"]) (simp add: written_def)
  next
    case False
    then show ?thesis using g assms(1) by (simp add: digests_true_def written_def)
  qed
qed

lemma machine_step_digests:
  "machine_step ps i s s' f \<Longrightarrow> digests_true s \<Longrightarrow> \<not> overwrites_unseen i \<Longrightarrow> digests_true s'"
proof (induction rule: machine_step.induct)
  case (store s a v n r d)
  then show ?case by (intro digests_written) simp_all
next
  case (alloc n s a v t f r)
  show ?case by (rule digests_frame [OF alloc.prems(1)]) (use alloc.hyps in \<open>auto split: if_splits\<close>)
qed (auto intro: digests_frame)

lemma machine_run_digests:
  "machine_run ps bound whole is s s' f \<Longrightarrow> digests_true s \<Longrightarrow> \<forall>i \<in> set is. \<not> overwrites_unseen i \<Longrightarrow> digests_true s'"
  by (induction rule: machine_run.induct) (auto simp: paid_step_def dest: machine_step_digests split: if_splits)

section \<open>Properties\<close>

text \<open>
  C1.  The virtual machine refines the abstract machine.  From a consistent state, a program of
  any bytes that asks for no empty block, and frees memory only when planes have at most 32768
  bytes, decodes to a list of instructions, and its execution is a run of the abstract
  machine over them: the same blocks, registers, gas and instruction counter, the same digests,
  the same kind of fault at the same instruction, and the same ways to stop, whatever the cache,
  the allocator and the order of map iteration do.
  The conditions are \<open>allowed\<close>: they exclude the free instruction on the machine of \<^verbatim>\<open>NewVM3D\<close>, whose
  planes have 65535 bytes, and there the claim would be false.
\<close>

theorem machine_refines:
  assumes "sim_inv limit ps (length (sweep program 0) + j) vm" "\<not> vm_paused vm" "length program < 2 ^ 64"
    and "\<forall>i. rt_ok (env i)" "\<forall>i \<in> set (sweep program 0). allowed ps i"
  shows "\<exists>vm' e. Execute fb pord env vm program = Some (Inr (vm', e)) \<and> sim_inv limit ps j vm'
    \<and> (\<exists>is. sweep program 0 = map denote is)
    \<and> (\<forall>is. sweep program 0 = map denote is \<longrightarrow> machine_run ps (vc_MaxInstructions (vm_config vm)) (decodes_whole program 0) is
         (abs_vm vm) (abs_vm vm') (map_option fault_of e))"
  by (rule machine_refinement [OF assms, of fb pord]) blast

lemma demo_sim:
  "k < 2 ^ 64 - 1 \<Longrightarrow> sim_inv 10000 65535 k demo_vm" "k < 2 ^ 64 - 1 \<Longrightarrow> sim_inv 10000 100 k small_vm"
  using demo_vm_inv [of k] small_vm_inv [of k]
  by (simp_all add: sim_inv_def demo_vm_def small_vm_def NewVM3D_def regs_small_def NewRegisters_def tree_default_def)

theorem machine_refines_witness:
  "\<exists>vm' e. Execute demo_bits demo_order (\<lambda>_. demo_rt) demo_vm (assemble (Alloc 8 4 0 0)) = Some (Inr (vm', e))
    \<and> machine_run 65535 100 True [Alloc 8 4 0 0] (abs_vm demo_vm) (abs_vm vm') (map_option fault_of e)"
proof -
  let ?p = "assemble (Alloc 8 4 0 0)"
  have s: "sweep ?p 0 = map denote [Alloc 8 4 0 0]" using sweep_assembled_from [of "[]" "[Alloc 8 4 0 0]"] by simp
  have w: "decodes_whole ?p 0" unfolding decodes_whole_def s by (simp add: instruction_def)
  have a: "\<forall>i \<in> set (sweep ?p 0). allowed 65535 i" unfolding s by (simp del: denote.simps add: allowed_denote)
  have "sim_inv 10000 65535 (length (sweep ?p 0) + 0) demo_vm" unfolding s by (rule demo_sim) simp
  from machine_refines [OF this _ _ _ a, of "\<lambda>_. demo_rt" demo_bits demo_order] s w show ?thesis
    using demo_rt_ok by (auto simp: demo_vm_def NewVM3D_def)
qed

text \<open>
  C5.  Programs are isolated from blocks that they do not name.  A program that contains no store
  or copy to an address and no free of it leaves the block at this address as it is, however the
  program ends and whatever it allocates, stores and copies elsewhere; it may free elsewhere as
  well where planes have at most 32768 bytes.  Its allocations are of at least one byte.
  The conditions are \<open>allowed\<close>: they exclude the free instruction on the machine of \<^verbatim>\<open>NewVM3D\<close>, whose
  planes have 65535 bytes, and there the claim would be false.
\<close>

theorem programs_isolated:
  assumes "sim_inv limit ps (length (sweep program 0) + j) vm" "\<not> vm_paused vm" "length program < 2 ^ 64"
    and "\<forall>i. rt_ok (env i)" "\<forall>i \<in> set (sweep program 0). allowed ps i"
    and "sweep program 0 = map denote is" "\<forall>i \<in> set is. target i \<noteq> Some addr" "vm_view vm addr = Some v"
  shows "\<exists>vm' e. Execute fb pord env vm program = Some (Inr (vm', e)) \<and> vm_view vm' addr = Some v"
proof (rule machine_refinement [OF assms(1-5), of fb pord])
  fix vm' e
  assume x: "Execute fb pord env vm program = Some (Inr (vm', e))"
    and r: "\<And>is. sweep program 0 = map denote is \<Longrightarrow> machine_run ps (vc_MaxInstructions (vm_config vm)) (decodes_whole program 0) is
       (abs_vm vm) (abs_vm vm') (map_option fault_of e)"
  show ?thesis using x machine_run_frame [OF r [OF assms(6)], of addr v] assms(7,8) by simp
qed

theorem programs_isolated_witness:
  "\<exists>vm addr v vm' e. vm_view vm addr = Some v
    \<and> Execute demo_bits demo_order (\<lambda>_. demo_rt) vm (assemble (Mov 1 2)) = Some (Inr (vm', e)) \<and> vm_view vm' addr = Some v"
proof -
  have i: "sim_inv 10000 100 (Suc 1) small_vm" by (rule demo_sim) simp
  from malloc3d_sim [OF i demo_rt_ok, of 8 4 0 0] obtain vm e where
    m: "malloc3d demo_rt small_vm 8 4 0 = Some (Inr (vm, e))" "sim_inv 10000 100 1 vm"
      "machine_step 100 (Alloc 8 4 0 0) (abs_vm small_vm) (abs_vm vm) (map_option fault_of e)" by (auto simp: returns_def)
  then obtain addr v where "vm_view vm = (vm_view small_vm)(addr \<mapsto> v)"
    by (auto simp: machine_step_simps simp del: fun_upd_apply dest!: arg_cong [where f = m_blocks])
  then have v: "vm_view vm addr = Some v" by simp
  have "vm_frame small_vm vm" using handler_frames(3) [of demo_rt small_vm "denote (Alloc 8 4 0 0)"]
    unfolding denoted_handlers m(1) by (simp add: run_simps)
  then have np: "\<not> vm_paused vm" by (simp add: vm_frame_def small_vm_def demo_vm_def NewVM3D_def)
  let ?p = "assemble (Mov 1 2)"
  have s: "sweep ?p 0 = map denote [Mov 1 2]" using sweep_assembled_from [of "[]" "[Mov 1 2]"] by simp
  have a: "\<forall>i \<in> set (sweep ?p 0). allowed 100 i" unfolding s by (simp add: allowed_def instruction_def opcode_defs)
  have k: "sim_inv 10000 100 (length (sweep ?p 0) + 0) vm" unfolding s using m(2) by simp
  have "length ?p < 2 ^ 64" "\<forall>i. rt_ok demo_rt" "\<forall>i \<in> set [Mov 1 2]. target i \<noteq> Some addr" using demo_rt_ok by simp_all
  from programs_isolated [OF k np this(1,2) a s this(3) v, of demo_bits demo_order] v show ?thesis by blast
qed

text \<open>
  C18.  A copy.  It succeeds exactly when both addresses are those of live blocks that have the
  requested length; then the first bytes of the destination are those of the source, its other
  bytes and all other blocks are as before.  When it fails, no block changes.  In every case the
  registers stay, and so does the proof of every address: after a successful copy the proof of
  the destination is still that of the bytes that were stored there before.
\<close>

theorem copy_outcome:
  fixes sx :: u64 and sy sz :: u16 and dx :: u32 and dy :: u16
  assumes "sim_inv limit ps k vm" "rt_ok rt"
  defines "src \<equiv> NewAddress sx (ucast sy) sz" and "dst \<equiv> NewAddress (ucast dx) (ucast dy) 0"
  shows "\<exists>vm' e. executeMCopy3D rt vm (denote (Copy sx sy sz dx dy n)) = Some (Inr (vm', e)) \<and> sim_inv limit ps k vm'
    \<and> vm_registers vm' = vm_registers vm \<and> (\<forall>a. VM_GetMerkleProof vm' a = VM_GetMerkleProof vm a)
    \<and> (case (vm_view vm src, vm_view vm dst) of
         (Some v, Some w) \<Rightarrow> if unat n \<le> length v \<and> unat n \<le> length w
           then e = None \<and> vm_view vm' = (vm_view vm)(dst \<mapsto> take (unat n) v @ drop (unat n) w)
           else e \<noteq> None \<and> vm_view vm' = vm_view vm
       | _ \<Rightarrow> e \<noteq> None \<and> vm_view vm' = vm_view vm)"
proof -
  from mcopy_sim [OF assms(1,2), of sx sy sz dx dy n] obtain vm' e where
    r: "mcopy rt vm src dst (ucast n) = Some (Inr (vm', e))" "sim_inv limit ps k vm'"
      "machine_step ps (Copy sx sy sz dx dy n) (abs_vm vm) (abs_vm vm') (map_option fault_of e)"
    by (auto simp: returns_def src_def dst_def)
  have x: "executeMCopy3D rt vm (denote (Copy sx sy sz dx dy n)) = mcopy rt vm src dst (ucast n)"
    by (simp add: executeMCopy3D_def instruction_def operand_def as_address_def as_uint32_def src_def dst_def)
  have a: "vm_aside vm vm'" "vm_registers vm' = vm_registers vm"
    using body_aside(4) [of rt vm src dst "ucast n"] by (simp_all add: r(1) run_simps)
  have "\<forall>a. VM_GetMerkleProof vm' a = VM_GetMerkleProof vm a" using a(1) by (simp add: vm_aside_def VM_GetMerkleProof_def)
  moreover have "case (vm_view vm src, vm_view vm dst) of
         (Some v, Some w) \<Rightarrow> if unat n \<le> length v \<and> unat n \<le> length w
           then e = None \<and> vm_view vm' = (vm_view vm)(dst \<mapsto> take (unat n) v @ drop (unat n) w)
           else e \<noteq> None \<and> vm_view vm' = vm_view vm
       | _ \<Rightarrow> e \<noteq> None \<and> vm_view vm' = vm_view vm"
    using r(3) unfolding machine_step_simps src_def [symmetric] dst_def [symmetric]
    by (auto dest!: arg_cong [where f = m_blocks] split: option.split)
  ultimately show ?thesis using r(1,2) a(2) unfolding x by blast
qed

theorem copy_outcome_witness:
  "\<exists>vm' e. executeMCopy3D demo_rt demo_vm (denote (Copy 2 0 0 3 0 4)) = Some (Inr (vm', Some e)) \<and> vm_view vm' = vm_view demo_vm"
proof -
  have "vm_view demo_vm = Map.empty" by (simp add: demo_vm_def NewVM3D_def NewMemoryManager_law)
  then show ?thesis
    using copy_outcome [OF demo_sim(1) [of 0] demo_rt_ok, of 2 0 0 3 0 4] by auto
qed

end
