(* ===== verification/Sessions.thy ===== *)
theory Sessions
  imports AbstractMachine
begin

text \<open>
  Clients of the virtual machine.  A client holds a machine and calls its exported methods, each
  under the machine's mutex; a session is any sequence of such calls.  Sessions refine sessions
  with the abstract machine, so what a client can observe is explained by blocks, registers, gas
  and digests alone.

  The handle that \<^verbatim>\<open>GetMemoryManager\<close> gives out is not part of a session: a store through it bypasses
  the cache and the tree.
\<close>

section \<open>Calls\<close>

datatype call =
    CallAllocate u32 RegionType
  | CallStore Address3D bytes
  | CallLoad Address3D u32
  | CallSet Register bytes
  | CallExecute bytes
  | CallProof Address3D
  | CallCompact

datatype reply = Done | Failed fault | GotAddress Address3D | GotBytes bytes | GotProof "bytes list"

definition reply_of :: "error option \<Rightarrow> reply" where
  "reply_of e = (case e of None \<Rightarrow> Done | Some err \<Rightarrow> Failed (fault_of err))"

text \<open>One call on the machine.  The run time's choices are \<open>rt\<close>, and \<open>env\<close> for the rounds of an execution.\<close>

definition client_call ::
  "(rat \<Rightarrow> u64) \<Rightarrow> (Plane \<Rightarrow> order) \<Rightarrow> (nat \<Rightarrow> Runtime) \<Rightarrow> Runtime \<Rightarrow> VM3D \<Rightarrow> call \<Rightarrow> (VM3D \<times> reply) run" where
  "client_call fb pord env rt vm c = (case c of
     CallAllocate n t \<Rightarrow> run_bind (AllocateMemory rt vm n t) (\<lambda>(vm', res).
       Some (Inr (vm', case res of Inl e \<Rightarrow> Failed (fault_of e) | Inr a \<Rightarrow> GotAddress a)))
   | CallStore a data \<Rightarrow> run_bind (VM_Store3D rt vm a data) (\<lambda>(vm', e). Some (Inr (vm', reply_of e)))
   | CallLoad a n \<Rightarrow> run_bind (Some (VM_Load3D rt vm a n)) (\<lambda>(vm', res).
       Some (Inr (vm', case res of Inl e \<Rightarrow> Failed (fault_of e) | Inr d \<Rightarrow> GotBytes d)))
   | CallSet r data \<Rightarrow> Some (Inr (vm\<lparr>vm_registers := Reg_Set (GetRegisters vm) r data\<rparr>, Done))
   | CallExecute program \<Rightarrow> run_bind (Execute fb pord env vm program) (\<lambda>(vm', e). Some (Inr (vm', reply_of e)))
   | CallProof a \<Rightarrow> Some (Inr (vm, case VM_GetMerkleProof vm a of Inl e \<Rightarrow> Failed (fault_of e) | Inr path \<Rightarrow> GotProof path))
   | CallCompact \<Rightarrow> run_bind (ExecuteCompactInstruction rt pord vm (instruction OP_MCOMPACT3D [] 1))
       (\<lambda>(vm', e). Some (Inr (vm', reply_of e))))"

text \<open>
  The same calls on the abstract machine.  A store of a client charges the account when everything
  else is already done: without enough gas it reports a fault, but the bytes have been written.
\<close>

definition charged :: "Machine \<Rightarrow> nat \<Rightarrow> Machine" where
  "charged s c = (if c \<le> m_gas s then s\<lparr>m_gas := m_gas s - c\<rparr> else s)"

inductive machine_call :: "u16 \<Rightarrow> u64 \<Rightarrow> call \<Rightarrow> Machine \<Rightarrow> Machine \<Rightarrow> reply \<Rightarrow> bool" for ps bound where
  allocate: "unat n \<le> unat ps \<Longrightarrow> m_blocks s a = None \<Longrightarrow> length v = unat n \<Longrightarrow>
    machine_call ps bound (CallAllocate n t) s (s\<lparr>m_blocks := (m_blocks s)(a \<mapsto> v)\<rparr>) (GotAddress a)"
| allocate_large: "unat ps < unat n \<Longrightarrow> machine_call ps bound (CallAllocate n t) s s (Failed NoMemory)"
| store: "m_blocks s a = Some v \<Longrightarrow> length data \<le> length v \<Longrightarrow>
    machine_call ps bound (CallStore a data) s (charged (written s a data (data @ drop (length data) v)) (15 * length data))
      (if 15 * length data \<le> m_gas s then Done else Failed NoGas)"
| store_long: "m_blocks s a = Some v \<Longrightarrow> length v < length data \<Longrightarrow>
    machine_call ps bound (CallStore a data) s s (Failed OutOfRange)"
| store_new: "m_blocks s a = None \<Longrightarrow> length data \<le> unat ps \<Longrightarrow> m_blocks s a' = None \<Longrightarrow>
    machine_call ps bound (CallStore a data) s (charged (written s a' data data) (15 * length data))
      (if 15 * length data \<le> m_gas s then Done else Failed NoGas)"
| store_large: "m_blocks s a = None \<Longrightarrow> unat ps < length data \<Longrightarrow>
    machine_call ps bound (CallStore a data) s s (Failed NoMemory)"
| load: "m_blocks s a = Some v \<Longrightarrow> unat n \<le> length v \<Longrightarrow>
    machine_call ps bound (CallLoad a n) s s (GotBytes (take (unat n) v))"
| load_none: "m_blocks s a = None \<Longrightarrow> machine_call ps bound (CallLoad a n) s s (Failed NotAllocated)"
| load_long: "m_blocks s a = Some v \<Longrightarrow> length v < unat n \<Longrightarrow> machine_call ps bound (CallLoad a n) s s (Failed OutOfRange)"
| set_register: "machine_call ps bound (CallSet r data) s (s\<lparr>m_regs := Reg_Set (m_regs s) r data\<rparr>) Done"
| execute: "sweep program 0 = map denote is \<Longrightarrow> machine_run ps bound (decodes_whole program 0) is s s' f \<Longrightarrow>
    machine_call ps bound (CallExecute program) s s' (case f of None \<Rightarrow> Done | Some x \<Rightarrow> Failed x)"
| prove: "m_digests s = Some h \<Longrightarrow>
    machine_call ps bound (CallProof a) s s (GotProof (case h a of None \<Rightarrow> [] | Some dg \<Rightarrow> [dg]))"
| prove_none: "m_digests s = None \<Longrightarrow> machine_call ps bound (CallProof a) s s (Failed OtherFault)"
| compact: "machine_call ps bound CallCompact s (s\<lparr>m_gas := (m_gas s + refund) mod 2 ^ 64\<rparr>) Done"

text \<open>
  The calls that a client may make: no empty blocks, no data of 4 gigabytes, and programs as
  before.  The number of regions that a call may create is its budget.
\<close>

fun call_ok :: "u16 \<Rightarrow> call \<Rightarrow> bool" where
  "call_ok ps (CallAllocate n t) \<longleftrightarrow> n \<noteq> 0"
| "call_ok ps (CallStore a data) \<longleftrightarrow> data \<noteq> [] \<and> length data < 2 ^ 32"
| "call_ok ps (CallSet r data) \<longleftrightarrow> length data < 2 ^ 32"
| "call_ok ps (CallExecute program) \<longleftrightarrow> length program < 2 ^ 64 \<and> (\<forall>i \<in> set (sweep program 0). allowed ps i)"
| "call_ok ps _ \<longleftrightarrow> True"

fun budget :: "call \<Rightarrow> nat" where
  "budget (CallExecute program) = length (sweep program 0)"
| "budget _ = 1"

section \<open>Every call simulates its abstract call\<close>

abbreviation call_simulates :: "u16 \<Rightarrow> nat \<Rightarrow> call \<Rightarrow> VM3D \<Rightarrow> (VM3D \<times> reply) run \<Rightarrow> bool" where
  "call_simulates ps k c vm r \<equiv> returns r (\<lambda>(vm', rep). (\<exists>limit. sim_inv limit ps k vm') \<and> vm_config vm' = vm_config vm
     \<and> \<not> vm_paused vm' \<and> machine_call ps (vc_MaxInstructions (vm_config vm)) c (abs_vm vm) (abs_vm vm') rep)"

lemma allocate_call:
  assumes inv: "sim_inv limit ps (Suc k) vm" and rt: "rt_ok rt" and n: "n \<noteq> 0" and np: "\<not> vm_paused vm"
  shows "call_simulates ps k (CallAllocate n t) vm (client_call fb pord env rt vm (CallAllocate n t))"
proof -
  note p = sim_invD [OF inv]
  from AllocateMemory_outcome [OF p(1) rt n, of t] obtain vm' res where
    r: "AllocateMemory rt vm n t = Some (Inr (vm', res))" "vm_inv limit ps k vm'"
    and c: "if unat n \<le> unat ps
     then \<exists>addr v. res = Inr addr \<and> vm_view vm addr = None \<and> length v = unat n \<and> vm_view vm' = (vm_view vm)(addr \<mapsto> v)
     else res = Inl (InsufficientMemory n) \<and> vm_view vm' = vm_view vm"
    and e: "vm' = vm\<lparr>vm_allocator := vm_allocator vm', vm_memory := vm_memory vm'\<rparr>" by blast
  have f: "vm_registers vm' = vm_registers vm" "vm_merkleTree vm' = vm_merkleTree vm" "vm_config vm' = vm_config vm"
    "vm_paused vm' = vm_paused vm" "vm_aside vm vm'"
    by (subst e, simp add: vm_aside_def)+
  have "sim_inv limit ps k vm'" using r(2) f p(3,4) by (simp add: sim_inv_def)
  moreover have "machine_call ps (vc_MaxInstructions (vm_config vm)) (CallAllocate n t) (abs_vm vm) (abs_vm vm')
      (case res of Inl e \<Rightarrow> Failed (fault_of e) | Inr a \<Rightarrow> GotAddress a)"
    using c by (auto simp: abs_aside [OF f(5)] f(1) machine_call.simps split: if_splits)
  ultimately show ?thesis using f np by (auto simp: client_call_def r(1) run_simps)
qed

lemma load_call:
  assumes inv: "sim_inv limit ps (Suc k) vm" and rt: "rt_ok rt" and np: "\<not> vm_paused vm"
  shows "call_simulates ps k (CallLoad a n) vm (client_call fb pord env rt vm (CallLoad a n))"
proof -
  note p = sim_invD [OF sim_inv_less [OF inv]]
  have ord: "valid_order (rt_allocations rt)" using rt by (simp add: rt_ok_def)
  from VM_Load3D_outcome [OF p(1) rt, of a n] obtain vm' res where
    r: "VM_Load3D rt vm a n = Inr (vm', res)" "vm_inv limit ps k vm'" "vm_view vm' = vm_view vm"
    and c: "case vm_view vm a of
         Some v \<Rightarrow> if unat n \<le> length v then res = Inr (take (unat n) v) else (\<exists>e. res = Inl e)
       | None \<Rightarrow> (\<exists>e. res = Inl e)"
    and e: "vm' = vm\<lparr>vm_memory := vm_memory vm'\<rparr>" by blast
  have f: "vm_registers vm' = vm_registers vm" "vm_merkleTree vm' = vm_merkleTree vm" "vm_config vm' = vm_config vm"
    "vm_paused vm' = vm_paused vm" "vm_aside vm vm'"
    by (subst e, simp add: vm_aside_def)+
  have abs: "abs_vm vm' = abs_vm vm" by (simp add: abs_aside [OF f(5)] r(3) f(1))
  have s: "sim_inv limit ps k vm'" using r(2) f p(3,4) by (simp add: sim_inv_def)
  have "fault_of err = (if vm_view vm a = None then NotAllocated else OutOfRange)" if err: "res = Inl err" for err
  proof -
    obtain mm where "MM_Load3D (rt_allocations rt) (vm_allocator vm) (vm_memory vm) a n (rt_now rt) = Inr (mm, Inl err)"
      using r(1) err by (auto simp: VM_Load3D_def go_bind_def split: sum.splits)
    from load_fault [OF p(5) ord this] show ?thesis .
  qed
  with c have "machine_call ps (vc_MaxInstructions (vm_config vm)) (CallLoad a n) (abs_vm vm) (abs_vm vm')
      (case res of Inl e \<Rightarrow> Failed (fault_of e) | Inr d \<Rightarrow> GotBytes d)"
    by (auto simp: abs machine_call.simps split: option.splits if_splits)
  then show ?thesis using s f np by (auto simp: client_call_def r(1))
qed

lemma after_store_sim:
  assumes inv: "machine_inv ps k (vm_allocator vm) (vm_memory vm) (Cache_Put (vm_cache vm) addr data)"
    and gas: "gas_inv limit (vm_gasAccount vm)" and regs: "regs_inv (vm_registers vm)" "regs_small (vm_registers vm)"
    and tree: "tree_default (vm_merkleTree vm)" and len: "length data < 2 ^ 32"
  shows "\<exists>vm' e. after_store rt vm addr data = Some (Inr (vm', e)) \<and> sim_inv limit ps k vm'
    \<and> vm_config vm' = vm_config vm \<and> vm_paused vm' = vm_paused vm
    \<and> abs_vm vm' = charged ((abs_vm vm)\<lparr>m_digests := map_option (\<lambda>h. h(addr \<mapsto> SHA256_Hash data)) (m_digests (abs_vm vm))\<rparr>) (15 * length data)
    \<and> reply_of e = (if 15 * length data \<le> m_gas (abs_vm vm) then Done else Failed NoGas)"
proof -
  have u: "unat (of_nat (15 * length data) :: u64) = 15 * length data"
    using len by (simp add: unsigned_of_nat take_bit_nat_eq_self del: of_nat_mult of_nat_numeral)
  let ?c = "15 * length data" and ?paid = "15 * length data \<le> gas_left (vm_gasAccount vm)"
  obtain g e where g: "Consume (vm_gasAccount vm) (of_nat ?c) = Inr (g, e)" "gas_inv limit g"
      "unat (Used g) = unat (Used (vm_gasAccount vm)) + (if ?paid then ?c else 0)"
    and e: "e = (if ?paid then None else Some InsufficientGas)"
    using Consume_cases [OF gas, of "of_nat ?c"] unfolding u by (auto split: if_splits)
  have left: "gas_left g = gas_left (vm_gasAccount vm) - (if ?paid then ?c else 0)"
    using gas_balance [OF gas] gas_balance [OF g(2)] g(3) by simp
  have "mem_inv (vm_allocator vm) (vm_memory vm)" using inv by (simp add: machine_inv_def)
  note acc = UpdateAccess_law(2) [OF this, of addr "rt_now rt"]
  show ?thesis
    unfolding after_store_def g(1)
    using machine_access [OF inv, of addr "rt_now rt"] g(2) regs tree acc left e
      tree_default_update [OF tree] digest_update [OF tree, of "rt_nodes rt" addr data]
    by (simp add: sim_inv_def vm_inv_def abs_vm_def charged_def reply_of_def)
qed

text \<open>A store to a live block, on any state from which the machine's own is reached.\<close>

lemma store_live:
  assumes inv: "sim_inv limit ps k vm" and rt: "rt_ok rt" and v: "vm_view vm addr = Some v" "length data \<le> length v"
    and np: "\<not> vm_paused vm"
  obtains a mm vm' e where
    "MM_Store3D (rt_allocations rt) (vm_allocator vm) (vm_memory vm) addr data (rt_now rt) = Inr (a, mm, None)"
    "after_store rt (vm\<lparr>vm_allocator := a, vm_memory := mm\<rparr>) addr data = Some (Inr (vm', e))"
    "sim_inv limit ps k vm'" "vm_config vm' = vm_config vm" "\<not> vm_paused vm'"
    "abs_vm vm' = charged (written (abs_vm vm) addr data (data @ drop (length data) v)) (15 * length data)"
    "reply_of e = (if 15 * length data \<le> m_gas (abs_vm vm) then Done else Failed NoGas)"
proof -
  note p = sim_invD [OF inv]
  note q = vm_inv_parts [OF p(1)]
  have ord: "valid_order (rt_allocations rt)" using rt by (simp add: rt_ok_def)
  have len: "length data < 2 ^ 32" using view_length [OF p(5) v(1)] v(2) by simp
  show thesis
  proof (rule machine_store [OF q(1) ord len, of addr "rt_now rt"])
    fix a mm w
    assume s: "MM_Store3D (rt_allocations rt) (vm_allocator vm) (vm_memory vm) addr data (rt_now rt) = Inr (a, mm, None)"
      "vm_view vm addr = Some w" "mem_view a mm = (vm_view vm)(addr \<mapsto> data @ drop (length data) w)"
      "machine_inv ps k a mm (Cache_Put (vm_cache vm) addr data)"
    let ?vm = "vm\<lparr>vm_allocator := a, vm_memory := mm\<rparr>"
    from after_store_sim [of ps k ?vm addr data limit rt] s(4) q(2,3) p(3,4) len obtain vm' e where
      r: "after_store rt ?vm addr data = Some (Inr (vm', e))" "sim_inv limit ps k vm'" "vm_config vm' = vm_config vm"
        "vm_paused vm' = vm_paused vm"
        "abs_vm vm' = charged ((abs_vm ?vm)\<lparr>m_digests := map_option (\<lambda>h. h(addr \<mapsto> SHA256_Hash data)) (m_digests (abs_vm ?vm))\<rparr>) (15 * length data)"
        "reply_of e = (if 15 * length data \<le> m_gas (abs_vm ?vm) then Done else Failed NoGas)"
      by auto
    show thesis
      by (rule that [OF s(1) r(1-3)]) (use r(4-6) s(2,3) v np in \<open>simp_all add: abs_vm_def written_def\<close>)
  next
    assume "\<forall>w. vm_view vm addr = Some w \<longrightarrow> length w < length data"
    then show thesis using v by simp
  qed
qed


lemma store_refused:
  assumes "mem_inv a mm" "valid_order ord" "length d < 2 ^ 32" "\<forall>v. mem_view a mm addr = Some v \<longrightarrow> length v < length d"
  obtains e where "MM_Store3D ord a mm addr d now = Inr (a, mm, Some e)"
    "if mem_view a mm addr = None then e = AddressNotAllocated addr else (\<exists>w. e = OutOfBounds w)"
proof (cases "mem_view a mm addr")
  case None
  then show thesis using that Store3D_law [OF assms(1-3), of addr now] by auto
next
  case (Some v)
  then have "\<not> length d \<le> length v" using assms(4) by simp
  then show thesis using that Some Store3D_law [OF assms(1-3), of addr now] by auto
qed

lemma store_call_live:
  assumes inv: "sim_inv limit ps k vm" and rt: "rt_ok rt" and v: "vm_view vm addr = Some v" and np: "\<not> vm_paused vm"
    and len: "length data < 2 ^ 32"
  shows "call_simulates ps k (CallStore addr data) vm (client_call fb pord env rt vm (CallStore addr data))"
proof (cases "length data \<le> length v")
  case True
  show ?thesis
  proof (rule store_live [OF inv rt v True np])
    fix a mm vm' e
    assume s: "MM_Store3D (rt_allocations rt) (vm_allocator vm) (vm_memory vm) addr data (rt_now rt) = Inr (a, mm, None)"
      "after_store rt (vm\<lparr>vm_allocator := a, vm_memory := mm\<rparr>) addr data = Some (Inr (vm', e))"
      "sim_inv limit ps k vm'" "vm_config vm' = vm_config vm" "\<not> vm_paused vm'"
      "abs_vm vm' = charged (written (abs_vm vm) addr data (data @ drop (length data) v)) (15 * length data)"
      "reply_of e = (if 15 * length data \<le> m_gas (abs_vm vm) then Done else Failed NoGas)"
    have "machine_call ps (vc_MaxInstructions (vm_config vm)) (CallStore addr data) (abs_vm vm) (abs_vm vm') (reply_of e)"
      unfolding s(6,7) by (rule machine_call.store) (use v True in simp_all)
    then show ?thesis using s(1-5) by (auto simp: client_call_def VM_Store3D_def)
  qed
next
  case False
  have ord: "valid_order (rt_allocations rt)" using rt by (simp add: rt_ok_def)
  show ?thesis
  proof (rule store_refused [OF sim_invD(5) [OF inv] ord len, of addr "rt_now rt"])
    show "\<forall>w. vm_view vm addr = Some w \<longrightarrow> length w < length data" using v False by simp
    fix e
    assume s: "MM_Store3D (rt_allocations rt) (vm_allocator vm) (vm_memory vm) addr data (rt_now rt)
        = Inr (vm_allocator vm, vm_memory vm, Some e)"
      "if vm_view vm addr = None then e = AddressNotAllocated addr else \<exists>w. e = OutOfBounds w"
    then obtain w where e: "e = OutOfBounds w" using v by auto
    have "machine_call ps (vc_MaxInstructions (vm_config vm)) (CallStore addr data) (abs_vm vm) (abs_vm vm) (Failed OutOfRange)"
      by (rule machine_call.store_long [of _ _ v]) (use v False in simp_all)
    then show ?thesis using s(1) e inv np by (auto simp: client_call_def VM_Store3D_def vm_fail_def reply_of_def)
  qed
qed

lemma store_call_large:
  assumes inv: "sim_inv limit ps (Suc k) vm" and new: "vm_view vm addr = None" and np: "\<not> vm_paused vm"
    and m: "MM_Store3D (rt_allocations rt) (vm_allocator vm) (vm_memory vm) addr data (rt_now rt)
      = Inr (vm_allocator vm, vm_memory vm, Some (AddressNotAllocated addr))"
    and a: "Allocate (rt_queued rt) (rt_regions rt) (vm_allocator vm) (of_nat (length data)) RegionTypeHeap 0 (rt_now rt)
        = Some (Inr (a, None, Some (InsufficientMemory (of_nat (length data)))))"
      "machine_inv ps k a (vm_memory vm) (vm_cache vm)" "mem_view a (vm_memory vm) = vm_view vm"
    and sz: "unat (of_nat (length data) :: u32) = length data" "unat ps < unat (of_nat (length data) :: u32)"
  shows "call_simulates ps k (CallStore addr data) vm (client_call fb pord env rt vm (CallStore addr data))"
proof -
  let ?vm = "vm\<lparr>vm_allocator := a, vm_memory := vm_memory vm\<rparr>"
  note p = sim_invD [OF inv]
  have "machine_call ps (vc_MaxInstructions (vm_config vm)) (CallStore addr data) (abs_vm vm) (abs_vm vm) (Failed NoMemory)"
    by (rule machine_call.store_large) (use new sz in simp_all)
  moreover have "sim_inv limit ps k ?vm" "abs_vm ?vm = abs_vm vm"
    using a(2,3) vm_inv_parts [OF p(1)] p(3,4) by (simp_all add: sim_inv_def vm_inv_def abs_vm_def)
  ultimately show ?thesis using m a(1) np by (auto simp: client_call_def VM_Store3D_def vm_fail_def reply_of_def)
qed

lemma store_call_new:
  assumes inv: "sim_inv limit ps (Suc k) vm" and rt: "rt_ok rt" and new: "vm_view vm addr = None" and np: "\<not> vm_paused vm"
    and d: "data \<noteq> []" "length data < 2 ^ 32"
  shows "call_simulates ps k (CallStore addr data) vm (client_call fb pord env rt vm (CallStore addr data))"
proof -
  let ?bound = "vc_MaxInstructions (vm_config vm)" and ?sz = "of_nat (length data) :: u32"
  note p = sim_invD [OF inv]
  note q = vm_inv_parts [OF p(1)]
  have ord: "valid_order (rt_allocations rt)" "valid_order (rt_regions rt)" using rt by (simp_all add: rt_ok_def)
  have u: "unat ?sz = length data" using d(2) by (simp add: unsigned_of_nat take_bit_nat_eq_self)
  then have z: "?sz \<noteq> 0" using d(1) by (metis length_0_conv unat_0)
  have m: "MM_Store3D (rt_allocations rt) (vm_allocator vm) (vm_memory vm) addr data (rt_now rt)
      = Inr (vm_allocator vm, vm_memory vm, Some (AddressNotAllocated addr))"
    by (rule store_refused [OF p(5) ord(1) d(2), of addr "rt_now rt"]) (use new in simp_all)
  show ?thesis
  proof (rule machine_allocate [OF q(1) ord(2) z, of "rt_queued rt" RegionTypeHeap 0 "rt_now rt" "rt_now rt"])
    fix a al v
    assume a: "Allocate (rt_queued rt) (rt_regions rt) (vm_allocator vm) ?sz RegionTypeHeap 0 (rt_now rt) = Some (Inr (a, Some al, None))"
      "machine_inv ps k a (trackAllocation (vm_memory vm) al (rt_now rt)) (vm_cache vm)"
      "vm_view vm (alloc_Address al) = None" "length v = unat ?sz" "unat ?sz \<le> unat ps"
      "mem_view a (trackAllocation (vm_memory vm) al (rt_now rt)) = (vm_view vm)(alloc_Address al \<mapsto> v)"
    let ?vm = "vm\<lparr>vm_allocator := a, vm_memory := trackAllocation (vm_memory vm) al (rt_now rt)\<rparr>" and ?a = "alloc_Address al"
    have i: "sim_inv limit ps k ?vm" using a(2) q p(3,4) by (simp add: sim_inv_def vm_inv_def)
    have v: "vm_view ?vm ?a = Some v" "length data \<le> length v" using a(4,6) u by simp_all
    show ?thesis
    proof (rule store_live [OF i rt v])
      show "\<not> vm_paused ?vm" using np by simp
      fix a2 mm2 vm' e
      assume s: "MM_Store3D (rt_allocations rt) (vm_allocator ?vm) (vm_memory ?vm) ?a data (rt_now rt) = Inr (a2, mm2, None)"
        "after_store rt (?vm\<lparr>vm_allocator := a2, vm_memory := mm2\<rparr>) ?a data = Some (Inr (vm', e))"
        "sim_inv limit ps k vm'" "vm_config vm' = vm_config ?vm" "\<not> vm_paused vm'"
        "abs_vm vm' = charged (written (abs_vm ?vm) ?a data (data @ drop (length data) v)) (15 * length data)"
        "reply_of e = (if 15 * length data \<le> m_gas (abs_vm ?vm) then Done else Failed NoGas)"
      have w: "written (abs_vm ?vm) ?a data (data @ drop (length data) v) = written (abs_vm vm) ?a data data"
        using a(4,6) u by (simp add: written_def abs_vm_def)
      have "machine_call ps ?bound (CallStore addr data) (abs_vm vm) (charged (written (abs_vm vm) ?a data data) (15 * length data))
          (if 15 * length data \<le> m_gas (abs_vm vm) then Done else Failed NoGas)"
        by (rule machine_call.store_new) (use new a(3,5) u in simp_all)
      then have "machine_call ps ?bound (CallStore addr data) (abs_vm vm) (abs_vm vm') (reply_of e)"
        using s(6,7) w by (simp add: abs_vm_def)
      then show ?thesis using s(1-5) m a(1) by (auto simp: client_call_def VM_Store3D_def)
    qed
  next
    fix a
    assume "Allocate (rt_queued rt) (rt_regions rt) (vm_allocator vm) ?sz RegionTypeHeap 0 (rt_now rt)
        = Some (Inr (a, None, Some (InsufficientMemory ?sz)))"
      "machine_inv ps k a (vm_memory vm) (vm_cache vm)" "mem_view a (vm_memory vm) = vm_view vm" "unat ps < unat ?sz"
    then show ?thesis by (rule store_call_large [OF inv new np m _ _ _ u])
  qed
qed

lemma execute_call:
  assumes inv: "sim_inv limit ps (length (sweep program 0) + k) vm" and env: "\<forall>i. rt_ok (env i)"
    and ok: "length program < 2 ^ 64" "\<forall>i \<in> set (sweep program 0). allowed ps i" and np: "\<not> vm_paused vm"
  shows "call_simulates ps k (CallExecute program) vm (client_call fb pord env rt vm (CallExecute program))"
proof (rule machine_refinement [OF inv np ok(1) env ok(2), of fb pord])
  fix "is" vm' e
  assume x: "sweep program 0 = map denote is" "Execute fb pord env vm program = Some (Inr (vm', e))" "sim_inv limit ps k vm'"
    "vm_config vm' = vm_config vm" "\<not> vm_paused vm'"
    and r: "\<And>is. sweep program 0 = map denote is \<Longrightarrow> machine_run ps (vc_MaxInstructions (vm_config vm)) (decodes_whole program 0) is
       (abs_vm vm) (abs_vm vm') (map_option fault_of e)"
  have "reply_of e = (case map_option fault_of e of None \<Rightarrow> Done | Some f \<Rightarrow> Failed f)" by (cases e) (simp_all add: reply_of_def)
  then have "machine_call ps (vc_MaxInstructions (vm_config vm)) (CallExecute program) (abs_vm vm) (abs_vm vm') (reply_of e)"
    using machine_call.execute [OF x(1) r [OF x(1)]] by simp
  then show ?thesis using x by (auto simp: client_call_def)
qed

text \<open>A compaction refunds gas for nothing: the account may exceed the limit it started with.\<close>

lemma Refund_any:
  assumes "gas_inv limit g"
  obtains g' limit' where "Refund g gas = Inr g'" "gas_inv limit' g'" "gas_left g' = (gas_left g + unat gas) mod 2 ^ 64"
proof -
  from assms obtain b where b: "ga_buckets g = [b]" "unat (bk_remaining b) + unat (bk_used b) = limit" "limit < 2 ^ 64"
    by (auto simp: gas_inv_def)
  define used where "used = (if bk_used b \<le> gas then 0 else bk_used b - gas)"
  let ?b = "b\<lparr>bk_used := used, bk_remaining := bk_remaining b + gas\<rparr>"
  have r: "Refund g gas = Inr (g\<lparr>ga_buckets := [?b]\<rparr>)"
    using b(1) by (auto simp: Refund_def used_def Let_def)
  have "unat (bk_remaining b + gas) + unat used < 2 ^ 64"
  proof (cases "bk_used b \<le> gas")
    case True
    then show ?thesis using unsigned_less [of "bk_remaining b + gas", where ?'a = nat] by (simp add: used_def)
  next
    case False
    then have "unat gas \<le> unat (bk_used b)" "unat used = unat (bk_used b) - unat gas"
      by (simp_all add: used_def unat_sub word_le_nat_alt)
    then show ?thesis using b(2,3) by (simp add: unat_word_ariths mod_less)
  qed
  then show thesis
    by (intro that [OF r, of "unat (bk_remaining b + gas) + unat used"])
      (simp_all add: gas_inv_def gas_left_def b(1) unat_word_ariths)
qed


lemma compact_effect:
  assumes g: "gas_inv limit (vm_gasAccount vm)"
  shows "\<exists>h st refund limit'. executeMCompact3D rt pord vm = Some (Inr (vm\<lparr>vm_gasAccount := h, vm_stats := st\<rparr>, None))
    \<and> gas_inv limit' h \<and> gas_left h = (gas_left (vm_gasAccount vm) + refund) mod 2 ^ 64
    \<and> vs_InstructionsExecuted st = vs_InstructionsExecuted (vm_stats vm)"
proof -
  have "gas_left (vm_gasAccount vm) < 2 ^ 64" using gas_balance [OF g] g by (simp add: gas_inv_def)
  then have stay: "gas_left (vm_gasAccount vm) = (gas_left (vm_gasAccount vm) + 0) mod 2 ^ 64" by simp
  define stats' where "stats' compactedSize = (if vs_MemoryUsage (vm_stats vm) > compactedSize
      then (vm_stats vm)\<lparr>vs_MemoryUsage := vs_MemoryUsage (vm_stats vm) + NOT (compactedSize - 1)\<rparr> else vm_stats vm)"
    for compactedSize :: u64
  have st: "vs_InstructionsExecuted (stats' c) = vs_InstructionsExecuted (vm_stats vm)" for c by (simp add: stats'_def)
  consider "executeMCompact3D rt pord vm = vm_ok (vm\<lparr>vm_gasAccount := vm_gasAccount vm, vm_stats := vm_stats vm\<rparr>)"
    | c where "executeMCompact3D rt pord vm = vm_ok (vm\<lparr>vm_gasAccount := vm_gasAccount vm, vm_stats := stats' c\<rparr>)"
    | c gas where "executeMCompact3D rt pord vm
        = run_bind (Some (Refund (vm_gasAccount vm) gas)) (\<lambda>h. vm_ok (vm\<lparr>vm_gasAccount := h, vm_stats := stats' c\<rparr>))"
    unfolding executeMCompact3D_def stats'_def Let_def by (fastforce split: if_splits)
  then show ?thesis
  proof cases
    case 1
    then show ?thesis using g stay unfolding vm_ok_def by blast
  next
    case (2 c)
    then show ?thesis using g stay st [of c] unfolding vm_ok_def by blast
  next
    case (3 c gas)
    show ?thesis by (rule Refund_any [OF g, of gas]) (use 3 st in \<open>auto simp: vm_ok_def\<close>)
  qed
qed

lemma compact_call:
  assumes inv: "sim_inv limit ps (Suc k) vm" and np: "\<not> vm_paused vm"
  shows "call_simulates ps k CallCompact vm (client_call fb pord env rt vm CallCompact)"
proof -
  note p = sim_invD [OF sim_inv_less [OF inv]]
  note q = vm_inv_parts [OF p(1)]
  from compact_effect [OF q(2), of rt pord] obtain h st refund limit' where
    r: "executeMCompact3D rt pord vm = Some (Inr (vm\<lparr>vm_gasAccount := h, vm_stats := st\<rparr>, None))" "gas_inv limit' h"
      "gas_left h = (gas_left (vm_gasAccount vm) + refund) mod 2 ^ 64"
      "vs_InstructionsExecuted st = vs_InstructionsExecuted (vm_stats vm)" by blast
  let ?vm = "vm\<lparr>vm_gasAccount := h, vm_stats := st\<rparr>"
  have "sim_inv limit' ps k ?vm" using q r(2) p(3,4) by (simp add: sim_inv_def vm_inv_def)
  moreover have "abs_vm ?vm = (abs_vm vm)\<lparr>m_gas := (m_gas (abs_vm vm) + refund) mod 2 ^ 64\<rparr>" using r(3,4) by (simp add: abs_vm_def)
  ultimately show ?thesis
    using np machine_call.compact [of ps "vc_MaxInstructions (vm_config vm)" "abs_vm vm" refund]
    by (auto simp: client_call_def ExecuteCompactInstruction_def r(1) reply_of_def)
qed

lemma other_calls:
  assumes inv: "sim_inv limit ps (Suc k) vm" and np: "\<not> vm_paused vm"
  shows "length data < 2 ^ 32 \<Longrightarrow> call_simulates ps k (CallSet r data) vm (client_call fb pord env rt vm (CallSet r data))"
    "call_simulates ps k (CallProof a) vm (client_call fb pord env rt vm (CallProof a))"
proof -
  note inv' = sim_inv_less [OF inv]
  note p = sim_invD [OF inv']
  { assume "length data < 2 ^ 32"
    then have "sim_inv limit ps k (vm\<lparr>vm_registers := Reg_Set (vm_registers vm) r data\<rparr>)"
      using inv' Reg_Set_small [OF p(3)] by (simp add: sim_inv_def vm_inv_def)
    moreover have "abs_vm (vm\<lparr>vm_registers := Reg_Set (vm_registers vm) r data\<rparr>) = (abs_vm vm)\<lparr>m_regs := Reg_Set (m_regs (abs_vm vm)) r data\<rparr>"
      by (simp add: abs_vm_def)
    ultimately show "call_simulates ps k (CallSet r data) vm (client_call fb pord env rt vm (CallSet r data))"
      using np machine_call.set_register [of ps _ r data "abs_vm vm"] by (auto simp: client_call_def GetRegisters_def) }
  have "machine_call ps b (CallProof a) (abs_vm vm) (abs_vm vm)
      (case VM_GetMerkleProof vm a of Inl e \<Rightarrow> Failed (fault_of e) | Inr path \<Rightarrow> GotProof path)" for b
    using machine_call.prove [of "abs_vm vm" _ ps b a] machine_call.prove_none [of "abs_vm vm" ps b a]
    by (cases "vm_merkleTree vm") (auto simp: VM_GetMerkleProof_def GenerateProof_def abs_vm_def)
  then show "call_simulates ps k (CallProof a) vm (client_call fb pord env rt vm (CallProof a))"
    using inv' np by (auto simp: client_call_def)
qed

lemma client_call_sim:
  assumes inv: "sim_inv limit ps (budget c + k) vm" and rt: "rt_ok rt" "\<forall>i. rt_ok (env i)" and ok: "call_ok ps c" and np: "\<not> vm_paused vm"
  shows "call_simulates ps k c vm (client_call fb pord env rt vm c)"
proof (cases c)
  case (CallStore a data)
  have i: "sim_inv limit ps (Suc k) vm" using inv by (simp add: CallStore)
  show ?thesis
  proof (cases "vm_view vm a")
    case None
    then show ?thesis using store_call_new [OF i rt(1) None np] ok by (simp add: CallStore)
  next
    case (Some v)
    then show ?thesis using store_call_live [OF sim_inv_less [OF i] rt(1) Some np] ok by (simp add: CallStore)
  qed
next
  case (CallExecute program)
  then show ?thesis using execute_call [of limit ps program k vm env fb pord rt] inv rt ok np by simp
qed (use inv ok np allocate_call [OF _ rt(1)] load_call [OF _ rt(1)] compact_call other_calls in \<open>simp_all\<close>)

section \<open>Sessions\<close>

text \<open>A sequence of calls; the choices of the run time for the \<open>k\<close>-th call are \<open>rts k\<close> and \<open>env k\<close>.\<close>

fun session ::
  "(rat \<Rightarrow> u64) \<Rightarrow> (Plane \<Rightarrow> order) \<Rightarrow> (nat \<Rightarrow> nat \<Rightarrow> Runtime) \<Rightarrow> (nat \<Rightarrow> Runtime) \<Rightarrow> nat \<Rightarrow> VM3D \<Rightarrow> call list
     \<Rightarrow> (VM3D \<times> reply list) run" where
  "session fb pord env rts k vm [] = Some (Inr (vm, []))"
| "session fb pord env rts k vm (c # cs) =
     run_bind (client_call fb pord (env k) (rts k) vm c) (\<lambda>(vm1, r).
       run_bind (session fb pord env rts (Suc k) vm1 cs) (\<lambda>(vm2, rs). Some (Inr (vm2, r # rs))))"

inductive machine_session :: "u16 \<Rightarrow> u64 \<Rightarrow> call list \<Rightarrow> Machine \<Rightarrow> Machine \<Rightarrow> reply list \<Rightarrow> bool" for ps bound where
  empty: "machine_session ps bound [] s s []"
| call: "machine_call ps bound c s s1 r \<Longrightarrow> machine_session ps bound cs s1 s2 rs \<Longrightarrow>
    machine_session ps bound (c # cs) s s2 (r # rs)"

lemma session_sim:
  assumes "sim_inv limit ps (sum_list (map budget cs) + j) vm" "\<not> vm_paused vm" "\<forall>c \<in> set cs. call_ok ps c"
    and rt: "\<forall>k. rt_ok (rts k) \<and> (\<forall>i. rt_ok (env k i))"
  shows "returns (session fb pord env rts k vm cs) (\<lambda>(vm', rs). (\<exists>limit. sim_inv limit ps j vm')
    \<and> machine_session ps (vc_MaxInstructions (vm_config vm)) cs (abs_vm vm) (abs_vm vm') rs)"
  using assms(1-3)
proof (induction cs arbitrary: vm limit k)
  case Nil
  then show ?case by (auto intro: machine_session.empty)
next
  case (Cons c cs)
  have i: "sim_inv limit ps (budget c + (sum_list (map budget cs) + j)) vm" using Cons.prems(1) by (simp add: add.assoc)
  from client_call_sim [OF i, of "rts k" "env k" fb pord] rt Cons.prems(2,3) obtain vm1 r limit1 where
    c: "client_call fb pord (env k) (rts k) vm c = Some (Inr (vm1, r))" "sim_inv limit1 ps (sum_list (map budget cs) + j) vm1"
      "vm_config vm1 = vm_config vm" "\<not> vm_paused vm1"
      "machine_call ps (vc_MaxInstructions (vm_config vm)) c (abs_vm vm) (abs_vm vm1) r"
    by (auto simp: returns_def)
  from Cons.IH [OF c(2,4), of "Suc k"] Cons.prems(3) c(1,3,5) show ?case
    by (auto simp: returns_def intro: machine_session.call)
qed

section \<open>Proofs\<close>

definition call_plain :: "call \<Rightarrow> bool" where
  "call_plain c = (case c of CallExecute program \<Rightarrow>
     \<forall>i \<in> set (sweep program 0). inst_Opcode i \<noteq> OP_MCOPY3D \<and> inst_Opcode i \<noteq> OP_MFREE3D | _ \<Rightarrow> True)"

lemma overwrites_denote: "overwrites_unseen i \<longleftrightarrow> inst_Opcode (denote i) = OP_MCOPY3D \<or> inst_Opcode (denote i) = OP_MFREE3D"
  by (cases i) (simp_all add: instruction_def opcode_defs)

lemma charged_digests [simp]: "digests_true (charged s c) = digests_true s"
  by (simp add: charged_def)

lemma machine_call_digests:
  "machine_call ps bound c s s' r \<Longrightarrow> digests_true s \<Longrightarrow> call_plain c \<Longrightarrow> digests_true s'"
proof (induction rule: machine_call.induct)
  case (allocate n s a v t)
  show ?case by (rule digests_frame [OF allocate.prems(1)]) (use allocate.hyps in \<open>auto split: if_splits\<close>)
next
  case (execute program "is" s s' f)
  then have "\<forall>i \<in> set is. \<not> overwrites_unseen i" by (auto simp: call_plain_def overwrites_denote)
  then show ?case using machine_run_digests execute by blast
next
  case (set_register r data s)
  then show ?case by (auto intro: digests_frame)
qed (simp_all add: digests_written)

lemma machine_session_digests:
  "machine_session ps bound cs s s' rs \<Longrightarrow> digests_true s \<Longrightarrow> \<forall>c \<in> set cs. call_plain c \<Longrightarrow> digests_true s'"
  by (induction rule: machine_session.induct) (auto dest: machine_call_digests)

section \<open>Properties\<close>



text \<open>
  C6.  Proofs attest memory.  After any session with a new machine that has proofs enabled, in
  which no program copies or frees, the proof that the machine gives for an address is empty or
  is accepted for the first bytes of the live block at this address.  Copies and frees are the
  two instructions that change blocks without telling the tree.
\<close>

theorem proofs_attest_memory:
  assumes "sum_list (map budget cs) < 2 ^ 64 - 1" "\<forall>c \<in> set cs. call_ok 65535 c \<and> call_plain c"
    and "\<forall>k. rt_ok (rts k) \<and> (\<forall>i. rt_ok (env k i))"
  shows "\<exists>vm' rs. session fb pord env rts k (NewVM3D config now) cs = Some (Inr (vm', rs)) \<and>
    (\<forall>a path. VM_GetMerkleProof vm' a = Inr path \<longrightarrow> path = [] \<or>
       (\<exists>v n. vm_view vm' a = Some v \<and> n \<le> length v \<and> VerifyMemoryState vm' a (take n v) path = Inr True))"
proof -
  let ?vm = "NewVM3D config now"
  have i: "sim_inv (unat (vc_GasLimit config)) 65535 (sum_list (map budget cs) + 0) ?vm" by (rule NewVM3D_sim) (use assms(1) in simp)
  have np: "\<not> vm_paused ?vm" by (simp add: NewVM3D_def)
  from session_sim [OF i np _ assms(3), of fb pord k] assms(2) obtain vm' rs limit' where
    s: "session fb pord env rts k ?vm cs = Some (Inr (vm', rs))" "sim_inv limit' 65535 0 vm'"
      "machine_session 65535 (vc_MaxInstructions (vm_config ?vm)) cs (abs_vm ?vm) (abs_vm vm') rs"
    by (auto simp: returns_def)
  have "digests_true (abs_vm ?vm)" by (simp add: digests_true_def abs_vm_def NewVM3D_def NewTree3D_def)
  then have d: "digests_true (abs_vm vm')" using machine_session_digests [OF s(3)] assms(2) by blast
  have "path = [] \<or> (\<exists>v n. vm_view vm' a = Some v \<and> n \<le> length v \<and> VerifyMemoryState vm' a (take n v) path = Inr True)"
    if path: "VM_GetMerkleProof vm' a = Inr path" for a path
  proof -
    from path obtain t where t: "vm_merkleTree vm' = Some t" "path = GenerateProof t a"
      by (auto simp: VM_GetMerkleProof_def split: option.splits)
    show ?thesis
    proof (cases "map_of (tree_nodeCache t) a")
      case None
      then show ?thesis using t(2) by (simp add: GenerateProof_def)
    next
      case (Some dg)
      have "m_digests (abs_vm vm') = Some (map_of (tree_nodeCache t))" using t(1) by (simp add: abs_vm_def)
      with d Some obtain v n where v: "vm_view vm' a = Some v" "n \<le> length v" "dg = SHA256_Hash (take n v)"
        unfolding digests_true_def by (metis abs_vm_simps(1))
      have "tree_hasher t = SHA256Hasher" using sim_invD(4) [OF s(2)] t(1) by (simp add: tree_default_def)
      then have "VerifyMemoryState vm' a (take n v) path = Inr True"
        using t Some v(3) by (simp add: VerifyMemoryState_def VerifyProof_iff GenerateProof_def SHA256Hasher_def)
      then show ?thesis using v by blast
    qed
  qed
  with s(1) show ?thesis by blast
qed

definition proof_config :: VMConfig where
  "proof_config = \<lparr>vc_MemorySize = 0, vc_GasLimit = 10000, vc_EnableProof = True, vc_EnableCompaction = False,
     vc_MaxInstructions = 100, vc_LogLevel = 0\<rparr>"

theorem proofs_attest_memory_witness:
  "\<exists>vm' rs a path v n. session demo_bits demo_order (\<lambda>_ _. demo_rt) (\<lambda>_. demo_rt) 0 (NewVM3D proof_config 0)
      [CallStore (NewAddress 7 7 7) [1, 2, 3]] = Some (Inr (vm', rs))
    \<and> VM_GetMerkleProof vm' a = Inr path \<and> path \<noteq> [] \<and> VerifyMemoryState vm' a (take n v) path = Inr True"
proof -
  let ?cs = "[CallStore (NewAddress 7 7 7) [1, 2, 3]]" and ?vm = "NewVM3D proof_config 0"
  have i: "sim_inv 10000 65535 (sum_list (map budget ?cs) + 0) ?vm"
    using NewVM3D_sim [of 1 proof_config 0] by (simp add: proof_config_def)
  have np: "\<not> vm_paused ?vm" by (simp add: NewVM3D_def)
  have ok: "\<forall>c \<in> set ?cs. call_ok 65535 c" by simp
  have rt: "\<forall>k :: nat. rt_ok demo_rt \<and> (\<forall>i :: nat. rt_ok demo_rt)" using demo_rt_ok by simp
  from session_sim [OF i np ok rt, of demo_bits demo_order 0] obtain vm' rs where
    s: "session demo_bits demo_order (\<lambda>_ _. demo_rt) (\<lambda>_. demo_rt) 0 ?vm ?cs = Some (Inr (vm', rs))"
      "machine_session 65535 100 ?cs (abs_vm ?vm) (abs_vm vm') rs"
    by (auto simp: returns_def NewVM3D_def proof_config_def)
  have e: "vm_view ?vm = Map.empty" "m_digests (abs_vm ?vm) = Some Map.empty"
    by (simp_all add: NewVM3D_def NewMemoryManager_law abs_vm_def proof_config_def NewTree3D_def)
  from s(2) obtain r where "machine_call 65535 100 (CallStore (NewAddress 7 7 7) [1, 2, 3]) (abs_vm ?vm) (abs_vm vm') r"
    by (auto elim!: machine_session.cases)
  then obtain a dg where "m_digests (abs_vm vm') = Some [a \<mapsto> dg]"
    using e by (cases rule: machine_call.cases) (auto simp: charged_def written_def split: if_splits)
  then obtain t where "vm_merkleTree vm' = Some t" "map_of (tree_nodeCache t) = [a \<mapsto> dg]" by (auto simp: abs_vm_def)
  then have p: "VM_GetMerkleProof vm' a = Inr [dg]" by (simp add: VM_GetMerkleProof_def GenerateProof_def)
  have "sum_list (map budget ?cs) < 2 ^ 64 - 1" "\<forall>c \<in> set ?cs. call_ok 65535 c \<and> call_plain c" by (simp_all add: call_plain_def)
  from proofs_attest_memory [OF this rt, of demo_bits demo_order 0 proof_config 0] s(1) have
    "\<forall>a path. VM_GetMerkleProof vm' a = Inr path \<longrightarrow> path = [] \<or>
       (\<exists>v n. vm_view vm' a = Some v \<and> n \<le> length v \<and> VerifyMemoryState vm' a (take n v) path = Inr True)" by simp
  then obtain v n where "VerifyMemoryState vm' a (take n v) [dg] = Inr True" using p by blast
  with s(1) p show ?thesis by blast
qed

text \<open>
  C20.  A client's store is charged last.  When the account does not cover it, the call reports
  insufficient gas and charges nothing, but the bytes are in memory: the caller of a failed store
  cannot tell a write that happened from one that did not.  The price is the 15 units per byte that
  the code charges; a store that the documented price of 15 units and 2 per byte would cover may
  thus fail.
\<close>

theorem unpaid_store_writes:
  assumes "sim_inv limit ps k vm" "rt_ok rt" "\<not> vm_paused vm" "vm_view vm addr = Some v" "length data \<le> length v"
    and "gas_left (vm_gasAccount vm) < 15 * length data"
  shows "\<exists>vm' e. VM_Store3D rt vm addr data = Some (Inr (vm', Some e)) \<and> fault_of e = NoGas \<and> sim_inv limit ps k vm'
    \<and> vm_view vm' = (vm_view vm)(addr \<mapsto> data @ drop (length data) v) \<and> GetGasUsed vm' = GetGasUsed vm"
proof (rule store_live [OF assms(1,2,4,5,3)])
  fix a mm vm' e
  assume s: "MM_Store3D (rt_allocations rt) (vm_allocator vm) (vm_memory vm) addr data (rt_now rt) = Inr (a, mm, None)"
    "after_store rt (vm\<lparr>vm_allocator := a, vm_memory := mm\<rparr>) addr data = Some (Inr (vm', e))" "sim_inv limit ps k vm'"
    "abs_vm vm' = charged (written (abs_vm vm) addr data (data @ drop (length data) v)) (15 * length data)"
    "reply_of e = (if 15 * length data \<le> m_gas (abs_vm vm) then Done else Failed NoGas)"
  from s(5) assms(6) obtain err where e: "e = Some err" "fault_of err = NoGas" by (auto simp: reply_of_def split: option.splits)
  have "m_blocks (abs_vm vm') = (vm_view vm)(addr \<mapsto> data @ drop (length data) v)" "m_gas (abs_vm vm') = m_gas (abs_vm vm)"
    unfolding s(4) using assms(6) by (simp_all add: charged_def written_def)
  then have b: "vm_view vm' = (vm_view vm)(addr \<mapsto> data @ drop (length data) v)"
    and g: "gas_left (vm_gasAccount vm') = gas_left (vm_gasAccount vm)" by simp_all
  have "unat (GetGasUsed vm') = unat (GetGasUsed vm)"
    using gas_balance [OF vm_inv_parts(2) [OF sim_invD(1) [OF s(3)]]] gas_balance [OF vm_inv_parts(2) [OF sim_invD(1) [OF assms(1)]]] g
    by (simp add: GetGasUsed_def)
  then show ?thesis using s(1-3) e b by (simp add: VM_Store3D_def word_unat_eq_iff)
qed

theorem unpaid_store_writes_witness:
  "\<exists>vm addr v vm' e. vm_view vm addr = Some v \<and> VM_Store3D demo_rt vm addr [1, 2, 3] = Some (Inr (vm', Some e)) \<and> fault_of e = NoGas
    \<and> vm_view vm' addr = Some ([1, 2, 3] @ drop 3 v)"
proof -
  let ?vm = "NewVM3D (proof_config\<lparr>vc_GasLimit := 10\<rparr>) 0"
  have i: "sim_inv 10 65535 (Suc 0) ?vm" using NewVM3D_sim [of "Suc 0" "proof_config\<lparr>vc_GasLimit := 10\<rparr>" 0] by (simp add: proof_config_def)
  have np: "\<not> vm_paused ?vm" by (simp add: NewVM3D_def)
  from allocate_call [OF i demo_rt_ok _ np, where n = 8 and t = 4 and fb = demo_bits and pord = demo_order and env = "\<lambda>_. demo_rt"] obtain vm limit r where
    c: "sim_inv limit 65535 0 vm" "\<not> vm_paused vm" "machine_call 65535 100 (CallAllocate 8 4) (abs_vm ?vm) (abs_vm vm) r"
    by (auto simp: returns_def NewVM3D_def proof_config_def)
  from c(3) obtain addr v where v: "m_blocks (abs_vm vm) = (vm_view ?vm)(addr \<mapsto> v)" "length v = 8" "m_gas (abs_vm vm) = m_gas (abs_vm ?vm)"
    by (cases rule: machine_call.cases) (auto simp del: fun_upd_apply)
  have "vm_view vm addr = Some v" using v(1) by simp
  moreover have "gas_left (vm_gasAccount vm) < 15 * length [1, 2, 3 :: u8]"
    using v(3) by (simp add: NewVM3D_def NewAccountant_left)
  moreover have "length [1, 2, 3 :: u8] \<le> length v" using v(2) by simp
  ultimately obtain vm' e where "VM_Store3D demo_rt vm addr [1, 2, 3] = Some (Inr (vm', Some e))" "fault_of e = NoGas"
    "vm_view vm' = (vm_view vm)(addr \<mapsto> [1, 2, 3] @ drop (length [1, 2, 3 :: u8]) v)"
    using unpaid_store_writes [OF c(1) demo_rt_ok c(2), of addr v "[1, 2, 3]"] by blast
  moreover from this(3) have "vm_view vm' addr = Some ([1, 2, 3] @ drop 3 v)" by (simp add: numeral_3_eq_3)
  ultimately show ?thesis using \<open>vm_view vm addr = Some v\<close> by blast
qed

end
