(* ===== verification/PlaneOverrun.thy ===== *)
theory PlaneOverrun
  imports MainProgram
begin

text \<open>
  The planes of the machine have 65535 bytes, more than the search for free bytes is safe for.
  This theory follows the allocator of a new machine, step by step, into a state where two live
  blocks have the same address.
\<close>

section \<open>An allocator with one plane\<close>

text \<open>
  The first request creates region 2 with one plane; from then on the allocator is described by
  that plane and by the free bytes that the region counts.
\<close>

definition one_plane :: "Allocator3D \<Rightarrow> Plane \<Rightarrow> nat \<Rightarrow> bool" where
  "one_plane a p f \<longleftrightarrow> al_config a = VM_allocConfig \<and> al_regionLRU a = [2]
     \<and> plane_ID p = 0 \<and> plane_wf p \<and> plane_Size p = 65535
     \<and> (\<exists>r. al_regions a = [(2, r)] \<and> reg_ID r = 2 \<and> reg_Type r = RegionTypeHeap \<and> reg_Planes r = [p]
          \<and> unat (reg_FreeBytes r) = f)"

text \<open>The plane after the bytes from \<open>z\<close> on are handed out as the block \<open>al\<close>, and the blocks at an offset of it.\<close>

definition taken :: "Plane \<Rightarrow> u16 \<Rightarrow> Allocation \<Rightarrow> Plane" where
  "taken p z al = Plane_record (p\<lparr>plane_FreeMap := Bitmap_SetRange (plane_FreeMap p) z (z + ucast (alloc_Size al))\<rparr>) z al"

definition at_offset :: "u16 \<Rightarrow> u32 \<Rightarrow> Allocation \<Rightarrow> bool" where
  "at_offset z sz al \<longleftrightarrow> alloc_Address al = \<lparr>addr_X = 2, addr_Y = 0, addr_Z = z\<rparr> \<and> alloc_Size al = sz"

lemma taken_simps [simp]:
  "plane_ID (taken p z al) = plane_ID p" "plane_Size (taken p z al) = plane_Size p"
  "plane_FreeMap (taken p z al) = Bitmap_SetRange (plane_FreeMap p) z (z + ucast (alloc_Size al))"
  "plane_Allocations (taken p z al) = AList.update z al (plane_Allocations p)"
  by (simp_all add: taken_def)

lemma taken_wf: "plane_wf p \<Longrightarrow> plane_wf (taken p z al)"
  by (simp add: plane_wf_def SetRange_inv distinct_update) (simp add: taken_def)

lemma charged_bytes:
  fixes n :: u64 and sz :: u32
  assumes "sz \<noteq> 0" "unat sz \<le> unat n"
  shows "unat (n + NOT (ucast (sz - 1))) = unat n - unat sz"
proof -
  have "ucast sz \<le> n" using assms(2) by (simp add: word_le_nat_alt)
  then show ?thesis using assms(1) by (simp add: not_pred_u32 unat_sub)
qed

text \<open>
  Where the bitmap answers with \<open>z\<close>, the plane is served there.  A region that counts enough free bytes
  does so on the fast path; one that counts too few is still served, as a promotion to its only plane.
\<close>

lemma Plane_Allocate_at:
  "FindContiguous (plane_FreeMap p) sz = Inr (Some z) \<Longrightarrow>
     Plane_Allocate p sz = Inr (p\<lparr>plane_FreeMap := Bitmap_SetRange (plane_FreeMap p) z (z + sz)\<rparr>, Some z)"
  by (simp add: Plane_Allocate_def)

lemma range_over_small:
  assumes "valid_order ord"
  shows "range_over ord [] = []" "range_over ord [e] = [e]"
  using mset_range_over [OF assms, of "[]"] mset_range_over [OF assms, of "[e]"] by simp_all

lemma one_plane_needed:
  fixes sz :: u32
  assumes "sz \<noteq> 0" "unat sz \<le> 65535"
  shows "(sz + 65535 - 1) div 65535 = 1"
proof -
  have "unat (65534 + sz) = 65534 + unat sz" using assms(2) by (subst unat_add_lem [THEN iffD1]) simp_all
  moreover have "0 < unat sz" using assms(1) by (simp add: unat_gt_0)
  ultimately show ?thesis using assms(2) by (simp add: word_unat_eq_iff unat_div div_nat_eqI)
qed

lemma request_new:
  assumes sz: "sz \<noteq> 0" "unat sz \<le> 65535" and ord: "valid_order ord"
  obtains a al where
    "Allocate queued ord (NewAllocator3D VM_allocConfig) sz RegionTypeHeap flags now = Some (Inr (a, Some al, None))"
    "at_offset 0 sz al" "\<not> IsYPromoted al" "one_plane a (taken (NewPlane 0 2 PlaneSize) 0 al) (65535 - unat sz)"
proof -
  let ?p = "NewPlane 0 2 PlaneSize"
  have wf: "plane_wf ?p" using NewPlane_inv(1) by (rule plane_invD)
  have f: "Plane_FreeBytes ?p = 65535" by (simp add: NewPlane_FreeBytes PlaneSize_def)
  have c: "unat (ucast sz :: u16) = unat sz" using sz(2) by (intro unat_ucast_narrow) simp
  have "first_fit (plane_FreeMap ?p) (unat (ucast sz :: u16)) = Some 0"
    using sz c plane_wfD(2) [OF wf] by (simp add: first_fit_Some_iff fits_def unat_eq_0 PlaneSize_def)
  from FindContiguous_found [OF plane_wfD(1) [OF wf] this]
  have pa: "Plane_Allocate ?p (ucast sz)
      = Inr (?p\<lparr>plane_FreeMap := Bitmap_SetRange (plane_FreeMap ?p) 0 (0 + ucast sz)\<rparr>, Some 0)"
    by (intro Plane_Allocate_at) simp
  have fits: "sz \<le> ucast (Plane_FreeBytes ?p)" using sz(2) by (simp add: f word_le_nat_alt)
  have fast: "tryFastAllocation (NewAllocator3D VM_allocConfig) sz RegionTypeHeap now = Inr None"
    by (simp add: tryFastAllocation_def NewAllocator3D_def)
  have prom: "tryYPromotion ord (NewAllocator3D VM_allocConfig) sz RegionTypeHeap flags now = Inr (NewAllocator3D VM_allocConfig, None)"
    by (simp add: tryYPromotion_def NewAllocator3D_def VM_allocConfig_def PlaneSize_def range_over_small [OF ord] Let_def)
  let ?al = "(NewAllocation 2 \<lparr>addr_X = 2, addr_Y = 0, addr_Z = 0\<rparr> sz RegionTypeHeap now)\<lparr>alloc_Flags := flags\<rparr>"
  let ?r = "charge_region (AddPlane (NewRegion 2 RegionTypeHeap now) ?p) [taken ?p 0 ?al] sz"
  let ?a = "promoteRegionLRU ((NewAllocator3D VM_allocConfig)\<lparr>al_nextRegionID := 2, al_nextAllocID := 2, al_regions := [(2, ?r)]\<rparr>) 2"
  from pa fits fast prom have "Allocate queued ord (NewAllocator3D VM_allocConfig) sz RegionTypeHeap flags now = Some (Inr (?a, Some ?al, None))"
    by (simp add: Allocate_def allocateSync_def allocateNewRegion_def getPlaneFromPool_def NewAllocator3D_def VM_allocConfig_def
        taken_def NewAllocation_def Let_def)
  moreover have "one_plane ?a (taken ?p 0 ?al) (65535 - unat sz)"
    using taken_wf [OF wf] charged_bytes [OF sz(1), of 65535] sz(2) f
    by (simp add: one_plane_def promoteRegionLRU_def GetRegion_def charge_region_def NewAllocator3D_def AddPlane_def
        NewRegion_def PlaneSize_def)
  ultimately show thesis
    by (intro that) (simp_all add: at_offset_def NewAllocation_def IsYPromoted_def)
qed

lemma request_fast:
  assumes one: "one_plane a p f" and sz: "sz \<noteq> 0" "unat sz \<le> f" "unat sz \<le> unat (Plane_FreeBytes p)"
    and z: "FindContiguous (plane_FreeMap p) (ucast sz) = Inr (Some z)"
  obtains a' al where
    "Allocate queued ord a sz RegionTypeHeap flags now = Some (Inr (a', Some al, None))"
    "at_offset z sz al" "\<not> IsYPromoted al" "one_plane a' (taken p z al) (f - unat sz)"
proof -
  obtain r where r: "al_regions a = [(2, r)]" "reg_ID r = 2" "reg_Type r = RegionTypeHeap" "reg_Planes r = [p]"
      "unat (reg_FreeBytes r) = f"
    and a: "al_config a = VM_allocConfig" "al_regionLRU a = [2]" "plane_ID p = 0" "plane_wf p" "plane_Size p = 65535"
    using one by (auto simp: one_plane_def)
  let ?al = "NewAllocation (al_nextAllocID a + 1) \<lparr>addr_X = 2, addr_Y = 0, addr_Z = z\<rparr> sz RegionTypeHeap now"
  let ?r = "charge_region r [taken p z ?al] sz"
  let ?a = "promoteRegionLRU (a\<lparr>al_nextAllocID := al_nextAllocID a + 1, al_regions := [(2, ?r)]\<rparr>) 2"
  have "sz \<le> ucast (Plane_FreeBytes p)" "\<not> reg_FreeBytes r < ucast sz"
    using sz(2,3) r(5) by (simp_all add: word_le_nat_alt not_less)
  then have "tryFastAllocation a sz RegionTypeHeap now = Inr (Some (?a, ?al))"
    using r a by (simp add: tryFastAllocation_def GetRegion_def Plane_Allocate_at [OF z] taken_def NewAllocation_def Let_def)
  then have "Allocate queued ord a sz RegionTypeHeap flags now = Some (Inr (?a, Some ?al, None))"
    using a(1) by (simp add: Allocate_def allocateSync_def VM_allocConfig_def)
  moreover have "one_plane ?a (taken p z ?al) (f - unat sz)"
    using r a taken_wf [OF a(4)] charged_bytes [OF sz(1), of "reg_FreeBytes r"] sz(2)
    by (simp add: one_plane_def promoteRegionLRU_def GetRegion_def charge_region_def)
  ultimately show thesis
    by (intro that) (simp_all add: at_offset_def NewAllocation_def IsYPromoted_def)
qed

lemma request_promoted:
  assumes one: "one_plane a p f" and sz: "sz \<noteq> 0" "f < unat sz" "unat sz \<le> unat (Plane_FreeBytes p)"
    and z: "FindContiguous (plane_FreeMap p) (ucast sz) = Inr (Some z)" and ord: "valid_order ord"
  obtains a' al r where
    "Allocate queued ord a sz RegionTypeHeap flags now = Some (Inr (a', Some al, None))"
    "at_offset z sz al" "GetRegion a' 2 = Some r" "unat (reg_FreeBytes r) = 2 ^ 64 + f - unat sz"
proof -
  obtain r where r: "al_regions a = [(2, r)]" "reg_ID r = 2" "reg_Type r = RegionTypeHeap" "reg_Planes r = [p]"
      "unat (reg_FreeBytes r) = f"
    and a: "al_config a = VM_allocConfig" "al_regionLRU a = [2]" "plane_ID p = 0" "plane_wf p" "plane_Size p = 65535"
    using one by (auto simp: one_plane_def)
  have b: "unat sz \<le> 65535" using sz(3) unat_u16_bound' [of "Plane_FreeBytes p"] by linarith
  let ?f = "\<lparr>frag_PlaneID = 0, frag_StartZ = z, frag_Size = ucast sz, frag_IsFirst = True\<rparr>"
  have fast: "tryFastAllocation a sz RegionTypeHeap now = Inr None"
    using r a sz(2) by (simp add: tryFastAllocation_def GetRegion_def word_less_nat_alt)
  have m: "min32 (ucast (Plane_FreeBytes p)) sz = sz" using sz(3) by (auto simp: min32_def word_less_nat_alt intro: word_unat_eq_iff [THEN iffD2])
  have fb: "Plane_FreeBytes p > 0" using sz(2,3) by (simp add: word_less_nat_alt)
  have best: "foldl (best_step sz RegionTypeHeap 1) (None, 0) (range_over ord [(2, r)]) = (Some (2, r), ucast (Plane_FreeBytes p))"
    using r sz(3) fb by (simp add: range_over_small [OF ord] best_step_def planes_free_def planes_with_free_def Let_def word_le_nat_alt word_less_nat_alt)
  have c: "ucast sz \<noteq> (0 :: u16)" using sz(1) unat_ucast_narrow [of sz] b by (auto simp: unat_eq_0)
  have u: "ucast (ucast sz :: u16) = sz" using b by (simp add: word_unat_eq_iff unat_ucast_narrow)
  have carved: "carve [p] sz [] = Inr ([p\<lparr>plane_FreeMap := Bitmap_SetRange (plane_FreeMap p) z (z + ucast sz)\<rparr>], 0,
     [?f])"
    using fb c u sz(1) a(3) by (simp add: Let_def m Plane_Allocate_at [OF z])
  have "\<exists>a' al r'. tryYPromotion ord a sz RegionTypeHeap flags now = Inr (a', Some al) \<and> at_offset z sz al
      \<and> GetRegion a' 2 = Some r' \<and> reg_FreeBytes r' = reg_FreeBytes r + NOT (ucast (sz - 1))"
    using r a by (simp add: tryYPromotion_def commit_promotion_def VM_allocConfig_def PlaneSize_def one_plane_needed [OF sz(1) b, simplified] best carved
        at_offset_def GetRegion_def charge_region_def Let_def del: carve.simps)
  then obtain a' al r' where y: "tryYPromotion ord a sz RegionTypeHeap flags now = Inr (a', Some al)" "at_offset z sz al"
      "GetRegion a' 2 = Some r'" "reg_FreeBytes r' = reg_FreeBytes r - ucast sz"
    using sz(1) by (auto simp: not_pred_u32)
  have "unat (reg_FreeBytes r - ucast sz) = 2 ^ 64 + f - unat sz"
    using sz(2) r(5) by (simp add: unat_sub_if')
  with y fast show thesis using a(1)
    by (intro that [of a' al r']) (simp_all add: Allocate_def allocateSync_def VM_allocConfig_def)
qed

lemma release:
  assumes one: "one_plane a p f" and al: "at_offset z sz al" "\<not> IsYPromoted al" and f: "f + unat sz < 2 ^ 64"
    and free: "Plane_Free p z = (p', True)"
  obtains a' where "Allocator_Free a al = (a', None)" "one_plane a' p' (f + unat sz)"
proof -
  obtain r where r: "al_regions a = [(2, r)]" "reg_ID r = 2" "reg_Type r = RegionTypeHeap" "reg_Planes r = [p]"
      "unat (reg_FreeBytes r) = f"
    and a: "al_config a = VM_allocConfig" "al_regionLRU a = [2]" "plane_ID p = 0" "plane_wf p" "plane_Size p = 65535"
    using one by (auto simp: one_plane_def)
  let ?a = "count_free a 2 (credit_region r [p'] sz)"
  have "Allocator_Free a al = (?a, None)"
    using r a al free by (simp add: Allocator_Free_def freeSync_def at_offset_def GetRegion_def VM_allocConfig_def)
  moreover have "plane_wf p'" "plane_ID p' = 0" "plane_Size p' = 65535"
    using a free by (auto simp: Plane_Free_def plane_wf_def ClearRange_inv distinct_delete split: option.splits)
  moreover have "unat (reg_FreeBytes r + ucast sz) = f + unat sz"
    using f r(5) by (subst unat_add_lem [THEN iffD1]) simp_all
  ultimately show thesis
    using r a by (intro that [of ?a]) (simp_all add: one_plane_def count_free_def credit_region_def)
qed

section \<open>Two live blocks at one address\<close>

text \<open>A block of 10 bytes and one of 60000 bytes fill the front of the plane; the first is released.\<close>

lemma gap_state:
  assumes ord: "valid_order ord"
  obtains a1 b1 a2 b2 a3 p where
    "Allocate queued ord (NewAllocator3D VM_allocConfig) 10 RegionTypeHeap flags now = Some (Inr (a1, Some b1, None))"
    "Allocate queued ord a1 60000 RegionTypeHeap flags now = Some (Inr (a2, Some b2, None))"
    "Allocator_Free a2 b1 = (a3, None)" "at_offset 10 60000 b2"
    "one_plane a3 p 5535" "plane_used p = {10..<60010}"
proof -
  from request_new [OF _ _ ord, of 10 queued flags now] obtain a1 b1 where
    1: "Allocate queued ord (NewAllocator3D VM_allocConfig) 10 RegionTypeHeap flags now = Some (Inr (a1, Some b1, None))"
      "at_offset 0 10 b1" "\<not> IsYPromoted b1" "one_plane a1 (taken (NewPlane 0 2 PlaneSize) 0 b1) 65525" by auto
  define p1 where "p1 = taken (NewPlane 0 2 PlaneSize) 0 b1"
  have z1: "alloc_Size b1 = 10" using 1(2) by (simp add: at_offset_def)
  have u1: "plane_used p1 = {0..<10}"
    using used_SetRange [OF plane_wfD(1) [OF plane_invD(1) [OF NewPlane_inv(1)]], of 0 2 PlaneSize 0 10]
    by (simp add: p1_def z1 NewPlane_def PlaneSize_def Int_absorb2 subset_iff)
  have w1: "plane_wf p1" "plane_Size p1 = 65535" using 1(4) by (simp_all add: one_plane_def p1_def)
  have m1: "map_of (plane_Allocations p1) 0 = Some b1" by (simp add: p1_def update_conv')
  have "first_fit (plane_FreeMap p1) (unat (60000 :: u16)) = Some 10"
    using u1 w1 plane_wfD(2) [OF w1(1)] by (auto simp: first_fit_Some_iff fits_def)
  from FindContiguous_found [OF plane_wfD(1) [OF w1(1)] this]
  have "FindContiguous (plane_FreeMap p1) (ucast (60000 :: u32)) = Inr (Some 10)" by simp
  moreover have "unat (60000 :: u32) \<le> unat (Plane_FreeBytes p1)" using u1 w1 by (simp add: unat_Plane_FreeBytes)
  ultimately obtain a2 b2 where
    2: "Allocate queued ord a1 60000 RegionTypeHeap flags now = Some (Inr (a2, Some b2, None))"
      "at_offset 10 60000 b2" "one_plane a2 (taken p1 10 b2) 5525"
    using request_fast [OF 1(4) [folded p1_def], of 60000 10 queued ord flags now] by simp blast
  have z2: "alloc_Size b2 = 60000" using 2(2) by (simp add: at_offset_def)
  have u2: "plane_used (taken p1 10 b2) = {0..<60010}"
    using used_SetRange [OF plane_wfD(1) [OF w1(1)], of 10 60010] u1 w1(2) plane_wfD(2) [OF w1(1)] by (auto simp: z2)
  have m2: "map_of (plane_Allocations (taken p1 10 b2)) 0 = Some b1" using m1 by (simp add: update_conv')
  have w2: "plane_wf (taken p1 10 b2)" using taken_wf [OF w1(1)] .
  obtain p where p: "Plane_Free (taken p1 10 b2) 0 = (p, True)"
    "p = (taken p1 10 b2)\<lparr>plane_FreeMap := Bitmap_ClearRange (plane_FreeMap (taken p1 10 b2)) 0 10,
       plane_Allocations := AList.delete 0 (plane_Allocations (taken p1 10 b2))\<rparr>"
    using m2 z1 by (simp add: Plane_Free_def del: taken_simps)
  from release [OF 2(3) 1(2,3) _ p(1)] obtain a3 where 3: "Allocator_Free a2 b1 = (a3, None)" "one_plane a3 p 5535"
    by auto
  have "plane_used p = {10..<60010}"
    using used_ClearRange [OF plane_wfD(1) [OF w2], of 0 10] u2 by (auto simp: p(2) simp del: taken_simps)
  with 1(1) 2(1,2) 3 show thesis by (intro that)
qed

text \<open>
  C19.  Two live blocks can have the same address.  On the allocator of a new machine, blocks of 10
  and of 60000 bytes are handed out and the first is released; 5535 bytes of the plane are free,
  10 of them in front.  A request for 5530 bytes succeeds at offset 60010, where the block reaches
  beyond the end of the plane: the 16-bit end of the run wraps, and no byte is marked used.  A
  request for 100 bytes then succeeds at the same address, and the region counts almost 2 to the
  64 free bytes.
\<close>

theorem live_blocks_overlap:
  assumes "valid_order ord"
  shows "\<exists>a1 b1 a2 b2 a3 a4 b3 a5 b4 r.
    Allocate queued ord (vm_allocator (NewVM3D config t)) 10 RegionTypeHeap flags now = Some (Inr (a1, Some b1, None))
    \<and> Allocate queued ord a1 60000 RegionTypeHeap flags now = Some (Inr (a2, Some b2, None))
    \<and> Allocator_Free a2 b1 = (a3, None)
    \<and> Allocate queued ord a3 5530 RegionTypeHeap flags now = Some (Inr (a4, Some b3, None))
    \<and> Allocate queued ord a4 100 RegionTypeHeap flags now = Some (Inr (a5, Some b4, None))
    \<and> alloc_Address b3 = alloc_Address b4 \<and> alloc_Size b3 = 5530 \<and> alloc_Size b4 = 100
    \<and> unat PlaneSize < unat (addr_Z (alloc_Address b3)) + unat (alloc_Size b3)
    \<and> GetRegion a5 (addr_X (alloc_Address b4)) = Some r \<and> unat (reg_FreeBytes r) = 2 ^ 64 - 95"
proof -
  obtain a1 b1 a2 b2 a3 p where 1:
    "Allocate queued ord (NewAllocator3D VM_allocConfig) 10 RegionTypeHeap flags now = Some (Inr (a1, Some b1, None))"
    "Allocate queued ord a1 60000 RegionTypeHeap flags now = Some (Inr (a2, Some b2, None))"
    "Allocator_Free a2 b1 = (a3, None)" and p: "one_plane a3 p 5535" "plane_used p = {10..<60010}"
    by (rule gap_state [OF assms])
  have w: "plane_wf p" "plane_Size p = 65535" using p(1) by (simp_all add: one_plane_def)
  have free: "unat (Plane_FreeBytes p) = 5535" using p(2) w by (simp add: unat_Plane_FreeBytes)
  have "FindContiguous (plane_FreeMap p) 5530 = Inr (Some (of_nat 60010))"
    using p(2) w(2) plane_wfD(1,2) [OF w(1)]
    by (intro FindContiguous_overrun) (auto simp: passed_def fits_def)
  then have "FindContiguous (plane_FreeMap p) (ucast (5530 :: u32)) = Inr (Some 60010)" by simp
  from request_fast [OF p(1) _ _ _ this, of queued ord flags now] free obtain a4 b3 where
    2: "Allocate queued ord a3 5530 RegionTypeHeap flags now = Some (Inr (a4, Some b3, None))"
      "at_offset 60010 5530 b3" "one_plane a4 (taken p 60010 b3) 5"
    by (simp, blast)
  have m: "plane_FreeMap (taken p 60010 b3) = plane_FreeMap p"
    using 2(2) by (subst taken_simps, subst Bitmap_SetRange.simps) (simp add: at_offset_def)
  then have free': "unat (Plane_FreeBytes (taken p 60010 b3)) = 5535" using free by (simp add: Plane_FreeBytes_def)
  have "\<exists>i\<in>{q..<q + 100}. i \<in> {10..<60010}" if "q < 60010" for q :: nat
    using that by (intro bexI [of _ "max q 10"]) auto
  then have "first_fit (plane_FreeMap p) (unat (100 :: u16)) = Some 60010"
    using p(2) w(2) plane_wfD(2) [OF w(1)] by (auto simp: first_fit_Some_iff fits_def)
  from FindContiguous_found [OF plane_wfD(1) [OF w(1)] this]
  have "FindContiguous (plane_FreeMap (taken p 60010 b3)) (ucast (100 :: u32)) = Inr (Some 60010)" unfolding m by simp
  from request_promoted [OF 2(3) _ _ _ this assms, of queued flags now] free' obtain a5 b4 r where
    3: "Allocate queued ord a4 100 RegionTypeHeap flags now = Some (Inr (a5, Some b4, None))"
      "at_offset 60010 100 b4" "GetRegion a5 2 = Some r" "unat (reg_FreeBytes r) = 2 ^ 64 - 95" by auto
  have "vm_allocator (NewVM3D config t) = NewAllocator3D VM_allocConfig" by (simp add: NewVM3D_def)
  with 1 2(1,2) 3 show ?thesis by (auto simp: at_offset_def PlaneSize_def)
qed

theorem live_blocks_overlap_witness:
  "\<exists>a1 b1 a2 b2 a3 a4 b3 a5 b4.
    Allocate False (\<lambda>n. rev [0..<n]) (vm_allocator (NewVM3D main_config 0)) 10 RegionTypeHeap 0 7 = Some (Inr (a1, Some b1, None))
    \<and> Allocate False (\<lambda>n. rev [0..<n]) a1 60000 RegionTypeHeap 0 7 = Some (Inr (a2, Some b2, None))
    \<and> Allocator_Free a2 b1 = (a3, None)
    \<and> Allocate False (\<lambda>n. rev [0..<n]) a3 5530 RegionTypeHeap 0 7 = Some (Inr (a4, Some b3, None))
    \<and> Allocate False (\<lambda>n. rev [0..<n]) a4 100 RegionTypeHeap 0 7 = Some (Inr (a5, Some b4, None))
    \<and> alloc_Address b3 = alloc_Address b4"
  using live_blocks_overlap [OF valid_order_rev, of False main_config 0 0 7] by blast

end
