(* ===== verification/Workers.thy ===== *)
theory Workers
  imports AllocatorEdges
begin

text \<open>
  The worker pool of \<^verbatim>\<open>internal/allocator/allocator.go\<close>: \<^verbatim>\<open>startWorkers\<close>, \<^verbatim>\<open>allocWorker\<close> and \<^verbatim>\<open>allocateConcurrent\<close>
  as a transition system, for any number of concurrent callers.  The channel of requests is
  bounded, the channel of a result holds one result; \<^verbatim>\<open>allocateSync\<close> runs under the allocator's
  mutex and is one step.
\<close>

section \<open>The pool\<close>

record AllocRequest =
  rq_Size :: u32
  rq_RegionType :: RegionType
  rq_Flags :: AllocationFlags

type_synonym answer = "Allocation option \<times> error option"

text \<open>
  A caller is about to call, waits for its result, has found the queue full and is about to
  serve itself, or has returned.  A worker waits for a request, has received one, or is about to
  send its result.  A request is known by the number of its caller, which also stands for the
  result channel in it.
\<close>

datatype caller = Calling | Waiting | Direct | Returned answer

datatype worker = Receiving | Serving nat | Replying nat AllocResult

record Pool =
  pool_alloc :: Allocator3D
  pool_queue :: "nat list"
  pool_workers :: "worker list"
  pool_callers :: "caller list"
  pool_results :: "AllocResult option list"

definition workers_cap :: nat where
  "workers_cap = 1000"

definition startWorkers :: "Config \<Rightarrow> worker list" where
  "startWorkers c = replicate (nat (cfg_WorkerCount c)) Receiving"

definition new_pool :: "Config \<Rightarrow> nat \<Rightarrow> Pool" where
  "new_pool c n = \<lparr>pool_alloc = NewAllocator3D c, pool_queue = [], pool_workers = startWorkers c,
     pool_callers = replicate n Calling, pool_results = replicate n None\<rparr>"

definition sync_answer :: "error + Allocation \<Rightarrow> answer" where
  "sync_answer r = (case r of Inl e \<Rightarrow> (None, Some e) | Inr alloc \<Rightarrow> (Some alloc, None))"

text \<open>
  The steps.  The first four are those of \<^verbatim>\<open>allocateConcurrent\<close>: the request is queued, or the queue is
  full and the caller serves itself, or the result arrives; the last three are the loop of
  \<^verbatim>\<open>allocWorker\<close>.
\<close>

inductive pool_step :: "AllocRequest list \<Rightarrow> Pool \<Rightarrow> Pool \<Rightarrow> bool" for reqs where
  submit: "i < length reqs \<Longrightarrow> pool_callers s ! i = Calling \<Longrightarrow> length (pool_queue s) < workers_cap \<Longrightarrow>
    pool_step reqs s (s\<lparr>pool_queue := pool_queue s @ [i], pool_callers := (pool_callers s)[i := Waiting]\<rparr>)"
| overflow: "i < length reqs \<Longrightarrow> pool_callers s ! i = Calling \<Longrightarrow> \<not> length (pool_queue s) < workers_cap \<Longrightarrow>
    pool_step reqs s (s\<lparr>pool_callers := (pool_callers s)[i := Direct]\<rparr>)"
| direct: "i < length reqs \<Longrightarrow> pool_callers s ! i = Direct \<Longrightarrow> valid_order ord \<Longrightarrow>
    allocateSync ord (pool_alloc s) (rq_Size (reqs ! i)) (rq_RegionType (reqs ! i)) (rq_Flags (reqs ! i)) now = Inr (a, r) \<Longrightarrow>
    pool_step reqs s (s\<lparr>pool_alloc := a, pool_callers := (pool_callers s)[i := Returned (sync_answer r)]\<rparr>)"
| receive: "i < length reqs \<Longrightarrow> pool_callers s ! i = Waiting \<Longrightarrow> pool_results s ! i = Some q \<Longrightarrow>
    pool_step reqs s (s\<lparr>pool_results := (pool_results s)[i := None],
      pool_callers := (pool_callers s)[i := Returned (res_Allocation q, res_Error q)]\<rparr>)"
| take: "j < length (pool_workers s) \<Longrightarrow> pool_workers s ! j = Receiving \<Longrightarrow> pool_queue s = i # q \<Longrightarrow>
    pool_step reqs s (s\<lparr>pool_queue := q, pool_workers := (pool_workers s)[j := Serving i]\<rparr>)"
| serve: "j < length (pool_workers s) \<Longrightarrow> pool_workers s ! j = Serving i \<Longrightarrow> valid_order ord \<Longrightarrow>
    doAllocate ord (pool_alloc s) (rq_Size (reqs ! i)) (rq_RegionType (reqs ! i)) (rq_Flags (reqs ! i)) now = Inr (a, r) \<Longrightarrow>
    pool_step reqs s (s\<lparr>pool_alloc := a, pool_workers := (pool_workers s)[j := Replying i r]\<rparr>)"
| reply: "j < length (pool_workers s) \<Longrightarrow> pool_workers s ! j = Replying i r \<Longrightarrow> pool_results s ! i = None \<Longrightarrow>
    pool_step reqs s (s\<lparr>pool_results := (pool_results s)[i := Some r], pool_workers := (pool_workers s)[j := Receiving]\<rparr>)"

section \<open>Sequential executions\<close>

text \<open>
  The requests in the history, newest first, served one after the other.
\<close>

inductive served :: "AllocRequest list \<Rightarrow> Allocator3D \<Rightarrow> Allocator3D \<Rightarrow> (nat \<times> answer) list \<Rightarrow> bool" for reqs a0 where
  start: "served reqs a0 a0 []"
| next_one: "served reqs a0 a hist \<Longrightarrow> valid_order ord \<Longrightarrow>
    allocateSync ord a (rq_Size (reqs ! i)) (rq_RegionType (reqs ! i)) (rq_Flags (reqs ! i)) now = Inr (a', r) \<Longrightarrow>
    served reqs a0 a' ((i, sync_answer r) # hist)"

lemma doAllocate_answer:
  assumes "doAllocate ord a sz t flags now = Inr (a', q)"
  obtains r where "allocateSync ord a sz t flags now = Inr (a', r)" "(res_Allocation q, res_Error q) = sync_answer r"
proof -
  from assms obtain r where "allocateSync ord a sz t flags now = Inr (a', r)"
    by (auto simp: doAllocate_def go_bind_eq_Inr_iff)
  with that doAllocate_result [OF this assms] show thesis by (simp add: sync_answer_def)
qed

definition hist_allocs :: "(nat \<times> answer) list \<Rightarrow> Allocation list" where
  "hist_allocs hist = concat (map (\<lambda>(_, al, _). case al of None \<Rightarrow> [] | Some x \<Rightarrow> [x]) hist)"

lemma hist_allocs_simps [simp]:
  "hist_allocs [] = []" "hist_allocs ((i, sync_answer (Inl e)) # hist) = hist_allocs hist"
  "hist_allocs ((i, sync_answer (Inr al)) # hist) = al # hist_allocs hist"
  by (simp_all add: hist_allocs_def sync_answer_def)

text \<open>A request that is served in a good state does not panic.\<close>

lemma sync_step:
  assumes ok: "al_ok (Suc k) a" and ord: "valid_order ord" and sz: "0 < sz"
  shows "\<exists>a' r. allocateSync ord a sz t flags now = Inr (a', r) \<and> al_ok k a'
    \<and> (case r of Inl _ \<Rightarrow> used_cells a' = used_cells a
        | Inr al \<Rightarrow> used_cells a' = used_cells a \<union> alloc_cells al \<and> used_cells a \<inter> alloc_cells al = {})"
proof -
  have o: "al_inv a" "cfg_PlaneSize (al_config a) \<noteq> 0" "unat (al_nextRegionID a) + Suc k < 2 ^ 64"
    using ok by (simp_all add: al_ok_def)
  then have room: "unat (al_nextRegionID a) + 1 < 2 ^ 64" by linarith
  from allocateSync_cases [OF o(1) sz ord o(2) room, of t flags now] consider
    (ok) a' al where "allocateSync ord a sz t flags now = Inr (a', Inr al)" "allocated a a' al"
      "unat (al_nextRegionID a') \<le> unat (al_nextRegionID a) + 1"
  | (none) a' e where "allocateSync ord a sz t flags now = Inr (a', Inl e)" "untouched a a'"
      "unat (al_nextRegionID a') \<le> unat (al_nextRegionID a) + 1"
    by blast
  then show ?thesis
  proof cases
    case ok
    then show ?thesis using o by (auto simp: al_ok_def allocated_def)
  next
    case none
    then show ?thesis using o by (auto simp: al_ok_def untouched_def)
  qed
qed

abbreviation proper :: "AllocRequest list \<Rightarrow> bool" where
  "proper reqs \<equiv> \<forall>q \<in> set reqs. 0 < rq_Size q"

lemma served_safe:
  assumes "served reqs a0 a hist" "al_ok (length hist + k) a0" "proper reqs" "\<forall>e \<in> set hist. fst e < length reqs"
  shows "al_ok k a \<and> pairwise_disjoint alloc_cells (hist_allocs hist)
    \<and> (\<Union>al \<in> set (hist_allocs hist). alloc_cells al) \<subseteq> used_cells a"
  using assms
proof (induction arbitrary: k rule: served.induct)
  case (next_one a hist ord i now a' r)
  from next_one.IH [of "Suc k"] next_one.prems have IH: "al_ok (Suc k) a" "pairwise_disjoint alloc_cells (hist_allocs hist)"
    "(\<Union>al \<in> set (hist_allocs hist). alloc_cells al) \<subseteq> used_cells a" by simp_all
  have "0 < rq_Size (reqs ! i)" using next_one.prems by simp
  from sync_step [OF IH(1) next_one.hyps(2) this, of "rq_RegionType (reqs ! i)" "rq_Flags (reqs ! i)" now]
    next_one.hyps(3) have
    st: "al_ok k a'" "case r of Inl _ \<Rightarrow> used_cells a' = used_cells a
        | Inr al \<Rightarrow> used_cells a' = used_cells a \<union> alloc_cells al \<and> used_cells a \<inter> alloc_cells al = {}"
    by auto
  then show ?case using IH(2,3) by (cases r) auto
qed simp

section \<open>The invariant of the pool\<close>

text \<open>How often a request is being served, or answered, by a worker.\<close>

definition n_serving :: "worker list \<Rightarrow> nat \<Rightarrow> nat" where
  "n_serving ws i = sum_list (map (\<lambda>w. if w = Serving i then 1 else 0) ws)"

definition n_replying :: "worker list \<Rightarrow> nat \<Rightarrow> nat" where
  "n_replying ws i = sum_list (map (\<lambda>w. case w of Replying j _ \<Rightarrow> if j = i then 1 else 0 | _ \<Rightarrow> 0) ws)"

lemma n_serving_update:
  "j < length ws \<Longrightarrow> n_serving (ws[j := w]) i + (if ws ! j = Serving i then 1 else 0)
     = n_serving ws i + (if w = Serving i then 1 else 0)"
  unfolding n_serving_def by (rule sum_list_update_nat)

lemma n_replying_update:
  "j < length ws \<Longrightarrow> n_replying (ws[j := w]) i + (case ws ! j of Replying j _ \<Rightarrow> if j = i then 1 else 0 | _ \<Rightarrow> 0)
     = n_replying ws i + (case w of Replying j _ \<Rightarrow> if j = i then 1 else 0 | _ \<Rightarrow> 0)"
  unfolding n_replying_def by (rule sum_list_update_nat)

definition n_result :: "Pool \<Rightarrow> nat \<Rightarrow> nat" where
  "n_result s i = (if pool_results s ! i = None then 0 else 1)"

definition active :: "caller \<Rightarrow> bool" where
  "active c \<longleftrightarrow> (case c of Waiting \<Rightarrow> True | Returned _ \<Rightarrow> True | _ \<Rightarrow> False)"

text \<open>
  Every request that was made is in exactly one place: in the queue, with a worker that serves
  it, or in the history of those served; and the answer to a caller that waits is with a worker or in
  its channel.
\<close>

definition pool_inv :: "AllocRequest list \<Rightarrow> Allocator3D \<Rightarrow> Pool \<Rightarrow> (nat \<times> answer) list \<Rightarrow> bool" where
  "pool_inv reqs a0 s hist \<longleftrightarrow> served reqs a0 (pool_alloc s) hist
     \<and> length (pool_callers s) = length reqs \<and> length (pool_results s) = length reqs
     \<and> (\<forall>i. count_list (pool_queue s) i + n_serving (pool_workers s) i + count_list (map fst hist) i
              = (if i < length reqs \<and> active (pool_callers s ! i) then 1 else 0))
     \<and> (\<forall>i < length reqs. n_replying (pool_workers s) i + n_result s i
              = (if pool_callers s ! i = Waiting then count_list (map fst hist) i else 0))
     \<and> (\<forall>i r. Replying i r \<in> set (pool_workers s) \<longrightarrow> (i, res_Allocation r, res_Error r) \<in> set hist)
     \<and> (\<forall>i < length reqs. \<forall>r. pool_results s ! i = Some r \<longrightarrow> (i, res_Allocation r, res_Error r) \<in> set hist)
     \<and> (\<forall>i < length reqs. \<forall>p. pool_callers s ! i = Returned p \<longrightarrow> (i, p) \<in> set hist)"

lemma pool_invD:
  assumes "pool_inv reqs a0 s hist"
  shows "served reqs a0 (pool_alloc s) hist" "length (pool_callers s) = length reqs" "length (pool_results s) = length reqs"
    "\<And>i. count_list (pool_queue s) i + n_serving (pool_workers s) i + count_list (map fst hist) i
              = (if i < length reqs \<and> active (pool_callers s ! i) then 1 else 0)"
    "\<And>i. i < length reqs \<Longrightarrow> n_replying (pool_workers s) i + n_result s i
              = (if pool_callers s ! i = Waiting then count_list (map fst hist) i else 0)"
    "\<And>i r. Replying i r \<in> set (pool_workers s) \<Longrightarrow> (i, res_Allocation r, res_Error r) \<in> set hist"
    "\<And>i r. i < length reqs \<Longrightarrow> pool_results s ! i = Some r \<Longrightarrow> (i, res_Allocation r, res_Error r) \<in> set hist"
    "\<And>i p. i < length reqs \<Longrightarrow> pool_callers s ! i = Returned p \<Longrightarrow> (i, p) \<in> set hist"
  using assms unfolding pool_inv_def by blast+

lemma new_pool_inv: "pool_inv reqs (NewAllocator3D c) (new_pool c (length reqs)) []"
proof -
  have "n_serving (startWorkers c) i = 0" "n_replying (startWorkers c) i = 0" for i
    by (simp_all add: n_serving_def n_replying_def startWorkers_def)
  moreover have "Replying i r \<notin> set (startWorkers c)" for i r by (simp add: startWorkers_def)
  ultimately show ?thesis
    by (auto simp: pool_inv_def new_pool_def active_def n_result_def intro: served.start)
qed


text \<open>A request that a worker serves was made, is not in the history, and its caller waits.\<close>

lemma serving_count: "j < length ws \<Longrightarrow> ws ! j = Serving i \<Longrightarrow> 0 < n_serving ws i"
  using n_serving_update [of j ws Receiving i] by simp

lemma replying_count: "j < length ws \<Longrightarrow> ws ! j = Replying i r \<Longrightarrow> 0 < n_replying ws i"
  using n_replying_update [of j ws Receiving i] by simp

lemma n_serving_pos: "0 < n_serving ws i \<longleftrightarrow> Serving i \<in> set ws"
  by (induction ws) (auto simp: n_serving_def)

lemma n_replying_pos: "0 < n_replying ws i \<longleftrightarrow> (\<exists>r. Replying i r \<in> set ws)"
  by (induction ws) (auto simp: n_replying_def split: worker.splits)

lemma served_once:
  assumes inv: "pool_inv reqs a0 s hist" and i: "Serving i \<in> set (pool_workers s)"
  shows "i < length reqs" "i \<notin> fst ` set hist" "pool_callers s ! i = Waiting"
proof -
  have "0 < n_serving (pool_workers s) i" using i by (simp add: n_serving_pos)
  with pool_invD(4) [OF inv, of i] have c: "i < length reqs" "active (pool_callers s ! i)" "count_list (map fst hist) i = 0"
    by (auto split: if_splits)
  then show "i < length reqs" "i \<notin> fst ` set hist" using count_list_pos [of "map fst hist" i] by auto
  then show "pool_callers s ! i = Waiting"
    using c(2) pool_invD(8) [OF inv, of i] by (cases "pool_callers s ! i") (auto simp: active_def image_iff)
qed

lemma pool_invI:
  assumes "served reqs a0 (pool_alloc s) hist" "length (pool_callers s) = length reqs" "length (pool_results s) = length reqs"
    "\<And>i. count_list (pool_queue s) i + n_serving (pool_workers s) i + count_list (map fst hist) i
              = (if i < length reqs \<and> active (pool_callers s ! i) then 1 else 0)"
    "\<And>i. i < length reqs \<Longrightarrow> n_replying (pool_workers s) i + n_result s i
              = (if pool_callers s ! i = Waiting then count_list (map fst hist) i else 0)"
    "\<And>i r. Replying i r \<in> set (pool_workers s) \<Longrightarrow> (i, res_Allocation r, res_Error r) \<in> set hist"
    "\<And>i r. i < length reqs \<Longrightarrow> pool_results s ! i = Some r \<Longrightarrow> (i, res_Allocation r, res_Error r) \<in> set hist"
    "\<And>i p. i < length reqs \<Longrightarrow> pool_callers s ! i = Returned p \<Longrightarrow> (i, p) \<in> set hist"
  shows "pool_inv reqs a0 s hist"
  using assms unfolding pool_inv_def by blast

lemma active_simps [simp]: "active Waiting" "active (Returned p)" "\<not> active Calling" "\<not> active Direct"
  by (simp_all add: active_def)

lemma Replying_update: "Replying i r \<in> set (ws[j := w]) \<Longrightarrow> w = Replying i r \<or> Replying i r \<in> set ws"
  using set_update_subset_insert [of ws j w] by auto

text \<open>The steps of a caller.\<close>

lemma caller_steps_inv:
  assumes inv: "pool_inv reqs a0 s hist" and i: "i < length reqs"
  shows "pool_callers s ! i = Calling \<Longrightarrow>
      pool_inv reqs a0 (s\<lparr>pool_queue := pool_queue s @ [i], pool_callers := (pool_callers s)[i := Waiting]\<rparr>) hist"
    and "pool_callers s ! i = Calling \<Longrightarrow> pool_inv reqs a0 (s\<lparr>pool_callers := (pool_callers s)[i := Direct]\<rparr>) hist"
    and "pool_callers s ! i = Direct \<Longrightarrow> served reqs a0 a ((i, p) # hist) \<Longrightarrow>
      pool_inv reqs a0 (s\<lparr>pool_alloc := a, pool_callers := (pool_callers s)[i := Returned p]\<rparr>) ((i, p) # hist)"
    and "pool_callers s ! i = Waiting \<Longrightarrow> pool_results s ! i = Some q \<Longrightarrow>
      pool_inv reqs a0 (s\<lparr>pool_results := (pool_results s)[i := None],
        pool_callers := (pool_callers s)[i := Returned (res_Allocation q, res_Error q)]\<rparr>) hist"
proof -
  note d = pool_invD [OF inv]
  show "pool_inv reqs a0 (s\<lparr>pool_queue := pool_queue s @ [i], pool_callers := (pool_callers s)[i := Waiting]\<rparr>) hist"
    if "pool_callers s ! i = Calling"
  proof (rule pool_invI, goal_cases)
    case (4 k)
    then show ?case using d(4) [of k] i that d(2) by (auto simp: nth_list_update)
  next
    case (5 k)
    then show ?case using d(4,5) [of k] i that d(2) by (auto simp: nth_list_update n_result_def)
  qed (use d i that in \<open>auto simp: nth_list_update split: if_splits\<close>)
  show "pool_inv reqs a0 (s\<lparr>pool_callers := (pool_callers s)[i := Direct]\<rparr>) hist" if "pool_callers s ! i = Calling"
  proof (rule pool_invI, goal_cases)
    case (4 k)
    then show ?case using d(4) [of k] i that d(2) by (auto simp: nth_list_update)
  next
    case (5 k)
    then show ?case using d(5) [of k] i that d(2) by (auto simp: nth_list_update n_result_def)
  qed (use d i that in \<open>auto simp: nth_list_update split: if_splits\<close>)
  show "pool_inv reqs a0 (s\<lparr>pool_alloc := a, pool_callers := (pool_callers s)[i := Returned p]\<rparr>) ((i, p) # hist)"
    if "pool_callers s ! i = Direct" "served reqs a0 a ((i, p) # hist)"
  proof (rule pool_invI, goal_cases)
    case (4 k)
    then show ?case using d(4) [of k] i that d(2) by (auto simp: nth_list_update)
  next
    case (5 k)
    then show ?case using d(5) [of k] i that d(2) by (auto simp: nth_list_update n_result_def)
  qed (use d i that in \<open>auto simp: nth_list_update split: if_splits\<close>)
  show "pool_inv reqs a0 (s\<lparr>pool_results := (pool_results s)[i := None],
        pool_callers := (pool_callers s)[i := Returned (res_Allocation q, res_Error q)]\<rparr>) hist"
    if "pool_callers s ! i = Waiting" "pool_results s ! i = Some q"
  proof (rule pool_invI, goal_cases)
    case (4 k)
    then show ?case using d(4) [of k] i that d(2) by (auto simp: nth_list_update)
  next
    case (5 k)
    then show ?case using d(4,5) [of k] i that d(2,3) by (auto simp: nth_list_update n_result_def split: if_splits)
  qed (use d i that in \<open>auto simp: nth_list_update split: if_splits\<close>)
qed

text \<open>The steps of a worker.\<close>

lemma worker_takes_inv:
  assumes inv: "pool_inv reqs a0 s hist" and j: "j < length (pool_workers s)"
    and w: "pool_workers s ! j = Receiving" "pool_queue s = i # q"
  shows "pool_inv reqs a0 (s\<lparr>pool_queue := q, pool_workers := (pool_workers s)[j := Serving i]\<rparr>) hist"
proof -
  note d = pool_invD [OF inv] and us = n_serving_update [OF j] and ur = n_replying_update [OF j]
  show ?thesis
  proof (rule pool_invI, goal_cases)
    case (4 k)
    then show ?case using d(4) [of k] us [of "Serving i" k] w by (auto split: if_splits)
  next
    case (5 k)
    then show ?case using d(5) [of k] ur [of "Serving i" k] w by (simp add: n_result_def)
  next
    case (6 k r)
    then show ?case using d(6) by (auto dest: Replying_update)
  qed (use d in auto)
qed

lemma worker_serves_inv:
  assumes inv: "pool_inv reqs a0 s hist" and j: "j < length (pool_workers s)"
    and w: "pool_workers s ! j = Serving i" "served reqs a0 a ((i, res_Allocation r, res_Error r) # hist)"
  shows "pool_inv reqs a0 (s\<lparr>pool_alloc := a, pool_workers := (pool_workers s)[j := Replying i r]\<rparr>)
    ((i, res_Allocation r, res_Error r) # hist)"
proof -
  note d = pool_invD [OF inv] and us = n_serving_update [OF j] and ur = n_replying_update [OF j]
  have "Serving i \<in> set (pool_workers s)" using j w(1) by (metis nth_mem)
  note o = served_once [OF inv this]
  show ?thesis
  proof (rule pool_invI, goal_cases)
    case (4 k)
    then show ?case using d(4) [of k] us [of "Replying i r" k] w o by (auto split: if_splits)
  next
    case (5 k)
    then show ?case using d(5) [of k] ur [of "Replying i r" k] w o by (auto simp: n_result_def split: if_splits)
  next
    case (6 k r')
    then show ?case using d(6) by (auto dest: Replying_update)
  qed (use d w in auto)
qed

lemma worker_replies_inv:
  assumes inv: "pool_inv reqs a0 s hist" and j: "j < length (pool_workers s)"
    and w: "pool_workers s ! j = Replying i r" "pool_results s ! i = None"
  shows "pool_inv reqs a0 (s\<lparr>pool_results := (pool_results s)[i := Some r], pool_workers := (pool_workers s)[j := Receiving]\<rparr>) hist"
proof -
  note d = pool_invD [OF inv] and us = n_serving_update [OF j] and ur = n_replying_update [OF j]
  have "Replying i r \<in> set (pool_workers s)" using j w(1) by (metis nth_mem)
  then have m: "(i, res_Allocation r, res_Error r) \<in> set hist" by (rule d(6))
  then have "0 < count_list (map fst hist) i" unfolding count_list_pos by force
  then have l: "i < length reqs" using d(4) [of i] by (auto split: if_splits)
  show ?thesis
  proof (rule pool_invI, goal_cases)
    case (4 k)
    then show ?case using d(4) [of k] us [of Receiving k] w by (auto split: if_splits)
  next
    case (5 k)
    then show ?case
      using d(5) [of k] ur [of Receiving k] w l d(3) by (auto simp: n_result_def nth_list_update split: if_splits)
  next
    case (6 k r')
    then show ?case using d(6) by (auto dest: Replying_update)
  next
    case (7 k r')
    then show ?case using d(7) [of k r'] m d(3) l by (auto simp: nth_list_update split: if_splits)
  qed (use d in auto)
qed

lemma pool_step_inv:
  assumes "pool_step reqs s s'" "pool_inv reqs a0 s hist"
  shows "\<exists>hist'. pool_inv reqs a0 s' hist'"
  using assms(1)
proof cases
  case (direct i ord now a r)
  then show ?thesis
    using caller_steps_inv(3) [OF assms(2)] served.next_one [OF pool_invD(1) [OF assms(2)]] by blast
next
  case (serve j i ord now a q)
  obtain r where r: "allocateSync ord (pool_alloc s) (rq_Size (reqs ! i)) (rq_RegionType (reqs ! i)) (rq_Flags (reqs ! i)) now = Inr (a, r)"
    "(res_Allocation q, res_Error q) = sync_answer r" by (rule doAllocate_answer [OF serve(5)])
  have "served reqs a0 a ((i, res_Allocation q, res_Error q) # hist)"
    unfolding r(2) by (rule served.next_one [OF pool_invD(1) [OF assms(2)] serve(4) r(1)])
  then show ?thesis unfolding serve(1) using worker_serves_inv [OF assms(2) serve(2,3)] by blast
next
  case (receive i q)
  then show ?thesis using caller_steps_inv(4) [OF assms(2)] by blast
next
  case (take j i q)
  then show ?thesis using worker_takes_inv [OF assms(2)] by blast
next
  case (reply j i r)
  then show ?thesis using worker_replies_inv [OF assms(2)] by blast
qed (use assms(2) caller_steps_inv in blast)+

lemma pool_run_inv:
  assumes "(pool_step reqs)\<^sup>*\<^sup>* s s'" "pool_inv reqs a0 s hist"
  shows "\<exists>hist'. pool_inv reqs a0 s' hist'"
  using assms by (induction arbitrary: hist rule: converse_rtranclp_induct) (auto dest: pool_step_inv)

lemma distinct_count_list: "(\<And>x. count_list xs x \<le> 1) \<Longrightarrow> distinct xs"
proof (induction xs)
  case (Cons y ys)
  have "count_list ys x \<le> 1" for x using Cons.prems [of x] by (simp split: if_splits)
  moreover have "count_list ys y = 0" using Cons.prems [of y] by simp
  ultimately show ?case using Cons.IH by (simp add: count_list_0_iff)
qed simp

lemma history_ids:
  assumes "pool_inv reqs a0 s hist"
  shows "distinct (map fst hist)" "\<forall>e \<in> set hist. fst e < length reqs" "length hist \<le> length reqs"
proof -
  note d = pool_invD(4) [OF assms]
  have le: "count_list (map fst hist) i \<le> 1" for i using d [of i] by (auto split: if_splits)
  show di: "distinct (map fst hist)"
    using le by (rule distinct_count_list)
  show l: "\<forall>e \<in> set hist. fst e < length reqs"
  proof
    fix e assume "e \<in> set hist"
    then have "0 < count_list (map fst hist) (fst e)" by (simp add: count_list_pos)
    then show "fst e < length reqs" using d [of "fst e"] by (auto split: if_splits)
  qed
  have "card (set (map fst hist)) \<le> card {..<length reqs}" by (rule card_mono) (use l in auto)
  then show "length hist \<le> length reqs" using distinct_card [OF di] by simp
qed

section \<open>Progress\<close>

text \<open>The work that is left.\<close>

fun caller_work :: "caller \<Rightarrow> nat" where
  "caller_work Calling = 6" | "caller_work Direct = 1" | "caller_work _ = 0"

fun worker_work :: "worker \<Rightarrow> nat" where
  "worker_work (Serving _) = 3" | "worker_work (Replying _ _) = 2" | "worker_work Receiving = 0"

definition result_work :: "AllocResult option \<Rightarrow> nat" where
  "result_work r = (if r = None then 0 else 1)"

definition work :: "Pool \<Rightarrow> nat" where
  "work s = sum_list (map caller_work (pool_callers s)) + 4 * length (pool_queue s)
     + sum_list (map worker_work (pool_workers s)) + sum_list (map result_work (pool_results s))"

lemma pool_step_work:
  assumes "pool_step reqs s s'" "pool_inv reqs a0 s hist"
  shows "work s' < work s"
proof -
  note d = pool_invD [OF assms(2)]
  have c: "sum_list (map caller_work ((pool_callers s)[i := y])) + caller_work (pool_callers s ! i)
      = sum_list (map caller_work (pool_callers s)) + caller_work y" if "i < length reqs" for i y
    by (rule sum_list_update_nat) (use that d(2) in simp)
  have w: "sum_list (map worker_work ((pool_workers s)[j := y])) + worker_work (pool_workers s ! j)
      = sum_list (map worker_work (pool_workers s)) + worker_work y" if "j < length (pool_workers s)" for j y
    by (rule sum_list_update_nat) (rule that)
  have r: "sum_list (map result_work ((pool_results s)[i := y])) + result_work (pool_results s ! i)
      = sum_list (map result_work (pool_results s)) + result_work y" if "i < length reqs" for i y
    by (rule sum_list_update_nat) (use that d(3) in simp)
  from assms(1) show ?thesis
  proof cases
    case (submit i)
    then show ?thesis using c [of i Waiting] by (simp add: work_def)
  next
    case (overflow i)
    then show ?thesis using c [of i Direct] by (simp add: work_def)
  next
    case (direct i ord now a q)
    then show ?thesis using c [of i "Returned (sync_answer q)"] by (simp add: work_def)
  next
    case (receive i q)
    then show ?thesis
      using c [of i "Returned (res_Allocation q, res_Error q)"] r [of i None] by (simp add: work_def result_work_def)
  next
    case (take j i q)
    then show ?thesis using w [of j "Serving i"] by (simp add: work_def)
  next
    case (serve j i ord now a q)
    then show ?thesis using w [of j "Replying i q"] by (simp add: work_def)
  next
    case (reply j i q)
    have "Replying i q \<in> set (pool_workers s)" using reply(2,3) by (metis nth_mem)
    then have "i < length reqs" using d(6) history_ids(2) [OF assms(2)] by fastforce
    then show ?thesis
      using reply w [of j Receiving] r [of i "Some q"] by (simp add: work_def result_work_def)
  qed
qed

lemma new_pool_work: "work (new_pool c n) = 6 * n"
  by (simp add: work_def new_pool_def startWorkers_def result_work_def sum_list_replicate)

text \<open>The allocator has room for every request that is still to be served.\<close>

lemma pool_sync:
  assumes inv: "pool_inv reqs a0 s hist" and ok: "al_ok (Suc (length reqs)) a0" and pr: "proper reqs" and i: "i < length reqs"
  obtains a r where "allocateSync (\<lambda>n. [0..<n]) (pool_alloc s) (rq_Size (reqs ! i)) (rq_RegionType (reqs ! i))
    (rq_Flags (reqs ! i)) 0 = Inr (a, r)"
proof -
  note h = history_ids [OF inv]
  have "al_ok (length hist + Suc (length reqs - length hist)) a0" using ok h(3) by simp
  then have "al_ok (Suc (length reqs - length hist)) (pool_alloc s)"
    using served_safe [OF pool_invD(1) [OF inv] _ pr h(2)] by blast
  moreover have "0 < rq_Size (reqs ! i)" using pr i by simp
  ultimately show thesis using sync_step [of _ "pool_alloc s" "\<lambda>n. [0..<n]"] that by blast
qed

text \<open>A worker can always do something while requests are queued or it has one.\<close>

lemma worker_progress:
  assumes inv: "pool_inv reqs a0 s hist" and ok: "al_ok (Suc (length reqs)) a0" and pr: "proper reqs"
    and w: "w \<in> set (pool_workers s)" "w \<noteq> Receiving \<or> pool_queue s \<noteq> []"
  shows "\<exists>s'. pool_step reqs s s'"
proof -
  from w(1) obtain j where j: "j < length (pool_workers s)" "pool_workers s ! j = w" by (auto simp: in_set_conv_nth)
  show ?thesis
  proof (cases w)
    case Receiving
    then obtain i q where "pool_queue s = i # q" using w(2) by (cases "pool_queue s") auto
    then show ?thesis using pool_step.take j Receiving by blast
  next
    case (Serving i)
    have i: "i < length reqs" using served_once(1) [OF inv] w(1) Serving by blast
    obtain a r where
      "allocateSync (\<lambda>n. [0..<n]) (pool_alloc s) (rq_Size (reqs ! i)) (rq_RegionType (reqs ! i)) (rq_Flags (reqs ! i)) 0 = Inr (a, r)"
      by (rule pool_sync [OF inv ok pr i])
    then obtain q where
      "doAllocate (\<lambda>n. [0..<n]) (pool_alloc s) (rq_Size (reqs ! i)) (rq_RegionType (reqs ! i)) (rq_Flags (reqs ! i)) 0 = Inr (a, q)"
      by (simp add: doAllocate_def)
    then show ?thesis using pool_step.serve [of j s i "\<lambda>n. [0..<n]" reqs] j Serving by blast
  next
    case (Replying i r)
    have m: "(i, res_Allocation r, res_Error r) \<in> set hist" using pool_invD(6) [OF inv] w(1) Replying by blast
    then have i: "i < length reqs" using history_ids(2) [OF inv] by fastforce
    have "0 < n_replying (pool_workers s) i" using w(1) Replying n_replying_pos by blast
    moreover have "count_list (map fst hist) i \<le> 1" using pool_invD(4) [OF inv, of i] by (auto split: if_splits)
    ultimately have "pool_results s ! i = None"
      using pool_invD(5) [OF inv i] by (auto simp: n_result_def split: if_splits)
    then show ?thesis using pool_step.reply j Replying by blast
  qed
qed

lemma caller_progress:
  assumes inv: "pool_inv reqs a0 s hist" and ok: "al_ok (Suc (length reqs)) a0" and pr: "proper reqs"
    and ws: "pool_workers s \<noteq> []" and i: "i < length reqs" "\<forall>p. pool_callers s ! i \<noteq> Returned p"
  shows "\<exists>s'. pool_step reqs s s'"
proof (cases "pool_callers s ! i")
  case Calling
  then show ?thesis
    using pool_step.submit [OF i(1) Calling] pool_step.overflow [OF i(1) Calling] by blast
next
  case Direct
  obtain a r where
    "allocateSync (\<lambda>n. [0..<n]) (pool_alloc s) (rq_Size (reqs ! i)) (rq_RegionType (reqs ! i)) (rq_Flags (reqs ! i)) 0 = Inr (a, r)"
    by (rule pool_sync [OF inv ok pr i(1)])
  then show ?thesis using pool_step.direct [OF i(1) Direct, of "\<lambda>n. [0..<n]"] by blast
next
  case Waiting
  show ?thesis
  proof (cases "\<exists>w \<in> set (pool_workers s). w \<noteq> Receiving \<or> pool_queue s \<noteq> []")
    case True
    then show ?thesis using worker_progress [OF inv ok pr] by blast
  next
    case False
    moreover obtain w where "w \<in> set (pool_workers s)" using ws by (cases "pool_workers s") auto
    ultimately have idle: "\<forall>w \<in> set (pool_workers s). w = Receiving" "pool_queue s = []" by blast+
    then have "n_serving (pool_workers s) i = 0" "n_replying (pool_workers s) i = 0"
      using n_serving_pos [of "pool_workers s" i] n_replying_pos [of "pool_workers s" i] by auto
    then have "n_result s i = 1"
      using pool_invD(4) [OF inv, of i] pool_invD(5) [OF inv i(1)] Waiting i(1) idle(2) by simp
    then obtain q where "pool_results s ! i = Some q" by (auto simp: n_result_def split: if_splits)
    then show ?thesis using pool_step.receive [OF i(1) Waiting] by blast
  qed
next
  case (Returned p)
  then show ?thesis using i(2) by simp
qed


section \<open>Properties\<close>

lemma pool_run_bound:
  assumes "(pool_step reqs ^^ m) s s'" "pool_inv reqs a0 s hist"
  shows "m + work s' \<le> work s \<and> length (pool_workers s') = length (pool_workers s) \<and> (\<exists>hist'. pool_inv reqs a0 s' hist')"
  using assms
proof (induction m arbitrary: s')
  case (Suc m)
  from Suc.prems(1) obtain t where t: "(pool_step reqs ^^ m) s t" "pool_step reqs t s'" by auto
  from Suc.IH [OF t(1) Suc.prems(2)] obtain hist1 where
    i: "m + work t \<le> work s" "length (pool_workers t) = length (pool_workers s)" "pool_inv reqs a0 t hist1" by blast
  have "length (pool_workers s') = length (pool_workers t)" using t(2) by cases simp_all
  then show ?case using i pool_step_work [OF t(2) i(3)] pool_step_inv [OF t(2) i(3)] by auto
qed auto

text \<open>
  C9.  The concurrent allocator is linearizable.  However the calls of any number of clients and
  the workers are interleaved, what has happened is a sequential execution of \<^verbatim>\<open>allocateSync\<close>, in which
  every request is served at most once; a call that has returned was given the answer of its own
  request; and the blocks that were granted never overlap.
\<close>

theorem workers_linearizable:
  assumes "cfg_PlaneSize c \<noteq> 0" "length reqs < 2 ^ 63" "\<forall>q \<in> set reqs. 0 < rq_Size q"
    and "(pool_step reqs)\<^sup>*\<^sup>* (new_pool c (length reqs)) s"
  shows "\<exists>hist. served reqs (NewAllocator3D c) (pool_alloc s) hist \<and> distinct (map fst hist)
    \<and> (\<forall>i < length reqs. \<forall>p. pool_callers s ! i = Returned p \<longrightarrow> (i, p) \<in> set hist)
    \<and> pairwise_disjoint alloc_cells (hist_allocs hist)"
proof -
  from pool_run_inv [OF assms(4) new_pool_inv] obtain hist where inv: "pool_inv reqs (NewAllocator3D c) s hist" ..
  note h = history_ids [OF inv]
  have "al_ok (length hist + 0) (NewAllocator3D c)"
    by (rule NewAllocator3D_ok [OF assms(1)]) (use h(3) assms(2) in simp)
  then have "pairwise_disjoint alloc_cells (hist_allocs hist)"
    using served_safe [OF pool_invD(1) [OF inv] _ assms(3) h(2), of 0] by blast
  then show ?thesis using pool_invD(1,8) [OF inv] h(1) by blast
qed

definition demo_requests :: "AllocRequest list" where
  "demo_requests = [\<lparr>rq_Size = 40, rq_RegionType = RegionTypeHeap, rq_Flags = 0\<rparr>, \<lparr>rq_Size = 30, rq_RegionType = RegionTypeHeap, rq_Flags = 0\<rparr>]"

lemma demo_requests_ok:
  "cfg_PlaneSize demo_config \<noteq> 0" "length demo_requests < 2 ^ 63" "\<forall>q \<in> set demo_requests. 0 < rq_Size q"
  "0 < cfg_WorkerCount demo_config" "length demo_requests = 2"
  by (simp_all add: demo_config_def demo_requests_def)

theorem workers_linearizable_witness:
  "\<exists>(s :: Pool) hist. (pool_step demo_requests)\<^sup>*\<^sup>* (new_pool demo_config (length demo_requests)) s
     \<and> pool_queue s = [1] \<and> served demo_requests (NewAllocator3D demo_config) (pool_alloc s) hist \<and> distinct (map fst hist)"
proof -
  let ?p = "new_pool demo_config (length demo_requests)"
  let ?s = "?p\<lparr>pool_queue := pool_queue ?p @ [1], pool_callers := (pool_callers ?p)[1 := Waiting]\<rparr>"
  have "pool_step demo_requests ?p ?s"
    by (rule pool_step.submit) (simp_all add: demo_requests_def new_pool_def workers_cap_def)
  then have r: "(pool_step demo_requests)\<^sup>*\<^sup>* ?p ?s" by (rule r_into_rtranclp)
  from workers_linearizable [OF demo_requests_ok(1-3) r] obtain hist where
    "served demo_requests (NewAllocator3D demo_config) (pool_alloc ?s) hist" "distinct (map fst hist)" by blast
  moreover have "pool_queue ?s = [1]" by (simp add: new_pool_def)
  ultimately show ?thesis using r by (intro exI [of _ ?s] exI [of _ hist] conjI)
qed

text \<open>
  C10.  The concurrent allocator answers everybody.  With at least one worker, no interleaving of
  calls and workers goes on for more than six steps per call, and none gets stuck before every
  call has returned: nobody waits for ever and no request is lost.
\<close>

theorem workers_complete:
  assumes "cfg_PlaneSize c \<noteq> 0" "length reqs < 2 ^ 63" "\<forall>q \<in> set reqs. 0 < rq_Size q" "0 < cfg_WorkerCount c"
    and "(pool_step reqs ^^ m) (new_pool c (length reqs)) s"
  shows "m \<le> 6 * length reqs \<and>
    ((\<forall>s'. \<not> pool_step reqs s s') \<longrightarrow> (\<forall>i < length reqs. \<exists>p. pool_callers s ! i = Returned p))"
proof -
  from pool_run_bound [OF assms(5) new_pool_inv] obtain hist where
    b: "m \<le> 6 * length reqs" "length (pool_workers s) = length (startWorkers c)" "pool_inv reqs (NewAllocator3D c) s hist"
    by (auto simp: new_pool_work) (simp add: new_pool_def)
  have ws: "pool_workers s \<noteq> []" using b(2) assms(4) by (auto simp: startWorkers_def)
  have ok: "al_ok (Suc (length reqs)) (NewAllocator3D c)"
    by (rule NewAllocator3D_ok [OF assms(1)]) (use assms(2) in simp)
  show ?thesis using b(1) caller_progress [OF b(3) ok assms(3) ws] by blast
qed

theorem workers_complete_witness:
  "\<exists>s p q. pool_callers s ! 0 = Returned p \<and> pool_callers s ! 1 = Returned q \<and> (pool_step demo_requests)\<^sup>*\<^sup>* (new_pool demo_config 2) s"
proof -
  let ?p = "new_pool demo_config (length demo_requests)"
  note a = demo_requests_ok(1-4)
  let ?m = "GREATEST m. \<exists>s. (pool_step demo_requests ^^ m) ?p s"
  have "\<exists>s. (pool_step demo_requests ^^ ?m) ?p s"
    by (rule GreatestI_nat [of _ 0 "6 * length demo_requests"]) (use workers_complete [OF a] in auto)
  then obtain s where s: "(pool_step demo_requests ^^ ?m) ?p s" ..
  have "\<not> pool_step demo_requests s s'" for s'
  proof
    assume "pool_step demo_requests s s'"
    with s have "\<exists>s. (pool_step demo_requests ^^ Suc ?m) ?p s" by auto
    then have "Suc ?m \<le> ?m"
      by (rule Greatest_le_nat [of _ _ "6 * length demo_requests"]) (use workers_complete [OF a] in auto)
    then show False by simp
  qed
  then have "\<forall>i < length demo_requests. \<exists>p. pool_callers s ! i = Returned p" using workers_complete [OF a s] by blast
  moreover have "0 < length demo_requests" "1 < length demo_requests" by (simp_all add: demo_requests_ok(5))
  ultimately obtain p q where "pool_callers s ! 0 = Returned p" "pool_callers s ! 1 = Returned q" by blast
  then show ?thesis using relpowp_imp_rtranclp [OF s] unfolding demo_requests_ok(5) by blast
qed

end
