(* ===== verification/PoolShutdown.thy ===== *)
theory PoolShutdown
  imports Workers
begin

text \<open>
  \<^verbatim>\<open>Shutdown\<close> of \<^verbatim>\<open>internal/allocator/allocator.go\<close> while calls are in flight.  Closing the channel of
  requests lets every worker serve what is queued and then leave its loop; a caller that comes to
  the channel afterwards panics, which ends the program.  The steps of the open pool are those of the
  worker pool; whether the channel is closed is kept beside the pool.
\<close>

record Service =
  sv_pool :: Pool
  sv_closed :: bool
  sv_exited :: "bool list"
  sv_panicked :: bool

definition new_service :: "Config \<Rightarrow> nat \<Rightarrow> Service" where
  "new_service c n = \<lparr>sv_pool = new_pool c n, sv_closed = False, sv_exited = map (\<lambda>_. False) (startWorkers c), sv_panicked = False\<rparr>"

text \<open>No caller passes the channel, neither into the queue nor, when that is full, to serve itself.\<close>

definition none_passes :: "Pool \<Rightarrow> Pool \<Rightarrow> bool" where
  "none_passes p p' \<longleftrightarrow> (\<forall>i < length (pool_callers p). pool_callers p ! i = Calling \<longrightarrow> pool_callers p' ! i = Calling)"

inductive service_step :: "AllocRequest list \<Rightarrow> Service \<Rightarrow> Service \<Rightarrow> bool" for reqs where
  operate: "\<not> sv_panicked v \<Longrightarrow> pool_step reqs (sv_pool v) p \<Longrightarrow> sv_closed v \<longrightarrow> none_passes (sv_pool v) p \<Longrightarrow>
    service_step reqs v (v\<lparr>sv_pool := p\<rparr>)"
| shutdown: "\<not> sv_panicked v \<Longrightarrow> \<not> sv_closed v \<Longrightarrow> service_step reqs v (v\<lparr>sv_closed := True\<rparr>)"
| send_on_closed: "\<not> sv_panicked v \<Longrightarrow> sv_closed v \<Longrightarrow> i < length reqs \<Longrightarrow> pool_callers (sv_pool v) ! i = Calling \<Longrightarrow>
    service_step reqs v (v\<lparr>sv_panicked := True\<rparr>)"
| leave: "\<not> sv_panicked v \<Longrightarrow> sv_closed v \<Longrightarrow> j < length (pool_workers (sv_pool v)) \<Longrightarrow> pool_workers (sv_pool v) ! j = Receiving \<Longrightarrow>
    pool_queue (sv_pool v) = [] \<Longrightarrow> \<not> sv_exited v ! j \<Longrightarrow> service_step reqs v (v\<lparr>sv_exited := (sv_exited v)[j := True]\<rparr>)"

inductive_cases service_stepE: "service_step reqs v v'"

section \<open>Invariant\<close>

text \<open>
  A worker that has left had nothing to do and finds nothing to do later; and only a caller that
  has not passed the closed channel makes the program panic.
\<close>

definition service_inv :: "AllocRequest list \<Rightarrow> Allocator3D \<Rightarrow> Service \<Rightarrow> (nat \<times> answer) list \<Rightarrow> bool" where
  "service_inv reqs a0 v hist \<longleftrightarrow> pool_inv reqs a0 (sv_pool v) hist \<and> length (sv_exited v) = length (pool_workers (sv_pool v))
     \<and> (\<forall>j < length (sv_exited v). sv_exited v ! j \<longrightarrow>
          sv_closed v \<and> pool_workers (sv_pool v) ! j = Receiving \<and> pool_queue (sv_pool v) = [])
     \<and> (sv_panicked v \<longrightarrow> sv_closed v \<and> (\<exists>i < length reqs. pool_callers (sv_pool v) ! i = Calling))"

lemma new_service_inv: "service_inv reqs (NewAllocator3D c) (new_service c (length reqs)) []"
  by (simp add: service_inv_def new_service_def new_pool_inv) (simp add: new_pool_def)

lemma pool_step_workers: "pool_step reqs p p' \<Longrightarrow> length (pool_workers p') = length (pool_workers p)"
  by (cases rule: pool_step.cases) auto

text \<open>With an empty queue that stays closed, waiting workers keep waiting.\<close>

lemma drained_step:
  assumes "pool_step reqs p p'" "none_passes p p'" "pool_queue p = []" "length (pool_callers p) = length reqs"
  shows "pool_queue p' = []" "pool_workers p ! j = Receiving \<Longrightarrow> pool_workers p' ! j = Receiving"
  using assms by (cases rule: pool_step.cases; auto simp: none_passes_def nth_list_update; fail)+

lemma service_step_inv:
  assumes "service_step reqs v v'" "service_inv reqs a0 v hist"
  shows "\<exists>hist'. service_inv reqs a0 v' hist'"
  using assms(1)
proof cases
  case (operate p)
  have "pool_inv reqs a0 (sv_pool v) hist" using assms(2) by (simp add: service_inv_def)
  from pool_step_inv [OF operate(3) this] obtain hist' where inv: "pool_inv reqs a0 p hist'" ..
  have l: "length (pool_callers (sv_pool v)) = length reqs" using assms(2) pool_invD(2) by (auto simp: service_inv_def)
  have "sv_closed v \<and> pool_workers p ! j = Receiving \<and> pool_queue p = []" if "j < length (sv_exited v)" "sv_exited v ! j" for j
    using assms(2) that drained_step [OF operate(3) _ _ l] operate(4) by (auto simp: service_inv_def)
  with inv assms(2) operate pool_step_workers [OF operate(3)] show ?thesis
    by (intro exI [of _ hist']) (simp add: service_inv_def)
next
  case (leave j)
  then show ?thesis using assms(2) by (intro exI [of _ hist]) (auto simp: service_inv_def nth_list_update)
qed (use assms(2) in \<open>auto simp: service_inv_def intro!: exI [of _ hist]\<close>)

section \<open>Progress\<close>

definition service_work :: "Service \<Rightarrow> nat" where
  "service_work v = work (sv_pool v) + (if sv_closed v then 0 else 1) + count_list (sv_exited v) False + (if sv_panicked v then 0 else 1)"

lemma count_list_update_True: "j < length bs \<Longrightarrow> \<not> bs ! j \<Longrightarrow> Suc (count_list (bs[j := True]) False) = count_list bs False"
proof (induction bs arbitrary: j)
  case (Cons b bs)
  then show ?case by (cases j) auto
qed simp

lemma count_list_replicate_same: "count_list (replicate n x) x = n"
  by (induction n) auto

lemma service_step_work:
  assumes "service_step reqs v v'" "service_inv reqs a0 v hist"
  shows "service_work v' < service_work v"
  using assms(1)
proof cases
  case (operate p)
  have "pool_inv reqs a0 (sv_pool v) hist" using assms(2) by (simp add: service_inv_def)
  from pool_step_work [OF operate(3) this] operate(1) show ?thesis by (simp add: service_work_def)
next
  case (leave j)
  then have "j < length (sv_exited v)" using assms(2) by (simp add: service_inv_def)
  then show ?thesis using leave count_list_update_True [of j "sv_exited v"] by (simp add: service_work_def)
qed (auto simp: service_work_def)

lemma service_run:
  assumes "(service_step reqs ^^ m) v v'" "service_inv reqs a0 v hist"
  shows "m + service_work v' \<le> service_work v \<and> length (sv_exited v') = length (sv_exited v) \<and> (\<exists>hist'. service_inv reqs a0 v' hist')"
  using assms
proof (induction m arbitrary: v')
  case (Suc m)
  from Suc.prems(1) obtain t where t: "(service_step reqs ^^ m) v t" "service_step reqs t v'" by auto
  from Suc.IH [OF t(1) Suc.prems(2)] obtain hist1 where
    i: "m + service_work t \<le> service_work v" "length (sv_exited t) = length (sv_exited v)" "service_inv reqs a0 t hist1" by blast
  have "length (sv_exited v') = length (sv_exited t)" using t(2) by cases simp_all
  then show ?case using i service_step_work [OF t(2) i(3)] service_step_inv [OF t(2) i(3)] by auto
qed auto

lemma service_progress:
  assumes inv: "service_inv reqs a0 v hist" and ok: "al_ok (Suc (length reqs)) a0" and pr: "proper reqs"
    and ws: "pool_workers (sv_pool v) \<noteq> []" and np: "\<not> sv_panicked v" and st: "\<forall>v'. \<not> service_step reqs v v'"
  shows "sv_closed v" "\<forall>i < length reqs. \<exists>p. pool_callers (sv_pool v) ! i = Returned p" "\<forall>b \<in> set (sv_exited v). b"
proof -
  have pinv: "pool_inv reqs a0 (sv_pool v) hist" using inv by (simp add: service_inv_def)
  show closed: "sv_closed v" using service_step.shutdown [OF np] st by blast
  have "pool_callers (sv_pool v) ! i \<noteq> Calling" if "i < length reqs" for i
    using service_step.send_on_closed [OF np closed that] st by blast
  then have "none_passes (sv_pool v) p" for p using pool_invD(2) [OF pinv] by (simp add: none_passes_def)
  then have no_step: "\<not> pool_step reqs (sv_pool v) p" for p using service_step.operate [OF np] st by blast
  then show "\<forall>i < length reqs. \<exists>p. pool_callers (sv_pool v) ! i = Returned p"
    using caller_progress [OF pinv ok pr ws] by blast
  have "sv_exited v ! j" if j: "j < length (sv_exited v)" for j
  proof -
    have j': "j < length (pool_workers (sv_pool v))" using j inv by (simp add: service_inv_def)
    then have "pool_workers (sv_pool v) ! j = Receiving \<and> pool_queue (sv_pool v) = []"
      using worker_progress [OF pinv ok pr nth_mem [OF j']] no_step by blast
    then show ?thesis using service_step.leave [OF np closed j'] st by blast
  qed
  then show "\<forall>b \<in> set (sv_exited v). b" by (auto simp: in_set_conv_nth)
qed

section \<open>Properties\<close>

text \<open>
  C13. \<^verbatim>\<open>Shutdown\<close> drains the pool.  With at least one worker, whenever the channel is closed, every run
  of callers, workers and the shutdown ends after a bounded number of steps.  Either a caller came to the
  closed channel, and then the program panicked; or every call has returned with the answer of its own
  request in one sequential execution of \<^verbatim>\<open>allocateSync\<close>, the granted blocks are disjoint, the queue is
  empty and every worker has left its loop: no goroutine is leaked.
\<close>

theorem shutdown_drains:
  assumes "cfg_PlaneSize c \<noteq> 0" "length reqs < 2 ^ 63" "\<forall>q \<in> set reqs. 0 < rq_Size q" "0 < cfg_WorkerCount c"
    and "(service_step reqs ^^ m) (new_service c (length reqs)) v"
  shows "m \<le> 6 * length reqs + nat (cfg_WorkerCount c) + 2 \<and>
    ((\<forall>v'. \<not> service_step reqs v v') \<longrightarrow> sv_closed v \<and>
      (if sv_panicked v then \<exists>i < length reqs. pool_callers (sv_pool v) ! i = Calling
       else (\<forall>b \<in> set (sv_exited v). b) \<and> pool_queue (sv_pool v) = []
         \<and> (\<exists>hist. served reqs (NewAllocator3D c) (pool_alloc (sv_pool v)) hist \<and> distinct (map fst hist)
             \<and> (\<forall>i < length reqs. \<exists>p. pool_callers (sv_pool v) ! i = Returned p \<and> (i, p) \<in> set hist)
             \<and> pairwise_disjoint alloc_cells (hist_allocs hist))))"
proof -
  let ?w = "nat (cfg_WorkerCount c)"
  have new: "service_work (new_service c (length reqs)) = 6 * length reqs + ?w + 2" "length (sv_exited (new_service c (length reqs))) = ?w"
    by (simp_all add: service_work_def new_service_def new_pool_work startWorkers_def count_list_replicate_same)
  from service_run [OF assms(5) new_service_inv] new obtain hist where
    b: "m \<le> 6 * length reqs + ?w + 2" "length (sv_exited v) = ?w" and inv: "service_inv reqs (NewAllocator3D c) v hist"
    by auto
  have pinv: "pool_inv reqs (NewAllocator3D c) (sv_pool v) hist" and
    ex: "\<forall>j < length (sv_exited v). sv_exited v ! j \<longrightarrow> pool_queue (sv_pool v) = []" and
    len: "length (pool_workers (sv_pool v)) = ?w"
    using inv b(2) by (simp_all add: service_inv_def)
  have ws: "pool_workers (sv_pool v) \<noteq> []" using len assms(4) by auto
  have ok: "al_ok (Suc (length reqs)) (NewAllocator3D c)"
    by (rule NewAllocator3D_ok [OF assms(1)]) (use assms(2) in simp)
  note h = history_ids [OF pinv]
  have "al_ok (length hist + 0) (NewAllocator3D c)"
    by (rule NewAllocator3D_ok [OF assms(1)]) (use h(3) assms(2) in simp)
  then have disj: "pairwise_disjoint alloc_cells (hist_allocs hist)"
    using served_safe [OF pool_invD(1) [OF pinv] _ assms(3) h(2), of 0] by blast
  show ?thesis
  proof (intro conjI impI)
    show "m \<le> 6 * length reqs + ?w + 2" by (rule b(1))
    assume st: "\<forall>v'. \<not> service_step reqs v v'"
    show "sv_closed v"
      using service_progress(1) [OF inv ok assms(3) ws _ st] inv by (cases "sv_panicked v") (auto simp: service_inv_def)
    show "if sv_panicked v then \<exists>i < length reqs. pool_callers (sv_pool v) ! i = Calling
       else (\<forall>b \<in> set (sv_exited v). b) \<and> pool_queue (sv_pool v) = []
         \<and> (\<exists>hist. served reqs (NewAllocator3D c) (pool_alloc (sv_pool v)) hist \<and> distinct (map fst hist)
             \<and> (\<forall>i < length reqs. \<exists>p. pool_callers (sv_pool v) ! i = Returned p \<and> (i, p) \<in> set hist)
             \<and> pairwise_disjoint alloc_cells (hist_allocs hist))"
    proof (cases "sv_panicked v")
      case True
      then show ?thesis using inv by (simp add: service_inv_def)
    next
      case False
      note p = service_progress [OF inv ok assms(3) ws False st]
      have "0 < length (sv_exited v)" using b(2) assms(4) by simp
      moreover from this have "sv_exited v ! 0" using p(3) nth_mem by blast
      ultimately have "pool_queue (sv_pool v) = []" using ex by blast
      moreover have "\<forall>i < length reqs. \<exists>p. pool_callers (sv_pool v) ! i = Returned p \<and> (i, p) \<in> set hist"
        using p(2) pool_invD(8) [OF pinv] by blast
      ultimately show ?thesis using False p(3) pool_invD(1) [OF pinv] h(1) disj by auto
    qed
  qed
qed

text \<open>Nobody returns to the channel, so that a shutdown after the last submission does not panic.\<close>

lemma nth_update_other: "xs[k := y] ! i = z \<Longrightarrow> y \<noteq> z \<Longrightarrow> xs ! i = z"
  by (cases "k < length xs"; cases "k = i") (auto simp: list_update_beyond)

lemma calling_before:
  assumes "(service_step reqs ^^ m) v v'" "pool_callers (sv_pool v') ! i = Calling"
  shows "pool_callers (sv_pool v) ! i = Calling"
  using assms
proof (induction m arbitrary: v')
  case (Suc m)
  then obtain t where t: "(service_step reqs ^^ m) v t" "service_step reqs t v'" by auto
  have "pool_step reqs p p' \<Longrightarrow> pool_callers p' ! i = Calling \<Longrightarrow> pool_callers p ! i = Calling" for p p'
    by (cases rule: pool_step.cases, assumption) (auto dest: nth_update_other)
  with t(2) Suc.prems(2) have "pool_callers (sv_pool t) ! i = Calling" by (auto elim!: service_stepE)
  with Suc.IH [OF t(1)] show ?case .
qed simp

theorem shutdown_drains_witness:
  "\<exists>v p q. (service_step demo_requests)\<^sup>*\<^sup>* (new_service demo_config 2) v \<and> sv_closed v \<and> \<not> sv_panicked v \<and> (\<forall>b \<in> set (sv_exited v). b)
     \<and> pool_callers (sv_pool v) ! 0 = Returned p \<and> pool_callers (sv_pool v) ! 1 = Returned q"
proof -
  let ?v0 = "new_service demo_config (length demo_requests)"
  let ?submitted = "\<lambda>i p. p\<lparr>pool_queue := pool_queue p @ [i], pool_callers := (pool_callers p)[i := Waiting]\<rparr>"
  let ?p1 = "?submitted 0 (sv_pool ?v0)" and ?p2 = "?submitted 1 (?submitted 0 (sv_pool ?v0))"
  let ?v1 = "?v0\<lparr>sv_pool := ?p1\<rparr>" and ?v2 = "?v0\<lparr>sv_pool := ?p2\<rparr>"
  let ?v3 = "?v2\<lparr>sv_closed := True\<rparr>"
  have s0: "pool_step demo_requests (sv_pool ?v0) ?p1" and s1: "pool_step demo_requests ?p1 ?p2"
    by (rule pool_step.submit; simp add: demo_requests_def new_service_def new_pool_def workers_cap_def)+
  have "service_step demo_requests ?v0 ?v1" using service_step.operate [OF _ s0] by (simp add: new_service_def)
  moreover have "service_step demo_requests ?v1 ?v2"
    using service_step.operate [of ?v1 demo_requests ?p2] s1 by (simp add: new_service_def)
  moreover have "service_step demo_requests ?v2 ?v3" by (rule service_step.shutdown) (simp_all add: new_service_def)
  ultimately have r3: "(service_step demo_requests ^^ 3) ?v0 ?v3" by (auto simp: numeral_3_eq_3)
  note a = demo_requests_ok(1-4)
  let ?P = "\<lambda>k. \<exists>v. (service_step demo_requests ^^ k) ?v3 v" and ?B = "6 * length demo_requests + nat (cfg_WorkerCount demo_config) + 2"
  have ext: "(service_step demo_requests ^^ (3 + k)) ?v0 v" if "(service_step demo_requests ^^ k) ?v3 v" for k v
    using r3 that unfolding relpowp_add by blast
  have bd: "k \<le> ?B" if "?P k" for k using that shutdown_drains [OF a] ext by fastforce
  let ?k = "GREATEST k. ?P k"
  have "?P ?k" by (rule GreatestI_nat [of ?P 0 ?B]) (use bd in auto)
  then obtain v where v: "(service_step demo_requests ^^ ?k) ?v3 v" ..
  have fin: "\<not> service_step demo_requests v v'" for v'
  proof
    assume "service_step demo_requests v v'"
    with v have "?P (Suc ?k)" by auto
    then have "Suc ?k \<le> ?k" by (rule Greatest_le_nat [of ?P _ ?B]) (use bd in auto)
    then show False by simp
  qed
  have "pool_callers (sv_pool ?v3) ! i \<noteq> Calling" if "i < length demo_requests" for i
    using that by (auto simp: new_service_def new_pool_def demo_requests_def less_Suc_eq)
  then have "pool_callers (sv_pool v) ! i \<noteq> Calling" if "i < length demo_requests" for i
    using that calling_before [OF v] by blast
  with shutdown_drains [OF a ext [OF v]] fin have e: "sv_closed v" "\<not> sv_panicked v" "\<forall>b \<in> set (sv_exited v). b"
    "\<forall>i < length demo_requests. \<exists>p. pool_callers (sv_pool v) ! i = Returned p" by (auto split: if_splits)
  from e(4) obtain p q where "pool_callers (sv_pool v) ! 0 = Returned p" "pool_callers (sv_pool v) ! 1 = Returned q"
    unfolding demo_requests_ok(5) by (metis one_less_numeral_iff pos2 semiring_norm(76))
  moreover have "(service_step demo_requests)\<^sup>*\<^sup>* ?v0 v" using ext [OF v] by (rule relpowp_imp_rtranclp)
  ultimately show ?thesis using e(1-3) unfolding demo_requests_ok(5) by blast
qed

end
