(* ===== verification/YPromotion.thy ===== *)
theory YPromotion
  imports Region
begin

text \<open>
  \<^verbatim>\<open>internal/allocator/ypromotion.go\<close>: the search for a promotion plan, which spreads a block over
  several planes of a region.  The planes are shared objects that the search changes in place;
  a list of planes selected from a region is a list of positions in it, and the functions
  return the planes as they leave them.  The score is a rational number.
\<close>

section \<open>Plans\<close>

record PromotionFragment =
  pf_PlaneID :: u32
  pf_StartZ :: u16
  pf_Size :: u16

record PromotionPlan =
  pp_RegionID :: u64
  pp_Planes :: "u32 list"
  pp_Fragments :: "PromotionFragment list"
  pp_TotalSize :: u32
  pp_Cost :: u64
  pp_Score :: rat

record BestFitPromoter =
  allowNonAdjacent :: bool
  maxSearchDepth :: int

definition new_plan :: "u32 list \<Rightarrow> PromotionFragment list \<Rightarrow> u32 \<Rightarrow> PromotionPlan" where
  "new_plan planes frags totalSize = \<lparr>pp_RegionID = 0, pp_Planes = planes, pp_Fragments = frags, pp_TotalSize = totalSize,
     pp_Cost = 0, pp_Score = 0\<rparr>"

section \<open>The search\<close>

text \<open>The test allocation and what the code calls its rollback.\<close>

definition probe :: "Plane \<Rightarrow> u16 \<Rightarrow> (Plane \<times> u16 option) go" where
  "probe plane n = go_bind (Plane_Allocate plane n) (\<lambda>(p1, r). case r of
      None \<Rightarrow> Inr (p1, None)
    | Some startZ \<Rightarrow> Inr (fst (Plane_Free p1 startZ), Some startZ))"

text \<open>The loop over the selected planes for one that holds the whole block.\<close>

fun single_plane :: "u32 \<Rightarrow> nat list \<Rightarrow> Plane list \<Rightarrow> (Plane list \<times> PromotionPlan option) go" where
  "single_plane sz [] ps = Inr (ps, None)"
| "single_plane sz (i # is) ps =
     (let plane = ps ! i
      in if ucast (Plane_FreeBytes plane) \<ge> sz then
           go_bind (probe plane (ucast sz)) (\<lambda>(p1, r). case r of
               None \<Rightarrow> single_plane sz is (ps[i := p1])
             | Some startZ \<Rightarrow> Inr (ps[i := p1], Some (new_plan [plane_ID plane]
                 [\<lparr>pf_PlaneID = plane_ID plane, pf_StartZ = startZ, pf_Size = ucast sz\<rparr>] sz)))
         else single_plane sz is ps)"

text \<open>The loop that takes from each plane as much as it can.\<close>

fun multi_plane ::
  "u32 \<Rightarrow> nat list \<Rightarrow> Plane list \<Rightarrow> PromotionFragment list \<Rightarrow> u32 list
     \<Rightarrow> (Plane list \<times> PromotionFragment list \<times> u32 list \<times> u32) go" where
  "multi_plane remaining [] ps fragments usedPlanes = Inr (ps, fragments, usedPlanes, remaining)"
| "multi_plane remaining (i # is) ps fragments usedPlanes =
     (if remaining = 0 then Inr (ps, fragments, usedPlanes, remaining)
      else let plane = ps ! i; freeBytes = Plane_FreeBytes plane
        in if freeBytes = 0 then multi_plane remaining is ps fragments usedPlanes
           else let allocSize = ucast (min (ucast freeBytes) remaining) :: u16
             in go_bind (probe plane allocSize) (\<lambda>(p1, r). case r of
                  None \<Rightarrow> multi_plane remaining is (ps[i := p1]) fragments usedPlanes
                | Some startZ \<Rightarrow> multi_plane (remaining - ucast allocSize) is (ps[i := p1])
                    (fragments @ [\<lparr>pf_PlaneID = plane_ID plane, pf_StartZ = startZ, pf_Size = allocSize\<rparr>])
                    (usedPlanes @ [plane_ID plane])))"

definition findMultiPlaneFit :: "u32 \<Rightarrow> nat list \<Rightarrow> Plane list \<Rightarrow> (Plane list \<times> PromotionPlan option) go" where
  "findMultiPlaneFit sz planes ps =
     go_bind (multi_plane sz planes ps [] []) (\<lambda>(ps', fragments, usedPlanes, remaining).
       Inr (ps', if remaining > 0 then None else Some (new_plan usedPlanes fragments sz)))"

definition findBestFit :: "u32 \<Rightarrow> nat list \<Rightarrow> Plane list \<Rightarrow> (Plane list \<times> PromotionPlan option) go" where
  "findBestFit sz planes ps =
     go_bind (single_plane sz planes ps) (\<lambda>(ps', r). case r of
         Some plan \<Rightarrow> Inr (ps', Some plan)
       | None \<Rightarrow> findMultiPlaneFit sz planes ps')"

definition CalculateCost :: "PromotionPlan \<Rightarrow> u64" where
  "CalculateCost plan =
     (let baseCost = of_nat (GasBaseAllocation + GasPerByte * unat (pp_TotalSize plan));
          promotionPenalty = of_int (int (length (pp_Planes plan)) - 1) * of_nat GasYPromotion
      in baseCost + promotionPenalty)"

fun arePlanesAdjacent :: "u32 list \<Rightarrow> bool" where
  "arePlanesAdjacent (p # q # planes) = (if q \<noteq> p + 1 then False else arePlanesAdjacent (q # planes))"
| "arePlanesAdjacent _ = True"

definition calculateScore :: "PromotionPlan \<Rightarrow> rat" where
  "calculateScore plan =
     (let score = 1 - of_nat (length (pp_Planes plan)) * (1 / 10);
          score' = (if arePlanesAdjacent (pp_Planes plan) then score + 2 / 10 else score)
      in foldl (\<lambda>s frag. if pf_Size frag > 1024 then s + 5 / 100 else s) score' (pp_Fragments plan))"

text \<open>The planes with free space, by position.\<close>

definition freePlanes :: "Plane list \<Rightarrow> nat list" where
  "freePlanes ps = filter (\<lambda>i. Plane_FreeBytes (ps ! i) > 0) [0..<length ps]"

definition FindPromotion :: "u32 \<Rightarrow> Region \<Rightarrow> (Region \<times> PromotionPlan option) go" where
  "FindPromotion sz region =
     go_bind (findBestFit sz (freePlanes (reg_Planes region)) (reg_Planes region)) (\<lambda>(ps', bestPlan).
       Inr (region\<lparr>reg_Planes := ps'\<rparr>, map_option (\<lambda>plan. plan\<lparr>pp_RegionID := reg_ID region,
         pp_Cost := CalculateCost plan, pp_Score := calculateScore plan\<rparr>) bestPlan))"

section \<open>The probe\<close>

text \<open>
  The test allocation is never undone: nothing is recorded for it, so the release finds no entry.
\<close>

lemma probe_cases:
  assumes inv: "plane_inv p" and safe: "plane_safe p" and n: "0 < n" "n \<le> Plane_FreeBytes p"
  obtains (none) "probe p n = Inr (p, None)" "\<forall>q. \<not> fits (plane_FreeMap p) (unat n) q"
  | (some) p' z where "probe p n = Inr (p', Some z)"
      "unat z + unat n \<le> unat (plane_Size p)" "{unat z..<unat z + unat n} \<inter> plane_used p = {}"
      "plane_used p' = plane_used p \<union> {unat z..<unat z + unat n}" "plane_Allocations p' = plane_Allocations p"
      "unat (Plane_FreeBytes p') + unat n = unat (Plane_FreeBytes p)"
proof -
  note wf = plane_invD(1) [OF inv]
  obtain p' r where a: "Plane_Allocate p n = Inr (p', r)"
    using Plane_Allocate_no_panic [OF wf safe n] by blast
  show thesis
  proof (cases r)
    case None
    have "first_fit (plane_FreeMap p) (unat n) = None"
      using a None unfolding Plane_Allocate_first_fit [OF wf safe n] by (auto split: option.splits)
    then have "\<forall>q. \<not> fits (plane_FreeMap p) (unat n) q"
      using n(1) by (auto simp: first_fit_None_iff word_nat_alt)
    moreover have "p' = p" using a None by (simp add: Plane_Allocate_None)
    ultimately show thesis using none a None by (simp add: probe_def)
  next
    case (Some z)
    note s = Plane_Allocate_Some [OF wf safe n a [unfolded Some]]
    have "map_of (plane_Allocations p) z = None"
    proof (rule ccontr)
      assume "map_of (plane_Allocations p) z \<noteq> None"
      then obtain al where "(z, al) \<in> set (plane_Allocations p)" by (auto dest: map_of_SomeD)
      then have "block (z, al) \<noteq> {}" "block (z, al) \<subseteq> plane_used p" using plane_invD(2,3) [OF inv] by blast+
      then have "unat z \<in> plane_used p" by (auto simp: block_def)
      moreover have "unat z \<in> {unat z..<unat z + unat n}" using n(1) by (simp add: word_nat_alt)
      ultimately show False using s(2) by blast
    qed
    then have "probe p n = Inr (p', Some z)"
      using a Some Plane_Allocate_frame(4) [OF a] by (simp add: probe_def Plane_Free_unknown)
    then show thesis using some s Plane_Allocate_frame(4) [OF a] by blast
  qed
qed


section \<open>The two loops\<close>

definition frag_total :: "PromotionFragment list \<Rightarrow> nat" where
  "frag_total fs = sum_list (map (\<lambda>f. unat (pf_Size f)) fs)"

lemma frag_total_simps [simp]:
  "frag_total [] = 0" "frag_total (f # fs) = unat (pf_Size f) + frag_total fs"
  by (simp_all add: frag_total_def)

text \<open>A fragment that was free in a plane.\<close>

definition free_in :: "Plane \<Rightarrow> PromotionFragment \<Rightarrow> bool" where
  "free_in p f \<longleftrightarrow> pf_PlaneID f = plane_ID p \<and> 0 < pf_Size f
     \<and> unat (pf_StartZ f) + unat (pf_Size f) \<le> unat (plane_Size p)
     \<and> {unat (pf_StartZ f)..<unat (pf_StartZ f) + unat (pf_Size f)} \<inter> plane_used p = {}"

lemma free_sum_update:
  assumes "i < length ps" "unat (Plane_FreeBytes p) + n = unat (Plane_FreeBytes (ps ! i))"
  shows "free_sum (ps[i := p]) + n = free_sum ps"
  using sum_list_update_nat [OF assms(1), of "\<lambda>p. unat (Plane_FreeBytes p)" p] assms(2) by (simp add: free_sum_def)

lemma fits_free:
  assumes "plane_wf p" "fits (plane_FreeMap p) n q"
  shows "n \<le> unat (Plane_FreeBytes p)"
proof -
  have "{q..<q + n} \<union> plane_used p \<subseteq> {..<unat (plane_Size p)}"
    using assms used_subset [of "plane_FreeMap p"] by (auto simp: fits_def plane_wf_def)
  then have "card ({q..<q + n} \<union> plane_used p) \<le> unat (plane_Size p)" using card_mono [of "{..<unat (plane_Size p)}"] by simp
  moreover have "{q..<q + n} \<inter> plane_used p = {}" using assms(2) by (auto simp: fits_def)
  ultimately show ?thesis using unat_Plane_FreeBytes [OF assms(1)] by (simp add: card_Un_disjoint)
qed

text \<open>The positions that a loop may visit: planes in good order.\<close>

definition probe_ok :: "nat list \<Rightarrow> Plane list \<Rightarrow> bool" where
  "probe_ok is ps \<longleftrightarrow> distinct (map (\<lambda>i. plane_ID (ps ! i)) is)
     \<and> (\<forall>i \<in> set is. i < length ps \<and> plane_inv (ps ! i) \<and> plane_safe (ps ! i) \<and> 0 < Plane_FreeBytes (ps ! i))"

lemma probe_ok_Cons:
  assumes "probe_ok (i # is) ps"
  shows "probe_ok is ps" "i < length ps" "plane_inv (ps ! i)" "plane_safe (ps ! i)" "0 < Plane_FreeBytes (ps ! i)"
    "\<And>j. j \<in> set is \<Longrightarrow> ps[i := p] ! j = ps ! j" "probe_ok is (ps[i := p])"
proof -
  show e: "ps[i := p] ! j = ps ! j" if "j \<in> set is" for j p
    using assms that by (cases "j = i") (auto simp: probe_ok_def)
  show "probe_ok is ps" "i < length ps" "plane_inv (ps ! i)" "plane_safe (ps ! i)" "0 < Plane_FreeBytes (ps ! i)"
    using assms by (simp_all add: probe_ok_def)
  then show "probe_ok is (ps[i := p])"
    unfolding probe_ok_def by (simp add: e cong: map_cong)
qed

lemma single_plane_cases:
  assumes "probe_ok is ps" "0 < sz"
  shows "(single_plane sz is ps = Inr (ps, None) \<and> (\<forall>i \<in> set is. \<forall>q. \<not> fits (plane_FreeMap (ps ! i)) (unat sz) q))
    \<or> (\<exists>ps' f. single_plane sz is ps = Inr (ps', Some (new_plan [pf_PlaneID f] [f] sz))
        \<and> unat (pf_Size f) = unat sz \<and> (\<exists>i \<in> set is. free_in (ps ! i) f)
        \<and> free_sum ps' + unat sz = free_sum ps \<and> length ps' = length ps)"
  using assms
proof (induction "is")
  case (Cons i "is")
  note c = probe_ok_Cons [OF Cons.prems(1)]
  show ?case
  proof (cases "sz \<le> ucast (Plane_FreeBytes (ps ! i))")
    case True
    then have le: "unat sz \<le> unat (Plane_FreeBytes (ps ! i))" by (simp add: word_nat_alt)
    then have "unat sz < 65536" using unat_u16_bound [of "Plane_FreeBytes (ps ! i)"] by linarith
    then have u: "unat (ucast sz :: u16) = unat sz" by (rule unat_ucast_narrow)
    then have n: "0 < (ucast sz :: u16)" "(ucast sz :: u16) \<le> Plane_FreeBytes (ps ! i)"
      using Cons.prems(2) le by (simp_all add: word_nat_alt)
    from c(3,4) n show ?thesis
    proof (cases rule: probe_cases)
      case none
      then have "single_plane sz (i # is) ps = single_plane sz is ps" using True by simp
      then show ?thesis using Cons.IH [OF c(1) Cons.prems(2)] none(2) u by auto
    next
      case (some p' z)
      let ?f = "\<lparr>pf_PlaneID = plane_ID (ps ! i), pf_StartZ = z, pf_Size = ucast sz\<rparr>"
      have "single_plane sz (i # is) ps = Inr (ps[i := p'], Some (new_plan [pf_PlaneID ?f] [?f] sz))"
        using True some(1) by (simp add: Let_def)
      moreover have "free_in (ps ! i) ?f" using some(2,3) n(1) by (simp add: free_in_def)
      moreover have "free_sum (ps[i := p']) + unat sz = free_sum ps"
        by (rule free_sum_update [OF c(2)]) (use some(6) u in simp)
      ultimately show ?thesis using u by (intro disjI2 exI [of _ "ps[i := p']"] exI [of _ ?f]) simp
    qed
  next
    case False
    then have "\<not> fits (plane_FreeMap (ps ! i)) (unat sz) q" for q
      using fits_free [OF plane_invD(1) [OF c(3)], of "unat sz" q] by (auto simp: word_nat_alt)
    then show ?thesis using Cons.IH [OF c(1) Cons.prems(2)] False by auto
  qed
qed simp

lemma share_size:
  fixes f :: u16 and remaining :: u32
  shows "unat (ucast (min (ucast f) remaining) :: u16) = min (unat f) (unat remaining)"
proof -
  have "unat (min (ucast f) remaining) = min (unat f) (unat remaining)" by (simp add: min_def word_nat_alt)
  moreover from this have "unat (min (ucast f) remaining) < 65536" using unat_u16_bound [of f] by linarith
  ultimately show ?thesis by (simp only: unat_ucast_narrow)
qed

lemma multi_plane_result:
  assumes "probe_ok is ps"
  shows "\<exists>ps' new rem. multi_plane remaining is ps fragments usedPlanes
      = Inr (ps', fragments @ new, usedPlanes @ map pf_PlaneID new, rem)
    \<and> unat rem + frag_total new = unat remaining \<and> free_sum ps' + frag_total new = free_sum ps
    \<and> length ps' = length ps \<and> (\<forall>f \<in> set new. \<exists>i \<in> set is. free_in (ps ! i) f)
    \<and> distinct (map pf_PlaneID new)"
  using assms
proof (induction "is" arbitrary: remaining ps fragments usedPlanes)
  case Nil
  then show ?case by simp
next
  case (Cons i "is")
  note c = probe_ok_Cons [OF Cons.prems(1)]
  show ?case
  proof (cases "remaining = 0")
    case True
    then show ?thesis by simp
  next
    case False
    define n :: u16 where "n = ucast (min (ucast (Plane_FreeBytes (ps ! i))) remaining)"
    have m: "unat n = min (unat (Plane_FreeBytes (ps ! i))) (unat remaining)"
      unfolding n_def by (rule share_size)
    have n: "0 < n" "n \<le> Plane_FreeBytes (ps ! i)" "unat n \<le> unat remaining"
      using m c(5) False by (simp_all add: word_nat_alt unat_gt_0)
    have ne: "Plane_FreeBytes (ps ! i) \<noteq> 0" using c(5) by auto
    from c(3,4) n(1,2) show ?thesis
    proof (cases rule: probe_cases)
      case none
      then have "multi_plane remaining (i # is) ps fragments usedPlanes = multi_plane remaining is ps fragments usedPlanes"
        using False ne by (simp add: Let_def flip: n_def)
      then show ?thesis using Cons.IH [OF c(1), of remaining fragments usedPlanes] by auto
    next
      case (some p' z)
      let ?f = "\<lparr>pf_PlaneID = plane_ID (ps ! i), pf_StartZ = z, pf_Size = n\<rparr>"
      have eq: "multi_plane remaining (i # is) ps fragments usedPlanes
          = multi_plane (remaining - ucast n) is (ps[i := p']) (fragments @ [?f]) (usedPlanes @ [pf_PlaneID ?f])"
        using False ne some(1) by (simp add: Let_def flip: n_def)
      from Cons.IH [OF c(7), of "remaining - ucast n" p' "fragments @ [?f]" "usedPlanes @ [pf_PlaneID ?f]"] obtain ps' new rem where
        r: "multi_plane remaining (i # is) ps fragments usedPlanes
            = Inr (ps', fragments @ ?f # new, usedPlanes @ map pf_PlaneID (?f # new), rem)"
          "unat rem + frag_total new = unat (remaining - ucast n)" "free_sum ps' + frag_total new = free_sum (ps[i := p'])"
          "length ps' = length ps" "\<forall>f \<in> set new. \<exists>j \<in> set is. free_in (ps[i := p'] ! j) f" "distinct (map pf_PlaneID new)"
        unfolding eq by auto
      have f: "free_in (ps ! i) ?f" using some(2,3) n(1) by (simp add: free_in_def)
      have g: "\<forall>f \<in> set new. \<exists>j \<in> set is. free_in (ps ! j) f" using r(5) c(6) by metis
      then have "plane_ID (ps ! i) \<notin> pf_PlaneID ` set new"
        using Cons.prems(1) by (auto simp: probe_ok_def free_in_def)
      moreover have "unat rem + frag_total (?f # new) = unat remaining"
        using r(2) n(3) by (simp add: unat_sub word_nat_alt)
      moreover have "free_sum ps' + frag_total (?f # new) = free_sum ps"
        using r(3) free_sum_update [OF c(2) some(6)] by simp
      ultimately show ?thesis
        using r(1,4,6) f g by (intro exI [of _ ps'] exI [of _ "?f # new"] exI [of _ rem]) auto
    qed
  qed
qed


section \<open>Properties\<close>

lemma freePlanes_ok:
  assumes "planes_ok ps"
  shows "probe_ok (freePlanes ps) ps"
proof -
  have "map (\<lambda>i. plane_ID (ps ! i)) [0..<length ps] = map plane_ID ps"
    by (rule nth_equalityI) simp_all
  then have "distinct (map (\<lambda>i. plane_ID (ps ! i)) [0..<length ps])" using assms by (simp add: planes_ok_def)
  then have "distinct (map (\<lambda>i. plane_ID (ps ! i)) (freePlanes ps))" unfolding freePlanes_def by (rule distinct_map_filter)
  then show ?thesis using assms by (auto simp: probe_ok_def freePlanes_def planes_ok_def)
qed

abbreviation no_run :: "Plane list \<Rightarrow> u32 \<Rightarrow> bool" where
  "no_run ps sz \<equiv> \<forall>p \<in> set ps. \<forall>q. \<not> fits (plane_FreeMap p) (unat sz) q"

lemma freePlanes_no_run:
  assumes ok: "planes_ok ps" and sz: "0 < sz" and u: "\<forall>i \<in> set (freePlanes ps). \<forall>q. \<not> fits (plane_FreeMap (ps ! i)) (unat sz) q"
  shows "no_run ps sz"
proof (intro ballI allI notI)
  fix p q assume p: "p \<in> set ps" and f: "fits (plane_FreeMap p) (unat sz) q"
  then obtain i where i: "i < length ps" "ps ! i = p" by (auto simp: in_set_conv_nth)
  have "plane_wf p" using ok p by (auto simp: planes_ok_def plane_invD(1))
  then have "0 < Plane_FreeBytes p" using fits_free [OF _ f] sz by (simp add: word_nat_alt)
  then have "i \<in> set (freePlanes ps)" using i by (simp add: freePlanes_def)
  then show False using u f i(2) by auto
qed

text \<open>A plan for \<open>sz\<close> bytes in the planes \<open>ps\<close>, which the search has left as \<open>ps'\<close>.\<close>

definition plan_for :: "u32 \<Rightarrow> Plane list \<Rightarrow> Plane list \<Rightarrow> PromotionPlan \<Rightarrow> bool" where
  "plan_for sz ps ps' plan \<longleftrightarrow> pp_TotalSize plan = sz \<and> frag_total (pp_Fragments plan) = unat sz
     \<and> pp_Planes plan = map pf_PlaneID (pp_Fragments plan) \<and> distinct (pp_Planes plan)
     \<and> (\<forall>f \<in> set (pp_Fragments plan). \<exists>p \<in> set ps. free_in p f)
     \<and> free_sum ps' + unat sz = free_sum ps \<and> (length (pp_Fragments plan) \<noteq> 1 \<longrightarrow> no_run ps sz)"

lemma findBestFit_cases:
  assumes ok: "planes_ok ps" and sz: "0 < sz"
  shows "\<exists>ps' r. findBestFit sz (freePlanes ps) ps = Inr (ps', r)
    \<and> (case r of None \<Rightarrow> no_run ps sz | Some plan \<Rightarrow> plan_for sz ps ps' plan)"
proof -
  let ?sel = "freePlanes ps"
  note pk = freePlanes_ok [OF ok]
  have mem: "\<forall>i \<in> set ?sel. ps ! i \<in> set ps" by (auto simp: freePlanes_def)
  from single_plane_cases [OF pk sz] consider
    (one) ps' f where "single_plane sz ?sel ps = Inr (ps', Some (new_plan [pf_PlaneID f] [f] sz))" "unat (pf_Size f) = unat sz"
      "\<exists>i \<in> set ?sel. free_in (ps ! i) f" "free_sum ps' + unat sz = free_sum ps"
  | (many) "single_plane sz ?sel ps = Inr (ps, None)" "\<forall>i \<in> set ?sel. \<forall>q. \<not> fits (plane_FreeMap (ps ! i)) (unat sz) q"
    by blast
  then show ?thesis
  proof cases
    case one
    then show ?thesis using mem by (auto simp: findBestFit_def plan_for_def new_plan_def)
  next
    case many
    note nr = freePlanes_no_run [OF ok sz many(2)]
    from multi_plane_result [OF pk, of sz "[]" "[]"] obtain ps' new rem where
      m: "multi_plane sz ?sel ps [] [] = Inr (ps', new, map pf_PlaneID new, rem)" "unat rem + frag_total new = unat sz"
        "free_sum ps' + frag_total new = free_sum ps" "\<forall>f \<in> set new. \<exists>i \<in> set ?sel. free_in (ps ! i) f"
        "distinct (map pf_PlaneID new)" by auto
    have e: "findBestFit sz ?sel ps = Inr (ps', if 0 < rem then None else Some (new_plan (map pf_PlaneID new) new sz))"
      by (simp add: findBestFit_def many(1) findMultiPlaneFit_def m(1))
    have "plan_for sz ps ps' (new_plan (map pf_PlaneID new) new sz)" if "\<not> 0 < rem"
    proof -
      have "frag_total new = unat sz" using m(2) that by (simp add: word_nat_alt)
      moreover have "\<forall>f \<in> set new. \<exists>p \<in> set ps. free_in p f" using m(4) mem by blast
      ultimately show ?thesis using m(3,5) nr by (simp add: plan_for_def new_plan_def)
    qed
    then show ?thesis using nr by (simp add: e)
  qed
qed

lemma FindPromotion_cases:
  assumes "planes_ok (reg_Planes r)" "0 < sz"
  shows "\<exists>ps' res. FindPromotion sz r = Inr (r\<lparr>reg_Planes := ps'\<rparr>, res)
    \<and> (case res of None \<Rightarrow> no_run (reg_Planes r) sz
       | Some plan \<Rightarrow> plan_for sz (reg_Planes r) ps' plan \<and> pp_RegionID plan = reg_ID r \<and> pp_Cost plan = CalculateCost plan)"
proof -
  obtain ps' b where b: "findBestFit sz (freePlanes (reg_Planes r)) (reg_Planes r) = Inr (ps', b)"
    "case b of None \<Rightarrow> no_run (reg_Planes r) sz | Some plan \<Rightarrow> plan_for sz (reg_Planes r) ps' plan"
    using findBestFit_cases [OF assms] by blast
  show ?thesis
  proof (cases b)
    case None
    then show ?thesis using b by (auto simp: FindPromotion_def)
  next
    case (Some plan)
    then show ?thesis using b by (auto simp: FindPromotion_def plan_for_def CalculateCost_def)
  qed
qed

text \<open>A region of two planes of 100 bytes.\<close>

definition demo_region :: Region where
  "demo_region = AddPlane (AddPlane (NewRegion 3 RegionTypeHeap 0) (NewPlane 0 3 100)) (NewPlane 1 3 100)"

lemma demo_region_planes: "reg_Planes demo_region = [NewPlane 0 3 100, NewPlane 1 3 100]"
  by (simp add: demo_region_def AddPlane_def NewRegion_def)

lemma demo_region_inv: "region_inv demo_region"
  unfolding demo_region_def
  by (intro AddPlane_inv NewRegion_inv NewPlane_inv NewPlane_safe) (simp_all add: AddPlane_def NewRegion_def)

lemma demo_region_fits: "\<exists>p \<in> set (reg_Planes demo_region). \<exists>q. fits (plane_FreeMap p) (unat (40 :: u32)) q"
proof -
  have "bm_size (plane_FreeMap (NewPlane 0 3 100)) = 100" "plane_used (NewPlane 0 3 100) = {}"
    by (simp_all add: NewPlane_def Let_def)
  then have "fits (plane_FreeMap (NewPlane 0 3 100)) (unat (40 :: u32)) 0" by (simp add: fits_def)
  then show ?thesis unfolding demo_region_planes by auto
qed



text \<open>
  The test allocations of the search are not rolled back.  Nothing records them, so the
  release that should undo each of them finds no entry and does nothing: after a successful
  search the planes of the region have lost exactly the requested number of free bytes, with no
  block allocated, while the counter of the region is unchanged and no longer agrees with its
  planes.
\<close>

theorem promotion_search_leaks:
  assumes "region_inv r" "0 < sz" "FindPromotion sz r = Inr (r', Some plan)"
  shows "free_sum (reg_Planes r') + unat sz = free_sum (reg_Planes r)
    \<and> reg_FreeBytes r' = reg_FreeBytes r
    \<and> reg_FreeBytes r' = of_nat (free_sum (reg_Planes r') + unat sz)"
proof -
  have ok: "planes_ok (reg_Planes r)" and f: "reg_FreeBytes r = of_nat (free_sum (reg_Planes r))"
    using assms(1) by (simp_all add: region_inv_def)
  from FindPromotion_cases [OF ok assms(2)] assms(3) obtain ps' where
    "r' = r\<lparr>reg_Planes := ps'\<rparr>" "plan_for sz (reg_Planes r) ps' plan" by auto
  then show ?thesis using f by (simp add: plan_for_def)
qed

theorem promotion_search_leaks_witness:
  "\<exists>r' plan. FindPromotion 40 demo_region = Inr (r', Some plan) \<and> free_sum (reg_Planes r') + 40 = free_sum (reg_Planes demo_region)"
proof -
  have "planes_ok (reg_Planes demo_region)" using demo_region_inv by (simp add: region_inv_def)
  from FindPromotion_cases [OF this, of 40] demo_region_fits obtain ps' plan where
    p: "FindPromotion 40 demo_region = Inr (demo_region\<lparr>reg_Planes := ps'\<rparr>, Some plan)"
    by (auto split: option.splits)
  then show ?thesis using promotion_search_leaks [OF demo_region_inv _ p] by auto
qed

end
