(* ===== verification/Locks.thy ===== *)
theory Locks
  imports Prelude3D
begin

text \<open>
  The read-write mutexes of the Go library and threads that use them.  A program over mutexes is
  the sequence of its lock operations; any number of such programs run interleaved.  The methods
  of a component that take one mutex first, its gate, never deadlock, provided that those that
  take it for reading only read inside and those that take it for writing never block
  themselves.
\<close>

section \<open>Mutexes\<close>

text \<open>
  A \<^verbatim>\<open>sync.RWMutex\<close>: the thread that holds it for writing, a thread that has announced a \<^verbatim>\<open>Lock\<close> and waits
  for the readers to leave, and the readers, as often as they have entered.  A pending writer
  keeps new readers out, so \<^verbatim>\<open>Lock\<close> has two steps.
\<close>

record RWMutex =
  rw_writer :: "nat option"
  rw_pending :: "nat option"
  rw_readers :: "nat list"

definition free_mutex :: RWMutex where
  "free_mutex = \<lparr>rw_writer = None, rw_pending = None, rw_readers = []\<rparr>"

datatype action = RLock | RUnlock | Announce | Acquire | Unlock

text \<open>What an operation of thread \<open>t\<close> does; \<open>None\<close> if it has to wait, or would be a fatal error.\<close>

fun perform :: "nat \<Rightarrow> action \<Rightarrow> RWMutex \<Rightarrow> RWMutex option" where
  "perform t RLock m = (if rw_writer m = None \<and> rw_pending m = None then Some (m\<lparr>rw_readers := t # rw_readers m\<rparr>) else None)"
| "perform t RUnlock m = (if t \<in> set (rw_readers m) then Some (m\<lparr>rw_readers := remove1 t (rw_readers m)\<rparr>) else None)"
| "perform t Announce m = (if rw_writer m = None \<and> rw_pending m = None then Some (m\<lparr>rw_pending := Some t\<rparr>) else None)"
| "perform t Acquire m = (if rw_pending m = Some t \<and> rw_readers m = []
     then Some (m\<lparr>rw_writer := Some t, rw_pending := None\<rparr>) else None)"
| "perform t Unlock m = (if rw_writer m = Some t then Some (m\<lparr>rw_writer := None\<rparr>) else None)"

text \<open>The operations, and the common pattern of a lock whose release is deferred.\<close>

definition lock :: "'l \<Rightarrow> (action \<times> 'l) list" where
  "lock l = [(Announce, l), (Acquire, l)]"

definition locked :: "'l \<Rightarrow> (action \<times> 'l) list \<Rightarrow> (action \<times> 'l) list" where
  "locked l es = lock l @ es @ [(Unlock, l)]"

definition rlocked :: "'l \<Rightarrow> (action \<times> 'l) list \<Rightarrow> (action \<times> 'l) list" where
  "rlocked l es = (RLock, l) # es @ [(RUnlock, l)]"

section \<open>Threads\<close>

record 'l LockState =
  ls_mutexes :: "'l \<Rightarrow> RWMutex"
  ls_threads :: "(action \<times> 'l) list list"

definition start :: "(action \<times> 'l) list list \<Rightarrow> 'l LockState" where
  "start ths = \<lparr>ls_mutexes = (\<lambda>_. free_mutex), ls_threads = ths\<rparr>"

inductive lock_step :: "'l LockState \<Rightarrow> 'l LockState \<Rightarrow> bool" where
  run: "t < length (ls_threads s) \<Longrightarrow> ls_threads s ! t = (act, l) # es \<Longrightarrow> perform t act (ls_mutexes s l) = Some m \<Longrightarrow>
    lock_step s (s\<lparr>ls_mutexes := (ls_mutexes s)(l := m), ls_threads := (ls_threads s)[t := es]\<rparr>)"

inductive_cases lock_stepE: "lock_step s s'"

definition finished :: "'l LockState \<Rightarrow> bool" where
  "finished s \<longleftrightarrow> (\<forall>es \<in> set (ls_threads s). es = [])"

definition stuck :: "'l LockState \<Rightarrow> bool" where
  "stuck s \<longleftrightarrow> \<not> finished s \<and> (\<forall>t < length (ls_threads s). case ls_threads s ! t of
     [] \<Rightarrow> True | (act, l) # _ \<Rightarrow> perform t act (ls_mutexes s l) = None)"

lemma stuck_no_step: "stuck s \<Longrightarrow> \<not> lock_step s s'"
  by (fastforce simp: stuck_def elim!: lock_stepE)

lemma stuck_iff: "stuck s \<longleftrightarrow> \<not> finished s \<and> (\<forall>s'. \<not> lock_step s s')"
proof
  assume r: "\<not> finished s \<and> (\<forall>s'. \<not> lock_step s s')"
  have "case ls_threads s ! t of [] \<Rightarrow> True | (act, l) # _ \<Rightarrow> perform t act (ls_mutexes s l) = None"
    if "t < length (ls_threads s)" for t
    using r lock_step.run [OF that] by (auto split: list.split) (meson not_None_eq)
  with r show "stuck s" by (simp add: stuck_def)
qed (auto simp: stuck_no_step, simp add: stuck_def)

text \<open>A schedule names the thread of each step.\<close>

fun scheduled :: "nat list \<Rightarrow> 'l LockState \<Rightarrow> 'l LockState option" where
  "scheduled [] s = Some s"
| "scheduled (t # ts) s =
     (if t < length (ls_threads s) then (case ls_threads s ! t of
          [] \<Rightarrow> None
        | (act, l) # es \<Rightarrow> (case perform t act (ls_mutexes s l) of
            None \<Rightarrow> None
          | Some m \<Rightarrow> scheduled ts (s\<lparr>ls_mutexes := (ls_mutexes s)(l := m), ls_threads := (ls_threads s)[t := es]\<rparr>)))
      else None)"

lemma scheduled_steps: "scheduled ts s = Some s' \<Longrightarrow> (lock_step ^^ length ts) s s'"
proof (induction ts s rule: scheduled.induct)
  case (2 t ts s)
  then obtain act l es m where e: "t < length (ls_threads s)" "ls_threads s ! t = (act, l) # es" "perform t act (ls_mutexes s l) = Some m"
    "scheduled ts (s\<lparr>ls_mutexes := (ls_mutexes s)(l := m), ls_threads := (ls_threads s)[t := es]\<rparr>) = Some s'"
    by (auto split: if_splits list.splits option.splits)
  from 2(1) [OF e(1,2) refl e(3,4)] lock_step.run [OF e(1-3)] show ?case
    by (metis length_Cons relpowp_Suc_I2)
qed simp

text \<open>Every step uses up one operation.\<close>

definition todo :: "'l LockState \<Rightarrow> nat" where
  "todo s = sum_list (map length (ls_threads s))"

lemma lock_step_todo:
  assumes "lock_step s s'"
  shows "todo s = Suc (todo s')"
  using assms
proof cases
  case (run t act l es m)
  have "sum_list (map length ((ls_threads s)[t := es])) + length (ls_threads s ! t) = sum_list (map length (ls_threads s)) + length es"
    using sum_list_update_nat [OF run(2), of length es] by simp
  then show ?thesis using run by (simp add: todo_def)
qed

lemma lock_steps_todo: "(lock_step ^^ n) s s' \<Longrightarrow> todo s = n + todo s'"
  by (induction n arbitrary: s') (auto dest: lock_step_todo)

section \<open>What one thread holds\<close>

text \<open>
  The part of a thread in a mutex; a thread that holds nothing reads zero times, and one that has
  announced a write while it reads waits for itself.
\<close>

datatype hold = Reading nat | Pending | Writing | SelfBlocked

definition own :: "nat \<Rightarrow> RWMutex \<Rightarrow> hold" where
  "own t m = (if rw_writer m = Some t then Writing else if rw_pending m = Some t
     then (if t \<in> set (rw_readers m) then SelfBlocked else Pending) else Reading (count_list (rw_readers m) t))"

text \<open>An operation as it changes the part of its thread when no other thread interferes.\<close>

fun solo :: "action \<Rightarrow> hold \<Rightarrow> hold option" where
  "solo RLock (Reading n) = Some (Reading (Suc n))"
| "solo RUnlock (Reading (Suc n)) = Some (Reading n)"
| "solo Announce (Reading 0) = Some Pending"
| "solo Acquire Pending = Some Writing"
| "solo Unlock Writing = Some (Reading 0)"
| "solo _ _ = None"

fun solo_run :: "('l \<Rightarrow> hold) \<Rightarrow> (action \<times> 'l) list \<Rightarrow> ('l \<Rightarrow> hold) option" where
  "solo_run h [] = Some h"
| "solo_run h ((act, l) # es) = (case solo act (h l) of None \<Rightarrow> None | Some x \<Rightarrow> solo_run (h(l := x)) es)"

lemma solo_run_append: "solo_run h (es @ fs) = (case solo_run h es of None \<Rightarrow> None | Some h' \<Rightarrow> solo_run h' fs)"
  by (induction h es rule: solo_run.induct) (auto split: option.split simp del: fun_upd_apply)

lemma solo_run_Cons_Some:
  "solo_run h ((act, l) # es) = Some h' \<longleftrightarrow> (\<exists>x. solo act (h l) = Some x \<and> solo_run (h(l := x)) es = Some h')"
  by (auto split: option.split)

text \<open>
  A section over the mutexes \<open>L\<close>: run alone, it does not block and releases what it takes.  One
  that only reads does so even where it reads already.
\<close>

definition nested :: "'l set \<Rightarrow> (action \<times> 'l) list \<Rightarrow> bool" where
  "nested L es \<longleftrightarrow> snd ` set es \<subseteq> L \<and> (\<forall>h. (\<forall>l \<in> L. h l = Reading 0) \<longrightarrow> solo_run h es = Some h)"

definition readable :: "'l set \<Rightarrow> (action \<times> 'l) list \<Rightarrow> bool" where
  "readable L es \<longleftrightarrow> set es \<subseteq> {RLock, RUnlock} \<times> L \<and> (\<forall>h. (\<forall>l \<in> L. \<exists>n. h l = Reading n) \<longrightarrow> solo_run h es = Some h)"

named_theorems section_intros

lemma readable_nested: "readable L es \<Longrightarrow> nested L es"
  by (fastforce simp: readable_def nested_def)

lemma nested_Nil [section_intros]: "nested L []"
  by (simp add: nested_def)

lemma readable_Nil [section_intros]: "readable L []"
  by (simp add: readable_def)

lemma nested_append [section_intros]: "nested L es \<Longrightarrow> nested L fs \<Longrightarrow> nested L (es @ fs)"
  by (auto simp: nested_def solo_run_append image_Un)

lemma readable_append [section_intros]: "readable L es \<Longrightarrow> readable L fs \<Longrightarrow> readable L (es @ fs)"
  by (auto simp: readable_def solo_run_append)

lemma nested_mono: "nested L es \<Longrightarrow> L \<subseteq> L' \<Longrightarrow> nested L' es"
  unfolding nested_def by blast

lemma readable_mono: "readable L es \<Longrightarrow> L \<subseteq> L' \<Longrightarrow> readable L' es"
  unfolding readable_def by blast

lemma nested_concat [section_intros]: "(\<And>x. x \<in> set xs \<Longrightarrow> nested L (f x)) \<Longrightarrow> nested L (concat (map f xs))"
  by (induction xs) (auto intro: section_intros)

lemma readable_concat [section_intros]: "(\<And>x. x \<in> set xs \<Longrightarrow> readable L (f x)) \<Longrightarrow> readable L (concat (map f xs))"
  by (induction xs) (auto intro: section_intros)

lemma nested_locked:
  assumes "nested L es" "l \<notin> L" "L \<subseteq> L'" "l \<in> L'"
  shows "nested L' (locked l es)"
proof -
  have "solo_run h (locked l es) = Some h" if h: "\<forall>l \<in> L'. h l = Reading 0" for h
  proof -
    have "\<forall>k \<in> L. (h(l := Writing)) k = Reading 0" using assms(2,3) h by auto
    then have "solo_run (h(l := Writing)) es = Some (h(l := Writing))" using assms(1) unfolding nested_def by blast
    then show ?thesis using h assms(4) by (simp add: locked_def lock_def solo_run_append fun_upd_idem)
  qed
  moreover have "snd ` set (locked l es) \<subseteq> L'" using assms by (auto simp: nested_def locked_def lock_def)
  ultimately show ?thesis by (simp add: nested_def)
qed

lemma nested_rlocked:
  assumes "nested L es" "l \<notin> L" "L \<subseteq> L'" "l \<in> L'"
  shows "nested L' (rlocked l es)"
proof -
  have "solo_run h (rlocked l es) = Some h" if h: "\<forall>l \<in> L'. h l = Reading 0" for h
  proof -
    have "\<forall>k \<in> L. (h(l := Reading 1)) k = Reading 0" using assms(2,3) h by auto
    then have "solo_run (h(l := Reading 1)) es = Some (h(l := Reading 1))" using assms(1) unfolding nested_def by blast
    then show ?thesis using h assms(4) by (simp add: rlocked_def solo_run_append fun_upd_idem)
  qed
  moreover have "snd ` set (rlocked l es) \<subseteq> L'" using assms by (auto simp: nested_def rlocked_def)
  ultimately show ?thesis by (simp add: nested_def)
qed

lemma readable_rlocked:
  assumes "readable L es" "l \<in> L"
  shows "readable L (rlocked l es)"
proof -
  have "solo_run h (rlocked l es) = Some h" if h: "\<forall>l \<in> L. \<exists>n. h l = Reading n" for h
  proof -
    obtain n where n: "h l = Reading n" using h assms(2) by blast
    have "\<forall>k \<in> L. \<exists>i. (h(l := Reading (Suc n))) k = Reading i" using h by auto
    then have "solo_run (h(l := Reading (Suc n))) es = Some (h(l := Reading (Suc n)))"
      using assms(1) unfolding readable_def by blast
    then show ?thesis using n by (simp add: rlocked_def solo_run_append fun_upd_idem)
  qed
  then show ?thesis using assms by (auto simp: readable_def rlocked_def)
qed

lemma nested_locked_in: "nested (L - {l}) es \<Longrightarrow> l \<in> L \<Longrightarrow> nested L (locked l es)"
  by (rule nested_locked) auto

lemma nested_rlocked_in: "nested (L - {l}) es \<Longrightarrow> l \<in> L \<Longrightarrow> nested L (rlocked l es)"
  by (rule nested_rlocked) auto

text \<open>
  An operation changes the part of its own thread only, and changes that as if it were alone.
\<close>

definition mutex_ok :: "nat \<Rightarrow> RWMutex \<Rightarrow> bool" where
  "mutex_ok n m \<longleftrightarrow> (rw_writer m \<noteq> None \<longrightarrow> rw_pending m = None \<and> rw_readers m = [])
     \<and> pred_option (\<lambda>t. t < n) (rw_writer m) \<and> pred_option (\<lambda>t. t < n) (rw_pending m) \<and> (\<forall>t \<in> set (rw_readers m). t < n)"

lemma perform_ok: "perform t act m = Some m' \<Longrightarrow> mutex_ok n m \<Longrightarrow> t < n \<Longrightarrow> mutex_ok n m'"
  by (cases act) (auto simp: mutex_ok_def split: if_splits dest: notin_set_remove1)

lemma perform_own_other:
  assumes "perform t act m = Some m'" "t' \<noteq> t" "mutex_ok n m"
  shows "own t' m' = own t' m"
  using assms by (cases act) (auto simp: own_def mutex_ok_def count_list_remove1 split: if_splits)

lemma solo_SomeE:
  assumes "solo act h = Some h'"
  obtains n where "act = RLock" "h = Reading n" "h' = Reading (Suc n)" | n where "act = RUnlock" "h = Reading (Suc n)" "h' = Reading n"
  | "act = Announce" "h = Reading 0" "h' = Pending" | "act = Acquire" "h = Pending" "h' = Writing"
  | "act = Unlock" "h = Writing" "h' = Reading 0"
  using assms by (cases "(act, h)" rule: solo.cases) auto

lemma own_Reading: "own t m = Reading n \<longleftrightarrow> rw_writer m \<noteq> Some t \<and> rw_pending m \<noteq> Some t \<and> count_list (rw_readers m) t = n"
  by (auto simp: own_def)

lemma own_Pending: "mutex_ok n m \<Longrightarrow> own t m = Pending \<longleftrightarrow> rw_pending m = Some t \<and> t \<notin> set (rw_readers m)"
  by (auto simp: own_def mutex_ok_def)

lemma own_Writing: "own t m = Writing \<longleftrightarrow> rw_writer m = Some t"
  by (auto simp: own_def)

lemma perform_own:
  assumes "perform t act m = Some m'" "solo act (own t m) = Some h" "mutex_ok n m"
  shows "own t m' = h"
  using assms(2)
proof (cases rule: solo_SomeE)
  case (1 k)
  then show ?thesis using assms(1,3) by (auto simp: own_Reading split: if_splits)
next
  case (2 k)
  then show ?thesis using assms(1,3) by (auto simp: own_Reading count_list_remove1 split: if_splits)
next
  case 3
  then have "t \<notin> set (rw_readers m)" by (simp add: own_Reading count_list_0_iff)
  then show ?thesis using 3 assms(1) by (auto simp: own_def split: if_splits)
next
  case 4
  then show ?thesis using assms(1) by (auto simp: own_def split: if_splits)
next
  case 5
  then show ?thesis using assms(1,3) by (auto simp: own_Reading mutex_ok_def split: if_splits)
qed

text \<open>Alone with a mutex, or with readers only, an operation that is possible in isolation is possible.\<close>

lemma perform_alone:
  assumes "solo act (own t m) = Some h" "mutex_ok n m" "\<And>t'. t' < n \<Longrightarrow> t' \<noteq> t \<Longrightarrow> own t' m = Reading 0"
  shows "perform t act m \<noteq> None"
proof -
  have other: "rw_writer m \<noteq> Some t'" "rw_pending m \<noteq> Some t'" "t' \<notin> set (rw_readers m)" if "t' \<noteq> t" for t'
    using assms(2) assms(3) [OF _ that]
    by (cases "t' < n"; auto simp: mutex_ok_def own_Reading count_list_0_iff)+
  have w: "rw_writer m = None \<or> rw_writer m = Some t" "rw_pending m = None \<or> rw_pending m = Some t" "set (rw_readers m) \<subseteq> {t}"
    using other by (metis option.exhaust, metis option.exhaust, blast)
  then have empty: "rw_readers m = []" if "t \<notin> set (rw_readers m)" using that by (cases "rw_readers m") auto
  from assms(1) show ?thesis
  proof (cases rule: solo_SomeE)
    case 4
    then show ?thesis using empty by (simp add: own_Pending [OF assms(2)])
  qed (use w assms(2) in \<open>auto simp: own_Reading own_Writing simp flip: count_list_pos\<close>)
qed

lemma perform_reading:
  assumes "solo act (own t m) = Some h" "mutex_ok n m" "act = RLock \<or> act = RUnlock"
    and "\<And>t'. t' < n \<Longrightarrow> \<exists>i. own t' m = Reading i"
  shows "perform t act m \<noteq> None"
proof -
  have "rw_writer m \<noteq> Some t'" "rw_pending m \<noteq> Some t'" for t'
    using assms(2) assms(4) [of t'] by (cases "t' < n"; auto simp: mutex_ok_def own_Reading)+
  then have w: "rw_writer m = None" "rw_pending m = None" by (metis option.exhaust)+
  from assms(1) show ?thesis
  proof (cases rule: solo_SomeE)
  qed (use w assms(3) in \<open>auto simp: own_def simp flip: count_list_pos split: if_splits\<close>)
qed

section \<open>Gated methods\<close>

text \<open>
  A sequence of calls, each of which holds the mutex \<open>g\<close>: for writing around a section over other
  mutexes, or for reading around one that only reads.
\<close>

inductive gated :: "'l \<Rightarrow> (action \<times> 'l) list \<Rightarrow> bool" for g where
  none: "gated g []"
| by_writing: "nested L es \<Longrightarrow> g \<notin> L \<Longrightarrow> gated g fs \<Longrightarrow> gated g (locked g es @ fs)"
| by_reading: "readable L es \<Longrightarrow> g \<notin> L \<Longrightarrow> gated g fs \<Longrightarrow> gated g (rlocked g es @ fs)"

text \<open>A method whose whole body holds the gate, seen from outside and as a part of a larger section.\<close>

definition writes_in :: "'l \<Rightarrow> 'l set \<Rightarrow> (action \<times> 'l) list \<Rightarrow> bool" where
  "writes_in g L es \<longleftrightarrow> (\<exists>fs. es = locked g fs \<and> nested L fs \<and> g \<notin> L)"

definition reads_in :: "'l \<Rightarrow> 'l set \<Rightarrow> (action \<times> 'l) list \<Rightarrow> bool" where
  "reads_in g L es \<longleftrightarrow> (\<exists>fs. es = rlocked g fs \<and> readable L fs \<and> g \<notin> L)"

lemma writes_in_gated: "writes_in g L es \<Longrightarrow> gated g es"
  unfolding writes_in_def using gated.by_writing [OF _ _ gated.none] by force

lemma reads_in_gated: "reads_in g L es \<Longrightarrow> gated g es"
  unfolding reads_in_def using gated.by_reading [OF _ _ gated.none] by force

lemma writes_in_nested: "writes_in g L es \<Longrightarrow> insert g L \<subseteq> L' \<Longrightarrow> nested L' es"
  unfolding writes_in_def by (auto intro: nested_locked)

lemma reads_in_readable: "reads_in g L es \<Longrightarrow> insert g L \<subseteq> L' \<Longrightarrow> readable L' es"
  unfolding reads_in_def by (auto intro: readable_rlocked readable_mono)

lemma gated_append: "gated g es \<Longrightarrow> gated g fs \<Longrightarrow> gated g (es @ fs)"
  by (induction rule: gated.induct) (auto intro: gated.intros)

lemma gated_concat: "\<forall>es \<in> set ess. gated g es \<Longrightarrow> gated g (concat ess)"
  by (induction ess) (auto intro: gated_append gated.none)

text \<open>Where a thread is: outside, waiting for the readers to leave, or inside for writing or reading.\<close>

definition idle :: "'l \<Rightarrow> hold" where
  "idle l = Reading 0"

inductive phase :: "'l \<Rightarrow> ('l \<Rightarrow> hold) \<Rightarrow> (action \<times> 'l) list \<Rightarrow> bool" for g where
  outside: "gated g es \<Longrightarrow> h = idle \<Longrightarrow> phase g h es"
| announced: "nested L es \<Longrightarrow> g \<notin> L \<Longrightarrow> gated g fs \<Longrightarrow> h = idle(g := Pending) \<Longrightarrow> phase g h ((Acquire, g) # es @ (Unlock, g) # fs)"
| writing: "h g = Writing \<Longrightarrow> solo_run h es = Some (idle(g := Writing)) \<Longrightarrow> g \<notin> snd ` set es \<Longrightarrow> gated g fs \<Longrightarrow>
    phase g h (es @ (Unlock, g) # fs)"
| reading: "h g = Reading 1 \<Longrightarrow> \<forall>l. \<exists>n. h l = Reading n \<Longrightarrow> solo_run h es = Some (idle(g := Reading 1)) \<Longrightarrow> g \<notin> snd ` set es \<Longrightarrow>
    fst ` set es \<subseteq> {RLock, RUnlock} \<Longrightarrow> gated g fs \<Longrightarrow> phase g h (es @ (RUnlock, g) # fs)"

lemma phase_enter_write:
  assumes "nested L es" "g \<notin> L" "gated g fs"
  shows "phase g (idle(g := Writing)) (es @ (Unlock, g) # fs)"
proof (rule phase.writing)
  have "\<forall>l \<in> L. (idle(g := Writing)) l = Reading 0" using assms(2) by (auto simp: idle_def)
  then show "solo_run (idle(g := Writing)) es = Some (idle(g := Writing))" using assms(1) unfolding nested_def by blast
  show "g \<notin> snd ` set es" using assms(1,2) unfolding nested_def by blast
qed (use assms(3) in simp_all)

lemma phase_enter_read:
  assumes "readable L es" "g \<notin> L" "gated g fs"
  shows "phase g (idle(g := Reading 1)) (es @ (RUnlock, g) # fs)"
proof (rule phase.reading)
  have "\<forall>l \<in> L. \<exists>n. (idle(g := Reading 1)) l = Reading n" by (auto simp: idle_def)
  then show "solo_run (idle(g := Reading 1)) es = Some (idle(g := Reading 1))" using assms(1) unfolding readable_def by blast
  show "g \<notin> snd ` set es" "fst ` set es \<subseteq> {RLock, RUnlock}" using assms(1,2) unfolding readable_def by auto
qed (use assms(3) in \<open>simp_all add: idle_def\<close>)

lemma solo_reading: "solo act h = Some x \<Longrightarrow> act \<in> {RLock, RUnlock} \<Longrightarrow> \<exists>n. x = Reading n"
  by (elim solo_SomeE) auto

text \<open>The next operation of a thread is possible as far as its own part goes, and leads to a phase.\<close>

lemma phase_step:
  assumes "phase g h ((act, l) # es)"
  shows "\<exists>x. solo act (h l) = Some x \<and> phase g (h(l := x)) es"
  using assms
proof cases
  case outside
  from outside(1) show ?thesis
  proof cases
    case (by_writing L es' fs)
    then have "act = Announce" "l = g" "es = (Acquire, g) # es' @ (Unlock, g) # fs" by (simp_all add: locked_def lock_def)
    with by_writing(2-4) outside(2) show ?thesis by (auto simp: idle_def intro: phase.announced)
  next
    case (by_reading L es' fs)
    then have "act = RLock" "l = g" "es = es' @ (RUnlock, g) # fs" by (simp_all add: rlocked_def)
    with phase_enter_read [OF by_reading(2-4)] outside(2) show ?thesis by (simp add: idle_def)
  qed
next
  case (announced L es' fs)
  then show ?thesis using phase_enter_write [OF announced(4-6)] by simp
next
  case (writing es' fs)
  show ?thesis
  proof (cases es')
    case Nil
    then have "h = idle(g := Writing)" using writing by simp
    then show ?thesis using Nil writing by (auto intro!: phase.outside simp: idle_def)
  next
    case (Cons e es'')
    then have e: "e = (act, l)" "es = es'' @ (Unlock, g) # fs" using writing(1) by simp_all
    from writing(3) obtain x where x: "solo act (h l) = Some x" "solo_run (h(l := x)) es'' = Some (idle(g := Writing))"
      unfolding Cons e(1) solo_run_Cons_Some by blast
    have "phase g (h(l := x)) es"
      unfolding e(2) by (rule phase.writing) (use x(2) writing Cons e(1) in auto)
    with x(1) show ?thesis by blast
  qed
next
  case (reading es' fs)
  show ?thesis
  proof (cases es')
    case Nil
    then have "h = idle(g := Reading 1)" using reading by simp
    then show ?thesis using Nil reading by (auto intro!: phase.outside simp: idle_def)
  next
    case (Cons e es'')
    then have e: "e = (act, l)" "es = es'' @ (RUnlock, g) # fs" using reading(1) by simp_all
    from reading(4) obtain x where x: "solo act (h l) = Some x" "solo_run (h(l := x)) es'' = Some (idle(g := Reading 1))"
      unfolding Cons e(1) solo_run_Cons_Some by blast
    have "\<exists>n. x = Reading n" using solo_reading [OF x(1)] reading(6) Cons e(1) by simp
    then have "phase g (h(l := x)) es"
      unfolding e(2) by (intro phase.reading) (use x(2) reading Cons e(1) in auto)
    with x(1) show ?thesis by blast
  qed
qed

section \<open>Deadlock freedom\<close>

abbreviation holdings :: "nat \<Rightarrow> 'l LockState \<Rightarrow> 'l \<Rightarrow> hold" where
  "holdings t s \<equiv> \<lambda>l. own t (ls_mutexes s l)"

definition gate_inv :: "'l \<Rightarrow> 'l LockState \<Rightarrow> bool" where
  "gate_inv g s \<longleftrightarrow> (\<forall>l. mutex_ok (length (ls_threads s)) (ls_mutexes s l))
     \<and> (\<forall>t < length (ls_threads s). phase g (holdings t s) (ls_threads s ! t))"

lemma gate_inv_start: "\<forall>es \<in> set ths. gated g es \<Longrightarrow> gate_inv g (start ths)"
  by (auto simp: gate_inv_def start_def mutex_ok_def free_mutex_def own_def idle_def fun_eq_iff intro!: phase.outside)

lemma gate_inv_step:
  assumes "lock_step s s'" "gate_inv g s"
  shows "gate_inv g s'"
  using assms(1)
proof cases
  case (run t act l es m)
  have ok: "mutex_ok (length (ls_threads s)) (ls_mutexes s k)" for k using assms(2) by (simp add: gate_inv_def)
  have "phase g (holdings t s) ((act, l) # es)" using assms(2) run(2,3) by (metis gate_inv_def)
  from phase_step [OF this] obtain x where x: "solo act (own t (ls_mutexes s l)) = Some x" "phase g ((holdings t s)(l := x)) es"
    by blast
  have "holdings t s' = (holdings t s)(l := x)"
    using perform_own [OF run(4) x(1) ok] by (auto simp: run(1))
  moreover have "holdings t' s' = holdings t' s" if "t' \<noteq> t" for t'
    using perform_own_other [OF run(4) that ok] by (auto simp: run(1))
  ultimately have "phase g (holdings t' s') (ls_threads s' ! t')" if "t' < length (ls_threads s')" for t'
    using that assms(2) x(2) by (cases "t' = t") (simp_all add: run(1) gate_inv_def)
  moreover have "mutex_ok (length (ls_threads s')) (ls_mutexes s' k)" for k
    using ok [of k] perform_ok [OF run(4) ok run(2)] by (simp add: run(1))
  ultimately show ?thesis by (simp add: gate_inv_def)
qed

lemma gate_inv_steps: "(lock_step ^^ n) s s' \<Longrightarrow> gate_inv g s \<Longrightarrow> gate_inv g s'"
  by (induction n arbitrary: s') (auto intro: gate_inv_step)

text \<open>The phases, told apart by what a thread holds of the gate.\<close>

lemma phase_cases:
  assumes "phase g h es"
  obtains (out) "\<forall>l. h l = Reading 0" | (wait) "h g = Pending" "\<forall>l. l \<noteq> g \<longrightarrow> h l = Reading 0" "es \<noteq> []" | (writes) "h g = Writing" "es \<noteq> []"
  | (reads) act l fs where "h g = Reading 1" "\<forall>l. \<exists>n. h l = Reading n" "es = (act, l) # fs"
      "act = RUnlock \<or> act = RLock \<and> l \<noteq> g"
  using assms
proof cases
  case (reading es' fs)
  then show thesis by (cases es') (auto intro: reads)
qed (auto intro: that simp: idle_def)

lemma gate_idle:
  assumes "gate_inv g s" "t < length (ls_threads s)" "own t (ls_mutexes s g) = Reading 0"
  shows "own t (ls_mutexes s l) = Reading 0"
proof -
  have "phase g (holdings t s) (ls_threads s ! t)" using assms(1,2) by (simp add: gate_inv_def)
  then show ?thesis using assms(3) by (cases rule: phase_cases) (fastforce+)
qed

lemma gate_invD:
  assumes "gate_inv g s"
  shows "mutex_ok (length (ls_threads s)) (ls_mutexes s l)"
    "t < length (ls_threads s) \<Longrightarrow> phase g (holdings t s) (ls_threads s ! t)"
  using assms by (simp_all add: gate_inv_def)

text \<open>A thread can go on if the others have no part in the gate, or if it is a reader and nobody writes.\<close>

lemma alone_progress:
  assumes inv: "gate_inv g s" and t: "t < length (ls_threads s)" "ls_threads s ! t \<noteq> []"
    and others: "\<And>t'. t' < length (ls_threads s) \<Longrightarrow> t' \<noteq> t \<Longrightarrow> own t' (ls_mutexes s g) = Reading 0"
  shows "\<exists>s'. lock_step s s'"
proof -
  obtain act l es where e: "ls_threads s ! t = (act, l) # es" using t(2) by (metis neq_Nil_conv surj_pair)
  from phase_step [OF gate_invD(2) [OF inv t(1), unfolded e]] obtain x where x: "solo act (own t (ls_mutexes s l)) = Some x" by blast
  have "own t' (ls_mutexes s l) = Reading 0" if "t' < length (ls_threads s)" "t' \<noteq> t" for t'
    by (rule gate_idle [OF inv that(1) others [OF that]])
  from perform_alone [OF x gate_invD(1) [OF inv] this] show ?thesis using lock_step.run [OF t(1) e] by auto
qed

lemma reader_progress:
  assumes inv: "gate_inv g s" and t: "t < length (ls_threads s)" "own t (ls_mutexes s g) = Reading 1"
    and nw: "\<forall>t < length (ls_threads s). own t (ls_mutexes s g) \<noteq> Writing"
  shows "\<exists>s'. lock_step s s'"
proof -
  note ph = gate_invD(2) [OF inv]
  from ph [OF t(1)] obtain act l es where e: "ls_threads s ! t = (act, l) # es" "act = RUnlock \<or> act = RLock \<and> l \<noteq> g"
    using t(2) by (cases rule: phase_cases) auto
  from phase_step [OF ph [OF t(1), unfolded e(1)]] obtain x where x: "solo act (own t (ls_mutexes s l)) = Some x" by blast
  have "perform t act (ls_mutexes s l) \<noteq> None"
  proof (cases "act = RUnlock")
    case True
    with x show ?thesis by (cases rule: solo_SomeE) (auto simp: own_Reading simp flip: count_list_pos)
  next
    case False
    have "\<exists>i. own t' (ls_mutexes s l) = Reading i" if "t' < length (ls_threads s)" for t'
      using ph [OF that] nw that False e(2) by (cases rule: phase_cases) auto
    with False e(2) show ?thesis by (intro perform_reading [OF x gate_invD(1) [OF inv]]) auto
  qed
  then show ?thesis using lock_step.run [OF t(1) e(1)] by auto
qed

lemma gate_progress:
  assumes inv: "gate_inv g s" and nf: "\<not> finished s"
  shows "\<exists>s'. lock_step s s'"
proof -
  let ?n = "length (ls_threads s)" and ?m = "ls_mutexes s"
  note ok = gate_invD(1) [OF inv, of g] and ph = gate_invD(2) [OF inv]
  have busy: "ls_threads s ! t \<noteq> []" if "t < ?n" "own t (?m g) \<in> {Writing, Pending}" for t
    using ph [OF that(1)] that(2) by (cases rule: phase_cases) auto
  consider (writes) t where "t < ?n" "own t (?m g) = Writing"
    | (reads) t where "t < ?n" "own t (?m g) = Reading 1" "\<forall>t < ?n. own t (?m g) \<noteq> Writing"
    | (waits) t where "t < ?n" "own t (?m g) = Pending" "\<forall>t < ?n. own t (?m g) \<noteq> Writing \<and> own t (?m g) \<noteq> Reading 1"
    | (out) "\<forall>t < ?n. own t (?m g) \<noteq> Writing \<and> own t (?m g) \<noteq> Reading 1 \<and> own t (?m g) \<noteq> Pending"
    by blast
  then show ?thesis
  proof cases
    case (writes t)
    then have "rw_writer (?m g) = Some t" "rw_pending (?m g) = None" "rw_readers (?m g) = []"
      using ok by (auto simp: own_Writing mutex_ok_def)
    then have "own t' (?m g) = Reading 0" if "t' \<noteq> t" for t' using that by (simp add: own_Reading)
    then show ?thesis using busy writes by (intro alone_progress [OF inv]) auto
  next
    case (reads t)
    then show ?thesis by (rule reader_progress [OF inv])
  next
    case (waits t)
    have "own t' (?m g) = Reading 0" if "t' < ?n" "t' \<noteq> t" for t'
      using ph [OF that(1)] waits(2,3) that own_Pending [OF ok] by (cases rule: phase_cases) auto
    then show ?thesis using busy waits(1,2) by (intro alone_progress [OF inv]) auto
  next
    case out
    have "own t' (?m g) = Reading 0" if "t' < ?n" for t'
      using ph [OF that] out that by (cases rule: phase_cases) auto
    moreover obtain t where "t < ?n" "ls_threads s ! t \<noteq> []"
      using nf by (auto simp: finished_def in_set_conv_nth)
    ultimately show ?thesis by (intro alone_progress [OF inv]) auto
  qed
qed

lemma own_free:
  assumes "mutex_ok n m" "t < n \<Longrightarrow> own t m = Reading 0"
  shows "rw_writer m \<noteq> Some t" "rw_pending m \<noteq> Some t" "t \<notin> set (rw_readers m)"
  using assms by (cases "t < n"; auto simp: own_Reading count_list_0_iff mutex_ok_def)+

lemma finished_free:
  assumes "gate_inv g s" "finished s"
  shows "ls_mutexes s l = free_mutex"
proof -
  have ok: "mutex_ok (length (ls_threads s)) (ls_mutexes s l)" using assms(1) by (simp add: gate_inv_def)
  have "own t (ls_mutexes s l) = Reading 0" if "t < length (ls_threads s)" for t
  proof -
    have "ls_threads s ! t = []" using assms(2) that by (simp add: finished_def)
    then have "phase g (holdings t s) []" using assms(1) that by (metis gate_inv_def)
    then show ?thesis by (cases rule: phase_cases) auto
  qed
  note held = own_free [OF ok this]
  have "rw_writer (ls_mutexes s l) = None" using held(1) by (cases "rw_writer (ls_mutexes s l)") auto
  moreover have "rw_pending (ls_mutexes s l) = None" using held(2) by (cases "rw_pending (ls_mutexes s l)") auto
  moreover have "rw_readers (ls_mutexes s l) = []" using held(3) by (cases "rw_readers (ls_mutexes s l)") auto
  ultimately show ?thesis by (simp add: free_mutex_def)
qed

text \<open>
  While a thread holds the gate for writing, no other thread has part in any mutex; while one holds
  it for reading, no mutex is held for writing.
\<close>

lemma gate_exclusive:
  assumes "gate_inv g s" "rw_writer (ls_mutexes s g) = Some t" "t' \<noteq> t"
  shows "rw_writer (ls_mutexes s l) \<noteq> Some t'" "rw_pending (ls_mutexes s l) \<noteq> Some t'" "t' \<notin> set (rw_readers (ls_mutexes s l))"
proof -
  have ok: "mutex_ok (length (ls_threads s)) (ls_mutexes s l)" for l using assms(1) by (simp add: gate_inv_def)
  have "own t' (ls_mutexes s g) = Reading 0" using ok [of g] assms(2,3) by (auto simp: own_Reading mutex_ok_def)
  then have "own t' (ls_mutexes s l) = Reading 0" if "t' < length (ls_threads s)" using gate_idle [OF assms(1) that] by simp
  from own_free [OF ok this] show "rw_writer (ls_mutexes s l) \<noteq> Some t'" "rw_pending (ls_mutexes s l) \<noteq> Some t'"
    "t' \<notin> set (rw_readers (ls_mutexes s l))" by blast+
qed

lemma gate_shared:
  assumes "gate_inv g s" "rw_readers (ls_mutexes s g) \<noteq> []"
  shows "rw_writer (ls_mutexes s l) = None"
proof (rule ccontr)
  assume "rw_writer (ls_mutexes s l) \<noteq> None"
  then obtain t where t: "rw_writer (ls_mutexes s l) = Some t" by blast
  have ok: "mutex_ok (length (ls_threads s)) (ls_mutexes s l)" for l using assms(1) by (simp add: gate_inv_def)
  have "t < length (ls_threads s)" using ok [of l] t by (simp add: mutex_ok_def)
  then have ph: "phase g (holdings t s) (ls_threads s ! t)" using assms(1) by (simp add: gate_inv_def)
  have own: "own t (ls_mutexes s l) = Writing" using t by (simp add: own_def)
  have "own t (ls_mutexes s g) \<noteq> Writing" using assms(2) ok [of g] by (auto simp: own_Writing mutex_ok_def)
  with ph own show False by (cases rule: phase_cases) (metis hold.distinct)+
qed

text \<open>
  The interface of a component with a gate: its methods, by their lock operations.  Whatever its
  clients call concurrently, no state is stuck, every run ends, and then every call has returned
  and every mutex is free.
\<close>

locale gate =
  fixes g :: 'l and calls :: "(action \<times> 'l) list \<Rightarrow> bool"
  assumes calls_gated: "calls es \<Longrightarrow> gated g es"
begin

definition client :: "(action \<times> 'l) list \<Rightarrow> bool" where
  "client es \<longleftrightarrow> (\<exists>ess. (\<forall>c \<in> set ess. calls c) \<and> es = concat ess)"

lemma client_gated: "client es \<Longrightarrow> gated g es"
  using calls_gated by (auto simp: client_def intro!: gated_concat)

lemma clients_inv:
  assumes "\<forall>es \<in> set ths. client es" "(lock_step ^^ n) (start ths) s"
  shows "gate_inv g s"
  using gate_inv_steps [OF assms(2)] gate_inv_start [of ths g] assms(1) client_gated by blast

lemma never_stuck:
  assumes "\<forall>es \<in> set ths. client es" "(lock_step ^^ n) (start ths) s"
  shows "\<not> stuck s"
  using gate_progress [OF clients_inv [OF assms]] by (auto simp: stuck_iff)

lemma exclusive:
  assumes "\<forall>es \<in> set ths. client es" "(lock_step ^^ n) (start ths) s" "rw_writer (ls_mutexes s g) = Some t" "t' \<noteq> t"
  shows "rw_writer (ls_mutexes s l) \<noteq> Some t' \<and> rw_pending (ls_mutexes s l) \<noteq> Some t' \<and> t' \<notin> set (rw_readers (ls_mutexes s l))"
  using gate_exclusive [OF clients_inv [OF assms(1,2)] assms(3,4)] by blast

lemma shared:
  assumes "\<forall>es \<in> set ths. client es" "(lock_step ^^ n) (start ths) s" "rw_readers (ls_mutexes s g) \<noteq> []"
  shows "rw_writer (ls_mutexes s l) = None"
  using gate_shared [OF clients_inv [OF assms(1,2)] assms(3)] .

lemma bounded:
  assumes "(lock_step ^^ n) (start ths) s"
  shows "n \<le> sum_list (map length ths)"
  using lock_steps_todo [OF assms] by (simp add: todo_def start_def)

lemma ends_free:
  assumes "\<forall>es \<in> set ths. client es" "(lock_step ^^ n) (start ths) s" "\<forall>s'. \<not> lock_step s s'"
  shows "finished s" "ls_mutexes s l = free_mutex"
  using gate_progress [OF clients_inv [OF assms(1,2)]] finished_free [OF clients_inv [OF assms(1,2)]] assms(3) by blast+

lemma safe:
  assumes "\<forall>es \<in> set ths. \<exists>cs. (\<forall>c \<in> set cs. calls c) \<and> es = concat cs" "(lock_step ^^ n) (start ths) s"
  shows "\<not> stuck s \<and> n \<le> sum_list (map length ths)
    \<and> ((\<forall>s'. \<not> lock_step s s') \<longrightarrow> finished s \<and> (\<forall>l. ls_mutexes s l = free_mutex))
    \<and> (\<forall>t t' l. rw_writer (ls_mutexes s g) = Some t \<and> t' \<noteq> t \<longrightarrow>
        rw_writer (ls_mutexes s l) \<noteq> Some t' \<and> t' \<notin> set (rw_readers (ls_mutexes s l)))
    \<and> (\<forall>l. rw_readers (ls_mutexes s g) \<noteq> [] \<longrightarrow> rw_writer (ls_mutexes s l) = None)"
proof -
  have c: "\<forall>es \<in> set ths. client es" using assms(1) by (simp add: client_def)
  show ?thesis
    using never_stuck [OF c assms(2)] bounded [OF assms(2)] ends_free [OF c assms(2)] exclusive [OF c assms(2)]
      shared [OF c assms(2)] by blast
qed

end

end
