(* ===== verification/AllocatorLocks.thy ===== *)
theory AllocatorLocks
  imports AllocatorEdges Locks
begin

text \<open>
  The lock operations of planes, regions and the allocator.  For every method, the sequence of
  lock operations that a call performs in a given state, following the branches of the code; the
  branches are decided by the operations of the model themselves.  A panic ends the program, so
  the sequences are those of calls that return.  The mutex of a plane is named by the identifiers
  of the plane, that of a region by the identifier of the region.
\<close>

datatype mutex = MuVM | MuMemory | MuCache | MuTree | MuAllocator | MuLRU | MuRegion u64 | MuPlane u64 u32

type_synonym trace = "(action \<times> mutex) list"

section \<open>Planes and regions\<close>

definition plane_mu :: "Plane \<Rightarrow> mutex" where
  "plane_mu p = MuPlane (plane_RegionID p) (plane_ID p)"

definition region_mu :: "Region \<Rightarrow> mutex" where
  "region_mu r = MuRegion (reg_ID r)"

definition locks_Plane_Allocate :: "Plane \<Rightarrow> trace" where
  "locks_Plane_Allocate p = locked (plane_mu p) []"

definition locks_Plane_Free :: "Plane \<Rightarrow> trace" where
  "locks_Plane_Free p = locked (plane_mu p) []"

definition locks_Plane_FreeBytes :: "Plane \<Rightarrow> trace" where
  "locks_Plane_FreeBytes p = rlocked (plane_mu p) []"

definition locks_Plane_Fragmentation :: "Plane \<Rightarrow> trace" where
  "locks_Plane_Fragmentation p = rlocked (plane_mu p) []"

definition Region_RLock :: "Region \<Rightarrow> trace" where
  "Region_RLock r = [(RLock, region_mu r)]"

definition Region_RUnlock :: "Region \<Rightarrow> trace" where
  "Region_RUnlock r = [(RUnlock, region_mu r)]"

definition Region_Lock :: "Region \<Rightarrow> trace" where
  "Region_Lock r = lock (region_mu r)"

definition Region_Unlock :: "Region \<Rightarrow> trace" where
  "Region_Unlock r = [(Unlock, region_mu r)]"

definition locks_AddPlane :: "Region \<Rightarrow> Plane \<Rightarrow> trace" where
  "locks_AddPlane r p = locked (region_mu r) (locks_Plane_FreeBytes p)"

definition locks_GetPlane :: "Region \<Rightarrow> trace" where
  "locks_GetPlane r = rlocked (region_mu r) []"

definition locks_Region_Fragmentation :: "Region \<Rightarrow> trace" where
  "locks_Region_Fragmentation r = rlocked (region_mu r) (concat (map locks_Plane_Fragmentation (reg_Planes r)))"

definition locks_UpdateMerkleRoot :: "Region \<Rightarrow> trace" where
  "locks_UpdateMerkleRoot r = locked (region_mu r) []"

text \<open>The report calls \<^verbatim>\<open>Fragmentation\<close> while it holds the read lock, which that takes again.\<close>

definition locks_Region_GetCompactionReport :: "Region \<Rightarrow> trace" where
  "locks_Region_GetCompactionReport r = rlocked (region_mu r) (locks_Region_Fragmentation r)"

section \<open>Allocation\<close>

definition locks_promoteRegionLRU :: trace where
  "locks_promoteRegionLRU = locked MuLRU []"

text \<open>The planes of a region up to the one that takes the block, and whether one does.\<close>

fun locks_alloc_in_planes :: "u32 \<Rightarrow> Plane list \<Rightarrow> trace \<times> bool" where
  "locks_alloc_in_planes sz [] = ([], False)"
| "locks_alloc_in_planes sz (p # ps) =
     (let rest = locks_alloc_in_planes sz ps
      in if ucast (Plane_FreeBytes p) \<ge> sz then (case Plane_Allocate p (ucast sz) of
             Inr (_, Some _) \<Rightarrow> (locks_Plane_FreeBytes p @ locks_Plane_Allocate p, True)
           | _ \<Rightarrow> (locks_Plane_FreeBytes p @ locks_Plane_Allocate p @ fst rest, snd rest))
         else (locks_Plane_FreeBytes p @ fst rest, snd rest))"

fun locks_fast_regions :: "Allocator3D \<Rightarrow> u32 \<Rightarrow> RegionType \<Rightarrow> u64 list \<Rightarrow> trace" where
  "locks_fast_regions a sz regionType [] = [(RUnlock, MuLRU)]"
| "locks_fast_regions a sz regionType (x # xs) =
     (case GetRegion a x of
        None \<Rightarrow> locks_fast_regions a sz regionType xs
      | Some region \<Rightarrow>
          if reg_Type region \<noteq> regionType then locks_fast_regions a sz regionType xs
          else if reg_FreeBytes region < ucast sz then locks_fast_regions a sz regionType xs
          else let (es, found) = locks_alloc_in_planes sz (reg_Planes region)
            in Region_RLock region @ es @ Region_RUnlock region
                 @ (if found then (RUnlock, MuLRU) # locks_promoteRegionLRU else locks_fast_regions a sz regionType xs))"

definition locks_tryFastAllocation :: "Allocator3D \<Rightarrow> u32 \<Rightarrow> RegionType \<Rightarrow> trace" where
  "locks_tryFastAllocation a sz regionType = (RLock, MuLRU) # locks_fast_regions a sz regionType (al_regionLRU a)"

text \<open>
  Y-promotion reads the free bytes of every plane, twice where there are some: in the scan of the
  regions and again under the write lock of the chosen one, before the fragments are carved.
\<close>

definition locks_free_scan :: "Plane list \<Rightarrow> trace" where
  "locks_free_scan ps = concat (map (\<lambda>p. locks_Plane_FreeBytes p @ (if Plane_FreeBytes p > 0 then locks_Plane_FreeBytes p else [])) ps)"

definition locks_scan_region :: "RegionType \<Rightarrow> Region \<Rightarrow> trace" where
  "locks_scan_region regionType r =
     (if reg_Type r \<noteq> regionType then [] else Region_RLock r @ locks_free_scan (reg_Planes r) @ Region_RUnlock r)"

fun locks_carve :: "Plane list \<Rightarrow> u32 \<Rightarrow> trace" where
  "locks_carve [] remaining = []"
| "locks_carve (p # ps) remaining =
     (if remaining = 0 then []
      else if Plane_FreeBytes p = 0 then locks_carve ps remaining
      else let allocSize = ucast (min32 (ucast (Plane_FreeBytes p)) remaining) :: u16
        in locks_Plane_FreeBytes p @
           (if allocSize = 0 then locks_carve ps remaining
            else locks_Plane_Allocate p @ (case Plane_Allocate p allocSize of
                Inr (_, Some _) \<Rightarrow> locks_carve ps (remaining - ucast allocSize)
              | _ \<Rightarrow> locks_carve ps remaining)))"

definition locks_tryYPromotion :: "order \<Rightarrow> Allocator3D \<Rightarrow> u32 \<Rightarrow> RegionType \<Rightarrow> trace" where
  "locks_tryYPromotion ord a sz regionType =
     (let planeSize = ucast (cfg_PlaneSize (al_config a)) :: u32;
          planesNeeded = (sz + planeSize - 1) div planeSize
      in if planesNeeded > ucast (cfg_MaxYPromotions (al_config a)) then []
         else concat (map (\<lambda>e. locks_scan_region regionType (snd e)) (range_over ord (al_regions a)))
           @ (case fst (foldl (best_step sz regionType planesNeeded) (None, 0) (range_over ord (al_regions a))) of
                None \<Rightarrow> []
              | Some (x, region) \<Rightarrow>
                  Region_Lock region @ locks_free_scan (reg_Planes region) @ locks_carve (reg_Planes region) sz
                    @ (case carve (reg_Planes region) sz [] of
                         Inr (planes, remaining, fragments) \<Rightarrow> if remaining > 0 then [] else locks_promoteRegionLRU
                       | Inl _ \<Rightarrow> [])
                    @ Region_Unlock region))"

definition locks_allocateNewRegion :: "Allocator3D \<Rightarrow> u32 \<Rightarrow> RegionType \<Rightarrow> trace" where
  "locks_allocateNewRegion a sz regionType =
     (let regionID = al_nextRegionID a + 1; plane = getPlaneFromPool a 0 regionID
      in locks_AddPlane (NewRegion regionID regionType 0) plane @ locks_Plane_FreeBytes plane
           @ (if ucast (Plane_FreeBytes plane) \<ge> sz
              then locks_Plane_Allocate plane @ (case Plane_Allocate plane (ucast sz) of
                  Inr (_, Some _) \<Rightarrow> locks_promoteRegionLRU | _ \<Rightarrow> [])
              else []))"

definition locks_allocateSync :: "order \<Rightarrow> Allocator3D \<Rightarrow> u32 \<Rightarrow> RegionType \<Rightarrow> AllocationFlags \<Rightarrow> u64 \<Rightarrow> trace" where
  "locks_allocateSync ord a sz regionType flags now = locked MuAllocator
     (locks_tryFastAllocation a sz regionType @ (case tryFastAllocation a sz regionType now of
        Inr None \<Rightarrow> locks_tryYPromotion ord a sz regionType @ (case tryYPromotion ord a sz regionType flags now of
            Inr (a', None) \<Rightarrow> locks_allocateNewRegion a' sz regionType
          | _ \<Rightarrow> [])
      | _ \<Rightarrow> []))"

text \<open>
  A caller of \<^verbatim>\<open>Allocate\<close> whose request a worker serves takes no lock of its own; the worker
  performs the operations of \<^verbatim>\<open>allocateSync\<close> for it.
\<close>

definition locks_Allocate :: "bool \<Rightarrow> order \<Rightarrow> Allocator3D \<Rightarrow> u32 \<Rightarrow> RegionType \<Rightarrow> AllocationFlags \<Rightarrow> u64 \<Rightarrow> trace" where
  "locks_Allocate queued ord a sz regionType flags now =
     (if cfg_EnableConcurrent (al_config a) \<and> queued then [] else locks_allocateSync ord a sz regionType flags now)"

definition locks_allocWorker :: "order \<Rightarrow> Allocator3D \<Rightarrow> u32 \<Rightarrow> RegionType \<Rightarrow> AllocationFlags \<Rightarrow> u64 \<Rightarrow> trace" where
  "locks_allocWorker ord a sz regionType flags now = locks_allocateSync ord a sz regionType flags now"

section \<open>Release and reports\<close>

definition locks_free_in :: "Region \<Rightarrow> u32 \<Rightarrow> trace" where
  "locks_free_in r planeID = (case find (\<lambda>p. plane_ID p = planeID) (reg_Planes r) of None \<Rightarrow> [] | Some p \<Rightarrow> locks_Plane_Free p)"

definition locks_freeSync :: "Allocator3D \<Rightarrow> Allocation \<Rightarrow> trace" where
  "locks_freeSync a alloc = locked MuAllocator
     (case GetRegion a (addr_X (alloc_Address alloc)) of
        None \<Rightarrow> []
      | Some region \<Rightarrow> Region_Lock region @
          (if IsYPromoted alloc then concat (map (\<lambda>frag. locks_free_in region (frag_PlaneID frag)) (alloc_Fragments alloc))
           else locks_free_in region (addr_Y (alloc_Address alloc))) @ Region_Unlock region)"

definition locks_GetCompactionReport :: "order \<Rightarrow> Allocator3D \<Rightarrow> trace" where
  "locks_GetCompactionReport ord a =
     rlocked MuAllocator (concat (map (\<lambda>e. locks_Region_GetCompactionReport (snd e)) (range_over ord (al_regions a))))"

fun locks_analyze_regions ::
  "(Plane \<Rightarrow> order) \<Rightarrow> CompactionConfig \<Rightarrow> (u64 \<times> Region) list \<Rightarrow> u64 list \<Rightarrow> trace" where
  "locks_analyze_regions pord config [] moved = []"
| "locks_analyze_regions pord config ((_, region) # rs) moved =
     (let report = Region_GetCompactionReport region
      in locks_Region_GetCompactionReport region @
         (if \<not> rep_RecommendCompact report \<or> rep_Fragmentation report < FragmentationThreshold config
          then locks_analyze_regions pord config rs moved
          else Region_RLock region @ Region_RUnlock region
            @ (case analyze_planes pord (MaxAllocationsToMove config) (reg_Planes region) moved of
                 Inl _ \<Rightarrow> [] | Inr moved' \<Rightarrow> locks_analyze_regions pord config rs moved')))"

definition locks_AnalyzeCompaction :: "order \<Rightarrow> (Plane \<Rightarrow> order) \<Rightarrow> Allocator3D \<Rightarrow> CompactionConfig \<Rightarrow> trace" where
  "locks_AnalyzeCompaction ord pord a config =
     rlocked MuAllocator (locks_analyze_regions pord config (range_over ord (al_regions a)) [])"

text \<open>
  \<^verbatim>\<open>AllocateInRegion\<close> takes no lock of its own at the start: the caller is to hold the write lock
  of the region.  The planes of the region and then a new plane are tried.
\<close>

definition locks_AllocateInRegion :: "Allocator3D \<Rightarrow> u32 \<Rightarrow> Region \<Rightarrow> trace" where
  "locks_AllocateInRegion a sz region =
     (let (es, found) = locks_alloc_in_planes sz (reg_Planes region);
          plane = getPlaneFromPool a (of_nat (length (reg_Planes region))) (reg_ID region);
          (fs, fresh) = locks_alloc_in_planes sz [plane]
      in if found then es @ locks_promoteRegionLRU
         else es @ locks_AddPlane region plane @ fs @ (if fresh then locks_promoteRegionLRU else []))"
section \<open>Where the operations nest\<close>

text \<open>The mutexes that a method of the allocator may hold beside its own.\<close>

definition plane_mutexes :: "mutex set" where
  "plane_mutexes = {l. \<exists>x y. l = MuPlane x y}"

definition region_mutexes :: "mutex set" where
  "region_mutexes = {l. \<exists>x. l = MuRegion x}"

definition inner_mutexes :: "mutex set" where
  "inner_mutexes = insert MuLRU (region_mutexes \<union> plane_mutexes)"

lemmas mutex_classes = plane_mutexes_def region_mutexes_def inner_mutexes_def plane_mu_def region_mu_def

lemma region_sections:
  "Region_RLock r @ es @ Region_RUnlock r = rlocked (region_mu r) es"
  "Region_RLock r @ es @ Region_RUnlock r @ fs = rlocked (region_mu r) es @ fs"
  "Region_RLock r @ Region_RUnlock r @ fs = rlocked (region_mu r) [] @ fs"
  "Region_Lock r @ es @ Region_Unlock r = locked (region_mu r) es"
  by (simp_all add: Region_RLock_def Region_RUnlock_def Region_Lock_def Region_Unlock_def rlocked_def locked_def)

lemma nested_plane_ops [section_intros]:
  "nested plane_mutexes (locks_Plane_Allocate p)" "nested plane_mutexes (locks_Plane_Free p)"
  "nested plane_mutexes (locks_Plane_FreeBytes p)"
  unfolding locks_Plane_Allocate_def locks_Plane_Free_def locks_Plane_FreeBytes_def
  by (auto intro!: nested_locked_in nested_rlocked_in nested_Nil simp: mutex_classes)

lemma readable_plane_ops [section_intros]: "plane_mutexes \<subseteq> L \<Longrightarrow> readable L (locks_Plane_Fragmentation p)"
  unfolding locks_Plane_Fragmentation_def by (auto intro!: readable_rlocked readable_Nil simp: mutex_classes)

lemma nested_alloc_in_planes [section_intros]: "nested plane_mutexes (fst (locks_alloc_in_planes sz ps))"
  by (induction ps) (auto simp: Let_def intro!: section_intros split: sum.split option.split)

lemma nested_free_scan [section_intros]: "nested plane_mutexes (locks_free_scan ps)"
  unfolding locks_free_scan_def by (auto intro!: section_intros)

lemma nested_carve [section_intros]: "nested plane_mutexes (locks_carve ps remaining)"
  by (induction ps arbitrary: remaining) (auto simp: Let_def intro!: section_intros split: sum.split option.split)

lemma nested_free_in [section_intros]: "nested plane_mutexes (locks_free_in r y)"
  by (auto simp: locks_free_in_def intro!: section_intros split: option.split)

lemma nested_promote: "MuLRU \<in> L \<Longrightarrow> nested L locks_promoteRegionLRU"
  unfolding locks_promoteRegionLRU_def by (intro nested_locked_in section_intros)

text \<open>A section over planes may stand inside the lock of a region.\<close>

lemma nested_in_region:
  assumes "nested plane_mutexes es"
  shows "nested (region_mutexes \<union> plane_mutexes) (rlocked (region_mu r) es)" "nested inner_mutexes (locked (region_mu r) es)"
  by (rule nested_rlocked [OF assms] nested_locked [OF assms]; auto simp: mutex_classes)+

lemma locks_fast_regions_shape:
  "\<exists>es fs. locks_fast_regions a sz regionType xs = es @ (RUnlock, MuLRU) # fs
     \<and> nested (region_mutexes \<union> plane_mutexes) es \<and> nested {MuLRU} fs"
proof (induction xs)
  case Nil
  show ?case by (intro exI [of _ "[]"]) (simp add: nested_Nil)
next
  case (Cons x xs)
  show ?case
  proof (cases "\<exists>r. GetRegion a x = Some r \<and> reg_Type r = regionType \<and> \<not> reg_FreeBytes r < ucast sz")
    case True
    then obtain r where r: "GetRegion a x = Some r" "reg_Type r = regionType" "\<not> reg_FreeBytes r < ucast sz" by blast
    obtain es found where l: "locks_alloc_in_planes sz (reg_Planes r) = (es, found)" by fastforce
    have here: "nested (region_mutexes \<union> plane_mutexes) (rlocked (region_mu r) es)"
      using nested_alloc_in_planes [of sz "reg_Planes r"] by (simp add: l nested_in_region(1))
    from Cons.IH obtain es' fs where rest: "locks_fast_regions a sz regionType xs = es' @ (RUnlock, MuLRU) # fs"
      "nested (region_mutexes \<union> plane_mutexes) es'" "nested {MuLRU} fs" by blast
    show ?thesis
    proof (cases found)
      case True
      then show ?thesis
        using r l here nested_promote by (intro exI [of _ "rlocked (region_mu r) es"] exI [of _ locks_promoteRegionLRU])
          (simp add: region_sections)
    next
      case False
      then show ?thesis
        using r l rest nested_append [OF here rest(2)] by (intro exI [of _ "rlocked (region_mu r) es @ es'"] exI [of _ fs])
          (simp add: region_sections)
    qed
  next
    case False
    then have "locks_fast_regions a sz regionType (x # xs) = locks_fast_regions a sz regionType xs"
      by (auto split: option.split)
    with Cons.IH show ?thesis by (simp only:)
  qed
qed

lemma nested_fast: "nested inner_mutexes (locks_tryFastAllocation a sz regionType)"
proof -
  obtain es fs where e: "locks_fast_regions a sz regionType (al_regionLRU a) = es @ (RUnlock, MuLRU) # fs"
    "nested (region_mutexes \<union> plane_mutexes) es" "nested {MuLRU} fs" using locks_fast_regions_shape by blast
  have "locks_tryFastAllocation a sz regionType = rlocked MuLRU es @ fs"
    by (simp add: locks_tryFastAllocation_def e(1) rlocked_def)
  moreover have "nested inner_mutexes (rlocked MuLRU es)" by (rule nested_rlocked [OF e(2)]) (auto simp: mutex_classes)
  moreover have "nested inner_mutexes fs" by (rule nested_mono [OF e(3)]) (auto simp: mutex_classes)
  ultimately show ?thesis by (simp add: nested_append)
qed

lemma nested_scan_region: "nested inner_mutexes (locks_scan_region regionType r)"
proof (cases "reg_Type r = regionType")
  case True
  have "nested inner_mutexes (rlocked (region_mu r) (locks_free_scan (reg_Planes r)))"
    by (rule nested_mono [OF nested_in_region(1) [OF nested_free_scan]]) (auto simp: inner_mutexes_def)
  with True show ?thesis by (simp add: locks_scan_region_def region_sections)
qed (simp add: locks_scan_region_def nested_Nil)

lemma nested_promotion: "nested inner_mutexes (locks_tryYPromotion ord a sz regionType)"
proof -
  let ?tail = "\<lambda>region. case carve (reg_Planes region) sz [] of
    Inr (planes, remaining, fragments) \<Rightarrow> if remaining > 0 then [] else locks_promoteRegionLRU | Inl _ \<Rightarrow> []"
  have chosen: "nested inner_mutexes (locked (region_mu r) (locks_free_scan (reg_Planes r) @ locks_carve (reg_Planes r) sz @ ?tail r))" for r
  proof (rule nested_locked [where L = "insert MuLRU plane_mutexes"])
    have "nested (insert MuLRU plane_mutexes) (?tail r)"
      by (auto intro: nested_promote nested_Nil split: sum.split)
    moreover have "nested (insert MuLRU plane_mutexes) (locks_free_scan (reg_Planes r))"
      "nested (insert MuLRU plane_mutexes) (locks_carve (reg_Planes r) sz)"
      by (rule nested_mono [OF nested_free_scan] nested_mono [OF nested_carve]; blast)+
    ultimately show "nested (insert MuLRU plane_mutexes) (locks_free_scan (reg_Planes r) @ locks_carve (reg_Planes r) sz @ ?tail r)"
      by (simp add: nested_append)
  qed (auto simp: mutex_classes)
  have "nested inner_mutexes (case best of None \<Rightarrow> [] | Some (x, region) \<Rightarrow> Region_Lock region
      @ locks_free_scan (reg_Planes region) @ locks_carve (reg_Planes region) sz @ ?tail region @ Region_Unlock region)"
    for best :: "(u64 \<times> Region) option"
    using chosen by (auto simp: nested_Nil simp flip: region_sections(4) split: option.split)
  then show ?thesis
    unfolding locks_tryYPromotion_def Let_def by (auto intro: section_intros nested_scan_region)
qed

lemma nested_new_region: "nested inner_mutexes (locks_allocateNewRegion a sz regionType)"
proof -
  have planes: "nested inner_mutexes es" if "nested plane_mutexes es" for es
    by (rule nested_mono [OF that]) (auto simp: mutex_classes)
  have "nested inner_mutexes (locks_AddPlane r p)" for r p
    unfolding locks_AddPlane_def by (rule nested_in_region(2)) (rule section_intros)
  moreover have "nested inner_mutexes locks_promoteRegionLRU" by (rule nested_promote) (simp add: inner_mutexes_def)
  ultimately show ?thesis
    unfolding locks_allocateNewRegion_def Let_def
    by (auto intro!: nested_append planes [OF nested_plane_ops(1)] planes [OF nested_plane_ops(3)]
      simp: nested_Nil split: sum.split option.split)
qed

lemma nested_release:
  "nested plane_mutexes (if IsYPromoted alloc
     then concat (map (\<lambda>frag. locks_free_in r (frag_PlaneID frag)) (alloc_Fragments alloc))
     else locks_free_in r (addr_Y (alloc_Address alloc)))"
  by (simp add: section_intros)

lemma readable_fragmentation: "inner_mutexes \<subseteq> L \<Longrightarrow> readable L (locks_Region_Fragmentation r)"
  unfolding locks_Region_Fragmentation_def
  by (intro readable_rlocked section_intros) (auto simp: mutex_classes)

lemma readable_report: "inner_mutexes \<subseteq> L \<Longrightarrow> readable L (locks_Region_GetCompactionReport r)"
  unfolding locks_Region_GetCompactionReport_def
  by (intro readable_rlocked readable_fragmentation) (auto simp: mutex_classes)

lemma readable_analyze: "inner_mutexes \<subseteq> L \<Longrightarrow> readable L (locks_analyze_regions pord config rs moved)"
proof (induction pord config rs moved rule: locks_analyze_regions.induct)
  case (2 pord config x region rs moved)
  have "readable L (rlocked (region_mu region) [])"
    using 2(3) by (intro readable_rlocked section_intros) (auto simp: mutex_classes)
  then show ?case
    using 2 by (auto simp: Let_def region_sections intro!: section_intros readable_report split: sum.split)
qed (simp add: section_intros)
text \<open>The planes as the model of the allocation searches them.\<close>

lemma locks_alloc_in_planes_found:
  "alloc_in_planes mk sz ps = Inr r \<Longrightarrow> snd (locks_alloc_in_planes sz ps) \<longleftrightarrow> r \<noteq> None"
  by (induction ps arbitrary: r) (auto simp: Let_def go_bind_eq_Inr_iff map_option_case split: if_splits sum.split option.splits)

section \<open>The methods of the allocator\<close>

text \<open>A call of a method that returns, by its lock operations; a worker's round is one too.\<close>

inductive allocator_method :: "trace \<Rightarrow> bool" where
  allocate: "Allocate queued ord a sz regionType flags now = Some (Inr r) \<Longrightarrow>
    allocator_method (locks_Allocate queued ord a sz regionType flags now)"
| worker: "doAllocate ord a sz regionType flags now = Inr r \<Longrightarrow> allocator_method (locks_allocWorker ord a sz regionType flags now)"
| release: "allocator_method (locks_freeSync a alloc)"
| report: "allocator_method (locks_GetCompactionReport ord a)"
| analyze: "allocator_method (locks_AnalyzeCompaction ord pord a config)"

lemma own_not_inner: "MuAllocator \<notin> inner_mutexes"
  by (simp add: mutex_classes)

text \<open>Each method as a section inside the allocator's mutex.\<close>

lemma allocateSync_section: "writes_in MuAllocator inner_mutexes (locks_allocateSync ord a sz regionType flags now)"
  unfolding writes_in_def locks_allocateSync_def
  by (intro exI conjI own_not_inner, rule refl)
    (auto intro!: nested_append nested_fast nested_promotion nested_new_region simp: nested_Nil split: sum.split option.split)

lemma freeSync_section: "writes_in MuAllocator inner_mutexes (locks_freeSync a alloc)"
  unfolding writes_in_def locks_freeSync_def
  by (intro exI conjI own_not_inner, rule refl)
    (simp add: region_sections nested_Nil nested_in_region(2) [OF nested_release] split: option.split)

lemma report_section: "reads_in MuAllocator inner_mutexes (locks_GetCompactionReport ord a)"
  unfolding reads_in_def locks_GetCompactionReport_def
  by (intro exI conjI own_not_inner, rule refl) (intro readable_concat readable_report, simp)

lemma analyze_section: "reads_in MuAllocator inner_mutexes (locks_AnalyzeCompaction ord pord a config)"
  unfolding reads_in_def locks_AnalyzeCompaction_def
  by (intro exI conjI own_not_inner, rule refl) (intro readable_analyze, simp)

lemmas allocator_sections = allocateSync_section freeSync_section report_section analyze_section

lemma allocator_method_gated: "allocator_method es \<Longrightarrow> gated MuAllocator es"
  by (induction rule: allocator_method.induct)
    (auto simp: locks_Allocate_def locks_allocWorker_def intro: gated.none allocator_sections
      allocator_sections(1,2) [THEN writes_in_gated] allocator_sections(3,4) [THEN reads_in_gated])

interpretation al_gate: gate MuAllocator allocator_method
  by unfold_locales (rule allocator_method_gated)
section \<open>Properties\<close>

text \<open>
  C12. Any number of goroutines may call the allocator at the same time, each any sequence of
  \<^verbatim>\<open>Allocate\<close>, \<^verbatim>\<open>Free\<close>, \<^verbatim>\<open>GetCompactionReport\<close> and \<^verbatim>\<open>AnalyzeCompaction\<close>, with workers beside them,
  whatever states the calls meet: no interleaving of their lock operations reaches a deadlock, every
  run is at most as long as the sequences together, and when nothing can run any more, every call has
  returned and every mutex is free.  While one call holds the allocator's mutex for writing, no other
  holds a mutex at all; while one holds it for reading, no mutex is held for writing.  This is so
  although the Y-promotion takes the mutex of the LRU list inside that of a region and the fast path
  takes them in the opposite order.
\<close>

theorem allocator_never_deadlocks:
  assumes "\<forall>es \<in> set ths. \<exists>cs. (\<forall>c \<in> set cs. allocator_method c) \<and> es = concat cs"
    and "(lock_step ^^ n) (start ths) s"
  shows "\<not> stuck s \<and> n \<le> sum_list (map length ths)
    \<and> ((\<forall>s'. \<not> lock_step s s') \<longrightarrow> finished s \<and> (\<forall>l. ls_mutexes s l = free_mutex))
    \<and> (\<forall>t t' l. rw_writer (ls_mutexes s MuAllocator) = Some t \<and> t' \<noteq> t \<longrightarrow>
        rw_writer (ls_mutexes s l) \<noteq> Some t' \<and> t' \<notin> set (rw_readers (ls_mutexes s l)))
    \<and> (\<forall>l. rw_readers (ls_mutexes s MuAllocator) \<noteq> [] \<longrightarrow> rw_writer (ls_mutexes s l) = None)"
  by (rule al_gate.safe [OF assms])

theorem allocator_never_deadlocks_witness:
  "\<exists>s. (lock_step ^^ 2) (start [locks_freeSync warm promoted_alloc, locks_GetCompactionReport (\<lambda>n. [0..<n]) warm]) s \<and> \<not> stuck s"
proof -
  let ?ths = "[locks_freeSync warm promoted_alloc, locks_GetCompactionReport (\<lambda>n. [0..<n]) warm]"
  have "\<exists>cs. (\<forall>c \<in> set cs. allocator_method c) \<and> es = concat cs" if "allocator_method es" for es
    using that by (intro exI [of _ "[es]"]) simp
  then have calls: "\<forall>es \<in> set ?ths. \<exists>cs. (\<forall>c \<in> set cs. allocator_method c) \<and> es = concat cs"
    by (simp add: allocator_method.release allocator_method.report)
  obtain s where "scheduled [1, 0] (start ?ths) = Some s"
    by (simp add: locks_freeSync_def locks_GetCompactionReport_def locked_def lock_def rlocked_def start_def free_mutex_def)
  with scheduled_steps [OF this] allocator_never_deadlocks [OF calls, of 2] show ?thesis by (auto simp: numeral_2_eq_2)
qed

text \<open>
  C21. The contract of \<^verbatim>\<open>AllocateInRegion\<close> leads to a deadlock even where no new plane is needed: a
  caller that holds the write lock of a region, as the comment asks, waits at the end for the mutex of
  the LRU list, which a concurrent \<^verbatim>\<open>Allocate\<close> holds for reading while it waits for the region.
  This happens for every allocator whose most recently used region fits the concurrent request by
  its type and free bytes, if the first plane of the region has room for the block of the first caller.
\<close>

theorem region_allocation_deadlocks:
  assumes "al_regionLRU a = x # xs" "GetRegion a x = Some r" "\<not> reg_FreeBytes r < ucast sz" "reg_Planes r = p # ps"
    and "(ucast (Plane_FreeBytes p) :: u32) \<ge> sz'" "Plane_Allocate p (ucast sz') = Inr (p', Some z)"
  shows "\<exists>n s. (lock_step ^^ n) (start [locks_allocateSync ord a sz (reg_Type r) flags now,
       Region_Lock r @ locks_AllocateInRegion a sz' r @ Region_Unlock r]) s \<and> stuck s"
proof -
  obtain es found where "locks_alloc_in_planes sz (reg_Planes r) = (es, found)" by fastforce
  then obtain rest where fast: "locks_allocateSync ord a sz (reg_Type r) flags now =
      [(Announce, MuAllocator), (Acquire, MuAllocator), (RLock, MuLRU), (RLock, region_mu r)] @ rest"
    using assms(1-3) by (simp add: locks_allocateSync_def locked_def lock_def locks_tryFastAllocation_def Region_RLock_def)
  have caller: "Region_Lock r @ locks_AllocateInRegion a sz' r @ Region_Unlock r =
      [(Announce, region_mu r), (Acquire, region_mu r), (RLock, plane_mu p), (RUnlock, plane_mu p), (Announce, plane_mu p),
       (Acquire, plane_mu p), (Unlock, plane_mu p), (Announce, MuLRU), (Acquire, MuLRU), (Unlock, MuLRU), (Unlock, region_mu r)]"
    using assms(4-6) by (simp add: Region_Lock_def Region_Unlock_def locks_AllocateInRegion_def locks_promoteRegionLRU_def
        locks_Plane_FreeBytes_def locks_Plane_Allocate_def locked_def rlocked_def lock_def)
  let ?s = "start [locks_allocateSync ord a sz (reg_Type r) flags now, Region_Lock r @ locks_AllocateInRegion a sz' r @ Region_Unlock r]"
  have "\<exists>s. scheduled [1, 1, 1, 1, 1, 1, 1, 0, 0, 0, 1] ?s = Some s \<and> stuck s"
    unfolding fast caller by (simp add: start_def free_mutex_def region_mu_def plane_mu_def stuck_def finished_def nth_Cons' less_Suc_eq)
  then show ?thesis using scheduled_steps by blast
qed

theorem region_allocation_deadlocks_witness:
  "\<exists>n s. (lock_step ^^ n) (start [locks_allocateSync (\<lambda>n. [0..<n]) warm 1 (reg_Type (the (GetRegion warm 2))) 0 0,
     Region_Lock (the (GetRegion warm 2)) @ locks_AllocateInRegion warm 1 (the (GetRegion warm 2)) @ Region_Unlock (the (GetRegion warm 2))]) s
     \<and> stuck s"
proof -
  let ?r = "the (GetRegion warm 2)" and ?p = "hd (reg_Planes (the (GetRegion warm 2)))"
  have lru: "al_regionLRU warm = [2]" by code_simp
  have "GetRegion warm 2 \<noteq> None" by code_simp
  then have r: "GetRegion warm 2 = Some ?r" by auto
  have free: "\<not> reg_FreeBytes ?r < ucast (1 :: u32)" by code_simp
  have "reg_Planes ?r \<noteq> []" by code_simp
  then have p: "reg_Planes ?r = ?p # tl (reg_Planes ?r)" by simp
  have room: "(ucast (Plane_FreeBytes ?p) :: u32) \<ge> 1" by code_simp
  have "(case Plane_Allocate ?p (ucast (1 :: u32)) of Inr (_, Some _) \<Rightarrow> True | _ \<Rightarrow> False)" by code_simp
  then obtain p' z where "Plane_Allocate ?p (ucast (1 :: u32)) = Inr (p', Some z)" by (auto split: sum.splits option.splits)
  from region_allocation_deadlocks [OF lru r free p room this] show ?thesis by blast
qed

text \<open>
  C22. \<^verbatim>\<open>GetCompactionReport\<close> of a region takes its read lock and calls \<^verbatim>\<open>Fragmentation\<close>, which takes it
  again; a writer that asks for the lock in between, \<^verbatim>\<open>UpdateMerkleRoot\<close> for example, keeps the second
  reader out and waits for the first: both calls wait for ever.
\<close>

theorem region_report_deadlocks:
  "\<exists>n s. (lock_step ^^ n) (start [locks_Region_GetCompactionReport r, locks_UpdateMerkleRoot r]) s \<and> stuck s"
proof -
  have "\<exists>s. scheduled [0, 1] (start [locks_Region_GetCompactionReport r, locks_UpdateMerkleRoot r]) = Some s \<and> stuck s"
    by (simp add: start_def free_mutex_def locks_Region_GetCompactionReport_def locks_Region_Fragmentation_def
        locks_UpdateMerkleRoot_def locked_def rlocked_def lock_def stuck_def finished_def nth_Cons' less_Suc_eq)
  then show ?thesis using scheduled_steps by blast
qed


end
