(* ===== verification/VMLocks.thy ===== *)
theory VMLocks
  imports VM AllocatorLocks
begin

text \<open>
  The lock operations of the memory manager, the cache, the Merkle tree and the virtual machine.
  Every method of the machine that touches its state holds the machine's mutex, for reading or for
  writing; the handlers take the mutexes of the components they use one after the other.  The mutex
  of the gas account is only ever taken for reading and never makes anyone wait, so it is left out;
  the prefetch goroutine of the cache takes no mutex.
\<close>

section \<open>Memory manager, cache and tree\<close>

definition locks_getAllocation :: trace where
  "locks_getAllocation = rlocked MuMemory []"

definition locks_MM_UpdateAccess :: trace where
  "locks_MM_UpdateAccess = rlocked MuMemory []"

text \<open>An access that passes the checks of the manager looks its plane up in the region.\<close>

definition locks_access :: "order \<Rightarrow> Allocator3D \<Rightarrow> MemoryManager \<Rightarrow> Address3D \<Rightarrow> u32 \<Rightarrow> trace" where
  "locks_access ord a mm addr sz =
     (case getAllocationLocked ord mm addr of
        None \<Rightarrow> []
      | Some (_, alloc) \<Rightarrow>
          if addr_Z addr - addr_Z (alloc_Address alloc) + ucast sz > ucast (alloc_Size alloc) then []
          else (case GetRegion a (addr_X addr) of None \<Rightarrow> [] | Some region \<Rightarrow> locks_GetPlane region))"

definition locks_MM_Load3D :: "order \<Rightarrow> Allocator3D \<Rightarrow> MemoryManager \<Rightarrow> Address3D \<Rightarrow> u32 \<Rightarrow> trace" where
  "locks_MM_Load3D ord a mm addr sz = rlocked MuMemory (locks_access ord a mm addr sz)"

definition locks_MM_Store3D :: "order \<Rightarrow> Allocator3D \<Rightarrow> MemoryManager \<Rightarrow> Address3D \<Rightarrow> bytes \<Rightarrow> trace" where
  "locks_MM_Store3D ord a mm addr data = locked MuMemory (locks_access ord a mm addr (of_nat (length data)))"

definition locks_trackAllocation :: trace where
  "locks_trackAllocation = locked MuMemory []"

definition locks_untrackAllocation :: trace where
  "locks_untrackAllocation = locked MuMemory []"

definition locks_GetFreeMemory :: trace where
  "locks_GetFreeMemory = rlocked MuMemory []"

definition locks_GetFragmentation :: "Allocator3D \<Rightarrow> u64 \<Rightarrow> trace" where
  "locks_GetFragmentation a regionX =
     rlocked MuMemory (case GetRegion a regionX of None \<Rightarrow> [] | Some region \<Rightarrow> locks_Region_Fragmentation region)"

definition locks_Cache_Get :: "SpatialCache \<Rightarrow> Address3D \<Rightarrow> trace" where
  "locks_Cache_Get c addr = rlocked MuCache [] @ (if snd (Cache_Get c addr) = None then [] else locked MuCache [])"

definition locks_Cache_Put :: trace where
  "locks_Cache_Put = locked MuCache []"

definition locks_Cache_Invalidate :: trace where
  "locks_Cache_Invalidate = locked MuCache []"

definition locks_Tree_Update :: trace where
  "locks_Tree_Update = locked MuTree []"

definition locks_Tree_read :: trace where
  "locks_Tree_read = rlocked MuTree []"

section \<open>Instruction handlers\<close>

definition locks_need :: "'a option \<Rightarrow> ('a \<Rightarrow> trace) \<Rightarrow> trace" where
  "locks_need v k = (case v of None \<Rightarrow> [] | Some x \<Rightarrow> k x)"

definition locks_mload :: "Runtime \<Rightarrow> VM3D \<Rightarrow> Address3D \<Rightarrow> u32 \<Rightarrow> trace" where
  "locks_mload rt vm addr sz =
     (let miss = locks_MM_Load3D (rt_allocations rt) (vm_allocator vm) (vm_memory vm) addr sz
            @ (case MM_Load3D (rt_allocations rt) (vm_allocator vm) (vm_memory vm) addr sz (rt_now rt) of
                 Inr (mm, Inr data) \<Rightarrow> locks_Cache_Put @ locks_MM_UpdateAccess | _ \<Rightarrow> [])
      in locks_Cache_Get (vm_cache vm) addr @ (case snd (Cache_Get (vm_cache vm) addr) of
           None \<Rightarrow> miss | Some data \<Rightarrow> if of_nat (length data) \<ge> sz then [] else miss))"

definition locks_executeMLoad3D :: "Runtime \<Rightarrow> VM3D \<Rightarrow> Instruction3D \<Rightarrow> trace" where
  "locks_executeMLoad3D rt vm inst =
     (if length (inst_Operands inst) \<noteq> 3 then []
      else locks_need (as_address (inst_Operands inst ! 0)) (\<lambda>addr.
        locks_need (as_uint32 (inst_Operands inst ! 1)) (\<lambda>sz.
        locks_need (as_register (inst_Operands inst ! 2)) (\<lambda>reg. locks_mload rt vm addr sz))))"

text \<open>What follows the write of a store: the cache, the tree if there is one, the access time.\<close>

definition locks_after_write :: "VM3D \<Rightarrow> trace" where
  "locks_after_write vm = locks_Cache_Put @ (if vm_merkleTree vm = None then [] else locks_Tree_Update) @ locks_MM_UpdateAccess"

definition locks_mstore :: "Runtime \<Rightarrow> VM3D \<Rightarrow> Address3D \<Rightarrow> Register \<Rightarrow> u32 \<Rightarrow> trace" where
  "locks_mstore rt vm addr reg sz =
     (let data = Reg_Get (vm_registers vm) reg
      in if of_nat (length data) < sz then []
         else locks_MM_Store3D (rt_allocations rt) (vm_allocator vm) (vm_memory vm) addr (take (unat sz) data)
           @ (case MM_Store3D (rt_allocations rt) (vm_allocator vm) (vm_memory vm) addr (take (unat sz) data) (rt_now rt) of
                Inr (a, mm, None) \<Rightarrow> locks_after_write vm | _ \<Rightarrow> []))"

definition locks_executeMStore3D :: "Runtime \<Rightarrow> VM3D \<Rightarrow> Instruction3D \<Rightarrow> trace" where
  "locks_executeMStore3D rt vm inst =
     (if length (inst_Operands inst) \<noteq> 3 then []
      else locks_need (as_address (inst_Operands inst ! 0)) (\<lambda>addr.
        locks_need (as_register (inst_Operands inst ! 1)) (\<lambda>reg.
        locks_need (as_uint32 (inst_Operands inst ! 2)) (\<lambda>sz. locks_mstore rt vm addr reg sz))))"

text \<open>An allocation, and the entry of the block in the manager if there is one.\<close>

definition locks_alloc_track :: "Runtime \<Rightarrow> Allocator3D \<Rightarrow> u32 \<Rightarrow> RegionType \<Rightarrow> AllocationFlags \<Rightarrow> trace" where
  "locks_alloc_track rt a sz regionType flags =
     locks_Allocate (rt_queued rt) (rt_regions rt) a sz regionType flags (rt_now rt)
       @ (case Allocate (rt_queued rt) (rt_regions rt) a sz regionType flags (rt_now rt) of
            Some (Inr (_, Some al, None)) \<Rightarrow> locks_trackAllocation | _ \<Rightarrow> [])"

definition locks_executeMAlloc3D :: "Runtime \<Rightarrow> VM3D \<Rightarrow> Instruction3D \<Rightarrow> trace" where
  "locks_executeMAlloc3D rt vm inst =
     (if length (inst_Operands inst) \<noteq> 3 then []
      else locks_need (as_uint32 (inst_Operands inst ! 0)) (\<lambda>sz.
        locks_need (as_regionType (inst_Operands inst ! 1)) (\<lambda>regionType.
          locks_alloc_track rt (vm_allocator vm) sz regionType
            (case as_flags (inst_Operands inst ! 2) of Some f \<Rightarrow> f | None \<Rightarrow> 0))))"

definition locks_executeMFree3D :: "Runtime \<Rightarrow> VM3D \<Rightarrow> Instruction3D \<Rightarrow> trace" where
  "locks_executeMFree3D rt vm inst =
     (if length (inst_Operands inst) \<noteq> 1 then []
      else locks_need (as_address (inst_Operands inst ! 0)) (\<lambda>addr.
        locks_getAllocation @ (case getAllocation (rt_allocations rt) (vm_memory vm) addr of
            None \<Rightarrow> []
          | Some alloc \<Rightarrow> locks_freeSync (vm_allocator vm) alloc
              @ (if snd (Allocator_Free (vm_allocator vm) alloc) = None
                 then locks_untrackAllocation @ locks_Cache_Invalidate else []))))"

definition locks_mcopy :: "Runtime \<Rightarrow> VM3D \<Rightarrow> Address3D \<Rightarrow> Address3D \<Rightarrow> u32 \<Rightarrow> trace" where
  "locks_mcopy rt vm srcAddr dstAddr sz =
     locks_MM_Load3D (rt_allocations rt) (vm_allocator vm) (vm_memory vm) srcAddr sz
       @ (case MM_Load3D (rt_allocations rt) (vm_allocator vm) (vm_memory vm) srcAddr sz (rt_now rt) of
            Inr (mm, Inr data) \<Rightarrow> locks_MM_Store3D (rt_allocations rt) (vm_allocator vm) mm dstAddr data
              @ (case MM_Store3D (rt_allocations rt) (vm_allocator vm) mm dstAddr data (rt_now rt) of
                   Inr (a, mm', None) \<Rightarrow> locks_Cache_Put @ locks_Cache_Put | _ \<Rightarrow> [])
          | _ \<Rightarrow> [])"

definition locks_executeMCopy3D :: "Runtime \<Rightarrow> VM3D \<Rightarrow> Instruction3D \<Rightarrow> trace" where
  "locks_executeMCopy3D rt vm inst =
     (if length (inst_Operands inst) \<noteq> 3 then []
      else locks_need (as_address (inst_Operands inst ! 0)) (\<lambda>srcAddr.
        locks_need (as_address (inst_Operands inst ! 1)) (\<lambda>dstAddr.
        locks_need (as_uint32 (inst_Operands inst ! 2)) (\<lambda>sz. locks_mcopy rt vm srcAddr dstAddr sz))))"

definition locks_executeMQuery3D :: "VM3D \<Rightarrow> Instruction3D \<Rightarrow> trace" where
  "locks_executeMQuery3D vm inst =
     (if length (inst_Operands inst) \<noteq> 3 then []
      else locks_need (as_byte (inst_Operands inst ! 0)) (\<lambda>queryType.
        locks_need (as_address (inst_Operands inst ! 1)) (\<lambda>addr.
        locks_need (as_register (inst_Operands inst ! 2)) (\<lambda>reg.
          if queryType = QueryFreeMemory then locks_GetFreeMemory
          else if queryType = QueryFragmentation then locks_GetFragmentation (vm_allocator vm) (addr_X addr)
          else if queryType = QueryAllocationInfo then locks_getAllocation
          else []))))"

definition locks_executeMSize3D :: "Instruction3D \<Rightarrow> trace" where
  "locks_executeMSize3D inst =
     (if length (inst_Operands inst) \<noteq> 2 then []
      else locks_need (as_address (inst_Operands inst ! 0)) (\<lambda>addr.
        locks_need (as_register (inst_Operands inst ! 1)) (\<lambda>destReg. locks_getAllocation)))"

definition locks_executeMCompact3D :: "Runtime \<Rightarrow> (Plane \<Rightarrow> order) \<Rightarrow> VM3D \<Rightarrow> trace" where
  "locks_executeMCompact3D rt pord vm =
     locks_AnalyzeCompaction (rt_regions rt) pord (vm_allocator vm) DefaultCompactionConfig"

text \<open>The instructions that only use registers take no mutex.\<close>

definition locks_dispatch :: "(Plane \<Rightarrow> order) \<Rightarrow> Runtime \<Rightarrow> VM3D \<Rightarrow> Instruction3D \<Rightarrow> trace" where
  "locks_dispatch pord rt vm inst =
     (let opcode = inst_Opcode inst
      in if opcode = OP_MLOAD3D then locks_executeMLoad3D rt vm inst
         else if opcode = OP_MSTORE3D then locks_executeMStore3D rt vm inst
         else if opcode = OP_MALLOC3D then locks_executeMAlloc3D rt vm inst
         else if opcode = OP_MFREE3D then locks_executeMFree3D rt vm inst
         else if opcode = OP_MCOPY3D then locks_executeMCopy3D rt vm inst
         else if opcode = OP_MQUERY3D then locks_executeMQuery3D vm inst
         else if opcode = OP_MCOMPACT3D then locks_executeMCompact3D rt pord vm
         else if opcode = OP_MSIZE3D then locks_executeMSize3D inst
         else [])"

definition locks_executeInstruction :: "(Plane \<Rightarrow> order) \<Rightarrow> Runtime \<Rightarrow> VM3D \<Rightarrow> Instruction3D \<Rightarrow> trace" where
  "locks_executeInstruction pord rt vm inst =
     (case Consume (vm_gasAccount vm) (calculateGasCost inst) of
        Inr (g, None) \<Rightarrow> locks_dispatch pord rt (vm\<lparr>vm_gasAccount := g\<rparr>) inst
      | _ \<Rightarrow> [])"

section \<open>The machine\<close>

function locks_exec_loop ::
  "(rat \<Rightarrow> u64) \<Rightarrow> (Plane \<Rightarrow> order) \<Rightarrow> (nat \<Rightarrow> Runtime) \<Rightarrow> bytes \<Rightarrow> nat \<Rightarrow> VM3D \<Rightarrow> trace" where
  "locks_exec_loop float64bits pord env program k vm =
     (if vm_pc vm < of_nat (length program) \<and> \<not> vm_halted vm \<and> \<not> vm_paused vm then
        (case fetchInstruction (vm_pc vm) program of
           Inr (Inr inst) \<Rightarrow> locks_executeInstruction pord (env k) vm inst
             @ (case executeInstruction float64bits pord (env k) vm inst of
                  Some (Inr (vm', None)) \<Rightarrow>
                    (let vm1 = after_instruction (env k) vm'
                     in if Remaining (vm_gasAccount vm1) = 0 then []
                        else if vs_InstructionsExecuted (vm_stats vm1) \<ge> vc_MaxInstructions (vm_config vm1) then []
                        else locks_exec_loop float64bits pord env program (Suc k)
                               (vm1\<lparr>vm_pc := vm_pc vm1 + ucast (inst_Size inst)\<rparr>))
                | _ \<Rightarrow> [])
         | _ \<Rightarrow> [])
      else [])"
  by auto
termination
proof (relation "measure (\<lambda>(_, _, _, program, _, vm). unat (of_nat (length program) :: u64) - unat (vm_pc vm))", goal_cases)
  case (2 fb pord env program k vm b inst ra rb vm' e vm1)
  then show ?case using round_advances [of vm program inst fb pord "env k" rb] by auto
qed simp

declare locks_exec_loop.simps [simp del]

definition locks_Execute ::
  "(rat \<Rightarrow> u64) \<Rightarrow> (Plane \<Rightarrow> order) \<Rightarrow> (nat \<Rightarrow> Runtime) \<Rightarrow> VM3D \<Rightarrow> bytes \<Rightarrow> trace" where
  "locks_Execute float64bits pord env vm program = locked MuVM (locks_exec_loop float64bits pord env program 0
     (vm\<lparr>vm_pc := 0, vm_halted := False, vm_stats := (vm_stats vm)\<lparr>vs_StartTime := rt_now (env 0)\<rparr>\<rparr>))"

definition locks_VM_Shutdown :: trace where
  "locks_VM_Shutdown = locked MuVM []"

definition locks_VM_Load3D :: "Runtime \<Rightarrow> VM3D \<Rightarrow> Address3D \<Rightarrow> u32 \<Rightarrow> trace" where
  "locks_VM_Load3D rt vm addr sz =
     rlocked MuVM (locks_MM_Load3D (rt_allocations rt) (vm_allocator vm) (vm_memory vm) addr sz)"

definition locks_store_retry :: "Runtime \<Rightarrow> VM3D \<Rightarrow> Allocator3D \<Rightarrow> MemoryManager \<Rightarrow> bytes \<Rightarrow> trace" where
  "locks_store_retry rt vm a mm data =
     locks_alloc_track rt a (of_nat (length data)) RegionTypeHeap 0
       @ (case Allocate (rt_queued rt) (rt_regions rt) a (of_nat (length data)) RegionTypeHeap 0 (rt_now rt) of
            Some (Inr (a1, Some al, None)) \<Rightarrow>
              (let mm1 = trackAllocation mm al (rt_now rt)
               in locks_MM_Store3D (rt_allocations rt) a1 mm1 (alloc_Address al) data
                    @ (case MM_Store3D (rt_allocations rt) a1 mm1 (alloc_Address al) data (rt_now rt) of
                         Inr (_, _, None) \<Rightarrow> locks_after_write vm | _ \<Rightarrow> []))
          | _ \<Rightarrow> [])"

definition locks_VM_Store3D :: "Runtime \<Rightarrow> VM3D \<Rightarrow> Address3D \<Rightarrow> bytes \<Rightarrow> trace" where
  "locks_VM_Store3D rt vm addr data = locked MuVM
     (locks_MM_Store3D (rt_allocations rt) (vm_allocator vm) (vm_memory vm) addr data
       @ (case MM_Store3D (rt_allocations rt) (vm_allocator vm) (vm_memory vm) addr data (rt_now rt) of
            Inl _ \<Rightarrow> []
          | Inr (a, mm, None) \<Rightarrow> locks_after_write vm
          | Inr (a, mm, Some e) \<Rightarrow> if e = AddressNotAllocated addr then locks_store_retry rt vm a mm data else []))"

definition locks_AllocateMemory :: "Runtime \<Rightarrow> VM3D \<Rightarrow> u32 \<Rightarrow> RegionType \<Rightarrow> trace" where
  "locks_AllocateMemory rt vm sz regionType = locked MuVM (locks_alloc_track rt (vm_allocator vm) sz regionType 0)"

definition locks_VM_GetMerkleProof :: "VM3D \<Rightarrow> trace" where
  "locks_VM_GetMerkleProof vm = rlocked MuVM (if vm_merkleTree vm = None then [] else locks_Tree_read)"

definition locks_VerifyMemoryState :: "VM3D \<Rightarrow> trace" where
  "locks_VerifyMemoryState vm = rlocked MuVM (if vm_merkleTree vm = None then [] else locks_Tree_read)"

definition locks_VM_GetMerkleRoot :: "VM3D \<Rightarrow> trace" where
  "locks_VM_GetMerkleRoot vm = rlocked MuVM (if vm_merkleTree vm = None then [] else locks_Tree_read)"

definition locks_GetStats :: trace where
  "locks_GetStats = rlocked MuVM []"

definition locks_VM_GetCompactionReport :: "Runtime \<Rightarrow> VM3D \<Rightarrow> trace" where
  "locks_VM_GetCompactionReport rt vm = rlocked MuVM (locks_GetCompactionReport (rt_regions rt) (vm_allocator vm))"

definition locks_VM_AnalyzeCompaction :: "Runtime \<Rightarrow> (Plane \<Rightarrow> order) \<Rightarrow> VM3D \<Rightarrow> CompactionConfig \<Rightarrow> trace" where
  "locks_VM_AnalyzeCompaction rt pord vm config =
     rlocked MuVM (locks_AnalyzeCompaction (rt_regions rt) pord (vm_allocator vm) config)"

definition locks_ExecuteCompactInstruction :: "Runtime \<Rightarrow> (Plane \<Rightarrow> order) \<Rightarrow> VM3D \<Rightarrow> trace" where
  "locks_ExecuteCompactInstruction rt pord vm = locked MuVM (locks_executeMCompact3D rt pord vm)"

text \<open>
  A call that returns, by its lock operations.  \<^verbatim>\<open>NewVM3D\<close> disables the workers of the allocator, so
  that whoever allocates does so itself.
\<close>

inductive vm_method :: "trace \<Rightarrow> bool" where
  execute: "\<not> IsAllocatorConcurrent vm \<Longrightarrow> Execute float64bits pord env vm program = Some (Inr r) \<Longrightarrow>
    vm_method (locks_Execute float64bits pord env vm program)"
| shutdown: "VM_Shutdown vm = Inr vm' \<Longrightarrow> vm_method locks_VM_Shutdown"
| load: "VM_Load3D rt vm addr sz = Inr r \<Longrightarrow> vm_method (locks_VM_Load3D rt vm addr sz)"
| store: "\<not> IsAllocatorConcurrent vm \<Longrightarrow> VM_Store3D rt vm addr data = Some (Inr r) \<Longrightarrow>
    vm_method (locks_VM_Store3D rt vm addr data)"
| allocate: "\<not> IsAllocatorConcurrent vm \<Longrightarrow> AllocateMemory rt vm sz regionType = Some (Inr r) \<Longrightarrow>
    vm_method (locks_AllocateMemory rt vm sz regionType)"
| merkle_proof: "vm_method (locks_VM_GetMerkleProof vm)"
| verify: "vm_method (locks_VerifyMemoryState vm)"
| merkle_root: "vm_method (locks_VM_GetMerkleRoot vm)"
| stats: "vm_method locks_GetStats"
| report: "vm_method (locks_VM_GetCompactionReport rt vm)"
| analyze: "vm_method (locks_VM_AnalyzeCompaction rt pord vm config)"
| compact: "ExecuteCompactInstruction rt pord vm inst = Some (Inr r) \<Longrightarrow> vm_method (locks_ExecuteCompactInstruction rt pord vm)"

section \<open>Where the operations nest\<close>

text \<open>The collection holds what may stand inside the machine's mutex.\<close>

named_theorems under_vm

declare nested_Nil [under_vm] nested_append [under_vm] readable_Nil [under_vm]

lemma nested_leaf: "l \<in> L \<Longrightarrow> nested L (locked l [])" "l \<in> L \<Longrightarrow> nested L (rlocked l [])"
  by (intro nested_locked_in nested_rlocked_in nested_Nil; assumption)+

lemma nested_leaves [under_vm]:
  "nested (- {MuVM}) locks_getAllocation" "nested (- {MuVM}) locks_MM_UpdateAccess" "nested (- {MuVM}) locks_trackAllocation"
  "nested (- {MuVM}) locks_untrackAllocation" "nested (- {MuVM}) locks_GetFreeMemory" "nested (- {MuVM}) locks_Cache_Put"
  "nested (- {MuVM}) locks_Cache_Invalidate" "nested (- {MuVM}) locks_Tree_Update"
  unfolding locks_getAllocation_def locks_MM_UpdateAccess_def locks_trackAllocation_def locks_untrackAllocation_def
    locks_GetFreeMemory_def locks_Cache_Put_def locks_Cache_Invalidate_def locks_Tree_Update_def
  by (intro nested_leaf; simp)+

lemma readable_Tree_read [under_vm]: "readable (- {MuVM}) locks_Tree_read"
  unfolding locks_Tree_read_def by (intro readable_rlocked readable_Nil) simp

lemma readable_access: "region_mutexes \<subseteq> L \<Longrightarrow> readable L (locks_access ord a mm addr sz)"
  unfolding locks_access_def locks_GetPlane_def
  by (auto intro!: readable_rlocked readable_Nil simp: mutex_classes split: option.split)

lemma nested_MM_Store3D [under_vm]: "nested (- {MuVM}) (locks_MM_Store3D ord a mm addr data)"
  unfolding locks_MM_Store3D_def
  by (rule nested_locked [OF readable_nested [OF readable_access [OF order_refl]]]) (auto simp: mutex_classes)

lemma readable_MM_Load3D [under_vm]: "readable (- {MuVM}) (locks_MM_Load3D ord a mm addr sz)"
  unfolding locks_MM_Load3D_def by (intro readable_rlocked readable_access) (auto simp: mutex_classes)

lemma nested_Cache_Get [under_vm]: "nested (- {MuVM}) (locks_Cache_Get c addr)"
  unfolding locks_Cache_Get_def by (auto intro!: nested_append nested_leaf nested_Nil)

lemma readable_GetFragmentation [under_vm]: "readable (- {MuVM}) (locks_GetFragmentation a x)"
  unfolding locks_GetFragmentation_def
  by (intro readable_rlocked) (auto intro!: readable_fragmentation readable_Nil simp: mutex_classes split: option.split)

lemma allocator_below_vm: "insert MuAllocator inner_mutexes \<subseteq> - {MuVM}"
  by (auto simp: mutex_classes)

lemmas allocator_under_vm [under_vm] =
  writes_in_nested [OF allocateSync_section allocator_below_vm] writes_in_nested [OF freeSync_section allocator_below_vm]
  reads_in_readable [OF report_section allocator_below_vm] reads_in_readable [OF analyze_section allocator_below_vm]

lemma nested_after_write [under_vm]: "nested (- {MuVM}) (locks_after_write vm)"
  unfolding locks_after_write_def by (auto intro!: under_vm)

lemma nested_alloc_track [under_vm]: "nested (- {MuVM}) (locks_alloc_track rt a sz regionType flags)"
  unfolding locks_alloc_track_def locks_Allocate_def by (auto intro!: under_vm split: option.split sum.split)

lemma nested_need: "(\<And>x. nested L (k x)) \<Longrightarrow> nested L (locks_need v k)"
  by (simp add: locks_need_def nested_Nil split: option.split)

lemma nested_mload [under_vm]: "nested (- {MuVM}) (locks_mload rt vm addr sz)"
  unfolding locks_mload_def Let_def
  by (auto intro!: under_vm readable_nested [OF readable_MM_Load3D] split: option.split sum.split)

lemma nested_mstore [under_vm]: "nested (- {MuVM}) (locks_mstore rt vm addr reg sz)"
  unfolding locks_mstore_def Let_def by (auto intro!: under_vm split: option.split sum.split)

lemma nested_mcopy [under_vm]: "nested (- {MuVM}) (locks_mcopy rt vm src dst sz)"
  unfolding locks_mcopy_def
  by (auto intro!: under_vm readable_nested [OF readable_MM_Load3D] split: option.split sum.split)

lemma nested_store_retry [under_vm]: "nested (- {MuVM}) (locks_store_retry rt vm a mm data)"
  unfolding locks_store_retry_def Let_def by (auto intro!: under_vm split: option.split sum.split)

lemma nested_handlers:
  "nested (- {MuVM}) (locks_executeMLoad3D rt vm inst)" "nested (- {MuVM}) (locks_executeMStore3D rt vm inst)"
  "nested (- {MuVM}) (locks_executeMAlloc3D rt vm inst)" "nested (- {MuVM}) (locks_executeMFree3D rt vm inst)"
  "nested (- {MuVM}) (locks_executeMCopy3D rt vm inst)" "nested (- {MuVM}) (locks_executeMQuery3D vm inst)"
  "nested (- {MuVM}) (locks_executeMSize3D inst)" "nested (- {MuVM}) (locks_executeMCompact3D rt pord vm)"
  unfolding locks_executeMLoad3D_def locks_executeMStore3D_def locks_executeMAlloc3D_def locks_executeMFree3D_def
    locks_executeMCopy3D_def locks_executeMQuery3D_def locks_executeMSize3D_def locks_executeMCompact3D_def
  by (auto intro!: nested_need under_vm readable_nested [OF readable_GetFragmentation]
      readable_nested [OF allocator_under_vm(4)] split: option.split)

lemma nested_if: "nested L es \<Longrightarrow> nested L fs \<Longrightarrow> nested L (if c then es else fs)"
  by simp

lemma nested_dispatch: "nested (- {MuVM}) (locks_dispatch pord rt vm inst)"
  unfolding locks_dispatch_def Let_def by (intro nested_if nested_handlers nested_Nil)

lemma nested_executeInstruction [under_vm]: "nested (- {MuVM}) (locks_executeInstruction pord rt vm inst)"
  by (simp add: locks_executeInstruction_def nested_dispatch nested_Nil split: sum.split option.split)

lemma nested_exec_loop [under_vm]: "nested (- {MuVM}) (locks_exec_loop float64bits pord env program k vm)"
proof (induction float64bits pord env program k vm rule: locks_exec_loop.induct)
  case (1 float64bits pord env program k vm)
  show ?case
    by (subst locks_exec_loop.simps) (auto intro!: under_vm 1 simp: Let_def split: sum.split option.split)
qed

lemma vm_method_gated: "vm_method es \<Longrightarrow> gated MuVM es"
proof -
  have w: "gated MuVM (locked MuVM es)" if "nested (- {MuVM}) es" for es
    using that by (intro writes_in_gated) (auto simp: writes_in_def)
  have r: "gated MuVM (rlocked MuVM es)" if "readable (- {MuVM}) es" for es
    using that by (intro reads_in_gated) (auto simp: reads_in_def)
  show "vm_method es \<Longrightarrow> gated MuVM es"
    by (induction rule: vm_method.induct)
      (auto simp: locks_Execute_def locks_VM_Shutdown_def locks_VM_Load3D_def locks_VM_Store3D_def locks_AllocateMemory_def
        locks_VM_GetMerkleProof_def locks_VerifyMemoryState_def locks_VM_GetMerkleRoot_def locks_GetStats_def
        locks_VM_GetCompactionReport_def locks_VM_AnalyzeCompaction_def locks_ExecuteCompactInstruction_def
        intro!: w r under_vm nested_handlers split: sum.split option.split)
qed

interpretation vm_gate: gate MuVM vm_method
  by unfold_locales (rule vm_method_gated)
section \<open>Properties\<close>

text \<open>
  C11. Any number of goroutines may use one machine at the same time, each with any sequence of
  executions, stores, loads, allocations, proofs, reports and the other methods under the machine's
  mutex, whatever states the calls meet: no interleaving of their lock operations on the mutexes of
  the machine, the memory manager, the cache, the tree, the allocator, the LRU list, the regions and the
  planes reaches a deadlock, every run is at most as long as the sequences together, and when nothing can run any more, every
  call has returned and every mutex is free.  While an execution, a store or an allocation is inside, no
  other call holds any mutex, and while a load, a proof or a report is, no mutex is held for writing:
  calls that write are atomic, as the sequential model of the machine assumes.
\<close>

theorem vm_calls_safe:
  assumes "\<forall>es \<in> set ths. \<exists>cs. (\<forall>c \<in> set cs. vm_method c) \<and> es = concat cs"
    and "(lock_step ^^ n) (start ths) s"
  shows "\<not> stuck s \<and> n \<le> sum_list (map length ths)
    \<and> ((\<forall>s'. \<not> lock_step s s') \<longrightarrow> finished s \<and> (\<forall>l. ls_mutexes s l = free_mutex))
    \<and> (\<forall>t t' l. rw_writer (ls_mutexes s MuVM) = Some t \<and> t' \<noteq> t \<longrightarrow>
        rw_writer (ls_mutexes s l) \<noteq> Some t' \<and> t' \<notin> set (rw_readers (ls_mutexes s l)))
    \<and> (\<forall>l. rw_readers (ls_mutexes s MuVM) \<noteq> [] \<longrightarrow> rw_writer (ls_mutexes s l) = None)"
  by (rule vm_gate.safe [OF assms])

text \<open>A program of one instruction, whose execution another call waits for.\<close>

definition lock_rt :: Runtime where
  "lock_rt = \<lparr>rt_regions = (\<lambda>n. [0..<n]), rt_allocations = (\<lambda>n. [0..<n]), rt_nodes = (\<lambda>n. [0..<n]), rt_queued = False,
     rt_now = 0, rt_latency = 0\<rparr>"

definition lock_vm :: VM3D where
  "lock_vm = NewVM3D \<lparr>vc_MemorySize = 1024, vc_GasLimit = 1000, vc_EnableProof = True, vc_EnableCompaction = False,
     vc_MaxInstructions = 10, vc_LogLevel = LogLevelSilent\<rparr> 0"

theorem vm_calls_safe_witness:
  "\<exists>s. (lock_step ^^ 4) (start [locks_VM_Load3D lock_rt lock_vm (NewAddress 0 0 0) 1 @ locks_GetStats,
     locks_Execute (\<lambda>_. 0) (\<lambda>_ n. [0..<n]) (\<lambda>_. lock_rt) lock_vm []]) s \<and> \<not> stuck s"
proof -
  let ?load = "locks_VM_Load3D lock_rt lock_vm (NewAddress 0 0 0) 1"
  let ?exec = "locks_Execute (\<lambda>_. 0) (\<lambda>_ n. [0..<n]) (\<lambda>_. lock_rt) lock_vm []"
  have "VM_Load3D lock_rt lock_vm (NewAddress 0 0 0) 1 = Inr (lock_vm, Inl (AddressNotAllocated (NewAddress 0 0 0)))"
    by (simp add: VM_Load3D_def MM_Load3D_def getAllocationLocked_def lock_vm_def NewVM3D_def NewMemoryManager_def range_over_def
        lock_rt_def)
  then have "vm_method ?load" by (rule vm_method.load)
  moreover have "vm_method ?exec"
    by (rule vm_method.execute) (simp_all add: lock_vm_def NewVM3D_def VM_allocConfig_def IsAllocatorConcurrent_def IsConcurrent_def
        NewAllocator3D_def Execute_def exec_loop.simps vm_ok_def)
  ultimately have calls: "\<forall>es \<in> set [?load @ locks_GetStats, ?exec]. \<exists>cs. (\<forall>c \<in> set cs. vm_method c) \<and> es = concat cs"
    using vm_method.stats
    by (auto intro: exI [of _ "[?load, locks_GetStats]"] exI [of _ "[?exec]"])
  have "\<exists>s. scheduled [0, 0, 0, 1] (start [?load @ locks_GetStats, ?exec]) = Some s"
    by (simp add: locks_VM_Load3D_def locks_MM_Load3D_def locks_access_def lock_vm_def NewVM3D_def NewMemoryManager_def
        getAllocationLocked_def range_over_def lock_rt_def locks_Execute_def locked_def lock_def rlocked_def start_def free_mutex_def)
  then obtain s where "scheduled [0, 0, 0, 1] (start [?load @ locks_GetStats, ?exec]) = Some s" by blast
  moreover have "length [0, 0, 0, 1 :: nat] = 4" by simp
  ultimately have run: "(lock_step ^^ 4) (start [?load @ locks_GetStats, ?exec]) s" by (metis scheduled_steps)
  from vm_calls_safe [OF calls run] run show ?thesis by blast
qed


end
