(* ===== verification/Handles.thy ===== *)
theory Handles
  imports VMCorrect
begin

text \<open>
  The handle that \<^verbatim>\<open>GetMemoryManager\<close> gives out.  A store through it writes the planes that the machine
  reads, but neither the cache nor the Merkle tree of the machine learns of it.
\<close>

text \<open>A cache entry that is long enough is what a load delivers, whatever memory holds.\<close>

lemma mload_hit:
  assumes "cache_inv (vm_cache vm)" "cache_view (vm_cache vm) addr = Some d" "unat sz \<le> length d" "length d < 2 ^ 32"
  obtains vm' where "mload rt vm addr sz reg = Some (Inr (vm', None))"
    "vm_registers vm' = Reg_Set (vm_registers vm) reg (take (unat sz) d)"
proof -
  obtain c hit where g: "Cache_Get (vm_cache vm) addr = (c, hit)" by fastforce
  have "hit = Some d" using Cache_Get_law [OF assms(1), of addr] assms(2) g by simp
  moreover have "of_nat (length d) \<ge> sz"
    using assms(3,4) by (simp add: word_le_nat_alt unsigned_of_nat take_bit_nat_eq_self)
  ultimately show thesis using that g by (simp add: mload_def vm_ok_def)
qed

text \<open>A load that succeeds leaves the cache with an entry that is long enough for it.\<close>

lemma mload_caches:
  assumes inv: "vm_inv limit ps k vm" and rt: "rt_ok rt" and l: "mload rt vm addr sz reg = Some (Inr (vm1, None))"
  shows "\<exists>d. cache_view (vm_cache vm1) addr = Some d \<and> unat sz \<le> length d"
proof -
  note p = vm_inv_parts [OF inv]
  have ord: "valid_order (rt_allocations rt)" using rt by (simp add: rt_ok_def)
  have mi: "mem_inv (vm_allocator vm) (vm_memory vm)" using p(1) by (simp add: machine_inv_def)
  obtain c hit where g: "Cache_Get (vm_cache vm) addr = (c, hit)" by fastforce
  note m = machine_get [OF p(1) g]
  show ?thesis
  proof (cases "\<exists>d. hit = Some d \<and> of_nat (length d) \<ge> sz")
    case True
    then obtain d where d: "hit = Some d" "of_nat (length d) \<ge> sz" by blast
    then have c1: "vm_cache vm1 = c" using l g by (auto simp: mload_def vm_ok_def)
    have cv: "cache_view (vm_cache vm) addr = Some d" using m(3) d(1) by simp
    then obtain v where v: "vm_view vm addr = Some v" "length d \<le> length v"
      using p(1) unfolding machine_inv_def coherent_def by blast
    have "length d \<le> 65535" using view_length [OF mi v(1)] v(2) by simp
    then have "unat (of_nat (length d) :: u32) = length d" by (simp add: unsigned_of_nat take_bit_nat_eq_self)
    then have "unat sz \<le> length d" using d(2) by (simp add: word_le_nat_alt)
    then show ?thesis using cv m(2) c1 by simp
  next
    case False
    obtain mm res where r: "MM_Load3D (rt_allocations rt) (vm_allocator vm) (vm_memory vm) addr sz (rt_now rt) = Inr (mm, res)"
      "case res of Inr d \<Rightarrow> \<exists>v. vm_view vm addr = Some v \<and> unat sz \<le> length v \<and> d = take (unat sz) v
         | Inl _ \<Rightarrow> \<forall>v. vm_view vm addr = Some v \<longrightarrow> length v < unat sz"
      by (rule machine_load [OF m(1) ord])
    then obtain d where d: "res = Inr d" "vm_cache vm1 = Cache_Put c addr d"
      using False l by (cases hit; cases res) (auto simp: mload_def g Let_def vm_ok_def vm_fail_def)
    have "cache_inv c" using m(1) by (simp add: machine_inv_def)
    then show ?thesis using Cache_Put_law [of c addr d] r(2) d by auto
  qed
qed

section \<open>Properties\<close>

text \<open>
  C23. A store through the handle of the memory manager is not seen by programs.  After a program has
  loaded from a block, a store to the block through the handle succeeds and memory holds its bytes, but the
  program that loads again receives the bytes from before the store, from the cache.
\<close>

theorem handle_store_unseen:
  assumes "vm_inv limit ps k vm" "rt_ok rt" "vm_view vm addr = Some v" "reg \<le> R15"
    and "executeMLoad3D rt vm (denote (Load addr sz reg)) = Some (Inr (vm1, None))" "length data \<le> length v"
  shows "\<exists>a mm vm2. MM_Store3D (rt_allocations rt) (vm_allocator vm1) (GetMemoryManager vm1) addr data (rt_now rt) = Inr (a, mm, None)
    \<and> mem_view a mm addr = Some (data @ drop (length data) v)
    \<and> executeMLoad3D rt (vm1\<lparr>vm_allocator := a, vm_memory := mm\<rparr>) (denote (Load addr sz reg)) = Some (Inr (vm2, None))
    \<and> Reg_Get (vm_registers vm2) reg = take (unat sz) v"
proof -
  have l: "mload rt vm addr sz reg = Some (Inr (vm1, None))" using assms(5) by (simp only: denoted_handlers)
  have i: "vm_inv limit ps k vm1" using mload_inv [OF assms(1,2), of addr sz reg] by (simp add: l run_simps)
  note p = vm_inv_parts [OF i]
  have view: "vm_view vm1 addr = Some v" using mload_outcome [OF assms(1,2), of addr sz reg] assms(3) l by auto
  have mi: "mem_inv (vm_allocator vm1) (vm_memory vm1)" "cache_inv (vm_cache vm1)" using p(1) by (simp_all add: machine_inv_def)
  have len: "length v \<le> 65535" by (rule view_length [OF mi(1) view])
  then have "length data < 2 ^ 32" using assms(6) by simp
  with Store3D_law [OF mi(1), of "rt_allocations rt" data addr "rt_now rt"] assms(2,6) view obtain a mm where
    s: "MM_Store3D (rt_allocations rt) (vm_allocator vm1) (vm_memory vm1) addr data (rt_now rt) = Inr (a, mm, None)"
      "mem_view a mm addr = Some (data @ drop (length data) v)" by (auto simp: rt_ok_def)
  obtain d where d: "cache_view (vm_cache vm1) addr = Some d" "unat sz \<le> length d" using mload_caches [OF assms(1,2) l] by blast
  have "coherent (cache_view (vm_cache vm1)) (vm_view vm1)" using p(1) by (simp add: machine_inv_def)
  then obtain v' where "vm_view vm1 addr = Some v'" "length d \<le> length v'" "take (length d) v' = d"
    using d(1) unfolding coherent_def by blast
  then have dv: "length d \<le> length v" "take (length d) v = d" using view by simp_all
  obtain vm2 where m: "mload rt (vm1\<lparr>vm_allocator := a, vm_memory := mm\<rparr>) addr sz reg = Some (Inr (vm2, None))"
    "vm_registers vm2 = Reg_Set (vm_registers vm1) reg (take (unat sz) d)"
    by (rule mload_hit [of "vm1\<lparr>vm_allocator := a, vm_memory := mm\<rparr>" addr d sz rt reg]) (use mi d dv len in auto)
  have "take (unat sz) d = take (unat sz) v" using d(2) dv by (metis min.absorb1 take_take)
  moreover have "regs_inv (vm_registers vm1)" using i by (simp add: vm_inv_def)
  ultimately have "Reg_Get (vm_registers vm2) reg = take (unat sz) v" using assms(4) by (simp add: m(2) Reg_Get_Set)
  then show ?thesis unfolding denoted_handlers GetMemoryManager_def using s m(1) by blast
qed

theorem handle_store_unseen_witness:
  "\<exists>vm addr v vm1 a mm vm2. length v = 8 \<and> vm_view vm1 addr = Some v
     \<and> MM_Store3D (rt_allocations demo_rt) (vm_allocator vm1) (GetMemoryManager vm1) addr (map (\<lambda>b. NOT b) v) (rt_now demo_rt) = Inr (a, mm, None)
     \<and> executeMLoad3D demo_rt (vm1\<lparr>vm_allocator := a, vm_memory := mm\<rparr>) (denote (Load addr 8 2)) = Some (Inr (vm2, None))
     \<and> mem_view a mm addr = Some (map (\<lambda>b. NOT b) v) \<and> Reg_Get (vm_registers vm2) 2 = v"
proof -
  obtain vm addr v where d: "vm_inv 10000 100 0 vm" "vm_view vm addr = Some v" "length v = 8" by (rule demo_block)
  obtain vm1 where l: "executeMLoad3D demo_rt vm (denote (Load addr 8 2)) = Some (Inr (vm1, None))" "vm_view vm1 = vm_view vm"
    unfolding denoted_handlers using mload_outcome [OF d(1) demo_rt_ok, of addr 8 2] d(2,3) by auto
  have "(2 :: Register) \<le> R15" by (simp add: R15_def)
  from handle_store_unseen [OF d(1) demo_rt_ok d(2) this l(1), of "map (\<lambda>b. NOT b) v"] d(3) obtain a mm vm2 where
    "MM_Store3D (rt_allocations demo_rt) (vm_allocator vm1) (GetMemoryManager vm1) addr (map (\<lambda>b. NOT b) v) (rt_now demo_rt) = Inr (a, mm, None)"
    "mem_view a mm addr = Some (map (\<lambda>b. NOT b) v)"
    "executeMLoad3D demo_rt (vm1\<lparr>vm_allocator := a, vm_memory := mm\<rparr>) (denote (Load addr 8 2)) = Some (Inr (vm2, None))"
    "Reg_Get (vm_registers vm2) 2 = v" by (auto simp del: denote.simps)
  with d(2,3) l(2) show ?thesis by metis
qed

end
