(* ===== verification/Slices.thy ===== *)
theory Slices
  imports MainProgram
begin

text \<open>
  Byte slices as references.  In Go a register and a cache entry hold slices, that is references to
  buffers, which they may share: a load leaves one buffer in the cache and in a register, a store puts the
  slice of a register into the cache, \<^verbatim>\<open>Store3D\<close> keeps the slice of its caller.  The rest of the development
  treats slices as values.  Here the buffers are an explicit store, beside the parts of the machine that copy bytes (planes, digests).
  No instruction writes to a buffer that exists, so programs cannot tell the difference; a client
  that writes to a buffer it has passed to \<^verbatim>\<open>Store3D\<close> can.
\<close>

section \<open>Buffers\<close>

text \<open>A slice is a buffer and a length; all slices of the code start at the start of their buffer.\<close>

type_synonym slice = "nat \<times> nat"

record Slices =
  sl_heap :: "bytes list"
  sl_regs :: "slice list"
  sl_cache :: "Address3D \<rightharpoonup> slice"

definition deref :: "bytes list \<Rightarrow> slice \<Rightarrow> bytes" where
  "deref h sl = take (snd sl) (h ! fst sl)"

definition slice_ok :: "bytes list \<Rightarrow> slice \<Rightarrow> bool" where
  "slice_ok h sl \<longleftrightarrow> snd sl = 0 \<or> fst sl < length h \<and> snd sl \<le> length (h ! fst sl)"

definition NewSlices :: Slices where
  "NewSlices = \<lparr>sl_heap = [], sl_regs = replicate 16 (0, 0), sl_cache = Map.empty\<rparr>"

lemma deref_length: "slice_ok h sl \<Longrightarrow> length (deref h sl) = snd sl"
  by (auto simp: slice_ok_def deref_def)

lemma deref_extend: "slice_ok h sl \<Longrightarrow> slice_ok (h @ h') sl \<and> deref (h @ h') sl = deref h sl"
  by (auto simp: slice_ok_def deref_def nth_append)

lemma deref_prefix: "slice_ok h (b, n) \<Longrightarrow> m \<le> n \<Longrightarrow> slice_ok h (b, m) \<and> deref h (b, m) = take m (deref h (b, n))"
  by (auto simp: slice_ok_def deref_def min_def)

lemma deref_fresh: "slice_ok (h @ [d]) (length h, length d) \<and> deref (h @ [d]) (length h, length d) = d"
  by (simp add: slice_ok_def deref_def)

section \<open>Registers and cache\<close>

definition sl_get :: "Slices \<Rightarrow> Register \<Rightarrow> slice" where
  "sl_get s reg = (if reg \<le> R15 then sl_regs s ! unat reg else (0, 0))"

definition sl_set :: "Slices \<Rightarrow> Register \<Rightarrow> slice \<Rightarrow> Slices" where
  "sl_set s reg sl = (if reg \<le> R15 then s\<lparr>sl_regs := (sl_regs s)[unat reg := sl]\<rparr> else s)"

definition sl_put :: "Slices \<Rightarrow> Address3D \<Rightarrow> slice \<Rightarrow> Slices" where
  "sl_put s addr sl = s\<lparr>sl_cache := (sl_cache s)(addr \<mapsto> sl)\<rparr>"

text \<open>The one way to change a buffer that exists, which only a client uses.\<close>

definition client_writes :: "Slices \<Rightarrow> nat \<Rightarrow> bytes \<Rightarrow> Slices" where
  "client_writes s b data = s\<lparr>sl_heap := (sl_heap s)[b := data]\<rparr>"

text \<open>A new buffer, as \<^verbatim>\<open>make\<close> gives it, and the slice of all of it.\<close>

definition sl_make :: "Slices \<Rightarrow> bytes \<Rightarrow> Slices \<times> slice" where
  "sl_make s data = (s\<lparr>sl_heap := sl_heap s @ [data]\<rparr>, (length (sl_heap s), length data))"

definition sl_set_new :: "Slices \<Rightarrow> Register \<Rightarrow> bytes \<Rightarrow> Slices" where
  "sl_set_new s reg data = (let (s', sl) = sl_make s data in sl_set s' reg sl)"

definition sl_uint64 :: "Slices \<Rightarrow> Register \<Rightarrow> u64" where
  "sl_uint64 s reg =
     (let d = deref (sl_heap s) (sl_get s reg) in if length d \<ge> 8 then bytesToUint64 (take 8 d) else 0)"

section \<open>Instructions\<close>

text \<open>
  What the handlers do to the slices; allocator, memory and tree are those of the machine.
\<close>

definition sl_mload :: "Runtime \<Rightarrow> VM3D \<Rightarrow> Slices \<Rightarrow> Address3D \<Rightarrow> u32 \<Rightarrow> Register \<Rightarrow> Slices" where
  "sl_mload rt vm s addr sz reg =
     (let miss = (case MM_Load3D (rt_allocations rt) (vm_allocator vm) (vm_memory vm) addr sz (rt_now rt) of
            Inr (_, Inr data) \<Rightarrow> (let (s', sl) = sl_make s data in sl_set (sl_put s' addr sl) reg sl)
          | _ \<Rightarrow> s)
      in case sl_cache s addr of
           Some (b, n) \<Rightarrow> if of_nat n \<ge> sz then sl_set s reg (b, unat sz) else miss
         | None \<Rightarrow> miss)"

definition sl_mstore :: "Runtime \<Rightarrow> VM3D \<Rightarrow> Slices \<Rightarrow> Address3D \<Rightarrow> Register \<Rightarrow> u32 \<Rightarrow> Slices" where
  "sl_mstore rt vm s addr reg sz =
     (let (b, n) = sl_get s reg
      in if of_nat n < sz then s
         else (case MM_Store3D (rt_allocations rt) (vm_allocator vm) (vm_memory vm) addr (deref (sl_heap s) (b, unat sz)) (rt_now rt) of
             Inr (_, _, None) \<Rightarrow> sl_put s addr (b, unat sz) | _ \<Rightarrow> s))"

definition sl_malloc :: "Runtime \<Rightarrow> VM3D \<Rightarrow> Slices \<Rightarrow> u32 \<Rightarrow> RegionType \<Rightarrow> AllocationFlags \<Rightarrow> Slices" where
  "sl_malloc rt vm s sz regionType flags =
     (case Allocate (rt_queued rt) (rt_regions rt) (vm_allocator vm) sz regionType flags (rt_now rt) of
        Some (Inr (_, Some al, None)) \<Rightarrow> sl_set_new s R0 (Bytes (alloc_Address al)) | _ \<Rightarrow> s)"

definition sl_mfree :: "Runtime \<Rightarrow> VM3D \<Rightarrow> Slices \<Rightarrow> Address3D \<Rightarrow> Slices" where
  "sl_mfree rt vm s addr =
     (case getAllocation (rt_allocations rt) (vm_memory vm) addr of
        None \<Rightarrow> s
      | Some alloc \<Rightarrow> if snd (Allocator_Free (vm_allocator vm) alloc) = None
                      then s\<lparr>sl_cache := (sl_cache s)(addr := None)\<rparr> else s)"

definition sl_mcopy :: "Runtime \<Rightarrow> VM3D \<Rightarrow> Slices \<Rightarrow> Address3D \<Rightarrow> Address3D \<Rightarrow> u32 \<Rightarrow> Slices" where
  "sl_mcopy rt vm s srcAddr dstAddr sz =
     (case MM_Load3D (rt_allocations rt) (vm_allocator vm) (vm_memory vm) srcAddr sz (rt_now rt) of
        Inr (mm, Inr data) \<Rightarrow> (case MM_Store3D (rt_allocations rt) (vm_allocator vm) mm dstAddr data (rt_now rt) of
            Inr (_, _, None) \<Rightarrow> (let (s', sl) = sl_make s data in sl_put (sl_put s' srcAddr sl) dstAddr sl) | _ \<Rightarrow> s)
      | _ \<Rightarrow> s)"

text \<open>The handlers with their operand checks.\<close>

definition sl_need :: "Slices \<Rightarrow> 'a option \<Rightarrow> ('a \<Rightarrow> Slices) \<Rightarrow> Slices" where
  "sl_need s v k = (case v of None \<Rightarrow> s | Some x \<Rightarrow> k x)"

definition sl_executeMLoad3D :: "Runtime \<Rightarrow> VM3D \<Rightarrow> Slices \<Rightarrow> Instruction3D \<Rightarrow> Slices" where
  "sl_executeMLoad3D rt vm s inst =
     (if length (inst_Operands inst) \<noteq> 3 then s
      else sl_need s (as_address (inst_Operands inst ! 0)) (\<lambda>addr.
        sl_need s (as_uint32 (inst_Operands inst ! 1)) (\<lambda>sz.
        sl_need s (as_register (inst_Operands inst ! 2)) (\<lambda>reg. sl_mload rt vm s addr sz reg))))"

definition sl_executeMStore3D :: "Runtime \<Rightarrow> VM3D \<Rightarrow> Slices \<Rightarrow> Instruction3D \<Rightarrow> Slices" where
  "sl_executeMStore3D rt vm s inst =
     (if length (inst_Operands inst) \<noteq> 3 then s
      else sl_need s (as_address (inst_Operands inst ! 0)) (\<lambda>addr.
        sl_need s (as_register (inst_Operands inst ! 1)) (\<lambda>reg.
        sl_need s (as_uint32 (inst_Operands inst ! 2)) (\<lambda>sz. sl_mstore rt vm s addr reg sz))))"

definition sl_executeMAlloc3D :: "Runtime \<Rightarrow> VM3D \<Rightarrow> Slices \<Rightarrow> Instruction3D \<Rightarrow> Slices" where
  "sl_executeMAlloc3D rt vm s inst =
     (if length (inst_Operands inst) \<noteq> 3 then s
      else sl_need s (as_uint32 (inst_Operands inst ! 0)) (\<lambda>sz.
        sl_need s (as_regionType (inst_Operands inst ! 1)) (\<lambda>regionType.
          sl_malloc rt vm s sz regionType (case as_flags (inst_Operands inst ! 2) of Some f \<Rightarrow> f | None \<Rightarrow> 0))))"

definition sl_executeMFree3D :: "Runtime \<Rightarrow> VM3D \<Rightarrow> Slices \<Rightarrow> Instruction3D \<Rightarrow> Slices" where
  "sl_executeMFree3D rt vm s inst =
     (if length (inst_Operands inst) \<noteq> 1 then s
      else sl_need s (as_address (inst_Operands inst ! 0)) (\<lambda>addr. sl_mfree rt vm s addr))"

definition sl_executeMCopy3D :: "Runtime \<Rightarrow> VM3D \<Rightarrow> Slices \<Rightarrow> Instruction3D \<Rightarrow> Slices" where
  "sl_executeMCopy3D rt vm s inst =
     (if length (inst_Operands inst) \<noteq> 3 then s
      else sl_need s (as_address (inst_Operands inst ! 0)) (\<lambda>srcAddr.
        sl_need s (as_address (inst_Operands inst ! 1)) (\<lambda>dstAddr.
        sl_need s (as_uint32 (inst_Operands inst ! 2)) (\<lambda>sz. sl_mcopy rt vm s srcAddr dstAddr sz))))"

definition sl_executeArith :: "(u64 \<Rightarrow> u64 \<Rightarrow> u64) \<Rightarrow> Slices \<Rightarrow> Instruction3D \<Rightarrow> Slices" where
  "sl_executeArith f s inst =
     (if length (inst_Operands inst) \<noteq> 3 then s
      else sl_need s (as_register (inst_Operands inst ! 0)) (\<lambda>destReg.
        sl_need s (as_register (inst_Operands inst ! 1)) (\<lambda>srcReg1.
        sl_need s (as_register (inst_Operands inst ! 2)) (\<lambda>srcReg2.
          sl_set_new s destReg (uint64ToBytes (f (sl_uint64 s srcReg1) (sl_uint64 s srcReg2)))))))"

definition sl_executeMov3D :: "Slices \<Rightarrow> Instruction3D \<Rightarrow> Slices" where
  "sl_executeMov3D s inst =
     (if length (inst_Operands inst) \<noteq> 2 then s
      else sl_need s (as_register (inst_Operands inst ! 0)) (\<lambda>destReg.
        sl_need s (as_register (inst_Operands inst ! 1)) (\<lambda>srcReg. sl_set s destReg (sl_get s srcReg))))"

definition sl_executeMSize3D :: "Runtime \<Rightarrow> VM3D \<Rightarrow> Slices \<Rightarrow> Instruction3D \<Rightarrow> Slices" where
  "sl_executeMSize3D rt vm s inst =
     (if length (inst_Operands inst) \<noteq> 2 then s
      else sl_need s (as_address (inst_Operands inst ! 0)) (\<lambda>addr.
        sl_need s (as_register (inst_Operands inst ! 1)) (\<lambda>destReg.
          sl_set_new s destReg (uint64ToBytes (case getAllocation (rt_allocations rt) (vm_memory vm) addr of
            None \<Rightarrow> 0 | Some alloc \<Rightarrow> ucast (alloc_Size alloc))))))"

text \<open>
  The switch over the opcode.  The decoder refuses queries and compactions, and the others change no
  slice.
\<close>

definition sl_dispatch :: "Runtime \<Rightarrow> VM3D \<Rightarrow> Slices \<Rightarrow> Instruction3D \<Rightarrow> Slices" where
  "sl_dispatch rt vm s inst =
     (let opcode = inst_Opcode inst
      in if opcode = OP_MLOAD3D then sl_executeMLoad3D rt vm s inst
         else if opcode = OP_MSTORE3D then sl_executeMStore3D rt vm s inst
         else if opcode = OP_MALLOC3D then sl_executeMAlloc3D rt vm s inst
         else if opcode = OP_MFREE3D then sl_executeMFree3D rt vm s inst
         else if opcode = OP_MCOPY3D then sl_executeMCopy3D rt vm s inst
         else if opcode = OP_ADD3D then sl_executeArith (+) s inst
         else if opcode = OP_SUB3D then sl_executeArith (-) s inst
         else if opcode = OP_MOV3D then sl_executeMov3D s inst
         else if opcode = OP_MSIZE3D then sl_executeMSize3D rt vm s inst
         else s)"

definition sl_executeInstruction :: "Runtime \<Rightarrow> VM3D \<Rightarrow> Slices \<Rightarrow> Instruction3D \<Rightarrow> Slices" where
  "sl_executeInstruction rt vm s inst =
     (case Consume (vm_gasAccount vm) (calculateGasCost inst) of
        Inr (g, None) \<Rightarrow> sl_dispatch rt (vm\<lparr>vm_gasAccount := g\<rparr>) s inst
      | _ \<Rightarrow> s)"

function sl_exec_loop ::
  "(rat \<Rightarrow> u64) \<Rightarrow> (Plane \<Rightarrow> order) \<Rightarrow> (nat \<Rightarrow> Runtime) \<Rightarrow> bytes \<Rightarrow> nat \<Rightarrow> VM3D \<Rightarrow> Slices \<Rightarrow> Slices" where
  "sl_exec_loop float64bits pord env program k vm s =
     (if vm_pc vm < of_nat (length program) \<and> \<not> vm_halted vm \<and> \<not> vm_paused vm then
        (case fetchInstruction (vm_pc vm) program of
           Inr (Inr inst) \<Rightarrow>
             (let s' = sl_executeInstruction (env k) vm s inst
              in case executeInstruction float64bits pord (env k) vm inst of
                  Some (Inr (vm', None)) \<Rightarrow>
                    (let vm1 = after_instruction (env k) vm'
                     in if Remaining (vm_gasAccount vm1) = 0 then s'
                        else if vs_InstructionsExecuted (vm_stats vm1) \<ge> vc_MaxInstructions (vm_config vm1) then s'
                        else sl_exec_loop float64bits pord env program (Suc k)
                               (vm1\<lparr>vm_pc := vm_pc vm1 + ucast (inst_Size inst)\<rparr>) s')
                | _ \<Rightarrow> s')
         | _ \<Rightarrow> s)
      else s)"
  by auto
termination
proof (relation "measure (\<lambda>(_, _, _, program, _, vm, _). unat (of_nat (length program) :: u64) - unat (vm_pc vm))", goal_cases)
  case (2 fb pord env program k vm s b inst s' ra rb vm' e vm1)
  then show ?case using round_advances [of vm program inst fb pord "env k" rb] by auto
qed simp

declare sl_exec_loop.simps [simp del]

definition sl_Execute ::
  "(rat \<Rightarrow> u64) \<Rightarrow> (Plane \<Rightarrow> order) \<Rightarrow> (nat \<Rightarrow> Runtime) \<Rightarrow> VM3D \<Rightarrow> bytes \<Rightarrow> Slices \<Rightarrow> Slices" where
  "sl_Execute float64bits pord env vm program s = sl_exec_loop float64bits pord env program 0
     (vm\<lparr>vm_pc := 0, vm_halted := False, vm_stats := (vm_stats vm)\<lparr>vs_StartTime := rt_now (env 0)\<rparr>\<rparr>) s"

text \<open>
  \<^verbatim>\<open>Store3D\<close> puts the slice of its caller, here the whole buffer \<open>b\<close>, into the cache.  Between calls the client may
  write to its buffer.
\<close>

definition sl_Store3D :: "Slices \<Rightarrow> Address3D \<Rightarrow> nat \<Rightarrow> Slices" where
  "sl_Store3D s addr b = sl_put s addr (b, length (sl_heap s ! b))"

section \<open>Slices and values\<close>

text \<open>The bytes behind the slices are the values that the machine is modelled with.\<close>

definition agree :: "Registers \<Rightarrow> SpatialCache \<Rightarrow> Slices \<Rightarrow> bool" where
  "agree r c s \<longleftrightarrow> regs_inv r \<and> cache_inv c \<and> length (sl_regs s) = 16
     \<and> (\<forall>i < 16. slice_ok (sl_heap s) (sl_regs s ! i) \<and> General r ! i = deref (sl_heap s) (sl_regs s ! i))
     \<and> (\<forall>a sl. sl_cache s a = Some sl \<longrightarrow> slice_ok (sl_heap s) sl)
     \<and> cache_view c = (\<lambda>a. map_option (deref (sl_heap s)) (sl_cache s a))"

lemma agree_get:
  assumes "agree r c s"
  shows "slice_ok (sl_heap s) (sl_get s reg)" "Reg_Get r reg = deref (sl_heap s) (sl_get s reg)"
proof -
  show "slice_ok (sl_heap s) (sl_get s reg)" "Reg_Get r reg = deref (sl_heap s) (sl_get s reg)"
    using assms by (auto simp: agree_def sl_get_def Reg_Get_def R15_bound slice_ok_def deref_def)
qed

lemma agree_uint64: "agree r c s \<Longrightarrow> GetUint64 r reg = sl_uint64 s reg"
  using agree_get(2) [of r c s reg] by (simp add: GetUint64_eq sl_uint64_def Let_def bytesToUint64_def)

lemma agree_set:
  assumes "agree r c s" "slice_ok (sl_heap s) sl"
  shows "agree (Reg_Set r reg (deref (sl_heap s) sl)) c (sl_set s reg sl)"
  using assms by (auto simp: agree_def Reg_Set_def sl_set_def regs_inv_def R15_bound nth_list_update)

lemma agree_put:
  assumes "agree r c s" "slice_ok (sl_heap s) sl"
  shows "agree r (Cache_Put c addr (deref (sl_heap s) sl)) (sl_put s addr sl)"
  using assms Cache_Put_law [of c addr "deref (sl_heap s) sl"] by (auto simp: agree_def sl_put_def)

lemma agree_make:
  assumes "agree r c s" "sl_make s data = (s', sl)"
  shows "agree r c s'" "slice_ok (sl_heap s') sl" "deref (sl_heap s') sl = data"
proof -
  have e: "s' = s\<lparr>sl_heap := sl_heap s @ [data]\<rparr>" "sl = (length (sl_heap s), length data)" using assms(2) by (auto simp: sl_make_def)
  have "map_option (deref (sl_heap s @ [data])) (sl_cache s a) = map_option (deref (sl_heap s)) (sl_cache s a)" for a
    using assms(1) deref_extend [of "sl_heap s"] by (cases "sl_cache s a") (auto simp: agree_def)
  then show "agree r c s'" using assms(1) deref_extend [of "sl_heap s"] by (auto simp: agree_def e)
  show "slice_ok (sl_heap s') sl" "deref (sl_heap s') sl = data" using deref_fresh [of "sl_heap s" data] by (simp_all add: e)
qed

lemma agree_set_new:
  assumes "agree r c s"
  shows "agree (Reg_Set r reg data) c (sl_set_new s reg data)"
proof -
  obtain s' sl where m: "sl_make s data = (s', sl)" by (cases "sl_make s data")
  from agree_set [OF agree_make(1,2) [OF assms m], of reg] show ?thesis
    using agree_make(3) [OF assms m] by (simp add: sl_set_new_def m)
qed

section \<open>Every instruction\<close>

abbreviation agrees :: "VM3D \<Rightarrow> Slices \<Rightarrow> bool" where
  "agrees vm s \<equiv> agree (vm_registers vm) (vm_cache vm) s"

abbreviation kept_by :: "(VM3D \<times> error option) run \<Rightarrow> Slices \<Rightarrow> bool" where
  "kept_by r s \<equiv> run_post r (\<lambda>(vm', _). agrees vm' s)"

lemma agree_cache:
  assumes "agree r c s"
  shows "cache_inv c" "cache_view c a = map_option (deref (sl_heap s)) (sl_cache s a)"
  using assms by (simp_all add: agree_def)

lemma of_nat_le_unat: "(of_nat n :: u32) \<ge> sz \<Longrightarrow> unat sz \<le> n"
  by (simp add: word_le_nat_alt unsigned_of_nat) (meson order_trans take_bit_nat_less_eq_self)

text \<open>A load that has to read memory leaves one new buffer in the cache and in the register.\<close>

lemma load_miss_agrees:
  assumes ac: "agree (vm_registers vm) c s"
  shows "kept_by (case res of
              Inl p \<Rightarrow> Some (Inl p)
            | Inr (mm, Inl e) \<Rightarrow> vm_fail (vm\<lparr>vm_cache := c, vm_memory := mm\<rparr>) (Wrapped ''MLOAD3D failed'' e)
            | Inr (mm, Inr data) \<Rightarrow>
                vm_ok (vm\<lparr>vm_cache := c, vm_cache := Cache_Put c addr data, vm_registers := Reg_Set (vm_registers vm) reg data,
                  vm_memory := MM_UpdateAccess mm addr (rt_now rt)\<rparr>))
      (case res of Inr (_, Inr data) \<Rightarrow> (let (s', sl) = sl_make s data in sl_set (sl_put s' addr sl) reg sl) | _ \<Rightarrow> s)"
proof (cases "\<exists>mm data. res = Inr (mm, Inr data)")
  case True
  then obtain mm data where r: "res = Inr (mm, Inr data)" by blast
  obtain s' sl where m: "sl_make s data = (s', sl)" by (cases "sl_make s data")
  note n = agree_make [OF ac m]
  have "agree (vm_registers vm) (Cache_Put c addr data) (sl_put s' addr sl)"
    using agree_put [OF n(1,2), of addr] n(3) by simp
  from agree_set [OF this, of sl reg] n(2,3) have
    "agree (Reg_Set (vm_registers vm) reg data) (Cache_Put c addr data) (sl_set (sl_put s' addr sl) reg sl)"
    by (simp add: sl_put_def)
  then show ?thesis using r m by (simp add: run_simps)
qed (use ac in \<open>auto simp: run_simps split: sum.split\<close>)

lemma mload_agrees:
  assumes a: "agrees vm s"
  shows "kept_by (mload rt vm addr sz reg) (sl_mload rt vm s addr sz reg)"
proof -
  obtain c hit where g: "Cache_Get (vm_cache vm) addr = (c, hit)" by (cases "Cache_Get (vm_cache vm) addr")
  have h: "hit = map_option (deref (sl_heap s)) (sl_cache s addr)" and ac: "agree (vm_registers vm) c s"
    using Cache_Get_law [OF agree_cache(1) [OF a], of addr] agree_cache(2) [OF a, of addr] g a by (simp_all add: agree_def)
  note miss = load_miss_agrees [OF ac]
  show ?thesis
  proof (cases "sl_cache s addr")
    case None
    then show ?thesis using miss h unfolding mload_def sl_mload_def g Let_def by simp
  next
    case (Some sl)
    obtain b n where sl: "sl = (b, n)" by (cases sl)
    have ok: "slice_ok (sl_heap s) (b, n)" using a Some sl by (simp add: agree_def)
    have d: "hit = Some (deref (sl_heap s) (b, n))" "length (deref (sl_heap s) (b, n)) = n" using h Some sl deref_length [OF ok] by simp_all
    show ?thesis
    proof (cases "(of_nat n :: u32) \<ge> sz")
      case True
      note p = deref_prefix [OF ok of_nat_le_unat [OF True]]
      from agree_set [OF ac, of "(b, unat sz)" reg] p show ?thesis
        using True Some sl d by (simp add: mload_def sl_mload_def g run_simps)
    next
      case False
      then show ?thesis using miss Some sl d unfolding mload_def sl_mload_def g Let_def by simp
    qed
  qed
qed

lemma mstore_agrees:
  assumes a: "agrees vm s"
  shows "kept_by (mstore rt vm addr reg sz) (sl_mstore rt vm s addr reg sz)"
proof -
  obtain b n where sl: "sl_get s reg = (b, n)" by (cases "sl_get s reg")
  note g = agree_get [OF a, of reg, unfolded sl]
  show ?thesis
  proof (cases "of_nat n < sz")
    case True
    then show ?thesis using a g deref_length [OF g(1)] by (simp add: mstore_def sl_mstore_def sl run_simps)
  next
    case False
    then have p: "slice_ok (sl_heap s) (b, unat sz)" "deref (sl_heap s) (b, unat sz) = take (unat sz) (Reg_Get (vm_registers vm) reg)"
      using deref_prefix [OF g(1) of_nat_le_unat [of sz n]] g(2) by auto
    note agree_put [OF a p(1), of addr]
    then show ?thesis
      using False a g deref_length [OF g(1)] p(2)
      by (auto simp: mstore_def sl_mstore_def sl run_simps Let_def split: sum.split option.split)
  qed
qed

lemma malloc_agrees:
  assumes a: "agrees vm s"
  shows "kept_by (malloc3d rt vm sz t flags) (sl_malloc rt vm s sz t flags)"
  using a agree_set_new [OF a, of R0]
  by (auto simp: malloc3d_def sl_malloc_def run_simps run_bind_def SetAddress_def Let_def split: option.split sum.split)

lemma mfree_agrees:
  assumes a: "agrees vm s"
  shows "kept_by (mfree rt vm addr) (sl_mfree rt vm s addr)"
proof -
  have "agree (vm_registers vm) (Cache_Invalidate (vm_cache vm) addr) (s\<lparr>sl_cache := (sl_cache s)(addr := None)\<rparr>)"
    using a Cache_Invalidate_law [OF agree_cache(1) [OF a], of addr] by (auto simp: agree_def)
  then show ?thesis
    using a by (auto simp: mfree_def sl_mfree_def run_simps Let_def split: option.split prod.split)
qed

lemma mcopy_agrees:
  assumes a: "agrees vm s"
  shows "kept_by (mcopy rt vm src dst sz) (sl_mcopy rt vm s src dst sz)"
proof -
  have put: "agree (vm_registers vm) (Cache_Put (Cache_Put (vm_cache vm) src data) dst data) (sl_put (sl_put s' src sl) dst sl)"
    if "sl_make s data = (s', sl)" for data s' sl
  proof -
    note n = agree_make [OF a that]
    have "agree (vm_registers vm) (Cache_Put (vm_cache vm) src data) (sl_put s' src sl)"
      using agree_put [OF n(1,2), of src] n(3) by simp
    from agree_put [OF this, of sl dst] n(2,3) show ?thesis by (simp add: sl_put_def)
  qed
  show ?thesis
    using a put by (auto simp: mcopy_def sl_mcopy_def run_simps Let_def split: sum.split option.split prod.split)
qed

lemma dispatch_agrees:
  assumes a: "agrees vm s"
  shows "kept_by (dispatch fb pord rt vm (denote i)) (sl_dispatch rt vm s (denote i))"
proof -
  note handlers = mload_agrees [OF a] mstore_agrees [OF a] malloc_agrees [OF a] mfree_agrees [OF a] mcopy_agrees [OF a]
  have mov: "agree (Reg_Set (vm_registers vm) d (Reg_Get (vm_registers vm) r)) (vm_cache vm) (sl_set s d (sl_get s r))" for d r
    using agree_set [OF a agree_get(1) [OF a], of d r] agree_get(2) [OF a, of r] by simp
  show ?thesis
    using a handlers mov agree_set_new [OF a] agree_uint64 [OF a]
    by (cases i)
      (simp_all add: dispatch_def sl_dispatch_def sl_need_def instruction_def operand_def opcode_defs as_address_def as_uint32_def
        as_register_def as_regionType_def as_flags_def executeMLoad3D_def executeMStore3D_def executeMAlloc3D_def executeMFree3D_def
        executeMCopy3D_def executeMSize3D_def executeMov3D_def executeAdd3D_def executeSub3D_def executeNOP_def
        executeHalt3D_def sl_executeMLoad3D_def sl_executeMStore3D_def sl_executeMAlloc3D_def sl_executeMFree3D_def
        sl_executeMCopy3D_def sl_executeMSize3D_def sl_executeMov3D_def sl_executeArith_def SetUint64_eq vm_need_def run_simps
        split: option.split)
qed

lemma executeInstruction_agrees:
  assumes "agrees vm s" "fetchInstruction pc program = Inr (Inr inst)"
  shows "kept_by (executeInstruction fb pord rt vm inst) (sl_executeInstruction rt vm s inst)"
proof -
  obtain data where "DecodeInstruction data = Inr inst"
    using assms(2) by (auto simp: fetchInstruction_def Let_def split: if_splits sum.splits)
  then obtain i where i: "inst = denote i" by (rule decoded_is_denoted)
  have "agrees (vm\<lparr>vm_gasAccount := g\<rparr>) s" for g using assms(1) by simp
  from dispatch_agrees [OF this, of fb pord rt _ i] show ?thesis
    using assms(1) by (auto simp: executeInstruction_def sl_executeInstruction_def i run_bind_def run_simps simp del: denote.simps
        split: sum.split option.split)
qed

lemma exec_loop_agrees:
  assumes "agrees vm s"
  shows "kept_by (exec_loop fb pord env program k vm) (sl_exec_loop fb pord env program k vm s)"
  using assms
proof (induction fb pord env program k vm s rule: sl_exec_loop.induct)
  case (1 fb pord env program k vm s)
  show ?case
  proof (cases "vm_pc vm < of_nat (length program) \<and> \<not> vm_halted vm \<and> \<not> vm_paused vm")
    case False
    then show ?thesis
      using 1(2) by (subst exec_loop.simps, subst sl_exec_loop.simps) (auto simp: run_post_def vm_ok_def)
  next
    case run: True
    show ?thesis
    proof (cases "\<exists>inst. fetchInstruction (vm_pc vm) program = Inr (Inr inst)")
      case False
      then show ?thesis
        using run 1(2) by (subst exec_loop.simps, subst sl_exec_loop.simps) (auto simp: run_simps split: sum.split)
    next
      case True
      then obtain inst where f: "fetchInstruction (vm_pc vm) program = Inr (Inr inst)" by blast
      let ?s = "sl_executeInstruction (env k) vm s inst"
      have e: "kept_by (executeInstruction fb pord (env k) vm inst) ?s" by (rule executeInstruction_agrees [OF 1(2) f])
      show ?thesis
      proof (cases "\<exists>r. executeInstruction fb pord (env k) vm inst = Some (Inr r)")
        case False
        then show ?thesis
          using run f by (subst exec_loop.simps) (auto simp: run_bind_def run_post_def split: option.split sum.split)
      next
        case True
        then obtain vm' err where x: "executeInstruction fb pord (env k) vm inst = Some (Inr (vm', err))" by auto
        let ?vm1 = "after_instruction (env k) vm'"
        have a: "agrees vm' ?s" "agrees ?vm1 ?s" using e x by (simp_all add: run_post_def after_instruction_def)
        have rest: "kept_by (exec_loop fb pord env program (Suc k) (?vm1\<lparr>vm_pc := vm_pc ?vm1 + ucast (inst_Size inst)\<rparr>))
            (sl_exec_loop fb pord env program (Suc k) (?vm1\<lparr>vm_pc := vm_pc ?vm1 + ucast (inst_Size inst)\<rparr>) ?s)"
          if "err = None" "Remaining (vm_gasAccount ?vm1) \<noteq> 0" "\<not> vs_InstructionsExecuted (vm_stats ?vm1) \<ge> vc_MaxInstructions (vm_config ?vm1)"
          using 1(1) [OF run f refl refl x refl _ that(1) refl that(2,3)] a(2) by simp
        show ?thesis
          using run f x a(2) rest by (subst exec_loop.simps, subst sl_exec_loop.simps) (auto simp: run_simps Let_def split: option.split)
      qed
    qed
  qed
qed

text \<open>Buffers are only added.\<close>

definition grows :: "Slices \<Rightarrow> Slices \<Rightarrow> bool" where
  "grows s s' \<longleftrightarrow> (\<exists>h. sl_heap s' = sl_heap s @ h)"

lemma grows_refl [simp]: "grows s s"
  by (simp add: grows_def)

lemma grows_trans: "grows s s' \<Longrightarrow> grows s' s'' \<Longrightarrow> grows s s''"
  by (auto simp: grows_def)

lemma grows_basic [simp]:
  "grows s (sl_set s reg sl)" "grows s (sl_put s addr sl)" "grows s (sl_set_new s reg data)"
  "grows s (sl_set (sl_put (s\<lparr>sl_heap := sl_heap s @ [data]\<rparr>) addr sl) reg sl)"
  "grows s (sl_put (sl_put (s\<lparr>sl_heap := sl_heap s @ [data]\<rparr>) addr sl) addr' sl)" "grows s (s\<lparr>sl_cache := c\<rparr>)"
  by (simp_all add: grows_def sl_set_def sl_put_def sl_set_new_def sl_make_def)

lemma grows_if: "grows s a \<Longrightarrow> grows s b \<Longrightarrow> grows s (if c then a else b)"
  by simp

lemma grows_need: "(\<And>x. grows s (k x)) \<Longrightarrow> grows s (sl_need s v k)"
  by (simp add: sl_need_def split: option.split)

lemma dispatch_grows: "grows s (sl_dispatch rt vm s inst)"
proof -
  have "grows s (sl_mload rt vm s addr sz reg)" "grows s (sl_mstore rt vm s addr reg sz)" "grows s (sl_malloc rt vm s sz t flags)"
    "grows s (sl_mfree rt vm s addr)" "grows s (sl_mcopy rt vm s addr addr' sz)" for addr addr' sz reg t flags
    by (auto simp: sl_mload_def sl_mstore_def sl_malloc_def sl_mfree_def sl_mcopy_def sl_make_def Let_def
        split: option.split sum.split prod.split)
  then show ?thesis
    unfolding sl_dispatch_def Let_def sl_executeMLoad3D_def sl_executeMStore3D_def sl_executeMAlloc3D_def
      sl_executeMFree3D_def sl_executeMCopy3D_def sl_executeMSize3D_def sl_executeMov3D_def sl_executeArith_def
    by (intro grows_if grows_need grows_refl grows_basic)
qed

lemma executeInstruction_grows: "grows s (sl_executeInstruction rt vm s inst)"
  by (simp add: sl_executeInstruction_def dispatch_grows split: sum.split option.split)

lemma exec_loop_grows: "grows s (sl_exec_loop fb pord env program k vm s)"
proof (induction fb pord env program k vm s rule: sl_exec_loop.induct)
  case (1 fb pord env program k vm s)
  show ?case
  proof (cases "(vm_pc vm < of_nat (length program) \<and> \<not> vm_halted vm \<and> \<not> vm_paused vm) \<and>
      (\<exists>inst. fetchInstruction (vm_pc vm) program = Inr (Inr inst))")
    case False
    then have "sl_exec_loop fb pord env program k vm s = s" by (subst sl_exec_loop.simps) (auto split: sum.split)
    then show ?thesis by simp
  next
    case True
    then obtain inst where f: "fetchInstruction (vm_pc vm) program = Inr (Inr inst)" by blast
    let ?s = "sl_executeInstruction (env k) vm s inst"
    show ?thesis
    proof (cases "sl_exec_loop fb pord env program k vm s = ?s")
      case False
      then obtain vm' where x: "executeInstruction fb pord (env k) vm inst = Some (Inr (vm', None))"
        and c: "Remaining (vm_gasAccount (after_instruction (env k) vm')) \<noteq> 0"
          "\<not> vs_InstructionsExecuted (vm_stats (after_instruction (env k) vm')) \<ge> vc_MaxInstructions (vm_config (after_instruction (env k) vm'))"
        using True f by (subst (asm) sl_exec_loop.simps) (auto simp: Let_def split: option.splits sum.splits if_splits)
      from 1 [OF _ f refl refl x refl refl refl refl c] True have
        "grows ?s (sl_exec_loop fb pord env program k vm s)"
        by (subst sl_exec_loop.simps) (simp add: f x c Let_def)
      then show ?thesis by (rule grows_trans [OF executeInstruction_grows])
    qed (simp add: executeInstruction_grows)
  qed
qed

section \<open>Properties\<close>

text \<open>
  C14. Sharing is invisible to programs.  If registers and cache hold slices into buffers and the bytes
  behind them are the values of the machine, then after the execution of any program they still are: the
  machine that shares buffers and the machine that copies values have the same registers and the same
  cache.  Moreover no buffer that existed before has changed: programs never write through a slice.
\<close>

theorem sharing_invisible:
  assumes "agree (vm_registers vm) (vm_cache vm) s" "Execute fb pord env vm program = Some (Inr (vm', e))"
  shows "(let s' = sl_Execute fb pord env vm program s in
    agree (vm_registers vm') (vm_cache vm') s'
    \<and> (\<forall>reg. Reg_Get (vm_registers vm') reg = deref (sl_heap s') (sl_get s' reg))
    \<and> (\<forall>a. cache_view (vm_cache vm') a = map_option (deref (sl_heap s')) (sl_cache s' a))
    \<and> (\<forall>b < length (sl_heap s). sl_heap s' ! b = sl_heap s ! b))"
proof -
  let ?s = "sl_Execute fb pord env vm program s"
  have a: "agrees vm' ?s"
    using exec_loop_agrees [of "vm\<lparr>vm_pc := 0, vm_halted := False, vm_stats := (vm_stats vm)\<lparr>vs_StartTime := rt_now (env 0)\<rparr>\<rparr>" s fb pord env program 0]
      assms by (simp add: Execute_def sl_Execute_def run_post_def)
  have "grows s ?s" unfolding sl_Execute_def by (rule exec_loop_grows)
  then have "\<forall>b < length (sl_heap s). sl_heap ?s ! b = sl_heap s ! b" by (auto simp: grows_def nth_append)
  then show ?thesis using a agree_get(2) [OF a] agree_cache(2) [OF a] unfolding Let_def by blast
qed

lemma new_agrees: "agree NewRegisters NewSpatialCache NewSlices"
  using NewSpatialCache_inv
  by (auto simp: agree_def NewSlices_def NewRegisters_def regs_inv_def slice_ok_def deref_def fun_eq_iff)

theorem sharing_invisible_witness:
  "\<exists>vm' e s'. Execute demo_bits demo_order (\<lambda>i. demo_rt) demo_vm (concat (map assemble [Alloc 8 4 0 0, Mov 1 0, Halt])) = Some (Inr (vm', e))
     \<and> agree (vm_registers vm') (vm_cache vm') s' \<and> (\<forall>reg. Reg_Get (vm_registers vm') reg = deref (sl_heap s') (sl_get s' reg))"
proof -
  let ?p = "concat (map assemble [Alloc 8 4 0 0, Mov 1 0, Halt])"
  have s: "sweep ?p 0 = map denote [Alloc 8 4 0 0, Mov 1 0, Halt]"
    using sweep_assembled_from [of "[]" "[Alloc 8 4 0 0, Mov 1 0, Halt]"] by simp
  have ok: "\<forall>i \<in> set (sweep ?p 0). allowed 65535 i"
    unfolding s by (simp add: allowed_def instruction_def opcode_defs operand_def as_uint32_def)
  have inv: "vm_inv 10000 65535 (length (sweep ?p 0) + 7) demo_vm" unfolding s by (rule demo_vm_inv) simp
  have "\<not> vm_paused demo_vm" "length ?p < 2 ^ 64" by (simp_all add: demo_vm_def NewVM3D_def)
  from Execute_returns [OF inv this, of "\<lambda>i. demo_rt" demo_bits demo_order] ok demo_rt_ok obtain vm' e where
    x: "Execute demo_bits demo_order (\<lambda>i. demo_rt) demo_vm ?p = Some (Inr (vm', e))"
    by (auto simp: returns_def)
  have "agree (vm_registers demo_vm) (vm_cache demo_vm) NewSlices" by (simp add: demo_vm_def NewVM3D_def new_agrees)
  from sharing_invisible [OF this x] x show ?thesis unfolding Let_def by blast
qed

text \<open>
  C25. A client that reuses its buffer corrupts the cache.  After a store of a buffer to a live block, which
  writes the bytes into memory, the client writes other bytes of the same length into its buffer.  A load of
  the client still returns the stored bytes, but a load instruction delivers the new contents of the buffer,
  which were never stored.
\<close>

theorem client_buffer_shared:
  assumes "vm_inv limit ps k vm" "rt_ok rt" "vm_view vm addr = Some v" "length data \<le> length v"
    and "15 * length data \<le> gas_left (vm_gasAccount vm)"
    and "b < length (sl_heap s)" "sl_heap s ! b = data" "length data' = length data" "reg \<le> R15" "length (sl_regs s) = 16"
  shows "\<exists>vm1 vm2. VM_Store3D rt vm addr data = Some (Inr (vm1, None))
    \<and> VM_Load3D rt vm1 addr (of_nat (length data)) = Inr (vm2, Inr data)
    \<and> (let s' = sl_mload rt vm1 (client_writes (sl_Store3D s addr b) b data') addr (of_nat (length data)) reg
       in deref (sl_heap s') (sl_get s' reg) = data')"
proof -
  obtain vm1 where s: "VM_Store3D rt vm addr data = Some (Inr (vm1, None))" "vm_inv limit ps k vm1"
    "vm_view vm1 addr = Some (data @ drop (length data) v)" using VM_Store3D_tracked [OF assms(1-5)] by auto
  have "mem_inv (vm_allocator vm) (vm_memory vm)" using assms(1) by (simp add: vm_inv_def machine_inv_def)
  then have "length data < 2 ^ 32" using view_length [OF _ assms(3)] assms(4) by simp
  then have n: "unat (of_nat (length data) :: u32) = length data" by (simp add: unsigned_of_nat take_bit_nat_eq_self)
  obtain vm2 where l: "VM_Load3D rt vm1 addr (of_nat (length data)) = Inr (vm2, Inr data)"
    using VM_Load3D_outcome [OF s(2) assms(2), of addr "of_nat (length data)"] s(3) n by auto
  let ?s2 = "client_writes (sl_Store3D s addr b) b data'"
  have "sl_mload rt vm1 ?s2 addr (of_nat (length data)) reg = sl_set ?s2 reg (b, length data)"
    by (simp add: sl_mload_def client_writes_def sl_Store3D_def sl_put_def assms(7) n)
  then show ?thesis
    using s(1) l assms(6-10)
    by (simp add: Let_def sl_set_def sl_get_def deref_def client_writes_def sl_Store3D_def sl_put_def R15_bound)
qed

theorem client_buffer_shared_witness:
  "\<exists>vm vm1 vm2 addr. VM_Store3D demo_rt vm addr [1, 2, 3] = Some (Inr (vm1, None))
     \<and> VM_Load3D demo_rt vm1 addr 3 = Inr (vm2, Inr [1, 2, 3])
     \<and> (let s' = sl_mload demo_rt vm1 (client_writes (sl_Store3D (NewSlices\<lparr>sl_heap := [[1, 2, 3]]\<rparr>) addr 0) 0 [4, 5, 6]) addr 3 2
        in deref (sl_heap s') (sl_get s' 2) = [4, 5, 6])"
proof -
  obtain vm addr v where d: "vm_inv 10000 100 0 vm" "vm_view vm addr = Some v" "length v = 8" by (rule demo_block)
  let ?vm = "vm\<lparr>vm_gasAccount := NewAccountant 10000\<rparr>" and ?s = "NewSlices\<lparr>sl_heap := [[1, 2, 3]]\<rparr>"
  have "vm_inv 10000 100 0 ?vm" using d(1) NewAccountant_inv [of 10000] by (simp add: vm_inv_def)
  moreover have "vm_view ?vm addr = Some v" "length [1, 2, 3 :: u8] \<le> length v" using d(2,3) by simp_all
  moreover have "15 * length [1, 2, 3 :: u8] \<le> gas_left (vm_gasAccount ?vm)" by (simp add: NewAccountant_left)
  moreover have "0 < length (sl_heap ?s)" "sl_heap ?s ! 0 = [1, 2, 3]" "length (sl_regs ?s) = 16" "(2 :: Register) \<le> R15"
    by (simp_all add: NewSlices_def R15_def)
  ultimately show ?thesis
    using client_buffer_shared [of 10000 100 0 ?vm demo_rt addr v "[1, 2, 3]" 0 ?s "[4, 5, 6]" 2] demo_rt_ok by auto
qed

end
