(* ===== verification/Spec2Isabelle.thy ===== *)
theory Spec2Isabelle
  imports AddressText Sessions PlaneOverrun PoolShutdown YPromotion VMLocks Handles Slices
begin

text \<open>
  A verification development for \<^verbatim>\<open>memory3d\<close>, a virtual machine in Go whose memory has three
  coordinates: a region X, a plane Y of the region and an offset Z in the plane.

  \<^bold>\<open>The program.\<close>  A plane is an array of at most 65535 bytes with a bitmap of its used bytes and a
  map of the blocks that start in it (\<^verbatim>\<open>internal/types/bitmap.go\<close>, \<^verbatim>\<open>plane.go\<close>, \<^verbatim>\<open>allocation.go\<close>).  A
  region is a list of planes with permissions and byte counters (\<^verbatim>\<open>region.go\<close>, \<^verbatim>\<open>permissions.go\<close>).  The
  allocator (\<^verbatim>\<open>internal/allocator/allocator.go\<close>) serves a request from an existing plane, by a promotion
  that spreads it over several planes, or from a new region, and takes blocks back;
  \<^verbatim>\<open>ypromotion.go\<close> is a second search for promotions that nothing calls.  The memory manager
  (\<^verbatim>\<open>internal/vm/memory_manager.go\<close>) tracks the live blocks and reads and writes their bytes.  The machine
  (\<^verbatim>\<open>vm.go\<close>, \<^verbatim>\<open>executor.go\<close>) fetches and decodes instructions (\<^verbatim>\<open>instructions.go\<close>, \<^verbatim>\<open>opcodes.go\<close>), pays
  for each from a gas account (\<^verbatim>\<open>gas.go\<close>), and executes it on sixteen registers (\<^verbatim>\<open>registers.go\<close>), the
  memory, a cache of loaded bytes (\<^verbatim>\<open>spatial.go\<close>) and a Merkle tree of stored bytes
  (\<^verbatim>\<open>internal/merkle/tree.go\<close>).  The command (\<^verbatim>\<open>cmd/vm3d/main.go\<close>) runs one scenario.

  \<^bold>\<open>The theories\<close>, each with its definitions in the order of the code, their laws, and the properties
  at the end:

  \<^item> \<open>Prelude3D\<close>: machine integers, panics, maps as association lists, byte order, generic lemmas.
  \<^item> \<open>Address\<close>, \<open>AddressText\<close>: \<^verbatim>\<open>address.go\<close> and \<^verbatim>\<open>constants.go\<close>.  The codec and the textual form are inverse to
    parsing, addresses are linearly ordered, distances are a metric.  The errors of the whole
    program are one datatype here.
  \<^item> \<open>Bitmap\<close>, \<open>BitmapSearch\<close>: the bitmap refines a set of positions (locale and interpretation); the
    word-wise search is equivalent to the first fit, with the exact limits of its 16-bit arithmetic.
  \<^item> \<open>Allocation\<close>, \<open>Plane\<close>, \<open>Region\<close>: the records, with the invariants \<open>plane_inv\<close> (recorded blocks are
    disjoint and marked used), \<open>plane_exact\<close> (nothing else is), \<open>region_inv\<close> (the counters are the sums
    over the planes), and that every operation keeps them.
  \<^item> \<open>Allocator\<close>: the whole of \<^verbatim>\<open>allocator.go\<close>.  \<open>PlaneCells\<close>: the planes of one region, from the first fit in
    a plane to the fragments of a promotion.  \<open>AllocatorSafety\<close>: the invariant \<open>al_inv\<close> and the cells that
    an allocation owns, through every path.  \<open>CellHeap\<close>: the contract of an allocator as a locale, with
    the consequences for its clients.  \<open>AllocatorHeap\<close>: the allocator satisfies it.
    \<open>AllocatorEdges\<close>: concurrent entry points, shutdown, errors and boundary cases.  \<open>Workers\<close>: the pool of
    workers, its queue and any number of callers as a step relation, with its linearizability and
    the proof that every call returns.  \<open>PoolShutdown\<close>: the same with a shutdown at any moment.
  \<^item> \<open>YPromotion\<close>: \<^verbatim>\<open>ypromotion.go\<close>; soundness of its plans and what its probes leave behind.
  \<^item> \<open>Gas\<close>, \<open>Registers\<close>, \<open>Instructions\<close>, \<open>Spatial\<close>: the parts of the machine on their own.  \<^verbatim>\<open>Consume\<close> is also an
    inductive step relation, one step per atomic operation, for any number of callers.
  \<^item> \<open>SHA256\<close>, \<open>Merkle\<close>: the hash function of the standard library, executable and checked on a test
    vector, and the tree over it or over any hasher; what a root binds, up to a collision among the
    combinations that were made for it.
  \<^item> \<open>MemoryManager\<close>, \<open>BlockMemory\<close>: loads, stores and tracking; with the allocator they are a map from
    addresses to blocks of bytes under any sequence of allocations, frees, loads and stores (locale
    \<open>block_memory\<close>, whose operations may panic: that they do not is part of its law).
  \<^item> \<open>VM\<close>, \<open>VMSafety\<close>, \<open>VMCorrect\<close>: every handler, the execution loop and the methods of clients; the
    invariant \<open>vm_inv\<close> (live blocks, coherent cache, balanced gas) through every instruction; and the
    properties of whole programs.
  \<^item> \<open>MainProgram\<close>: programs over the registers against an abstract semantics, the methods of clients,
    and the command with its deferred shutdown.
  \<^item> \<open>AbstractMachine\<close>: what the machine promises to a programmer, as inductive relations over blocks,
    registers, gas, a counter and digests.  The function \<open>abs_vm\<close> forgets regions, planes, caches and
    buckets; every handler, the loop and \<^verbatim>\<open>Execute\<close> simulate the relations.
  \<^item> \<open>Sessions\<close>: any sequence of client calls, simulated call by call.
  \<^item> \<open>Handles\<close>: stores through the handle of \<^verbatim>\<open>GetMemoryManager\<close>, which the cache does not see.
  \<^item> \<open>Slices\<close>: registers and cache entries as references into an explicit store of buffers; programs cannot tell
    them from values, a client that reuses a buffer can.
  \<^item> \<open>Locks\<close>: the read-write mutexes of Go and any number of threads over them, as a step relation; the
    locale \<open>gate\<close> for a component whose methods take one mutex first, with freedom from deadlock, mutual
    exclusion and bounded runs.  \<open>AllocatorLocks\<close>, \<open>VMLocks\<close>: the lock operations of every method of planes,
    regions, allocator, memory manager, cache, tree and machine as functions of the state, beside the
    operations themselves; the locale is interpreted on the allocator and on the machine.  Two deadlocks
    of methods that stand outside the gates.
  \<^item> \<open>PlaneOverrun\<close>: a run of the allocator on the planes of the machine that ends with two live blocks
    at one address.

  \<^bold>\<open>Correspondence.\<close>  A struct is a record, a pointer to a shared object is a position or a key, a slice of
  bytes is a list (justified by \<open>sharing_invisible\<close>), a mutex-protected method is one step (justified by
  \<open>vm_calls_safe\<close>).  Machine integers have their width.  A function that may panic
  returns a sum with the panic on the left; one that returns an error returns it as a value; one that
  may wait for ever is an option.  Go leaves the order of map iteration open: it is an argument, an
  arbitrary permutation, and the theorems hold for every one.  The clock, the latencies, and whether
  a worker queue takes a request where a single call is considered (\<open>allocateConcurrent\<close>; the queue, the
  workers and the result channels of concurrent calls are the steps of \<open>Workers\<close>), are arguments too.  A float64 is a rational number; the conversion
  of one to bits is an argument.

  \<^bold>\<open>What is shown.\<close>  Under the conditions below, execution of a program terminates without a panic,
  keeps the machine consistent and is a run of the abstract machine: the same blocks, registers, gas
  and digests, and the same kind of fault at the same instruction.  The same holds for sequences of
  client calls.  From this come the properties of programs: a program leaves alone the blocks that it
  does not name, loads see the memory whatever the cache holds, stores are read back, freed blocks
  are refused, and proofs attest the live bytes as long as no copy or free happens.  Gas is
  accounted for exactly whenever an execution returns, for every program and without the conditions.
  Blocks that are allocated and not freed never overlap, also with concurrent callers.  Concurrent clients of a machine or of an
  allocator never deadlock and writing calls exclude all others, which is why the sequential model may
  take a method for one step.  A shutdown lets the calls in flight finish.

  These hold under two conditions that the statements spell out (\<open>allowed\<close>, \<open>call_ok\<close>): requests are for at
  least one byte, and a program that frees memory runs on planes of at most 32768 bytes.  Neither
  can be dropped: the search for free bytes wraps on larger planes, where two live blocks can get
  the same address (\<open>live_blocks_overlap\<close>), and a request for no bytes corrupts the counters
  (\<open>zero_size_request\<close>).  The machine itself uses planes of 65535 bytes, so for it the second condition
  excludes programs with a free.  A compaction may refund more gas than was used, so the limit that
  a session ends with is not the one it started with.

  \<^bold>\<open>Where the code and its documents differ\<close>, the definitions follow the code.  Prices: a client's store
  costs 15 units per byte and its loads, allocations and compactions nothing, an allocation by an
  instruction costs 20 and 2 per byte; \<^verbatim>\<open>API.md\<close>, \<^verbatim>\<open>ARCHITECTURE.md\<close> and \<^verbatim>\<open>FAQ.md\<close> give other formulas.  Formats: the
  comment on the copy instruction has a padding byte more than the decoder accepts.

  \<^bold>\<open>Bounds.\<close>  The execution loop, the sweep over a program and the formatter are total functions with a
  termination proof; the prefetch loops are partial functions, and where they diverge this is a
  theorem.  The number \<open>k\<close> in the invariants bounds the regions that can still be created before the
  64-bit identifiers wrap.

  \<^bold>\<open>Not modelled.\<close>  The profiler, the HTTP listener, the log and the final sleep of the command; the handle
  of \<^verbatim>\<open>GetMemoryManager\<close> and clients that write to buffers they have passed on, as parts of a session (there
  are theorems on what each does); the mutex of the gas account, which is only ever taken for reading; data races of methods that
  read without a mutex or write under a read lock (they are listed as findings); the types \<^verbatim>\<open>Frame\<close>, \<^verbatim>\<open>FreeRequest\<close> and \<^verbatim>\<open>YPromotionStrategy\<close>, the stacks and the metrics
  that no code uses; JSON tags; the empty files of \<^verbatim>\<open>cmd/vm3d/cli\<close>; tests and benchmarks.
\<close>

end
